(* ===== verification/Prelude.thy ===== *)
theory Prelude
  imports Complex_Main "HOL-Library.Multiset" "HOL-Library.Sublist"
begin

text \<open>
  Shared vocabulary of the development: the JavaScript values and library calls
  that the web client uses, as executable HOL functions, with the lemmas that the
  component theories rest on.

  Numbers. A JavaScript number is an IEEE double. The model uses its mathematical
  value, a \<^typ>\<open>real\<close>; arithmetic is exact (no rounding, no overflow to infinity).
  \<open>NaN\<close> and the infinities are not values of the model; the places where the code can
  produce one are written out where they occur.

  Strings. A string is a list of characters, one per UTF-16 code unit; the few
  code units above Latin-1 that the client prints are represented by a C1 control
  character each (\<open>ellipsis\<close>, \<open>arrow_up\<close>, \<open>en_dash\<close> and the others of that section), so that
  lengths agree with the code.
\<close>

named_theorems uniq_simps "keep-first deduplication"
named_theorems sort_simps "the stable sort"
named_theorems fmt_simps "number formatting"

type_synonym num = real

section \<open>Definitions\<close>

subsection \<open>Deduplication by key\<close>

text \<open>
  The loop \<open>for (const x of xs) { if (seen.has(k(x))) continue; out.push(x); seen.add(k(x)) }\<close>,
  and with the identity as key the expression \<open>[...new Set(xs)]\<close>.
\<close>

fun uniq_by :: "('a \<Rightarrow> 'k) \<Rightarrow> 'k set \<Rightarrow> 'a list \<Rightarrow> 'a list" where
  "uniq_by k seen [] = []"
| "uniq_by k seen (x # xs) =
     (if k x \<in> seen then uniq_by k seen xs
      else x # uniq_by k (insert (k x) seen) xs)"

definition uniq :: "'a list \<Rightarrow> 'a list" where
  "uniq xs = uniq_by (\<lambda>x. x) {} xs"

subsection \<open>Array.prototype.sort\<close>

text \<open>
  \<open>sort\<close> with a comparison function is stable. For a comparison that is a total
  preorder its result is determined by that, so insertion sort computes it.
\<close>

fun js_insert :: "('a \<Rightarrow> 'a \<Rightarrow> num) \<Rightarrow> 'a \<Rightarrow> 'a list \<Rightarrow> 'a list" where
  "js_insert cmp x [] = [x]"
| "js_insert cmp x (y # ys) =
     (if cmp x y \<le> 0 then x # y # ys else y # js_insert cmp x ys)"

definition js_sort :: "('a \<Rightarrow> 'a \<Rightarrow> num) \<Rightarrow> 'a list \<Rightarrow> 'a list" where
  "js_sort cmp xs = foldr (js_insert cmp) xs []"

definition consistent_cmp :: "('a \<Rightarrow> 'a \<Rightarrow> num) \<Rightarrow> bool" where
  "consistent_cmp cmp \<longleftrightarrow>
     (\<forall>a b. cmp a b \<le> 0 \<or> cmp b a \<le> 0) \<and>
     (\<forall>a b c. cmp a b \<le> 0 \<longrightarrow> cmp b c \<le> 0 \<longrightarrow> cmp a c \<le> 0)"

subsection \<open>Indexing and slices\<close>

text \<open>\<open>xs[i]\<close> is \<open>undefined\<close> out of range.\<close>

definition js_at :: "'a list \<Rightarrow> int \<Rightarrow> 'a option" where
  "js_at xs i = (if 0 \<le> i \<and> i < int (length xs) then Some (xs ! nat i) else None)"

text \<open>\<open>xs.slice(-n)\<close>: the last \<open>n\<close> elements.\<close>

definition slice_last :: "nat \<Rightarrow> 'a list \<Rightarrow> 'a list" where
  "slice_last n xs = drop (length xs - n) xs"

text \<open>\<open>prev.map((entry, index) => index === i ? f(entry) : entry)\<close>\<close>

definition map_at :: "nat \<Rightarrow> ('a \<Rightarrow> 'a) \<Rightarrow> 'a list \<Rightarrow> 'a list" where
  "map_at i f xs = map (\<lambda>(j, x). if j = i then f x else x) (enumerate 0 xs)"

text \<open>\<open>prev.filter((_, index) => index !== i)\<close>\<close>

definition remove_at :: "nat \<Rightarrow> 'a list \<Rightarrow> 'a list" where
  "remove_at i xs = map snd (filter (\<lambda>(j, x). j \<noteq> i) (enumerate 0 xs))"

text \<open>\<open>Math.max(...xs, z)\<close>\<close>

definition js_max :: "num list \<Rightarrow> num \<Rightarrow> num" where
  "js_max xs z = foldr max xs z"

subsection \<open>Strings\<close>

definition ellipsis :: string where "ellipsis = [CHR 0x85]"
definition arrow_up :: string where "arrow_up = [CHR 0x91]"
definition arrow_down :: string where "arrow_down = [CHR 0x92]"
definition bullet :: string where "bullet = [CHR 0x95]"
definition arrow_right :: string where "arrow_right = [CHR 0x93]"
definition em_dash :: string where "em_dash = [CHR 0x94]"
definition en_dash :: string where "en_dash = [CHR 0x96]"
definition le_sign :: string where "le_sign = [CHR 0x97]"
definition infinity_sign :: string where "infinity_sign = [CHR 0x98]"
definition sigma :: string where "sigma = [CHR 0x99]"

definition lower_char :: "char \<Rightarrow> char" where
  "lower_char c =
     (let n = (of_char c :: nat) in if 65 \<le> n \<and> n \<le> 90 then char_of (n + 32) else c)"

text \<open>\<open>toLowerCase\<close>, on ASCII letters.\<close>

definition to_lower :: "string \<Rightarrow> string" where
  "to_lower s = map lower_char s"

definition is_space :: "char \<Rightarrow> bool" where
  "is_space c \<longleftrightarrow> c \<in> {CHR '' '', CHR 0x09, CHR 0x0A, CHR 0x0B, CHR 0x0C, CHR 0x0D, CHR 0xA0}"

definition trim :: "string \<Rightarrow> string" where
  "trim s = rev (dropWhile is_space (rev (dropWhile is_space s)))"

text \<open>\<open>hay.includes(needle)\<close>\<close>

fun js_includes :: "string \<Rightarrow> string \<Rightarrow> bool" where
  "js_includes [] needle = (needle = [])"
| "js_includes (c # cs) needle = (prefix needle (c # cs) \<or> js_includes cs needle)"

text \<open>\<open>s.split(c)\<close> for a one-character separator\<close>

fun split_on :: "char \<Rightarrow> string \<Rightarrow> string list" where
  "split_on c [] = [[]]"
| "split_on c (x # xs) =
     (if x = c then [] # split_on c xs
      else (case split_on c xs of [] \<Rightarrow> [[x]] | w # ws \<Rightarrow> (x # w) # ws))"

text \<open>
  \<open>s.replace(pat, r)\<close> for a string pattern: the first occurrence only. (The
  replacement patterns \<open>$&\<close>, \<open>$1\<close> of the library are not used by the client.)
\<close>

fun replace_first :: "string \<Rightarrow> string \<Rightarrow> string \<Rightarrow> string" where
  "replace_first pat r [] = (if pat = [] then r else [])"
| "replace_first pat r (c # cs) =
     (if prefix pat (c # cs) then r @ drop (length pat) (c # cs)
      else c # replace_first pat r cs)"

subsection \<open>Printing numbers\<close>

definition digit :: "nat \<Rightarrow> char" where
  "digit d = ''0123456789'' ! (d mod 10)"

fun nat_str :: "nat \<Rightarrow> string" where
  "nat_str n = (if n < 10 then [digit n] else nat_str (n div 10) @ [digit (n mod 10)])"

declare nat_str.simps [simp del]

definition int_str :: "int \<Rightarrow> string" where
  "int_str z = (if z < 0 then ''-'' @ nat_str (nat (- z)) else nat_str (nat z))"

text \<open>\<open>Math.round\<close>: ties go up.\<close>

definition js_round :: "num \<Rightarrow> int" where
  "js_round x = \<lfloor>x + 1 / 2\<rfloor>"

text \<open>
  \<open>x.toFixed(f)\<close>, for \<open>|x| < 10^21\<close>: the integer nearest to \<open>|x| * 10^f\<close> (the larger
  of two equally near ones), printed with \<open>f\<close> decimals, with a sign for negative \<open>x\<close>.
\<close>

definition pad_left :: "nat \<Rightarrow> string \<Rightarrow> string" where
  "pad_left n s = replicate (n - length s) (CHR ''0'') @ s"

definition toFixed :: "num \<Rightarrow> nat \<Rightarrow> string" where
  "toFixed x f =
     (let m = pad_left (f + 1) (nat_str (nat (js_round (\<bar>x\<bar> * 10 ^ f))));
          k = length m - f
      in (if x < 0 then ''-'' else []) @
         (if f = 0 then m else take k m @ ''.'' @ drop k m))"

text \<open>
  \<open>String(x)\<close>: the decimal expansion, for a number with at most 20 decimals (the
  exponent notation of very large and very small numbers is not modelled).
\<close>

fun decimals :: "nat \<Rightarrow> nat \<Rightarrow> num \<Rightarrow> nat" where
  "decimals 0 k x = k"
| "decimals (Suc fuel) k x =
     (if of_int \<lfloor>x * 10 ^ k\<rfloor> = x * 10 ^ k then k else decimals fuel (Suc k) x)"

definition num_str :: "num \<Rightarrow> string" where
  "num_str x = toFixed x (decimals 20 0 x)"

definition bool_str :: "bool \<Rightarrow> string" where
  "bool_str b = (if b then ''true'' else ''false'')"

subsection \<open>Thrown values\<close>

text \<open>
  What a promise of the client can be rejected with: the \<open>DOMException\<close> of an abort
  (with its message), any other \<open>Error\<close> (with its message), or a value that is not
  an \<open>Error\<close> at all.
\<close>

datatype failure = AbortError string | ErrorObj string | NotAnError

section \<open>Lemmas\<close>

subsection \<open>Deduplication\<close>

lemma uniq_by_keys [uniq_simps]: "k ` set (uniq_by k S xs) = k ` set xs - S"
  by (induction xs arbitrary: S) auto

lemma uniq_by_distinct [uniq_simps]: "distinct (map k (uniq_by k S xs))"
  by (induction xs arbitrary: S) (auto simp: uniq_by_keys)

lemma uniq_by_subset: "set (uniq_by k S xs) \<subseteq> set xs"
  by (induction xs arbitrary: S) auto

lemma uniq_by_subseq: "subseq (uniq_by k S xs) xs"
  by (induction xs arbitrary: S) auto

lemma uniq_by_append:
  "uniq_by k S (xs @ ys) = uniq_by k S xs @ uniq_by k (S \<union> k ` set xs) ys"
  by (induction xs arbitrary: S) (auto simp: insert_absorb)

lemma uniq_by_id:
  assumes "distinct (map k xs)" and "k ` set xs \<inter> S = {}"
  shows "uniq_by k S xs = xs"
  using assms by (induction xs arbitrary: S) auto

lemma uniq_by_all_seen: "k ` set xs \<subseteq> S \<Longrightarrow> uniq_by k S xs = []"
  by (induction xs arbitrary: S) auto

lemma uniq_by_idem [uniq_simps]: "uniq_by k S (uniq_by k S xs) = uniq_by k S xs"
  by (rule uniq_by_id) (auto simp: uniq_simps)

lemma uniq_by_length: "length (uniq_by k S xs) \<le> length xs"
  by (induction xs arbitrary: S) (auto simp: le_SucI)

lemma uniq_by_insert:
  "uniq_by k (insert a S) xs = filter (\<lambda>x. k x \<noteq> a) (uniq_by k S xs)"
proof (induction xs arbitrary: S)
  case Nil
  show ?case by simp
next
  case (Cons x xs)
  show ?case
    using Cons [of S] Cons [of "insert (k x) S"] Cons [of "insert a S"]
    by (auto simp: insert_commute)
qed

lemma find_uniq_by:
  "i \<notin> S \<Longrightarrow> find (\<lambda>x. k x = i) (uniq_by k S xs) = find (\<lambda>x. k x = i) xs"
  by (induction xs arbitrary: S) auto

lemma set_uniq [uniq_simps]: "set (uniq xs) = set xs"
  using uniq_by_keys [of "\<lambda>x. x" "{}" xs] by (simp add: uniq_def)

lemma distinct_uniq [uniq_simps]: "distinct (uniq xs)"
  using uniq_by_distinct [of "\<lambda>x. x" "{}" xs] by (simp add: uniq_def)

lemma uniq_Nil_iff [uniq_simps]: "uniq xs = [] \<longleftrightarrow> xs = []"
  by (cases xs) (simp_all add: uniq_def)

subsection \<open>Sorting\<close>

lemma mset_js_insert [sort_simps]: "mset (js_insert cmp x ys) = add_mset x (mset ys)"
  by (induction ys) auto

lemma mset_js_sort [sort_simps]: "mset (js_sort cmp xs) = mset xs"
  by (induction xs) (auto simp: js_sort_def mset_js_insert)

lemma set_js_insert: "set (js_insert cmp x ys) = insert x (set ys)"
  by (induction ys) auto

lemma set_js_sort [sort_simps]: "set (js_sort cmp xs) = set xs"
  by (metis mset_js_sort set_mset_mset)

lemma length_js_sort [sort_simps]: "length (js_sort cmp xs) = length xs"
  by (metis mset_js_sort size_mset)

lemma sorted_js_insert:
  assumes "consistent_cmp cmp" and "sorted_wrt (\<lambda>a b. cmp a b \<le> 0) ys"
  shows "sorted_wrt (\<lambda>a b. cmp a b \<le> 0) (js_insert cmp x ys)"
  using assms(2)
proof (induction ys)
  case Nil
  show ?case by simp
next
  case (Cons y ys)
  have total: "cmp x y \<le> 0 \<or> cmp y x \<le> 0"
    and trans: "\<And>a b c. cmp a b \<le> 0 \<Longrightarrow> cmp b c \<le> 0 \<Longrightarrow> cmp a c \<le> 0"
    using assms(1) by (auto simp: consistent_cmp_def)
  show ?case
    using Cons total by (auto simp: set_js_insert intro: trans)
qed

lemma sorted_js_sort:
  "consistent_cmp cmp \<Longrightarrow> sorted_wrt (\<lambda>a b. cmp a b \<le> 0) (js_sort cmp xs)"
  by (induction xs) (auto simp: js_sort_def intro: sorted_js_insert)

lemma consistent_cmp_key: "consistent_cmp (\<lambda>a b. f a - f b)"
  by (auto simp: consistent_cmp_def)

lemma consistent_cmp_key_desc: "consistent_cmp (\<lambda>a b. f b - f a)"
  by (auto simp: consistent_cmp_def)

text \<open>On a numeric key the sort is the library's stable \<open>sort_key\<close>.\<close>

lemma js_sort_key: "js_sort (\<lambda>a b. f a - f b) xs = sort_key f xs"
proof -
  have "js_insert (\<lambda>a b. f a - f b) x ys = insort_key f x ys" for x ys
    by (induction ys) auto
  then have "js_insert (\<lambda>a b. f a - f b) = insort_key f" by (intro ext)
  then show ?thesis by (simp add: js_sort_def sort_key_def)
qed

subsection \<open>Indexing and slices\<close>

lemma js_at_Some: "js_at xs i = Some x \<Longrightarrow> x \<in> set xs"
  by (auto simp: js_at_def split: if_splits)

lemma length_slice_last [simp]: "length (slice_last n xs) = min n (length xs)"
  by (auto simp: slice_last_def)

lemma length_map_at [simp]: "length (map_at i f xs) = length xs"
  by (simp add: map_at_def)

lemma nth_map_at: "j < length xs \<Longrightarrow> map_at i f xs ! j = (if j = i then f (xs ! j) else xs ! j)"
  by (simp add: map_at_def nth_enumerate_eq)

lemma map_at_update: "i < length xs \<Longrightarrow> map_at i f xs = xs[i := f (xs ! i)]"
  by (rule nth_equalityI) (auto simp: nth_map_at nth_list_update)

lemma map_map_at: "(\<And>x. g (f x) = g x) \<Longrightarrow> map g (map_at i f xs) = map g xs"
  by (rule nth_equalityI) (auto simp: nth_map_at)

lemma enumerate_remove:
  "map snd (filter (\<lambda>(j, x). j \<noteq> i) (enumerate n xs)) =
   (if n \<le> i then take (i - n) xs @ drop (Suc (i - n)) xs else xs)"
proof (induction xs arbitrary: n)
  case Nil
  then show ?case by simp
next
  case (Cons x xs)
  show ?case
  proof (cases "n < i")
    case True
    then obtain d where "i - n = Suc d" by (cases "i - n") auto
    moreover from this have "i - Suc n = d" by simp
    ultimately show ?thesis using True Cons [of "Suc n"] by simp
  next
    case False
    then show ?thesis using Cons [of "Suc n"] by auto
  qed
qed

lemma remove_at_eq: "remove_at i xs = take i xs @ drop (Suc i) xs"
  using enumerate_remove [of i 0 xs] by (simp add: remove_at_def)

lemma js_max_ge: "x \<in> set xs \<Longrightarrow> x \<le> js_max xs z"
  by (induction xs) (auto simp: js_max_def)

lemma js_max_ge_init: "z \<le> js_max xs z"
  by (induction xs) (auto simp: js_max_def)

lemma js_max_in: "js_max xs z \<in> insert z (set xs)"
  by (induction xs) (auto simp: js_max_def max_def)

subsection \<open>Strings and numbers\<close>

lemma includes_iff: "js_includes hay needle \<longleftrightarrow> sublist needle hay"
  by (induction hay) (auto simp: sublist_Cons_right)

lemma split_on_not_Nil: "split_on c s \<noteq> []"
  by (induction s) (auto split: list.splits)

lemma split_on_single: "c \<notin> set s \<Longrightarrow> split_on c s = [s]"
  by (induction s) auto

lemma split_on_append: "c \<notin> set s \<Longrightarrow> split_on c (s @ c # t) = s # split_on c t"
  by (induction s) auto

lemma nat_str_not_Nil [simp]: "nat_str n \<noteq> []"
  by (subst nat_str.simps) simp

lemma digit_set: "digit d \<in> set ''0123456789''"
proof -
  have "d mod 10 < length ''0123456789''" by simp
  then show ?thesis unfolding digit_def by (rule nth_mem)
qed

lemma set_nat_str: "set (nat_str n) \<subseteq> set ''0123456789''"
proof (induction n rule: nat_str.induct)
  case (1 n)
  then show ?case
    using digit_set by (subst nat_str.simps) auto
qed

lemma js_round_of_int [simp]: "js_round (of_int z) = z"
  by (simp add: js_round_def floor_eq_iff)

lemma js_round_bounds: "of_int (js_round x) \<le> x + 1 / 2 \<and> x - 1 / 2 < of_int (js_round x)"
  unfolding js_round_def by linarith

lemma js_round_mono: "x \<le> y \<Longrightarrow> js_round x \<le> js_round y"
  unfolding js_round_def by (rule floor_mono) simp

lemma decimals_int: "decimals (Suc fuel) 0 (of_int z) = 0"
  by simp

lemma num_str_int: "num_str (of_int z) = int_str z"
proof -
  have "decimals 20 0 (of_int z) = 0"
    by (simp add: numeral_eq_Suc)
  moreover have "\<bar>of_int z :: real\<bar> = of_int \<bar>z\<bar>" by simp
  ultimately show ?thesis
    by (auto simp: num_str_def toFixed_def Let_def pad_left_def int_str_def Suc_le_eq
        simp del: of_int_abs)
qed

end
