(* ===== verification/Types.thy ===== *)
theory Types
  imports Prelude
begin

text \<open>
  The data the collector sends, as \<open>web/src/types/index.ts\<close> declares it: one record per
  interface, with the interface's fields in its order. A field name that several
  interfaces share carries the initials of its own. An optional field is an \<open>option\<close>.
  Also JSON values, for the parts of a response the client reads without a type
  (\<open>Record<string, unknown>\<close>), with the conversions of the language on them.
\<close>

section \<open>JSON values\<close>

datatype json =
    JNull
  | JBool bool
  | JNum num
  | JStr string
  | JArr "json list"
  | JObj "(string \<times> json) list"

text \<open>Property access on an object; a missing property is \<open>undefined\<close>.\<close>

definition jget :: "(string \<times> json) list \<Rightarrow> string \<Rightarrow> json option" where
  "jget fs k = map_of fs k"

text \<open>\<open>String(v)\<close>: what a template literal prints for \<open>v\<close>.\<close>

fun json_str :: "json \<Rightarrow> string"
  and json_elem_str :: "json \<Rightarrow> string"
  and json_elems_str :: "json list \<Rightarrow> string" where
  "json_str JNull = ''null''"
| "json_str (JBool b) = bool_str b"
| "json_str (JNum x) = num_str x"
| "json_str (JStr s) = s"
| "json_str (JArr xs) = json_elems_str xs"
| "json_str (JObj fs) = ''[object Object]''"
| "json_elem_str JNull = []"
| "json_elem_str (JBool b) = bool_str b"
| "json_elem_str (JNum x) = num_str x"
| "json_elem_str (JStr s) = s"
| "json_elem_str (JArr xs) = json_elems_str xs"
| "json_elem_str (JObj fs) = ''[object Object]''"
| "json_elems_str [] = []"
| "json_elems_str [x] = json_elem_str x"
| "json_elems_str (x # y # xs) = json_elem_str x @ '','' @ json_elems_str (y # xs)"

text \<open>Truthiness of a JSON value.\<close>

fun json_truthy :: "json \<Rightarrow> bool" where
  "json_truthy JNull = False"
| "json_truthy (JBool b) = b"
| "json_truthy (JNum x) = (x \<noteq> 0)"
| "json_truthy (JStr s) = (s \<noteq> [])"
| "json_truthy (JArr xs) = True"
| "json_truthy (JObj fs) = True"

section \<open>Traces and spans\<close>

record TraceID =
  traceID_value :: string

record SpanID =
  spanID_value :: string

record AttributeDTO =
  key :: string
  stringValue :: "string option"
  intValue :: "num option"
  boolValue :: "bool option"
  doubleValue :: "num option"

record SpanEventDTO =
  timeUnixNano :: num
  ev_name :: string
  ev_attributes :: "AttributeDTO list"

record LinkDTO =
  ln_traceId :: string
  ln_spanId :: string
  traceState :: string
  ln_attributes :: "AttributeDTO list"

record StatusDTO =
  code :: int
  message :: string

record SpanDetailDTO =
  spanId :: string
  parentSpanId :: string
  sp_traceId :: string
  name :: string
  serviceName :: string
  kind :: int
  startTimeUnixNano :: num
  durationMs :: num
  status :: StatusDTO
  attributes :: "AttributeDTO list"
  events :: "SpanEventDTO list"
  links :: "LinkDTO list"
  depth :: int
  hasError :: bool

record ParallelGroupDTO =
  spanIds :: "string list"
  startMs :: num
  endMs :: num

record SpanGapDTO =
  beforeSpanId :: string
  afterSpanId :: string
  gap_durationMs :: num

record TraceDetailDTO =
  td_traceId :: string
  spans :: "SpanDetailDTO list"
  criticalPath :: "string list"
  td_services :: "string list"
  td_durationMs :: num
  td_spanCount :: int
  errorCount :: int
  parallelGroups :: "ParallelGroupDTO list"
  gaps :: "SpanGapDTO list"

record TraceSummaryDTO =
  traceId :: string
  rootService :: string
  rootOp :: string
  ts_durationMs :: num
  spanCount :: int
  services :: "string list"
  ts_hasError :: bool
  receivedAt :: string

record TraceListResponse =
  traces :: "TraceSummaryDTO list"
  total :: int
  hasMore :: bool

section \<open>Metrics, topology and sampler\<close>

record MetricSnapshotDTO =
  service :: string
  operation :: string
  rate :: num
  errorRate :: num
  p50Ms :: num
  p95Ms :: num
  p99Ms :: num

record ServiceNode =
  sn_name :: string
  sn_spanCount :: int
  sn_errorRate :: num
  sn_p99Ms :: num
  reqPerSec :: num

record ServiceEdge =
  caller :: string
  callee :: string
  edge_count :: int
  edge_errorCount :: int
  edge_p99Ms :: num

record DependencyGraph =
  dg_services :: "ServiceNode list"
  dg_edges :: "ServiceEdge list"

record SamplerStats =
  sampledTotal :: int
  droppedTotal :: int
  samplingRate :: num

record SamplerConfig =
  sc_type :: string
  sc_config :: "(string \<times> json) list"
  stats :: SamplerStats

record LatencyHeatmapBucket =
  bucket_ts :: num
  counts :: "int list"

record LatencyHeatmapData =
  bounds :: "num list"
  buckets :: "LatencyHeatmapBucket list"

record HeatmapCount =
  hc_ts :: num
  hc_spans :: int
  hc_errors :: int

record HeatmapResponse =
  resolution :: string
  hm_buckets :: "HeatmapCount list"
  latency :: LatencyHeatmapData

record AnomalyResult =
  an_service :: string
  an_operation :: string
  an_p99Ms :: num
  meanMs :: num
  stddevMs :: num
  zScore :: num
  isOutlier :: bool

record SLOResult =
  slo_service :: string
  targetErrorRate :: num
  currentErrorRate :: num
  budgetRemaining :: num
  breached :: bool

record MatchedSpan =
  baseSpanId :: string
  compareSpanId :: string
  ms_durationDeltaMs :: num

record TraceComparisonDTO =
  durationDeltaMs :: num
  spanCountDelta :: int
  errorDelta :: int
  matched :: "MatchedSpan list"
  onlyInBase :: "string list"
  onlyInCompare :: "string list"

record CollectorReadyDTO =
  cr_status :: string
  uptimeSec :: num
  goroutines :: int
  heapMB :: num
  queueDepth :: int
  queueCapacity :: int
  queueUsagePct :: num
  queueThreshold :: num

section \<open>Example values\<close>

text \<open>A span and a summary from which witnesses build the ones they need.\<close>

definition sample_span :: "string \<Rightarrow> string \<Rightarrow> num \<Rightarrow> SpanDetailDTO" where
  "sample_span i p t =
     \<lparr>spanId = i, parentSpanId = p, sp_traceId = ''abc123'', name = ''op'',
      serviceName = ''svc'', kind = 1, startTimeUnixNano = t, durationMs = 100,
      status = \<lparr>code = 0, message = []\<rparr>, attributes = [], events = [], links = [],
      depth = 0, hasError = False\<rparr>"

definition sample_trace :: "SpanDetailDTO list \<Rightarrow> TraceDetailDTO" where
  "sample_trace ss =
     \<lparr>td_traceId = ''abc123'', spans = ss, criticalPath = [], td_services = [],
      td_durationMs = 500, td_spanCount = int (length ss), errorCount = 0,
      parallelGroups = [], gaps = []\<rparr>"

definition sample_summary :: "string \<Rightarrow> TraceSummaryDTO" where
  "sample_summary i =
     \<lparr>traceId = i, rootService = ''svc'', rootOp = ''op'', ts_durationMs = 10,
      spanCount = 1, services = [''svc''], ts_hasError = False,
      receivedAt = ''1970-01-01T00:00:00.000Z''\<rparr>"

end
