(* ===== verification/SpanLayout.thy ===== *)
theory SpanLayout
  imports Types
begin

text \<open>
  \<open>web/src/components/waterfall/span-layout.ts\<close>: \<open>buildSpanRows\<close> lays the spans of a trace
  out as rows: the root, then depth first, the children of a span by start time, and at
  the end every span the traversal did not reach.

  The traversal \<open>visit\<close> is recursive in the code with nothing to bound it. Here it takes
  fuel, one unit per level of recursion; \<^term>\<open>None\<close> is "does not return" (in the browser,
  a stack overflow). For a well-formed trace as much fuel as there are spans is enough,
  and more fuel never changes the result; a trace that is not well-formed can run out of
  any fuel.
\<close>

section \<open>Definitions\<close>

record SpanRow =
  row_spanId :: string
  row_name :: string
  row_serviceName :: string
  row_startMs :: num
  row_durationMs :: num
  row_depth :: nat
  row_hasError :: bool
  row_kind :: int
  row_span :: SpanDetailDTO

text \<open>
  \<open>Math.min(...starts) / 1e6\<close>. For no spans that is \<open>Infinity\<close>, which no row then uses;
  the model has 0 there.
\<close>

definition traceStart :: "SpanDetailDTO list \<Rightarrow> num" where
  "traceStart ss =
     (case map startTimeUnixNano ss of [] \<Rightarrow> 0 | x # xs \<Rightarrow> foldr min xs x) / 10 ^ 6"

definition mk_row :: "num \<Rightarrow> SpanDetailDTO \<Rightarrow> nat \<Rightarrow> SpanRow" where
  "mk_row t0 sp d =
     \<lparr>row_spanId = spanId sp, row_name = name sp, row_serviceName = serviceName sp,
      row_startMs = startTimeUnixNano sp / 10 ^ 6 - t0, row_durationMs = durationMs sp,
      row_depth = d, row_hasError = (code (status sp) = 2), row_kind = kind sp,
      row_span = sp\<rparr>"

definition children_of :: "SpanDetailDTO list \<Rightarrow> SpanDetailDTO \<Rightarrow> SpanDetailDTO list" where
  "children_of ss sp =
     js_sort (\<lambda>l r. startTimeUnixNano l - startTimeUnixNano r)
       (filter (\<lambda>candidate. parentSpanId candidate = spanId sp) ss)"

fun visit :: "nat \<Rightarrow> SpanDetailDTO list \<Rightarrow> num \<Rightarrow> SpanDetailDTO \<Rightarrow> nat \<Rightarrow> SpanRow list option"
  and visit_all ::
    "nat \<Rightarrow> SpanDetailDTO list \<Rightarrow> num \<Rightarrow> SpanDetailDTO list \<Rightarrow> nat \<Rightarrow> SpanRow list option" where
  "visit 0 ss t0 sp d = None"
| "visit (Suc fuel) ss t0 sp d =
     (case visit_all fuel ss t0 (children_of ss sp) (Suc d) of
        None \<Rightarrow> None
      | Some rs \<Rightarrow> Some (mk_row t0 sp d # rs))"
| "visit_all fuel ss t0 [] d = Some []"
| "visit_all fuel ss t0 (c # cs) d =
     (case visit fuel ss t0 c d of
        None \<Rightarrow> None
      | Some rs \<Rightarrow>
          (case visit_all fuel ss t0 cs d of
             None \<Rightarrow> None
           | Some rs' \<Rightarrow> Some (rs @ rs')))"

definition is_root :: "SpanDetailDTO \<Rightarrow> bool" where
  "is_root sp \<longleftrightarrow> parentSpanId sp = [] \<or> parentSpanId sp = ''0000000000000000''"

definition visited_rows :: "nat \<Rightarrow> SpanDetailDTO list \<Rightarrow> SpanRow list option" where
  "visited_rows fuel ss =
     (case find is_root ss of
        None \<Rightarrow> Some []
      | Some r \<Rightarrow> visit fuel ss (traceStart ss) r 0)"

definition orphan_rows :: "SpanDetailDTO list \<Rightarrow> SpanRow list \<Rightarrow> SpanRow list" where
  "orphan_rows ss rows =
     (let visited = set (map row_spanId rows)
      in map (\<lambda>sp. mk_row (traceStart ss) sp 0)
           (filter (\<lambda>sp. spanId sp \<notin> visited) ss))"

definition buildSpanRows :: "nat \<Rightarrow> TraceDetailDTO \<Rightarrow> SpanRow list option" where
  "buildSpanRows fuel trace =
     map_option (\<lambda>rows. rows @ orphan_rows (spans trace) rows)
       (visited_rows fuel (spans trace))"

text \<open>
  What the layout relies on: each span id once, and no span whose id is one of the two ways to
  write "no parent". The collector refuses the latter, but does not enforce the former.
\<close>

definition wf_spans :: "SpanDetailDTO list \<Rightarrow> bool" where
  "wf_spans ss \<longleftrightarrow>
     distinct (map spanId ss) \<and> [] \<notin> spanId ` set ss \<and> ''0000000000000000'' \<notin> spanId ` set ss"

text \<open>A path of parent links from a span up to a root.\<close>

fun path_ok :: "SpanDetailDTO list \<Rightarrow> SpanDetailDTO list \<Rightarrow> bool" where
  "path_ok ss [] = False"
| "path_ok ss [r] = (r \<in> set ss \<and> is_root r)"
| "path_ok ss (x # y # P) = (x \<in> set ss \<and> parentSpanId x = spanId y \<and> path_ok ss (y # P))"

text \<open>A row that can stand where \<open>A\<close> are the rows before it: one level below its parent.\<close>

definition linked :: "SpanRow \<Rightarrow> SpanRow \<Rightarrow> bool" where
  "linked p r \<longleftrightarrow>
     row_spanId p = parentSpanId (row_span r) \<and> row_depth r = Suc (row_depth p)"

fun follows :: "SpanRow set \<Rightarrow> SpanRow list \<Rightarrow> bool" where
  "follows A [] = True"
| "follows A (r # rs) = ((\<exists>p \<in> A. linked p r) \<and> follows (insert r A) rs)"

section \<open>Lemmas\<close>

named_theorems row_simps "fields of a row"

lemma mk_row_simps [row_simps, simp]:
  "row_spanId (mk_row t s d) = spanId s" "row_span (mk_row t s d) = s"
  "row_depth (mk_row t s d) = d"
  "row_startMs (mk_row t s d) = startTimeUnixNano s / 10 ^ 6 - t"
  "row_durationMs (mk_row t s d) = durationMs s" "row_serviceName (mk_row t s d) = serviceName s"
  "row_name (mk_row t s d) = name s" "row_kind (mk_row t s d) = kind s"
  "row_hasError (mk_row t s d) = (code (status s) = 2)"
  by (simp_all add: mk_row_def)

lemma children_of_eq:
  "children_of ss sp =
   sort_key startTimeUnixNano (filter (\<lambda>c. parentSpanId c = spanId sp) ss)"
  by (simp add: children_of_def js_sort_key)

lemma set_children_of [simp]:
  "set (children_of ss sp) = {c \<in> set ss. parentSpanId c = spanId sp}"
  by (auto simp: children_of_eq)

lemma distinct_children_of: "distinct ss \<Longrightarrow> distinct (children_of ss sp)"
  by (simp add: children_of_eq distinct_sort)

subsection \<open>More fuel\<close>

lemma visit_mono_both:
  "visit fuel ss t0 sp d = Some rs \<Longrightarrow> visit (Suc fuel) ss t0 sp d = Some rs"
  "visit_all fuel ss t0 cs d = Some rs' \<Longrightarrow> visit_all (Suc fuel) ss t0 cs d = Some rs'"
proof (induction fuel ss t0 sp d and fuel ss t0 cs d arbitrary: rs and rs'
    rule: visit_visit_all.induct)
  case (2 fuel ss t0 sp d)
  then show ?case by (auto split: option.splits)
next
  case (4 fuel ss t0 c cs d)
  from "4.prems" obtain r1 r2
    where *: "visit fuel ss t0 c d = Some r1" "visit_all fuel ss t0 cs d = Some r2" "rs' = r1 @ r2"
    by (auto split: option.splits)
  have "visit (Suc fuel) ss t0 c d = Some r1" by (rule "4.IH"(1) [OF *(1)])
  moreover have "visit_all (Suc fuel) ss t0 cs d = Some r2" by (rule "4.IH"(2) [OF *(1) *(2)])
  ultimately show ?case using * by (simp only: visit_all.simps option.simps)
qed simp_all

lemma visit_mono:
  assumes "visit fuel ss t0 sp d = Some rs" and "fuel \<le> fuel'"
  shows "visit fuel' ss t0 sp d = Some rs"
proof -
  have "visit (fuel + n) ss t0 sp d = Some rs" for n
    by (induction n) (use assms(1) visit_mono_both(1) in \<open>auto simp del: visit.simps\<close>)
  then show ?thesis using assms(2) by (metis le_add_diff_inverse)
qed

subsection \<open>Paths to the root\<close>

lemma path_ok_subset: "path_ok ss P \<Longrightarrow> set P \<subseteq> set ss"
  by (induction ss P rule: path_ok.induct) auto

lemma wf_root_parent:
  "wf_spans ss \<Longrightarrow> is_root r \<Longrightarrow> y \<in> set ss \<Longrightarrow> parentSpanId r \<noteq> spanId y"
  by (auto simp: wf_spans_def is_root_def)

lemma wf_spans_inj:
  "wf_spans ss \<Longrightarrow> x \<in> set ss \<Longrightarrow> y \<in> set ss \<Longrightarrow> spanId x = spanId y \<Longrightarrow> x = y"
  by (auto simp: wf_spans_def distinct_map dest: inj_onD)

lemma wf_spans_distinct: "wf_spans ss \<Longrightarrow> distinct ss"
  by (simp add: wf_spans_def distinct_map)

text \<open>A span has one path.\<close>

lemma path_ok_unique:
  assumes "wf_spans ss"
  shows "path_ok ss P \<Longrightarrow> path_ok ss Q \<Longrightarrow> hd P = hd Q \<Longrightarrow> P = Q"
proof (induction P arbitrary: Q)
  case Nil
  then show ?case by simp
next
  case (Cons x P)
  then obtain Q' where Q: "Q = x # Q'" by (cases Q) auto
  have root: False if "is_root x" "path_ok ss (x # y # R)" for y R
    using that path_ok_subset [of ss "x # y # R"] wf_root_parent [OF assms that(1), of y] by simp
  show ?case
  proof (cases P)
    case Nil
    with Cons.prems Q root show ?thesis by (cases Q') auto
  next
    case P: (Cons y P')
    show ?thesis
    proof (cases Q')
      case Nil
      with Cons.prems Q P root show ?thesis by auto
    next
      case Q': (Cons z Q'')
      have ok: "path_ok ss P" "path_ok ss Q'" and eq: "spanId y = spanId z"
        using Cons.prems P Q Q' by auto
      have "y = z"
        using eq path_ok_subset [OF ok(1)] path_ok_subset [OF ok(2)] P Q'
        by (intro wf_spans_inj [OF assms]) auto
      with Cons.IH [OF ok] P Q Q' show ?thesis by simp
    qed
  qed
qed

lemma path_ok_tails: "path_ok ss P \<Longrightarrow> suffix Q P \<Longrightarrow> Q \<noteq> [] \<Longrightarrow> path_ok ss Q"
proof (induction P)
  case (Cons x P)
  then show ?case by (cases P) (auto simp: suffix_Cons)
qed simp

lemma path_ok_distinct:
  assumes "wf_spans ss" and "path_ok ss P"
  shows "distinct P"
  using assms(2)
proof (induction P)
  case Nil
  then show ?case by simp
next
  case (Cons x P)
  show ?case
  proof (cases "P = []")
    case False
    with Cons.prems have ok: "path_ok ss P" by (cases P) auto
    have "x \<notin> set P"
    proof
      assume "x \<in> set P"
      then obtain ys zs where P: "P = ys @ x # zs" by (auto simp: in_set_conv_decomp)
      then have "path_ok ss (x # zs)" by (intro path_ok_tails [OF ok]) (auto simp: suffix_def)
      then have "x # P = x # zs" using Cons.prems by (intro path_ok_unique [OF assms(1)]) auto
      then have "length P = length ys + Suc (length P)" using P by simp
      then show False by simp
    qed
    with Cons.IH [OF ok] show ?thesis by simp
  qed simp
qed

lemma path_ok_length:
  assumes "wf_spans ss" and "path_ok ss P"
  shows "length P \<le> length ss"
proof -
  have "length P = card (set P)"
    using path_ok_distinct [OF assms] by (simp add: distinct_card)
  also have "\<dots> \<le> card (set ss)" by (rule card_mono) (simp_all add: path_ok_subset [OF assms(2)])
  also have "\<dots> \<le> length ss" by (rule card_length)
  finally show ?thesis .
qed

lemma path_ok_extend:
  "path_ok ss P \<Longrightarrow> c \<in> set (children_of ss (hd P)) \<Longrightarrow> path_ok ss (c # P)"
  by (cases P) auto

subsection \<open>The traversal returns\<close>

lemma visit_returns:
  assumes "wf_spans ss"
  shows "path_ok ss P \<Longrightarrow> length ss < fuel + length P \<Longrightarrow> \<exists>rs. visit fuel ss t0 (hd P) d = Some rs"
proof (induction fuel arbitrary: P d)
  case 0
  then show ?case using path_ok_length [OF assms] by fastforce
next
  case (Suc fuel)
  have child: "\<exists>rs. visit fuel ss t0 c (Suc d) = Some rs" if "c \<in> set (children_of ss (hd P))" for c
    using Suc.IH [of "c # P" "Suc d"] path_ok_extend [OF Suc.prems(1) that] Suc.prems(2) by simp
  have "\<exists>rs. visit_all fuel ss t0 cs (Suc d) = Some rs"
    if "set cs \<subseteq> set (children_of ss (hd P))" for cs
    using that
  proof (induction cs)
    case (Cons c cs)
    then show ?case using child [of c] by fastforce
  qed simp
  from this [OF subset_refl] show ?case by auto
qed

subsection \<open>What the traversal emits\<close>

text \<open>
  The rows below a span carry spans whose path extends that span's path, at the depth
  the path says, and no span twice.
\<close>

definition emits :: "SpanDetailDTO list \<Rightarrow> SpanDetailDTO list set \<Rightarrow> SpanRow list \<Rightarrow> bool" where
  "emits ss Ps rs \<longleftrightarrow>
     distinct (map row_span rs) \<and>
     (\<forall>r \<in> set rs. row_spanId r = spanId (row_span r) \<and>
        (\<exists>Q. path_ok ss Q \<and> hd Q = row_span r \<and> Suc (row_depth r) = length Q \<and>
             (\<exists>P \<in> Ps. suffix P Q)))"

lemma emitsE:
  assumes "emits ss Ps rs" and "r \<in> set rs"
  obtains Q P where "path_ok ss Q" "hd Q = row_span r" "Suc (row_depth r) = length Q"
    "P \<in> Ps" "suffix P Q"
  using assms unfolding emits_def by blast

lemma suffix_same_length: "suffix P Q \<Longrightarrow> suffix P' Q \<Longrightarrow> length P = length P' \<Longrightarrow> P = P'"
  by (auto simp: suffix_def)

lemma emits_disjoint:
  assumes wf: "wf_spans ss" and e: "emits ss Ps rs" "emits ss Ps' rs'"
    and len: "\<And>P. P \<in> Ps \<union> Ps' \<Longrightarrow> length P = n" and disj: "Ps \<inter> Ps' = {}"
  shows "emits ss (Ps \<union> Ps') (rs @ rs')"
proof -
  have "row_span r \<noteq> row_span r'" if r: "r \<in> set rs" and r': "r' \<in> set rs'" for r r'
  proof
    assume eq: "row_span r = row_span r'"
    obtain Q P where Q: "path_ok ss Q" "hd Q = row_span r" "P \<in> Ps" "suffix P Q"
      using emitsE [OF e(1) r] by metis
    obtain Q' P' where Q': "path_ok ss Q'" "hd Q' = row_span r'" "P' \<in> Ps'" "suffix P' Q'"
      using emitsE [OF e(2) r'] by metis
    have "Q = Q'" using Q Q' eq by (intro path_ok_unique [OF wf]) auto
    with Q Q' len have "P = P'" by (metis UnI1 UnI2 suffix_same_length)
    with Q Q' disj show False by auto
  qed
  then show ?thesis using e by (fastforce simp: emits_def)
qed

lemma visit_emits:
  assumes wf: "wf_spans ss"
  shows "visit fuel ss t0 sp d = Some rs \<Longrightarrow> path_ok ss (sp # P) \<Longrightarrow> d = length P \<Longrightarrow>
           emits ss {sp # P} rs"
    and "visit_all fuel ss t0 cs d = Some rs' \<Longrightarrow> path_ok ss P' \<Longrightarrow> d = length P' \<Longrightarrow>
           distinct cs \<Longrightarrow> set cs \<subseteq> set (children_of ss (hd P')) \<Longrightarrow>
           emits ss ((\<lambda>c. c # P') ` set cs) rs'"
  using wf
proof (induction fuel ss t0 sp d and fuel ss t0 cs d arbitrary: rs P and rs' P'
    rule: visit_visit_all.induct)
  case (2 fuel ss t0 sp d)
  from "2.prems"(1) obtain rs1
    where rs1: "visit_all fuel ss t0 (children_of ss sp) (Suc d) = Some rs1"
      and rs: "rs = mk_row t0 sp d # rs1"
    by (auto split: option.splits)
  have e: "emits ss ((\<lambda>c. c # sp # P) ` set (children_of ss sp)) rs1"
    using "2.prems" distinct_children_of [OF wf_spans_distinct [OF "2.prems"(4)]]
    by (intro "2.IH" [OF rs1]) auto
  have new: "row_span r \<noteq> sp" if r: "r \<in> set rs1" for r
  proof
    assume "row_span r = sp"
    obtain Q R where QR: "path_ok ss Q" "hd Q = row_span r" "suffix R Q"
      and "R \<in> (\<lambda>c. c # sp # P) ` set (children_of ss sp)"
      by (rule emitsE [OF e r])
    then obtain c where Q: "path_ok ss Q" "hd Q = row_span r" "suffix (c # sp # P) Q" by blast
    then have "Q = sp # P"
      using "2.prems" \<open>row_span r = sp\<close> by (intro path_ok_unique [OF "2.prems"(4)]) auto
    with Q(3) show False using suffix_length_le by fastforce
  qed
  have "\<exists>P1 \<in> {sp # P}. suffix P1 Q" if "suffix (c # sp # P) Q" for c Q
    using that by (auto dest: suffix_ConsD)
  with e new "2.prems" show ?case
    unfolding rs emits_def
    by (fastforce intro: exI [of _ "sp # P"])
next
  case (4 fuel ss t0 c cs d)
  from "4.prems"(1) obtain r1 r2
    where r: "visit fuel ss t0 c d = Some r1" "visit_all fuel ss t0 cs d = Some r2" "rs' = r1 @ r2"
    by (auto split: option.splits)
  have "path_ok ss (c # P')" using "4.prems" by (intro path_ok_extend) auto
  then have "emits ss {c # P'} r1" using "4.prems" by (intro "4.IH"(1) [OF r(1)]) auto
  moreover have "emits ss ((\<lambda>c. c # P') ` set cs) r2"
    using "4.prems" by (intro "4.IH"(2) [OF r(1,2)]) auto
  ultimately have "emits ss ({c # P'} \<union> (\<lambda>c. c # P') ` set cs) (r1 @ r2)"
    using "4.prems" by (intro emits_disjoint [where n = "Suc (length P')"]) auto
  then show ?case using r by simp
qed (simp_all add: emits_def)

subsection \<open>Parents come first\<close>

lemma follows_mono: "follows A rs \<Longrightarrow> A \<subseteq> B \<Longrightarrow> follows B rs"
  by (induction rs arbitrary: A B) (auto, blast)

lemma follows_append: "follows A (xs @ ys) \<longleftrightarrow> follows A xs \<and> follows (A \<union> set xs) ys"
  by (induction xs arbitrary: A) (auto simp: insert_commute)

lemma follows_nth:
  "follows A rs \<Longrightarrow> j < length rs \<Longrightarrow>
   (\<exists>p \<in> A. linked p (rs ! j)) \<or> (\<exists>i < j. linked (rs ! i) (rs ! j))"
proof (induction rs arbitrary: A j)
  case Nil
  then show ?case by simp
next
  case (Cons r rs)
  show ?case
  proof (cases j)
    case 0
    with Cons show ?thesis by simp
  next
    case (Suc j')
    with Cons.IH [of "insert r A" j'] Cons.prems
    consider "\<exists>p \<in> insert r A. linked p (rs ! j')" | "\<exists>i < j'. linked (rs ! i) (rs ! j')" by auto
    then show ?thesis
    proof cases
      case 1
      with Suc show ?thesis by (auto intro: exI [of _ 0])
    next
      case 2
      then obtain i where "i < j'" "linked (rs ! i) (rs ! j')" by blast
      with Suc show ?thesis by (auto intro: exI [of _ "Suc i"])
    qed
  qed
qed

lemma visit_follows:
  "visit fuel ss t0 sp d = Some rs \<Longrightarrow> \<exists>p \<in> A. linked p (mk_row t0 sp d) \<Longrightarrow> follows A rs"
  "visit_all fuel ss t0 cs d = Some rs' \<Longrightarrow>
   \<exists>p \<in> A. d = Suc (row_depth p) \<and> (\<forall>c \<in> set cs. parentSpanId c = row_spanId p) \<Longrightarrow>
   follows A rs'"
proof (induction fuel ss t0 sp d and fuel ss t0 cs d arbitrary: rs A and rs' A
    rule: visit_visit_all.induct)
  case (2 fuel ss t0 sp d)
  from "2.prems"(1) obtain rs1
    where rs1: "visit_all fuel ss t0 (children_of ss sp) (Suc d) = Some rs1"
      and rs: "rs = mk_row t0 sp d # rs1"
    by (auto split: option.splits)
  have "follows (insert (mk_row t0 sp d) A) rs1"
    by (rule "2.IH" [OF rs1]) simp
  with rs "2.prems" show ?case by simp
next
  case (4 fuel ss t0 c cs d)
  from "4.prems"(1) obtain r1 r2
    where r: "visit fuel ss t0 c d = Some r1" "visit_all fuel ss t0 cs d = Some r2" "rs' = r1 @ r2"
    by (auto split: option.splits)
  have "follows A r1"
    using "4.prems"(2) by (intro "4.IH"(1) [OF r(1)]) (auto simp: linked_def)
  moreover have "follows (A \<union> set r1) r2"
    using "4.prems"(2) by (intro "4.IH"(2) [OF r(1,2)]) auto
  ultimately show ?case using r by (simp add: follows_append)
qed simp_all

subsection \<open>Offsets\<close>

lemma visit_rows:
  "visit fuel ss t0 sp d = Some rs \<Longrightarrow> sp \<in> set ss \<Longrightarrow>
   \<forall>r \<in> set rs. row_span r \<in> set ss \<and> r = mk_row t0 (row_span r) (row_depth r)"
  "visit_all fuel ss t0 cs d = Some rs' \<Longrightarrow> set cs \<subseteq> set ss \<Longrightarrow>
   \<forall>r \<in> set rs'. row_span r \<in> set ss \<and> r = mk_row t0 (row_span r) (row_depth r)"
proof (induction fuel ss t0 sp d and fuel ss t0 cs d arbitrary: rs and rs'
    rule: visit_visit_all.induct)
  case (2 fuel ss t0 sp d)
  from "2.prems"(1) obtain rs1
    where rs1: "visit_all fuel ss t0 (children_of ss sp) (Suc d) = Some rs1"
      and rs: "rs = mk_row t0 sp d # rs1"
    by (auto split: option.splits)
  have "set (children_of ss sp) \<subseteq> set ss" by auto
  from "2.IH" [OF rs1 this] rs "2.prems" show ?case by auto
next
  case (4 fuel ss t0 c cs d)
  from "4.prems"(1) obtain r1 r2
    where r: "visit fuel ss t0 c d = Some r1" "visit_all fuel ss t0 cs d = Some r2" "rs' = r1 @ r2"
    by (auto split: option.splits)
  have "c \<in> set ss" and "set cs \<subseteq> set ss" using "4.prems" by auto
  with "4.IH"(1) [OF r(1)] "4.IH"(2) [OF r(1,2)] r show ?case by auto
qed simp_all

lemma find_in: "find P xs = Some x \<Longrightarrow> x \<in> set xs \<and> P x"
  by (induction xs) (auto split: if_splits)

lemma visited_rows_shape:
  "visited_rows fuel ss = Some vs \<Longrightarrow>
   \<forall>r \<in> set vs. row_span r \<in> set ss \<and> r = mk_row (traceStart ss) (row_span r) (row_depth r)"
  by (cases "find is_root ss") (simp_all add: visited_rows_def visit_rows(1) find_in)

lemma build_rows_shape:
  assumes "buildSpanRows fuel t = Some rows" and "r \<in> set rows"
  shows "row_span r \<in> set (spans t) \<and> r = mk_row (traceStart (spans t)) (row_span r) (row_depth r)"
proof -
  obtain vs where "visited_rows fuel (spans t) = Some vs" "rows = vs @ orphan_rows (spans t) vs"
    using assms(1) by (auto simp: buildSpanRows_def)
  with assms(2) visited_rows_shape show ?thesis by (auto simp: orphan_rows_def Let_def)
qed

lemma row_ids:
  "buildSpanRows fuel t = Some rows \<Longrightarrow> r \<in> set rows \<Longrightarrow> row_spanId r = spanId (row_span r)"
  by (metis build_rows_shape mk_row_simps(1))

lemma foldr_min_Min: "foldr min xs x = Min (insert x (set xs))" for x :: num
  by (induction xs) (auto simp: insert_commute min.left_commute)

lemma traceStart_Min:
  "ss \<noteq> [] \<Longrightarrow> traceStart ss = Min (startTimeUnixNano ` set ss) / 10 ^ 6"
  by (cases ss) (simp_all add: traceStart_def foldr_min_Min)

subsection \<open>Well-formed traces\<close>

lemma visited_rows_wf:
  assumes wf: "wf_spans ss" and fuel: "length ss \<le> fuel"
  obtains rows where "visited_rows fuel ss = Some rows" "distinct (map row_span rows)"
    "row_span ` set rows \<subseteq> set ss" "\<forall>r \<in> set rows. row_spanId r = spanId (row_span r)"
proof (cases "find is_root ss")
  case None
  with that [of "[]"] show ?thesis by (simp add: visited_rows_def)
next
  case (Some r)
  then have ok: "path_ok ss [r]" using find_in [OF Some] by simp
  then obtain rs where rs: "visit fuel ss (traceStart ss) r 0 = Some rs"
    using visit_returns [OF wf, of "[r]" fuel "traceStart ss" 0] fuel by auto
  have e: "emits ss {[r]} rs" using visit_emits(1) [OF wf rs ok] by simp
  have "row_span ` set rs \<subseteq> set ss"
    using visit_rows(1) [OF rs] ok by auto
  with that [of rs] rs e Some show ?thesis by (auto simp: visited_rows_def emits_def)
qed

lemma wf_example: "wf_spans [sample_span ''r'' [] 5, sample_span ''c'' ''r'' 7]"
  by (simp add: wf_spans_def sample_span_def)

lemma rows_complete:
  assumes wf: "wf_spans (spans t)" and fuel: "length (spans t) \<le> fuel"
  shows "\<exists>rows. buildSpanRows fuel t = Some rows \<and>
           mset (map row_span rows) = mset (spans t)"
proof -
  let ?ss = "spans t"
  obtain rows where rows: "visited_rows fuel ?ss = Some rows" "distinct (map row_span rows)"
    "row_span ` set rows \<subseteq> set ?ss" "\<forall>r \<in> set rows. row_spanId r = spanId (row_span r)"
    by (rule visited_rows_wf [OF wf fuel])
  let ?all = "rows @ orphan_rows ?ss rows"
  have ids: "set (map row_spanId rows) = spanId ` row_span ` set rows"
    using rows(4) by force
  have rest: "map row_span (orphan_rows ?ss rows) = filter (\<lambda>s. s \<notin> row_span ` set rows) ?ss"
  proof -
    have "spanId s \<in> spanId ` row_span ` set rows \<longleftrightarrow> s \<in> row_span ` set rows" if "s \<in> set ?ss" for s
      using that rows(3) wf_spans_inj [OF wf] by blast
    then show ?thesis
      unfolding orphan_rows_def Let_def ids by (simp add: comp_def cong: filter_cong)
  qed
  have "distinct (map row_span ?all)"
    using rows(2) wf_spans_distinct [OF wf] by (auto simp: rest)
  moreover have "set (map row_span ?all) = set ?ss" using rows(3) rest by auto
  ultimately have "mset (map row_span ?all) = mset ?ss"
    using wf_spans_distinct [OF wf] by (simp only: set_eq_iff_mset_eq_distinct)
  with rows(1) show ?thesis by (auto simp: buildSpanRows_def)
qed

text \<open>The visited rows: the root's, and below it each row after its parent's; then the orphans.\<close>

lemma visited_shape:
  assumes "buildSpanRows fuel t = Some rows" and "j < length rows" and "0 < row_depth (rows ! j)"
  obtains r vs where "find is_root (spans t) = Some r"
    and "rows = (mk_row (traceStart (spans t)) r 0 # vs) @ orphan_rows (spans t) (mk_row (traceStart (spans t)) r 0 # vs)"
    and "follows {mk_row (traceStart (spans t)) r 0} vs" and "j < Suc (length vs)"
proof -
  obtain vs where vs: "visited_rows fuel (spans t) = Some vs"
    and rows: "rows = vs @ orphan_rows (spans t) vs"
    using assms(1) by (auto simp: buildSpanRows_def)
  have jv: "j < length vs"
  proof (rule ccontr)
    assume "\<not> j < length vs"
    then have "rows ! j \<in> set (orphan_rows (spans t) vs)"
      using assms(2) rows by (auto simp: nth_append intro!: nth_mem)
    with assms(3) show False by (auto simp: orphan_rows_def Let_def)
  qed
  from vs jv obtain r where r: "find is_root (spans t) = Some r"
    "visit fuel (spans t) (traceStart (spans t)) r 0 = Some vs"
    by (auto simp: visited_rows_def split: option.splits)
  from r(2) obtain fuel' vs' where vs': "vs = mk_row (traceStart (spans t)) r 0 # vs'"
    "visit_all fuel' (spans t) (traceStart (spans t)) (children_of (spans t) r) 1 = Some vs'"
    by (cases fuel) (auto split: option.splits)
  have "follows {mk_row (traceStart (spans t)) r 0} vs'" by (rule visit_follows(2) [OF vs'(2)]) simp
  with that [OF r(1)] rows jv vs'(1) show thesis by simp
qed

lemma parent_row:
  assumes "buildSpanRows fuel t = Some rows" and "j < length rows" and "0 < row_depth (rows ! j)"
  shows "\<exists>i < j. row_spanId (rows ! i) = parentSpanId (row_span (rows ! j)) \<and>
           row_depth (rows ! j) = Suc (row_depth (rows ! i))"
proof -
  from visited_shape [OF assms] obtain r vs' where
    rows: "rows = (mk_row (traceStart (spans t)) r 0 # vs') @ orphan_rows (spans t) (mk_row (traceStart (spans t)) r 0 # vs')"
    and f: "follows {mk_row (traceStart (spans t)) r 0} vs'" and jv: "j < Suc (length vs')" by blast
  let ?r = "mk_row (traceStart (spans t)) r 0"
  let ?vs = "?r # vs'"
  obtain j' where j': "j = Suc j'" using assms(3) rows by (cases j) auto
  have "j' < length vs'" using jv j' by simp
  from follows_nth [OF f this] obtain i where "i < j" "linked (?vs ! i) (?vs ! j)"
  proof (elim disjE bexE exE conjE)
    fix p assume "p \<in> {?r}" "linked p (vs' ! j')"
    then show thesis using that [of 0] j' by simp
  next
    fix i assume "i < j'" "linked (vs' ! i) (vs' ! j')"
    then show thesis using that [of "Suc i"] j' by simp
  qed
  moreover from this jv have "rows ! i = ?vs ! i" and "rows ! j = ?vs ! j"
    unfolding rows by (simp_all only: nth_append length_Cons if_True order.strict_trans [OF _ jv])
  ultimately show ?thesis by (intro exI [of _ i]) (simp add: linked_def)
qed

text \<open>A row at depth 0 with a deeper one after it is the root's.\<close>

lemma depth_zero_root:
  assumes "buildSpanRows fuel t = Some rows" and "j < length rows" and "0 < row_depth (rows ! j)"
    and "i < j" and "row_depth (rows ! i) = 0"
  shows "is_root (row_span (rows ! i))"
proof -
  from visited_shape [OF assms(1-3)] obtain r vs' where root: "find is_root (spans t) = Some r"
    and rows: "rows = (mk_row (traceStart (spans t)) r 0 # vs') @ orphan_rows (spans t) (mk_row (traceStart (spans t)) r 0 # vs')"
    and f: "follows {mk_row (traceStart (spans t)) r 0} vs'" and jv: "j < Suc (length vs')" by blast
  show ?thesis
  proof (cases i)
    case 0
    have "is_root r" using root by (auto simp: find_Some_iff)
    then show ?thesis by (simp add: rows 0)
  next
    case (Suc i')
    then have i': "i' < length vs'" using assms(4) jv by simp
    have "rows ! i = vs' ! i'" using i' by (simp add: rows Suc nth_append)
    moreover have "0 < row_depth (vs' ! i')" using follows_nth [OF f i'] by (auto simp: linked_def)
    ultimately show ?thesis using assms(5) by simp
  qed
qed

text \<open>A span that names its own id as its parent: from any span with that id the recursion has no end.\<close>

lemma visit_all_None: "c \<in> set cs \<Longrightarrow> visit fuel ss t0 c d = None \<Longrightarrow> visit_all fuel ss t0 cs d = None"
  by (induction cs) (auto split: option.splits)

lemma visit_self_parent:
  assumes "c \<in> set ss" and "parentSpanId c = spanId c"
  shows "spanId sp = spanId c \<Longrightarrow> visit fuel ss t0 sp d = None"
proof (induction fuel arbitrary: sp d)
  case (Suc fuel)
  have "c \<in> set (children_of ss sp)" using assms Suc.prems by simp
  from visit_all_None [OF this Suc.IH [OF refl]] show ?case by simp
qed simp

section \<open>Properties\<close>

text \<open>
  C1. The layout is complete: for a well-formed trace \<open>buildSpanRows\<close> returns (recursion
  depth at most the number of spans is enough), and its rows show every span of the trace
  exactly once, whether the root reaches it or not.
\<close>

theorem build_span_rows_complete:
  assumes "wf_spans (spans t)" and "length (spans t) \<le> fuel"
  shows "\<exists>rows. buildSpanRows fuel t = Some rows \<and>
           mset (map row_span rows) = mset (spans t)"
  using assms by (rule rows_complete)

theorem build_span_rows_complete_witness:
  "\<exists>rows. buildSpanRows 2 (sample_trace [sample_span ''r'' [] 5, sample_span ''c'' ''r'' 7]) = Some rows \<and>
     mset (map row_span rows) = mset [sample_span ''r'' [] 5, sample_span ''c'' ''r'' 7]"
  using build_span_rows_complete
    [of "sample_trace [sample_span ''r'' [] 5, sample_span ''c'' ''r'' 7]" 2] wf_example
  by (simp add: sample_trace_def)

text \<open>
  The rows form a tree drawn top down: a row below depth 0 comes after the row of its
  parent span and is exactly one level deeper. This needs no assumption on the trace.
\<close>

theorem parents_before_children:
  assumes "buildSpanRows fuel t = Some rows" and "j < length rows" and "0 < row_depth (rows ! j)"
  shows "\<exists>i < j. row_spanId (rows ! i) = parentSpanId (row_span (rows ! j)) \<and>
           row_depth (rows ! j) = Suc (row_depth (rows ! i))"
  using assms by (rule parent_row)

theorem parents_before_children_witness:
  "\<exists>i < 1. row_spanId ([mk_row 0 (sample_span ''r'' [] 0) 0, mk_row 0 (sample_span ''c'' ''r'' 0) 1] ! i) = ''r''"
proof -
  let ?t = "sample_trace [sample_span ''r'' [] 0, sample_span ''c'' ''r'' 0]"
  let ?rows = "[mk_row 0 (sample_span ''r'' [] 0) 0, mk_row 0 (sample_span ''c'' ''r'' 0) 1]"
  have "buildSpanRows 2 ?t = Some ?rows"
    by code_simp
  from parents_before_children [OF this, of 1] show ?thesis
    by (simp add: sample_span_def)
qed

text \<open>
  Every row starts at its span's distance, in milliseconds, from the earliest span of
  the trace: never before the left edge of the chart.
\<close>

theorem row_start_offset:
  assumes "buildSpanRows fuel t = Some rows" and "r \<in> set rows"
  shows "row_startMs r =
           (startTimeUnixNano (row_span r) - Min (startTimeUnixNano ` set (spans t))) / 10 ^ 6 \<and>
         0 \<le> row_startMs r"
proof -
  note shape = build_rows_shape [OF assms]
  have start: "row_startMs r = startTimeUnixNano (row_span r) / 10 ^ 6 - traceStart (spans t)"
    by (subst conjunct2 [OF shape]) simp
  have "spans t \<noteq> []" using shape by auto
  moreover have "Min (startTimeUnixNano ` set (spans t)) \<le> startTimeUnixNano (row_span r)"
    using shape by simp
  ultimately show ?thesis
    unfolding start by (simp add: traceStart_Min diff_divide_distrib divide_right_mono)
qed

theorem row_start_offset_witness:
  "0 \<le> row_startMs (mk_row 0 (sample_span ''r'' [] 0) 0)"
proof -
  have "buildSpanRows 1 (sample_trace [sample_span ''r'' [] 0]) = Some [mk_row 0 (sample_span ''r'' [] 0) 0]"
    by code_simp
  from row_start_offset [OF this] show ?thesis by simp
qed

text \<open>
  Without the guarantee on span ids the recursion has no end: a trace in which a
  second span carries the root's id and names that id as its parent makes \<open>visit\<close> descend
  for ever, so that no fuel suffices.
\<close>

theorem duplicate_id_never_returns:
  "buildSpanRows fuel (sample_trace [sample_span ''x'' [] 0, sample_span ''x'' ''x'' 1]) = None"
proof -
  let ?ss = "[sample_span ''x'' [] 0, sample_span ''x'' ''x'' 1]"
  have "find is_root ?ss = Some (sample_span ''x'' [] 0)"
    by (simp add: is_root_def sample_span_def)
  moreover have "visit fuel ?ss t0 (sample_span ''x'' [] 0) 0 = None" for t0
    by (rule visit_self_parent [of "sample_span ''x'' ''x'' 1"]) (simp_all add: sample_span_def)
  ultimately show ?thesis
    by (simp add: buildSpanRows_def visited_rows_def sample_trace_def)
qed

end
