(* ===== verification/Client.thy ===== *)
theory Client
  imports Types
begin

text \<open>
  \<open>web/src/api/client.ts\<close>: the HTTP client. \<open>fetchJSON\<close> is a state machine over what
  the browser can do to it: the caller's abort signal, the timeout timer, the promise of
  \<open>fetch\<close> and the promises that read a body. The endpoint functions are the URLs and
  options they pass to it. \<open>fetch\<close>, timers, \<open>AbortController\<close> and \<open>Headers\<close> are the web
  platform's; what the code uses of them is written out here: an aborted \<open>fetch\<close> rejects
  with the abort reason, and so does an aborted read of a body.
\<close>

section \<open>Definitions\<close>

subsection \<open>Configuration and headers\<close>

definition DEFAULT_TIMEOUT_MS :: num where
  "DEFAULT_TIMEOUT_MS = 15000"

text \<open>\<open>import.meta.env.X?.trim() ?? ''\<close>\<close>

definition env_value :: "string option \<Rightarrow> string" where
  "env_value v = (case v of None \<Rightarrow> [] | Some s \<Rightarrow> trim s)"

record client_env =
  API_TOKEN :: string
  TENANT_ID :: string

text \<open>Header names are case-insensitive: the key is the lower-case name.\<close>

type_synonym headers = "string \<rightharpoonup> string"

record request_options =
  ro_timeoutMs :: "num option"
  ro_allowedStatuses :: "int list option"
  ro_headers :: headers
  ro_method :: "string option"
  ro_body :: "string option"

definition no_options :: request_options where
  "no_options = \<lparr>ro_timeoutMs = None, ro_allowedStatuses = None, ro_headers = Map.empty,
     ro_method = None, ro_body = None\<rparr>"

text \<open>The headers \<open>fetchJSON\<close> sends: the caller's, completed by token and tenant.\<close>

definition request_headers :: "client_env \<Rightarrow> headers \<Rightarrow> headers" where
  "request_headers env hs =
     (let h1 = (if API_TOKEN env \<noteq> [] \<and> hs ''authorization'' = None
                then hs(''authorization'' \<mapsto> ''Bearer '' @ API_TOKEN env) else hs)
      in if TENANT_ID env \<noteq> [] \<and> h1 ''x-tenant-id'' = None
         then h1(''x-tenant-id'' \<mapsto> TENANT_ID env) else h1)"

subsection \<open>Error messages\<close>

record Response =
  res_status :: int
  res_statusText :: string
  res_contentType :: "string option"

definition res_ok :: "Response \<Rightarrow> bool" where
  "res_ok r \<longleftrightarrow> 200 \<le> res_status r \<and> res_status r \<le> 299"

text \<open>
  \<open>payload.error ?? payload.message\<close>; \<^term>\<open>None\<close> also where reading a property of
  \<open>null\<close> throws, which the surrounding \<open>try\<close> turns into the same fallback.
\<close>

fun error_detail :: "json \<Rightarrow> json option" where
  "error_detail (JObj fs) =
     (case jget fs ''error'' of
        Some v \<Rightarrow> (if v \<noteq> JNull then Some v else jget fs ''message'')
      | None \<Rightarrow> jget fs ''message'')"
| "error_detail _ = None"

definition http_message :: "Response \<Rightarrow> string \<Rightarrow> string" where
  "http_message r detail = ''HTTP '' @ int_str (res_status r) @ '': '' @ detail"

text \<open>
  \<open>as_json\<close> and \<open>as_text\<close> are what \<open>res.json()\<close> and \<open>res.text()\<close> resolve to, \<^term>\<open>None\<close>
  when they reject; the code reads only one of them.
\<close>

definition buildErrorMessage :: "Response \<Rightarrow> json option \<Rightarrow> string option \<Rightarrow> string" where
  "buildErrorMessage r as_json as_text =
     (let contentType = (case res_contentType r of None \<Rightarrow> [] | Some c \<Rightarrow> c);
          fallback = http_message r (res_statusText r)
      in if js_includes contentType ''application/json''
         then (case Option.bind as_json error_detail of
                 Some d \<Rightarrow> if json_truthy d then http_message r (json_str d) else fallback
               | None \<Rightarrow> fallback)
         else (case map_option trim as_text of
                 Some t \<Rightarrow> if t \<noteq> [] then http_message r t else fallback
               | None \<Rightarrow> fallback))"

subsection \<open>One request\<close>

datatype outcome = Succeeded json | Failed failure

datatype fetch_phase = Fetching | ReadingError Response | ReadingBody | Settled outcome

text \<open>
  \<open>timer\<close>: the timeout is armed. \<open>listener\<close>: the caller's signal still reaches the
  request. \<open>abort_reason\<close>: what the request's own controller was aborted with.
\<close>

record fetch_state =
  phase :: fetch_phase
  timer :: bool
  listener :: bool
  abort_reason :: "failure option"
  abortedByTimeout :: bool

datatype caller_signal = NoSignal | LiveSignal | AbortedSignal string

record fetch_config =
  timeoutMs :: num
  allowedStatuses :: "int list"

definition fetch_config_of :: "request_options \<Rightarrow> fetch_config" where
  "fetch_config_of opts =
     \<lparr>timeoutMs = (case ro_timeoutMs opts of None \<Rightarrow> DEFAULT_TIMEOUT_MS | Some t \<Rightarrow> t),
      allowedStatuses = (case ro_allowedStatuses opts of None \<Rightarrow> [] | Some l \<Rightarrow> l)\<rparr>"

definition timeout_message :: "fetch_config \<Rightarrow> string" where
  "timeout_message cfg = ''Request timed out after '' @ num_str (timeoutMs cfg) @ ''ms''"

text \<open>\<open>withTimeoutSignal\<close> sets the timer and, unless the signal is aborted already, the listener.\<close>

definition withTimeoutSignal :: "caller_signal \<Rightarrow> fetch_state" where
  "withTimeoutSignal sig =
     \<lparr>phase = Fetching, timer = True, listener = (sig = LiveSignal),
      abort_reason = (case sig of AbortedSignal m \<Rightarrow> Some (AbortError m) | _ \<Rightarrow> None),
      abortedByTimeout = False\<rparr>"

datatype net_event =
    CallerAborts string
  | TimerFires
  | FetchFails failure
  | HeadersArrive Response
  | ErrorBodyRead "json option" "string option"
  | BodyParsed json
  | BodyFails failure

text \<open>A controller keeps the reason of its first abort.\<close>

definition abort_with :: "failure \<Rightarrow> fetch_state \<Rightarrow> fetch_state" where
  "abort_with e s = s\<lparr>abort_reason := (case abort_reason s of None \<Rightarrow> Some e | Some a \<Rightarrow> Some a)\<rparr>"

definition cleanup :: "fetch_state \<Rightarrow> fetch_state" where
  "cleanup s = s\<lparr>timer := False, listener := False\<rparr>"

text \<open>The \<open>catch\<close> and \<open>finally\<close> of \<open>fetchJSON\<close>.\<close>

definition throw_out :: "fetch_config \<Rightarrow> failure \<Rightarrow> fetch_state \<Rightarrow> fetch_state" where
  "throw_out cfg e s =
     cleanup (s\<lparr>phase := Settled (Failed
       (if abortedByTimeout s then ErrorObj (timeout_message cfg) else e))\<rparr>)"

text \<open>
  What each event does; events that do not concern the phase do nothing. \<open>return
  res.json()\<close> is not awaited inside the \<open>try\<close>: the \<open>finally\<close> runs as soon as the headers
  are accepted, and what happens to the body no longer passes through the \<open>catch\<close>.
\<close>

fun fetch_event :: "fetch_config \<Rightarrow> fetch_state \<Rightarrow> net_event \<Rightarrow> fetch_state" where
  "fetch_event cfg s (CallerAborts m) =
     (if listener s then abort_with (AbortError m) (s\<lparr>listener := False\<rparr>) else s)"
| "fetch_event cfg s TimerFires =
     (if timer s
      then abort_with (ErrorObj (timeout_message cfg)) (s\<lparr>timer := False, abortedByTimeout := True\<rparr>)
      else s)"
| "fetch_event cfg s (FetchFails e) =
     (case phase s of Fetching \<Rightarrow> throw_out cfg e s | _ \<Rightarrow> s)"
| "fetch_event cfg s (HeadersArrive r) =
     (case phase s of
        Fetching \<Rightarrow>
          (if \<not> res_ok r \<and> res_status r \<notin> set (allowedStatuses cfg)
           then s\<lparr>phase := ReadingError r\<rparr>
           else cleanup (s\<lparr>phase := ReadingBody\<rparr>))
      | _ \<Rightarrow> s)"
| "fetch_event cfg s (ErrorBodyRead j t) =
     (case phase s of
        ReadingError r \<Rightarrow> throw_out cfg (ErrorObj (buildErrorMessage r j t)) s
      | _ \<Rightarrow> s)"
| "fetch_event cfg s (BodyParsed j) =
     (case phase s of ReadingBody \<Rightarrow> s\<lparr>phase := Settled (Succeeded j)\<rparr> | _ \<Rightarrow> s)"
| "fetch_event cfg s (BodyFails e) =
     (case phase s of ReadingBody \<Rightarrow> s\<lparr>phase := Settled (Failed e)\<rparr> | _ \<Rightarrow> s)"

text \<open>
  What the platform does: no response once the request is aborted, an aborted \<open>fetch\<close>
  rejects with the abort reason, an aborted read of the body rejects.
\<close>

fun platform_allows :: "fetch_state \<Rightarrow> net_event \<Rightarrow> bool" where
  "platform_allows s (HeadersArrive r) = (abort_reason s = None)"
| "platform_allows s (FetchFails e) = (abort_reason s \<in> {None, Some e})"
| "platform_allows s (ErrorBodyRead j t) = (abort_reason s = None \<or> j = None \<and> t = None)"
| "platform_allows s e = True"

inductive fetch_reaches :: "fetch_config \<Rightarrow> fetch_state \<Rightarrow> fetch_state \<Rightarrow> bool" for cfg where
  fetch_start: "fetch_reaches cfg s s"
| fetch_step: "fetch_reaches cfg s t \<Longrightarrow> platform_allows t e \<Longrightarrow>
    fetch_reaches cfg s (fetch_event cfg t e)"

fun fetch_run :: "fetch_config \<Rightarrow> fetch_state \<Rightarrow> net_event list \<Rightarrow> fetch_state" where
  "fetch_run cfg s [] = s"
| "fetch_run cfg s (e # es) = fetch_run cfg (fetch_event cfg s e) es"

subsection \<open>URLs\<close>

definition hex_digit :: "nat \<Rightarrow> char" where
  "hex_digit n = ''0123456789ABCDEF'' ! (n mod 16)"

definition percent :: "nat \<Rightarrow> string" where
  "percent b = [CHR ''%'', hex_digit (b div 16), hex_digit (b mod 16)]"

text \<open>The UTF-8 bytes of a Latin-1 character.\<close>

definition utf8 :: "char \<Rightarrow> nat list" where
  "utf8 c = (let n = of_char c in if n < 128 then [n] else [192 + n div 64, 128 + n mod 64])"

definition alnum :: "char \<Rightarrow> bool" where
  "alnum c \<longleftrightarrow> c \<in> set ''ABCDEFGHIJKLMNOPQRSTUVWXYZabcdefghijklmnopqrstuvwxyz0123456789''"

definition uri_char :: "char \<Rightarrow> string" where
  "uri_char c =
     (if alnum c \<or> c \<in> set ''-_.!~*()'' \<or> c = CHR 0x27 then [c] else concat (map percent (utf8 c)))"

definition encodeURIComponent :: "string \<Rightarrow> string" where
  "encodeURIComponent s = concat (map uri_char s)"

definition form_char :: "char \<Rightarrow> string" where
  "form_char c =
     (if alnum c \<or> c \<in> set ''*-._'' then [c]
      else if c = CHR '' '' then ''+'' else concat (map percent (utf8 c)))"

definition form_encode :: "string \<Rightarrow> string" where
  "form_encode s = concat (map form_char s)"

text \<open>\<open>URLSearchParams\<close>: \<open>has\<close>, \<open>set\<close> and \<open>toString\<close>.\<close>

definition qs_has :: "string \<Rightarrow> (string \<times> string) list \<Rightarrow> bool" where
  "qs_has k ps \<longleftrightarrow> k \<in> fst ` set ps"

fun qs_set :: "string \<Rightarrow> string \<Rightarrow> (string \<times> string) list \<Rightarrow> (string \<times> string) list" where
  "qs_set k v [] = [(k, v)]"
| "qs_set k v (p # ps) =
     (if fst p = k then (k, v) # filter (\<lambda>q. fst q \<noteq> k) ps else p # qs_set k v ps)"

fun qs_string :: "(string \<times> string) list \<Rightarrow> string" where
  "qs_string [] = []"
| "qs_string [(k, v)] = form_encode k @ ''='' @ form_encode v"
| "qs_string ((k, v) # p # ps) = form_encode k @ ''='' @ form_encode v @ ''&'' @ qs_string (p # ps)"

definition query_suffix :: "(string \<times> string) list \<Rightarrow> string" where
  "query_suffix ps = (if qs_string ps \<noteq> [] then ''?'' @ qs_string ps else [])"

text \<open>\<open>buildSSEURL\<close>, for a path with the query \<open>ps\<close>.\<close>

definition buildSSEURL :: "client_env \<Rightarrow> string \<Rightarrow> (string \<times> string) list \<Rightarrow> string" where
  "buildSSEURL env path ps =
     (let p1 = (if API_TOKEN env \<noteq> [] \<and> \<not> qs_has ''apiKey'' ps
                then qs_set ''apiKey'' (API_TOKEN env) ps else ps);
          p2 = (if TENANT_ID env \<noteq> [] \<and> \<not> qs_has ''tenantId'' p1
                then qs_set ''tenantId'' (TENANT_ID env) p1 else p1)
      in path @ query_suffix p2)"

subsection \<open>Endpoints\<close>

datatype param = PStr string | PNum num | PBool bool

fun param_str :: "param \<Rightarrow> string" where
  "param_str (PStr s) = s"
| "param_str (PNum x) = num_str x"
| "param_str (PBool b) = bool_str b"

text \<open>The loop over \<open>Object.entries(params)\<close>, which skips \<open>undefined\<close>.\<close>

fun set_params :: "(string \<times> param option) list \<Rightarrow> (string \<times> string) list \<Rightarrow> (string \<times> string) list" where
  "set_params [] qs = qs"
| "set_params ((k, v) # ps) qs =
     set_params ps (case v of None \<Rightarrow> qs | Some p \<Rightarrow> qs_set k (param_str p) qs)"

definition getTraces_url :: "(string \<times> param option) list \<Rightarrow> string" where
  "getTraces_url params = ''/api/v1/traces'' @ query_suffix (set_params params [])"

definition getTrace_url :: "string \<Rightarrow> string" where
  "getTrace_url i = ''/api/v1/traces/'' @ i"

definition getServices_url :: string where
  "getServices_url = ''/api/v1/services''"

definition getOperations_url :: "string \<Rightarrow> string" where
  "getOperations_url svc = ''/api/v1/operations?service='' @ encodeURIComponent svc"

definition getDependencies_url :: string where
  "getDependencies_url = ''/api/v1/dependencies''"

definition getMetrics_url :: string where
  "getMetrics_url = ''/api/v1/metrics/red''"

definition getSampler_url :: string where
  "getSampler_url = ''/api/v1/sampler''"

text \<open>\<open>putSampler\<close>: the options \<open>{...options, method, headers, body}\<close>; \<open>body\<close> is the JSON text.\<close>

definition putSampler_options :: "string \<Rightarrow> request_options \<Rightarrow> request_options" where
  "putSampler_options body opts =
     opts\<lparr>ro_method := Some ''PUT'',
          ro_headers := (ro_headers opts)(''content-type'' \<mapsto> ''application/json''),
          ro_body := Some body\<rparr>"

definition compareTraces_url :: "string \<Rightarrow> string \<Rightarrow> string" where
  "compareTraces_url baseId compareId =
     ''/api/v1/traces/compare?base='' @ baseId @ ''&compare='' @ compareId"

definition getConfig_url :: string where
  "getConfig_url = ''/api/v1/config''"

definition getHeatmap_url :: "string option \<Rightarrow> string" where
  "getHeatmap_url svc =
     ''/api/v1/metrics/heatmap'' @
     (case svc of
        None \<Rightarrow> []
      | Some s \<Rightarrow> if s \<noteq> [] then ''?service='' @ encodeURIComponent s else [])"

definition getAnomalies_url :: "num option \<Rightarrow> string" where
  "getAnomalies_url z =
     ''/api/v1/metrics/anomalies'' @ (case z of None \<Rightarrow> [] | Some x \<Rightarrow> ''?z='' @ num_str x)"

definition getSLOs_url :: "num option \<Rightarrow> string" where
  "getSLOs_url target =
     ''/api/v1/metrics/slo'' @ (case target of None \<Rightarrow> [] | Some x \<Rightarrow> ''?target='' @ num_str x)"

definition getReadyz_options :: "request_options \<Rightarrow> request_options" where
  "getReadyz_options opts = opts\<lparr>ro_allowedStatuses := Some [503]\<rparr>"

section \<open>Lemmas\<close>

named_theorems fetch_simps "the request machine"

lemmas fetch_defs [fetch_simps] = abort_with_def cleanup_def throw_out_def

fun request_ok :: "fetch_config \<Rightarrow> fetch_state \<Rightarrow> bool" where
  "request_ok cfg s =
     ((abortedByTimeout s \<longrightarrow> abort_reason s \<noteq> None) \<and>
      (case phase s of
         Fetching \<Rightarrow> True
       | ReadingError r \<Rightarrow> True
       | ReadingBody \<Rightarrow> \<not> abortedByTimeout s \<and> \<not> timer s \<and> \<not> listener s
       | Settled (Succeeded j) \<Rightarrow> \<not> abortedByTimeout s \<and> \<not> timer s \<and> \<not> listener s
       | Settled (Failed e) \<Rightarrow>
           (abortedByTimeout s \<longrightarrow> e = ErrorObj (timeout_message cfg)) \<and> \<not> timer s \<and> \<not> listener s))"

lemma request_ok_start: "request_ok cfg (withTimeoutSignal sig)"
  by (simp add: withTimeoutSignal_def)

lemma request_ok_event:
  "request_ok cfg s \<Longrightarrow> platform_allows s e \<Longrightarrow> request_ok cfg (fetch_event cfg s e)"
  by (cases e) (auto simp: fetch_simps split: fetch_phase.splits outcome.splits option.splits)

lemma request_ok_reaches:
  "fetch_reaches cfg s t \<Longrightarrow> request_ok cfg s \<Longrightarrow> request_ok cfg t"
  by (induction rule: fetch_reaches.induct) (auto intro: request_ok_event simp del: request_ok.simps)

lemma settled_final: "phase s = Settled o' \<Longrightarrow> phase (fetch_event cfg s e) = Settled o'"
  by (cases e) (auto simp: fetch_simps)

lemma settled_final_run: "phase s = Settled o' \<Longrightarrow> phase (fetch_run cfg s es) = Settled o'"
  by (induction es arbitrary: s) (simp_all add: settled_final)

lemma next_phase:
  assumes "phase s = Fetching \<or> (\<exists>r. phase s = ReadingError r)"
  shows "(phase (fetch_event cfg s e) = Fetching \<or> (\<exists>r. phase (fetch_event cfg s e) = ReadingError r)) \<or>
    (\<exists>r. e = HeadersArrive r \<and> (res_ok r \<or> res_status r \<in> set (allowedStatuses cfg))) \<or>
    (\<exists>x. phase (fetch_event cfg s e) = Settled (Failed x))"
proof (cases e)
  case (HeadersArrive r)
  with assms show ?thesis
    by (cases "res_ok r \<or> res_status r \<in> set (allowedStatuses cfg)") auto
qed (use assms in \<open>auto simp: fetch_simps\<close>)

lemma success_needs_headers:
  "phase (fetch_run cfg s es) = Settled (Succeeded j) \<Longrightarrow>
   phase s = Fetching \<or> (\<exists>r. phase s = ReadingError r) \<Longrightarrow>
   \<exists>r. HeadersArrive r \<in> set es \<and> (res_ok r \<or> res_status r \<in> set (allowedStatuses cfg))"
proof (induction es arbitrary: s)
  case Nil
  then show ?case by auto
next
  case (Cons e es)
  let ?t = "fetch_event cfg s e"
  consider "phase ?t = Fetching \<or> (\<exists>r. phase ?t = ReadingError r)"
    | r where "e = HeadersArrive r" "res_ok r \<or> res_status r \<in> set (allowedStatuses cfg)"
    | x where "phase ?t = Settled (Failed x)"
    using Cons.prems(2)
    using next_phase [of s cfg e] by blast
  then show ?case
  proof cases
    case 1
    with Cons show ?thesis by fastforce
  next
    case 2
    then show ?thesis by auto
  next
    case 3
    with Cons.prems(1) settled_final_run [OF 3, of cfg es] show ?thesis by simp
  qed
qed

subsection \<open>Percent encoding\<close>

lemma hex_digit_inj: "m < 16 \<Longrightarrow> n < 16 \<Longrightarrow> hex_digit m = hex_digit n \<longleftrightarrow> m = n"
proof -
  assume mn: "m < 16" "n < 16"
  have "distinct ''0123456789ABCDEF''" and len: "length ''0123456789ABCDEF'' = 16" by simp_all
  then have "''0123456789ABCDEF'' ! m = ''0123456789ABCDEF'' ! n \<longleftrightarrow> m = n"
    using mn by (intro nth_eq_iff_index_eq) (simp_all only: len)
  with mn show ?thesis by (simp add: hex_digit_def)
qed

lemma percent_append_iff:
  assumes "b < 256" and "c < 256"
  shows "percent b @ xs = percent c @ ys \<longleftrightarrow> b = c \<and> xs = ys"
proof -
  have "b div 16 = c div 16 \<and> b mod 16 = c mod 16 \<longleftrightarrow> b = c"
    by (metis div_mult_mod_eq)
  with assms show ?thesis by (auto simp: percent_def hex_digit_inj less_mult_imp_div_less)
qed

lemma of_char_less: "(of_char c :: nat) < 256"
  by (metis of_char_mod_256 mod_less_divisor zero_less_numeral)

lemma utf8_cancel:
  "concat (map percent (utf8 c)) @ xs = concat (map percent (utf8 d)) @ ys \<longleftrightarrow> c = d \<and> xs = ys"
proof -
  define m n :: nat where "m = of_char c" and "n = of_char d"
  have mn: "m < 256" "n < 256" and iff: "c = d \<longleftrightarrow> m = n"
    using of_char_less by (simp_all add: m_def n_def)
  have div: "m div 64 = n div 64 \<and> m mod 64 = n mod 64 \<longleftrightarrow> m = n"
    by (metis div_mult_mod_eq)
  have "m div 64 < 4" "n div 64 < 4" using mn by (simp_all add: less_mult_imp_div_less)
  then show ?thesis
    using mn div
    by (auto simp: utf8_def Let_def percent_append_iff iff simp flip: m_def n_def)
qed

lemma uri_char_cancel: "uri_char c @ xs = uri_char d @ ys \<longleftrightarrow> c = d \<and> xs = ys"
proof -
  have esc: "\<exists>zs. concat (map percent (utf8 c)) @ xs = CHR ''%'' # zs" for c xs
    by (auto simp: utf8_def Let_def percent_def)
  have lit: "c \<noteq> CHR ''%''" if "alnum c \<or> c \<in> set ''-_.!~*()'' \<or> c = CHR 0x27" for c
    using that by (auto simp: alnum_def)
  define lit_char where "lit_char c \<longleftrightarrow> alnum c \<or> c \<in> set ''-_.!~*()'' \<or> c = CHR 0x27" for c
  have uri: "uri_char c = (if lit_char c then [c] else concat (map percent (utf8 c)))" for c
    by (simp add: uri_char_def lit_char_def)
  have pct: "c \<noteq> CHR ''%''" if "lit_char c" for c
    using that unfolding lit_char_def by (rule lit)
  have mixed: "[c] @ xs \<noteq> concat (map percent (utf8 d)) @ ys" if "lit_char c" for c d xs ys
    using esc [of d ys] pct [OF that] by auto
  show ?thesis
    using mixed mixed [symmetric] utf8_cancel
    by (cases "lit_char c"; cases "lit_char d") (auto simp only: uri if_True if_False append.simps list.inject)
qed

lemma uri_char_not_Nil: "uri_char c \<noteq> []"
  by (auto simp: uri_char_def utf8_def Let_def percent_def)

lemma encodeURIComponent_inj: "encodeURIComponent s = encodeURIComponent t \<longleftrightarrow> s = t"
proof -
  have "concat (map uri_char s) = concat (map uri_char t) \<Longrightarrow> s = t"
  proof (induction s arbitrary: t)
    case Nil
    then show ?case by (cases t) (auto simp: uri_char_not_Nil)
  next
    case (Cons c s)
    then show ?case by (cases t) (auto simp: uri_char_not_Nil uri_char_cancel)
  qed
  then show ?thesis by (auto simp: encodeURIComponent_def)
qed

lemma encodeURIComponent_safe:
  "set (encodeURIComponent s) \<inter> {CHR ''&'', CHR ''='', CHR ''?'', CHR ''#'', CHR ''/''} = {}"
proof -
  let ?S = "{CHR ''&'', CHR ''='', CHR ''?'', CHR ''#'', CHR ''/''}"
  have hex: "hex_digit n \<notin> ?S" for n
  proof -
    have "hex_digit n \<in> set ''0123456789ABCDEF''" unfolding hex_digit_def by (rule nth_mem) simp
    then show ?thesis by auto
  qed
  have "x \<notin> ?S" if "x \<in> set (percent b)" for x b
    using that hex [of "b div 16"] hex [of "b mod 16"] unfolding percent_def by fastforce
  then have esc: "x \<notin> ?S" if "x \<in> set (concat (map percent bs))" for x bs
    using that by auto
  have lit: "c \<notin> ?S" if "alnum c \<or> c \<in> set ''-_.!~*()'' \<or> c = CHR 0x27" for c
    using that by (auto simp: alnum_def)
  have "x \<notin> ?S" if "x \<in> set (uri_char c)" for x c
    using that esc lit unfolding uri_char_def by (auto simp only: split: if_splits) auto
  then show ?thesis unfolding encodeURIComponent_def by fastforce
qed

section \<open>Properties\<close>

text \<open>
  C34. A request that times out before its headers are accepted fails with the timeout
  message, whatever error the browser reports for the aborted call.
\<close>

theorem timeout_is_reported:
  assumes "fetch_reaches cfg (withTimeoutSignal sig) s" and "abortedByTimeout s"
    and "phase s = Settled r"
  shows "r = Failed (ErrorObj (timeout_message cfg))"
  using request_ok_reaches [OF assms(1) request_ok_start] assms(2,3)
  by (cases r) auto

theorem timeout_is_reported_witness:
  "phase (fetch_run \<lparr>timeoutMs = 5, allowedStatuses = []\<rparr> (withTimeoutSignal NoSignal)
     [TimerFires, FetchFails (ErrorObj ''Request timed out after 5ms'')])
   = Settled (Failed (ErrorObj ''Request timed out after 5ms''))"
proof -
  let ?cfg = "\<lparr>timeoutMs = 5, allowedStatuses = []\<rparr>"
  let ?e = "ErrorObj ''Request timed out after 5ms''"
  let ?s0 = "withTimeoutSignal NoSignal"
  let ?s1 = "fetch_event ?cfg ?s0 TimerFires"
  let ?s2 = "fetch_event ?cfg ?s1 (FetchFails ?e)"
  have msg: "timeout_message ?cfg = ''Request timed out after 5ms''" by code_simp
  have r1: "fetch_reaches ?cfg ?s0 ?s1" by (rule fetch_step [OF fetch_start]) simp
  have r2: "fetch_reaches ?cfg ?s0 ?s2"
    by (rule fetch_step [OF r1]) (simp add: withTimeoutSignal_def abort_with_def msg)
  have s2: "abortedByTimeout ?s2" "phase ?s2 = Settled (Failed ?e)"
    by (simp_all add: withTimeoutSignal_def fetch_defs msg)
  from timeout_is_reported [OF r2 s2] s2 show ?thesis by simp
qed

text \<open>
  No request leaks its timer or its listener: once it is settled, or only its body is
  left to read, both are released.
\<close>

theorem request_releases_resources:
  assumes "fetch_reaches cfg (withTimeoutSignal sig) s"
    and "phase s = ReadingBody \<or> phase s = Settled r"
  shows "\<not> timer s \<and> \<not> listener s"
  using request_ok_reaches [OF assms(1) request_ok_start] assms(2)
  by (cases r) auto

theorem request_releases_resources_witness:
  "\<not> timer (fetch_event \<lparr>timeoutMs = 5, allowedStatuses = []\<rparr> (withTimeoutSignal LiveSignal)
      (FetchFails NotAnError))"
proof -
  let ?cfg = "\<lparr>timeoutMs = 5, allowedStatuses = []\<rparr>"
  let ?s = "fetch_event ?cfg (withTimeoutSignal LiveSignal) (FetchFails NotAnError)"
  have "fetch_reaches ?cfg (withTimeoutSignal LiveSignal) ?s"
    by (rule fetch_step [OF fetch_start]) (simp add: withTimeoutSignal_def)
  from request_releases_resources [OF this, of "Failed NotAnError"] show ?thesis
    by (simp add: withTimeoutSignal_def fetch_defs)
qed

text \<open>
  Only an accepted status resolves: a request that ends with a value has seen headers
  whose status is 2xx or one the caller allowed.
\<close>

theorem success_is_accepted:
  assumes "phase (fetch_run cfg (withTimeoutSignal sig) es) = Settled (Succeeded j)"
  shows "\<exists>r. HeadersArrive r \<in> set es \<and> (res_ok r \<or> res_status r \<in> set (allowedStatuses cfg))"
  by (rule success_needs_headers [OF assms]) (simp add: withTimeoutSignal_def)

theorem success_is_accepted_witness:
  "\<exists>r. HeadersArrive r \<in> set [HeadersArrive \<lparr>res_status = 503, res_statusText = [], res_contentType = None\<rparr>,
       BodyParsed JNull] \<and> (res_ok r \<or> res_status r \<in> {503})"
proof -
  let ?es = "[HeadersArrive \<lparr>res_status = 503, res_statusText = [], res_contentType = None\<rparr>, BodyParsed JNull]"
  have "phase (fetch_run (fetch_config_of (getReadyz_options no_options)) (withTimeoutSignal NoSignal) ?es)
      = Settled (Succeeded JNull)"
    by (simp add: withTimeoutSignal_def fetch_defs fetch_config_of_def getReadyz_options_def
        no_options_def res_ok_def)
  from success_is_accepted [OF this] show ?thesis
    by (simp add: fetch_config_of_def getReadyz_options_def no_options_def)
qed

text \<open>
  The body is read without a deadline: once the headers are accepted neither the
  timeout nor the caller's abort has any effect, however long the body takes.
\<close>

theorem body_read_has_no_deadline:
  assumes "fetch_reaches cfg (withTimeoutSignal sig) s" and "phase s = ReadingBody"
  shows "fetch_event cfg s TimerFires = s \<and> fetch_event cfg s (CallerAborts m) = s"
  using request_ok_reaches [OF assms(1) request_ok_start] assms(2) by simp

theorem body_read_has_no_deadline_witness:
  "fetch_event \<lparr>timeoutMs = 5, allowedStatuses = []\<rparr>
     \<lparr>phase = ReadingBody, timer = False, listener = False, abort_reason = None, abortedByTimeout = False\<rparr>
     (CallerAborts [])
   = \<lparr>phase = ReadingBody, timer = False, listener = False, abort_reason = None, abortedByTimeout = False\<rparr>"
proof -
  let ?cfg = "\<lparr>timeoutMs = 5, allowedStatuses = []\<rparr>"
  let ?s = "fetch_event ?cfg (withTimeoutSignal LiveSignal)
    (HeadersArrive \<lparr>res_status = 200, res_statusText = [], res_contentType = None\<rparr>)"
  have "fetch_reaches ?cfg (withTimeoutSignal LiveSignal) ?s"
    by (rule fetch_step [OF fetch_start]) (simp add: withTimeoutSignal_def)
  from body_read_has_no_deadline [OF this, of "[]"] show ?thesis
    by (simp add: withTimeoutSignal_def fetch_defs res_ok_def)
qed

text \<open>
  An abort is not always reported as one: when the caller aborts while the body of an
  error response is being read, the request fails with an ordinary error (the status
  line), which callers that ignore aborts will show.
\<close>

theorem abort_during_error_body:
  "\<exists>s. fetch_reaches (fetch_config_of no_options) (withTimeoutSignal LiveSignal) s \<and>
     \<not> abortedByTimeout s \<and> abort_reason s = Some (AbortError m) \<and>
     phase s = Settled (Failed (ErrorObj ''HTTP 500: Internal Server Error''))"
proof -
  let ?cfg = "fetch_config_of no_options" and ?s0 = "withTimeoutSignal LiveSignal"
  let ?r = "\<lparr>res_status = 500, res_statusText = ''Internal Server Error'', res_contentType = None\<rparr>"
  let ?s1 = "fetch_event ?cfg ?s0 (HeadersArrive ?r)"
  let ?s2 = "fetch_event ?cfg ?s1 (CallerAborts m)"
  let ?s3 = "fetch_event ?cfg ?s2 (ErrorBodyRead None None)"
  note eval = withTimeoutSignal_def fetch_defs fetch_config_of_def no_options_def res_ok_def
  have "fetch_reaches ?cfg ?s0 ?s1" by (rule fetch_step [OF fetch_start]) (simp add: eval)
  then have "fetch_reaches ?cfg ?s0 ?s2" by (rule fetch_step) simp
  then have "fetch_reaches ?cfg ?s0 ?s3" by (rule fetch_step) simp
  moreover have "buildErrorMessage ?r None None = ''HTTP 500: Internal Server Error''"
    by code_simp
  ultimately show ?thesis by (intro exI [of _ ?s3]) (simp add: eval)
qed

text \<open>
  Service names are encoded so that each has its own URL, and none can add a
  parameter or leave the query.
\<close>

theorem operations_url_faithful:
  "(getOperations_url s = getOperations_url t \<longleftrightarrow> s = t) \<and>
   set (encodeURIComponent s) \<inter> {CHR ''&'', CHR ''='', CHR ''?'', CHR ''#'', CHR ''/''} = {}"
  by (simp only: getOperations_url_def encodeURIComponent_inj encodeURIComponent_safe
      same_append_eq simp_thms)

text \<open>
  Trace ids are not encoded: two different comparisons can have the same URL, so an id
  that contains a query separator makes the collector compare other traces.
\<close>

theorem compare_url_ambiguous:
  "\<exists>b c b' c'. (b, c) \<noteq> (b', c') \<and> compareTraces_url b c = compareTraces_url b' c'"
  by (rule exI [of _ "''a&compare=x''"], rule exI [of _ "''y''"],
      rule exI [of _ "''a''"], rule exI [of _ "''x&compare=y''"])
    (simp add: compareTraces_url_def)

end
