(* ===== verification/GoModel.thy ===== *)
theory GoModel
  imports Prelude "HOL-Library.Char_ord" "HOL-Library.List_Lexorder"
begin

text \<open>
  The data of the collector, \<open>internal/model\<close>: attributes, spans and assembled traces.

  A trace or span id is represented by the hexadecimal text its \<open>String\<close> prints (16 characters
  for the eight bytes of a span id), the zero id by the text of zeros. Strings are compared
  bytewise, as Go does: the lexicographic order of the imported theories. A time is the
  number of nanoseconds since the epoch, with the zero value of \<open>time.Time\<close> as the instant
  \<open>zero_time\<close>; a duration is a number of nanoseconds that fits into 64 bits.

  A pointer to a span of a trace is the span's index in the trace's list of spans.
\<close>

section \<open>Definitions\<close>

subsection \<open>Ids and times\<close>

definition ZeroSpanID :: string where
  "ZeroSpanID = replicate 16 (CHR ''0'')"

definition zero_time :: int where
  "zero_time = - 62135596800 * 10 ^ 9"

text \<open>\<open>t.Sub(u)\<close> saturates.\<close>

definition go_sub :: "int \<Rightarrow> int \<Rightarrow> int" where
  "go_sub t u = max (- (2 ^ 63)) (min (2 ^ 63 - 1) (t - u))"

text \<open>Sums and products of durations wrap around at 64 bits.\<close>

definition wrap64 :: "int \<Rightarrow> int" where
  "wrap64 z = (z + 2 ^ 63) mod 2 ^ 64 - 2 ^ 63"

lemma wrap64_id: "\<bar>z\<bar> < 2 ^ 63 \<Longrightarrow> wrap64 z = z"
  by (simp add: wrap64_def)

subsection \<open>Attributes\<close>

datatype value_type = ValueString | ValueInt | ValueFloat | ValueBool | ValueStringSlice

record key_value =
  kv_key :: string
  kv_type :: value_type
  kv_sval :: string
  kv_ival :: int
  kv_fval :: num
  kv_bval :: bool
  kv_sarr :: "string list"

definition StringKV :: "string \<Rightarrow> string \<Rightarrow> key_value" where
  "StringKV k v = \<lparr>kv_key = k, kv_type = ValueString, kv_sval = v, kv_ival = 0, kv_fval = 0,
     kv_bval = False, kv_sarr = []\<rparr>"

definition IntKV :: "string \<Rightarrow> int \<Rightarrow> key_value" where
  "IntKV k v = \<lparr>kv_key = k, kv_type = ValueInt, kv_sval = [], kv_ival = v, kv_fval = 0,
     kv_bval = False, kv_sarr = []\<rparr>"

definition BoolKV :: "string \<Rightarrow> bool \<Rightarrow> key_value" where
  "BoolKV k v = \<lparr>kv_key = k, kv_type = ValueBool, kv_sval = [], kv_ival = 0, kv_fval = 0,
     kv_bval = v, kv_sarr = []\<rparr>"

definition FloatKV :: "string \<Rightarrow> num \<Rightarrow> key_value" where
  "FloatKV k v = \<lparr>kv_key = k, kv_type = ValueFloat, kv_sval = [], kv_ival = 0, kv_fval = v,
     kv_bval = False, kv_sarr = []\<rparr>"

subsection \<open>Spans\<close>

record span_event =
  se_time :: int
  se_name :: string
  se_attributes :: "key_value list"

record span_link =
  sl_traceID :: string
  sl_spanID :: string
  sl_traceState :: string
  sl_attributes :: "key_value list"

text \<open>
  The arrival time of a span and the completion time of a trace are recorded by the code and
  never read; they are left out.
\<close>

record go_span =
  gs_traceID :: string
  gs_spanID :: string
  gs_parentSpanID :: string
  gs_traceState :: string
  gs_tenantID :: string
  gs_name :: string
  gs_kind :: int
  gs_service :: string
  gs_serviceAttrs :: "(string \<times> string) list"
  gs_start :: int
  gs_end :: int
  gs_attributes :: "key_value list"
  gs_events :: "span_event list"
  gs_links :: "span_link list"
  gs_code :: int
  gs_message :: string
  gs_depth :: int
  gs_hasError :: bool
  gs_children :: "nat list"

definition gs_duration :: "go_span \<Rightarrow> int" where
  "gs_duration sp = go_sub (gs_end sp) (gs_start sp)"

definition gs_isRoot :: "go_span \<Rightarrow> bool" where
  "gs_isRoot sp \<longleftrightarrow> gs_parentSpanID sp = ZeroSpanID"

definition go_StatusError :: int where "go_StatusError = 2"
definition SpanKindClient :: int where "SpanKindClient = 3"

subsection \<open>Traces\<close>

record parallel_group =
  pg_spans :: "nat list"
  pg_start :: int
  pg_end :: int

record span_gap =
  sg_before :: nat
  sg_after :: nat
  sg_duration :: int

record go_trace =
  gt_traceID :: string
  gt_tenantID :: string
  gt_spans :: "go_span list"
  gt_root :: "nat option"
  gt_services :: "string list"
  gt_duration :: int
  gt_spanCount :: int
  gt_errorCount :: int
  gt_criticalPath :: "nat list"
  gt_parallelGroups :: "parallel_group list"
  gt_gaps :: "span_gap list"
  gt_receivedAt :: int

text \<open>\<open>trace.RootSpan\<close>, the span pointed to.\<close>

definition root_span :: "go_trace \<Rightarrow> go_span option" where
  "root_span tr = map_option (\<lambda>i. gt_spans tr ! i) (gt_root tr)"

subsection \<open>Samples for the witnesses\<close>

definition sample_go_span :: "string \<Rightarrow> string \<Rightarrow> string \<Rightarrow> int \<Rightarrow> go_span" where
  "sample_go_span i p svc t =
     \<lparr>gs_traceID = ''t'', gs_spanID = i, gs_parentSpanID = p, gs_traceState = [], gs_tenantID = [],
      gs_name = ''op'', gs_kind = 1, gs_service = svc, gs_serviceAttrs = [], gs_start = t, gs_end = t + 10, gs_attributes = [],
      gs_events = [], gs_links = [], gs_code = 0, gs_message = [], gs_depth = 0, gs_hasError = False,
      gs_children = []\<rparr>"

definition sample_go_trace :: "string \<Rightarrow> go_span list \<Rightarrow> int \<Rightarrow> go_trace" where
  "sample_go_trace i ss t =
     \<lparr>gt_traceID = i, gt_tenantID = [], gt_spans = ss, gt_root = None,
      gt_services = uniq (map gs_service ss), gt_duration = 5, gt_spanCount = int (length ss),
      gt_errorCount = 0, gt_criticalPath = [], gt_parallelGroups = [], gt_gaps = [], gt_receivedAt = t\<rparr>"

end
