(* ===== verification/TraceQuery.thy ===== *)
theory TraceQuery
  imports Client GoModel
begin

text \<open>
  What the collector does with a list request, for the pages that depend on the order it
  answers in: \<open>buildTraceQuery\<close> of \<open>api/handler_query.go\<close>, and the sorting and paging of
  \<open>MemoryStore.Query\<close> (\<open>internal/storage/memory.go\<close>) on the traces that passed the filters.
  Times are nanoseconds since the epoch, durations nanoseconds, both 64 bits wide in Go.
  \<open>sort.Slice\<close> need not be stable, so it is a parameter, with what its documentation says as
  the hypothesis \<open>go_sort\<close>.
\<close>

section \<open>Definitions\<close>

subsection \<open>buildTraceQuery\<close>

text \<open>\<open>strconv.ParseInt(s, 10, 64)\<close>, and \<open>Atoi\<close> on a 64-bit machine.\<close>

definition is_digit :: "char \<Rightarrow> bool" where
  "is_digit c \<longleftrightarrow> 48 \<le> (of_char c :: nat) \<and> (of_char c :: nat) \<le> 57"

definition digits_value :: "string \<Rightarrow> int" where
  "digits_value s = foldl (\<lambda>n c. 10 * n + (int (of_char c) - 48)) 0 s"

definition unsigned_int :: "string \<Rightarrow> int option" where
  "unsigned_int s = (if s \<noteq> [] \<and> list_all is_digit s then Some (digits_value s) else None)"

definition int64 :: "int \<Rightarrow> bool" where
  "int64 z \<longleftrightarrow> - (2 ^ 63) \<le> z \<and> z < 2 ^ 63"

definition signed_int :: "string \<Rightarrow> int option" where
  "signed_int s =
     (if s = [] then None
      else if hd s = CHR ''-'' then map_option uminus (unsigned_int (tl s))
      else if hd s = CHR ''+'' then unsigned_int (tl s)
      else unsigned_int s)"

definition parse_int :: "string \<Rightarrow> int option" where
  "parse_int s =
     (case signed_int s of None \<Rightarrow> None | Some z \<Rightarrow> if int64 z then Some z else None)"

record trace_query =
  q_tenant :: string
  q_service :: string
  q_operation :: string
  q_attr :: string
  q_minDuration :: "int option"
  q_maxDuration :: "int option"
  q_hasError :: "bool option"
  q_startTime :: "int option"
  q_endTime :: "int option"
  q_traceID :: "string option"
  q_limit :: int
  q_offset :: int
  q_sortBy :: string
  q_sortDesc :: bool

text \<open>\<open>r.URL.Query().Get(k)\<close>: the first value, or the empty string.\<close>

definition url_get :: "(string \<times> string) list \<Rightarrow> string \<Rightarrow> string" where
  "url_get ps k = (case map_of ps k of None \<Rightarrow> [] | Some v \<Rightarrow> v)"

definition buildTraceQuery :: "string \<Rightarrow> (string \<times> string) list \<Rightarrow> trace_query" where
  "buildTraceQuery tenant ps =
     (let get = url_get ps;
          millis = (\<lambda>k. map_option (\<lambda>z. wrap64 (z * 1000000)) (parse_int (get k)));
          instant = (\<lambda>k. map_option (\<lambda>z. z * 1000000) (parse_int (get k)));
          limit = (case parse_int (get ''limit'') of
              Some n \<Rightarrow> if n > 0 then (if n > 1000 then 1000 else n) else 20
            | None \<Rightarrow> 20)
      in \<lparr>q_tenant = tenant, q_service = get ''service'', q_operation = get ''operation'',
          q_attr = get ''attr'',
          q_minDuration = millis ''minDuration'', q_maxDuration = millis ''maxDuration'',
          q_hasError = (if get ''status'' = ''error'' then Some True else None),
          q_startTime = instant ''startTime'', q_endTime = instant ''endTime'', q_traceID = None,
          q_limit = limit,
          q_offset = (case parse_int (get ''offset'') of Some n \<Rightarrow> n | None \<Rightarrow> 0),
          q_sortBy = (if get ''sortBy'' = [] then ''receivedAt'' else get ''sortBy''),
          q_sortDesc = (if get ''sortBy'' = [] then True else get ''sortDesc'' = ''true'')\<rparr>)"

subsection \<open>Sorting and paging\<close>

type_synonym 'a go_sorter = "('a \<Rightarrow> 'a \<Rightarrow> bool) \<Rightarrow> 'a list \<Rightarrow> 'a list"

definition query_less :: "trace_query \<Rightarrow> go_trace \<Rightarrow> go_trace \<Rightarrow> bool" where
  "query_less q a b =
     (if q_sortBy q = ''duration'' then
        (if q_sortDesc q then gt_duration a > gt_duration b else gt_duration a < gt_duration b)
      else if q_sortBy q = ''spanCount'' then
        (if q_sortDesc q then gt_spanCount a > gt_spanCount b else gt_spanCount a < gt_spanCount b)
      else
        (if q_sortDesc q then gt_receivedAt a > gt_receivedAt b else gt_receivedAt a < gt_receivedAt b))"

record query_result =
  qr_traces :: "go_trace list"
  qr_total :: nat
  qr_hasMore :: bool

definition sort_and_page ::
  "go_trace go_sorter \<Rightarrow> trace_query \<Rightarrow> go_trace list \<Rightarrow> query_result" where
  "sort_and_page sort_slice q filtered =
     (let xs = sort_slice (query_less q) filtered;
          ys = (if q_offset q > 0 then
                  (if q_offset q \<ge> int (length xs) then [] else drop (nat (q_offset q)) xs)
                else xs);
          limit = (if q_limit q \<le> 0 then 100 else q_limit q)
      in if int (length ys) > limit
         then \<lparr>qr_traces = take (nat limit) ys, qr_total = length xs, qr_hasMore = True\<rparr>
         else \<lparr>qr_traces = ys, qr_total = length xs, qr_hasMore = False\<rparr>)"

text \<open>What \<open>sort.Slice\<close> promises for an order, and a sort that keeps the promise.\<close>

definition strict_weak :: "('a \<Rightarrow> 'a \<Rightarrow> bool) \<Rightarrow> bool" where
  "strict_weak lt \<longleftrightarrow>
     (\<forall>a b. lt a b \<longrightarrow> \<not> lt b a) \<and> (\<forall>a b c. lt a c \<longrightarrow> lt a b \<or> lt b c)"

definition go_sort :: "'a go_sorter \<Rightarrow> bool" where
  "go_sort sort_slice \<longleftrightarrow>
     (\<forall>lt xs. mset (sort_slice lt xs) = mset xs \<and>
        (strict_weak lt \<longrightarrow> sorted_wrt (\<lambda>a b. \<not> lt b a) (sort_slice lt xs)))"

definition insertion_sort :: "'a go_sorter" where
  "insertion_sort lt xs = js_sort (\<lambda>a b. if lt b a then 1 else 0) xs"

section \<open>Lemmas\<close>

lemma go_sort_insertion: "go_sort insertion_sort"
proof -
  have "sorted_wrt (\<lambda>a b. \<not> lt b a) (insertion_sort lt xs)" if "strict_weak lt"
    for lt :: "'a \<Rightarrow> 'a \<Rightarrow> bool" and xs
  proof -
    have "consistent_cmp (\<lambda>a b. if lt b a then 1 else 0 :: num)"
      using that by (auto simp: consistent_cmp_def strict_weak_def split: if_splits) metis+
    from sorted_js_sort [OF this, of xs] show ?thesis
      unfolding insertion_sort_def by (rule sorted_wrt_mono_rel [rotated]) (simp split: if_splits)
  qed
  then show ?thesis by (simp add: go_sort_def insertion_sort_def sort_simps)
qed

lemma strict_weak_query: "strict_weak (query_less q)"
  unfolding strict_weak_def query_less_def by auto

lemma go_sorted:
  assumes "go_sort sort_slice"
  shows "mset (sort_slice (query_less q) xs) = mset xs"
    and "sorted_wrt (\<lambda>a b. \<not> query_less q b a) (sort_slice (query_less q) xs)"
    and "length (sort_slice (query_less q) xs) = length xs"
  using assms strict_weak_query unfolding go_sort_def by (blast, blast, metis mset_eq_length)

text \<open>Numbers survive the trip: what the client prints, \<open>ParseInt\<close> reads.\<close>

lemma of_char_digit: "(of_char (digit d) :: nat) = 48 + d mod 10"
proof -
  have "\<forall>k < 10. (of_char (''0123456789'' ! k) :: nat) = 48 + k"
    by (simp add: numeral_eq_Suc All_less_Suc)
  then show ?thesis by (simp add: digit_def)
qed

lemma digits_value_snoc: "digits_value (s @ [c]) = 10 * digits_value s + (int (of_char c) - 48)"
  by (simp add: digits_value_def)

lemma digits_value_nat_str: "digits_value (nat_str n) = int n"
proof (induction n rule: nat_str.induct)
  case (1 n)
  show ?case
  proof (cases "n < 10")
    case True
    then show ?thesis by (subst nat_str.simps) (simp add: digits_value_def of_char_digit)
  next
    case False
    then have "digits_value (nat_str (n div 10)) = int (n div 10)" using 1 by simp
    with False show ?thesis
      by (subst nat_str.simps) (simp add: digits_value_snoc of_char_digit zmod_int zdiv_int)
  qed
qed

lemma digits_ok: "list_all is_digit (nat_str n)"
proof -
  have "\<forall>c \<in> set ''0123456789''. is_digit c" by (simp add: is_digit_def)
  with set_nat_str [of n] show ?thesis by (auto simp only: list_all_iff)
qed

lemma unsigned_int_nat_str: "unsigned_int (nat_str n) = Some (int n)"
  by (simp add: unsigned_int_def digits_ok digits_value_nat_str)

lemma parse_int_unsigned:
  assumes "list_all is_digit s"
  shows "parse_int s = (case unsigned_int s of Some z \<Rightarrow> if int64 z then Some z else None | None \<Rightarrow> None)"
proof (cases s)
  case (Cons c cs)
  then have "c \<noteq> CHR ''-''" "c \<noteq> CHR ''+''" using assms by (auto simp: is_digit_def)
  then show ?thesis by (simp add: parse_int_def signed_int_def Cons)
qed (simp add: parse_int_def signed_int_def unsigned_int_def)

lemma parse_int_str:
  assumes "int64 z"
  shows "parse_int (int_str z) = Some z"
proof (cases "z < 0")
  case True
  then show ?thesis
    using assms by (simp add: int_str_def parse_int_def signed_int_def unsigned_int_nat_str)
next
  case False
  then show ?thesis
    using assms by (simp add: int_str_def parse_int_unsigned [OF digits_ok] unsigned_int_nat_str)
qed

lemma parse_int_Nil [simp]: "parse_int [] = None"
  by (simp add: parse_int_def signed_int_def)

text \<open>The query parameters as a map.\<close>

lemma map_of_filter_other: "x \<noteq> k \<Longrightarrow> map_of (filter (\<lambda>q. fst q \<noteq> k) ps) x = map_of ps x"
  by (induction ps) auto

lemma map_of_qs_set: "map_of (qs_set k v ps) x = (if x = k then Some v else map_of ps x)"
  by (induction k v ps rule: qs_set.induct) (auto simp: map_of_filter_other)

lemma set_params_append: "set_params (xs @ ys) ps = set_params ys (set_params xs ps)"
  by (induction xs ps rule: set_params.induct) simp_all

text \<open>The first page: the answer comes before what it leaves out.\<close>

lemma first_page:
  assumes "go_sort sort_slice" and "q_offset q \<le> 0" and "0 < q_limit q"
  shows "\<exists>rest. mset stored = mset (qr_traces (sort_and_page sort_slice q stored)) + mset rest \<and>
           length (qr_traces (sort_and_page sort_slice q stored)) = min (nat (q_limit q)) (length stored) \<and>
           list_all (\<lambda>a. list_all (\<lambda>b. \<not> query_less q b a) rest)
             (qr_traces (sort_and_page sort_slice q stored))"
proof -
  let ?xs = "sort_slice (query_less q) stored" and ?n = "nat (q_limit q)"
  note s = go_sorted [OF assms(1), of q stored]
  have page: "qr_traces (sort_and_page sort_slice q stored) = take ?n ?xs"
    using assms(2,3) by (auto simp: sort_and_page_def Let_def)
  have "sorted_wrt (\<lambda>a b. \<not> query_less q b a) (take ?n ?xs @ drop ?n ?xs)" using s(2) by simp
  then have "list_all (\<lambda>a. list_all (\<lambda>b. \<not> query_less q b a) (drop ?n ?xs)) (take ?n ?xs)"
    by (auto simp only: sorted_wrt_append list_all_iff)
  moreover have "mset stored = mset (take ?n ?xs) + mset (drop ?n ?xs)"
    by (metis s(1) append_take_drop_id mset_append)
  moreover have "length (take ?n ?xs) = min ?n (length stored)" by (simp add: s(3))
  ultimately show ?thesis unfolding page by blast
qed

section \<open>Properties\<close>

text \<open>
  A request that names no order gets the newest traces: the answer has \<open>limit\<close> traces
  (20 when none is asked for, 1000 at most) or all, and none that it leaves out was received
  after one it holds.
\<close>

theorem default_query_is_newest:
  assumes "go_sort sort_slice" and "url_get ps ''sortBy'' = []" and "url_get ps ''offset'' = []"
  shows "let q = buildTraceQuery tenant ps; page = qr_traces (sort_and_page sort_slice q stored)
         in \<exists>rest. mset stored = mset page + mset rest \<and>
              length page = min (nat (q_limit q)) (length stored) \<and>
              list_all (\<lambda>a. list_all (\<lambda>b. gt_receivedAt b \<le> gt_receivedAt a) rest) page"
proof -
  let ?q = "buildTraceQuery tenant ps"
  have q: "q_offset ?q = 0" "0 < q_limit ?q" "q_sortBy ?q = ''receivedAt''" "q_sortDesc ?q"
    using assms(2,3) by (auto simp: buildTraceQuery_def Let_def split: option.splits)
  show ?thesis
    using first_page [OF assms(1) eq_refl [OF q(1)] q(2), of stored] q(3,4)
    by (simp add: query_less_def not_less Let_def)
qed

definition sample_stored :: "int \<Rightarrow> go_trace" where
  "sample_stored t = sample_go_trace (int_str t) [] t"

theorem default_query_is_newest_witness:
  "let page = qr_traces (sort_and_page insertion_sort (buildTraceQuery [] [(''limit'', ''2'')])
         (map sample_stored [10, 30, 20]))
   in length page = 2 \<and> \<not> list_all (\<lambda>a. gt_receivedAt a = 10) page"
proof -
  have "url_get [(''limit'', ''2'')] ''sortBy'' = []" "url_get [(''limit'', ''2'')] ''offset'' = []"
    "q_limit (buildTraceQuery [] [(''limit'', ''2'')]) = 2" by code_simp+
  moreover have "\<not> list_all (\<lambda>a. gt_receivedAt a = 10)
      (qr_traces (sort_and_page insertion_sort (buildTraceQuery [] [(''limit'', ''2'')])
         (map sample_stored [10, 30, 20])))" by code_simp
  ultimately show ?thesis
    using default_query_is_newest [OF go_sort_insertion, of "[(''limit'', ''2'')]" "[]" "map sample_stored [10, 30, 20]"]
    by (auto simp: Let_def)
qed

end
