(* ===== verification/SpanBuffer.thy ===== *)
theory SpanBuffer
  imports GoModel "HOL-Library.Mapping"
begin

text \<open>
  Lemmas on maps from trace ids to buffers of spans, which the assembler and the tail sampler
  both keep: the spans held by all the buffers of a map, and how adding to a buffer and removing one
  changes them.
\<close>

section \<open>Definitions\<close>

definition held :: "('b \<Rightarrow> go_span list) \<Rightarrow> (string, 'b) mapping \<Rightarrow> go_span multiset" where
  "held f m = (\<Sum>i \<in> Mapping.keys m. mset (f (the (Mapping.lookup m i))))"

text \<open>A non-empty list of spans of one trace.\<close>

definition one_trace :: "go_span list \<Rightarrow> bool" where
  "one_trace ss \<longleftrightarrow> ss \<noteq> [] \<and> list_all (\<lambda>sp. gs_traceID sp = gs_traceID (hd ss)) ss"

definition buffers_ok :: "('b \<Rightarrow> go_span list) \<Rightarrow> (string, 'b) mapping \<Rightarrow> bool" where
  "buffers_ok f m \<longleftrightarrow> finite (Mapping.keys m) \<and>
     (\<forall>i b. Mapping.lookup m i = Some b \<longrightarrow> one_trace (f b) \<and> gs_traceID (hd (f b)) = i)"

section \<open>Lemmas\<close>

lemma lookup_update_if:
  "Mapping.lookup (Mapping.update k v m) k' = (if k' = k then Some v else Mapping.lookup m k')"
  by (cases "k' = k") (simp_all add: lookup_update lookup_update_neq)

lemma lookup_delete_if:
  "Mapping.lookup (Mapping.delete k m) k' = (if k' = k then None else Mapping.lookup m k')"
  by (cases "k' = k") (simp_all add: lookup_delete lookup_delete_neq)

lemma held_empty [simp]: "held f Mapping.empty = {#}"
  by (simp add: held_def)

lemma held_update:
  assumes "finite (Mapping.keys m)"
  shows "held f (Mapping.update i b m) = mset (f b) + (\<Sum>j \<in> Mapping.keys m - {i}. mset (f (the (Mapping.lookup m j))))"
proof -
  have "held f (Mapping.update i b m) = mset (f b) +
      (\<Sum>j \<in> Mapping.keys m - {i}. mset (f (the (Mapping.lookup (Mapping.update i b m) j))))"
    using assms by (simp add: held_def keys_update sum.insert_remove lookup_update)
  also have "(\<Sum>j \<in> Mapping.keys m - {i}. mset (f (the (Mapping.lookup (Mapping.update i b m) j)))) =
      (\<Sum>j \<in> Mapping.keys m - {i}. mset (f (the (Mapping.lookup m j))))"
    by (rule sum.cong) (auto simp: lookup_update_if)
  finally show ?thesis .
qed

lemma held_delete:
  assumes "finite (Mapping.keys m)" and "Mapping.lookup m i = Some b"
  shows "held f m = mset (f b) + held f (Mapping.delete i m)"
proof -
  have i: "i \<in> Mapping.keys m" using assms(2) by (auto simp: keys_dom_lookup)
  have "held f (Mapping.delete i m) = (\<Sum>j \<in> Mapping.keys m - {i}. mset (f (the (Mapping.lookup m j))))"
    unfolding held_def keys_delete by (rule sum.cong) (auto simp: lookup_delete_if)
  then show ?thesis
    using sum.remove [OF assms(1) i, of "\<lambda>j. mset (f (the (Mapping.lookup m j)))"] assms(2)
    by (simp add: held_def)
qed

lemma held_new:
  assumes "finite (Mapping.keys m)" and "Mapping.lookup m i = None"
  shows "held f (Mapping.update i b m) = mset (f b) + held f m"
proof -
  have "Mapping.keys m - {i} = Mapping.keys m" using assms(2) by (auto simp: keys_dom_lookup)
  then show ?thesis by (simp add: held_update [OF assms(1)]) (simp add: held_def)
qed

lemma held_grow:
  assumes "finite (Mapping.keys m)" and "Mapping.lookup m i = Some b" and "mset (f b') = mset (f b) + mset ss"
  shows "held f (Mapping.update i b' m) = mset ss + held f m"
proof -
  have "i \<in> Mapping.keys m" using assms(2) by (auto simp: keys_dom_lookup)
  from sum.remove [OF assms(1) this, of "\<lambda>j. mset (f (the (Mapping.lookup m j)))"] show ?thesis
    using assms(2,3) by (simp add: held_update [OF assms(1)]) (simp add: held_def)
qed

lemma buffers_empty [simp]: "buffers_ok f Mapping.empty"
  by (simp add: buffers_ok_def)

lemma buffers_new:
  "buffers_ok f m \<Longrightarrow> f b = [sp] \<Longrightarrow> gs_traceID sp = i \<Longrightarrow> buffers_ok f (Mapping.update i b m)"
  by (auto simp: buffers_ok_def lookup_update_if keys_update one_trace_def)

lemma buffers_grow:
  assumes "buffers_ok f m" and "Mapping.lookup m i = Some b" and "f b' = f b @ [sp]" and "gs_traceID sp = i"
  shows "buffers_ok f (Mapping.update i b' m)"
proof -
  have "one_trace (f b)" "gs_traceID (hd (f b)) = i" using assms(1,2) by (auto simp: buffers_ok_def)
  then have "one_trace (f b')" "gs_traceID (hd (f b')) = i" using assms(3,4) by (auto simp: one_trace_def)
  with assms(1) show ?thesis by (auto simp: buffers_ok_def lookup_update_if keys_update)
qed

lemma buffers_delete: "buffers_ok f m \<Longrightarrow> buffers_ok f (Mapping.delete i m)"
  by (auto simp: buffers_ok_def lookup_delete_if keys_delete)

lemma buffers_batch:
  "buffers_ok f m \<Longrightarrow> Mapping.lookup m i = Some b \<Longrightarrow> one_trace (f b) \<and> gs_traceID (hd (f b)) = i"
  by (simp add: buffers_ok_def)

end
