(* ===== verification/MemoryStore.thy ===== *)
theory MemoryStore
  imports TraceQuery SpanBuffer "HOL-Library.Mapping" "HOL-Library.AList_Mapping"
begin

text \<open>
  \<open>internal/storage/memory.go\<close>: the bounded store of traces with its indexes by service, by
  operation and by error, and its timeline in the order of reception. Every method runs under
  the store's lock, so a method is one step.

  The maps of Go are mappings of the library. \<open>range\<close> over a map visits its keys in an
  unspecified order, and \<open>sort.Slice\<close> leaves the order of equal elements open: both are
  parameters, with the printing of floating-point attributes (\<open>%v\<close>), collected in \<open>go_env\<close>;
  \<open>go_env_ok\<close> is what the language promises of the first two. Strings are ASCII.

  The eviction loop of \<open>Upsert\<close> need not end, so it is a partial function into an option.
\<close>

section \<open>Definitions\<close>

record go_env =
  range_ids :: "string set \<Rightarrow> string list"
  sort_traces :: "go_trace go_sorter"
  print_float :: "num \<Rightarrow> string"

definition go_range :: "(string set \<Rightarrow> string list) \<Rightarrow> bool" where
  "go_range rng \<longleftrightarrow> (\<forall>S. finite S \<longrightarrow> set (rng S) = S \<and> distinct (rng S))"

definition go_env_ok :: "go_env \<Rightarrow> bool" where
  "go_env_ok env \<longleftrightarrow> go_range (range_ids env) \<and> go_sort (sort_traces env)"

type_synonym store_index = "(string, string set) mapping"

record memory_store =
  ms_traces :: "(string, go_trace) mapping"
  ms_byService :: store_index
  ms_byOperation :: store_index
  ms_byError :: "string set"
  ms_timeline :: "(string \<times> int) list"
  ms_maxSize :: int

definition NewMemoryStore :: "int \<Rightarrow> memory_store" where
  "NewMemoryStore maxSize =
     \<lparr>ms_traces = Mapping.empty, ms_byService = Mapping.empty, ms_byOperation = Mapping.empty,
      ms_byError = {}, ms_timeline = [], ms_maxSize = (if maxSize \<le> 0 then 10000 else maxSize)\<rparr>"

subsection \<open>Indexes\<close>

text \<open>A lookup of a missing key gives the empty set.\<close>

definition index_get :: "store_index \<Rightarrow> string \<Rightarrow> string set" where
  "index_get m k = (case Mapping.lookup m k of None \<Rightarrow> {} | Some S \<Rightarrow> S)"

definition index_add :: "string \<Rightarrow> string \<Rightarrow> store_index \<Rightarrow> store_index" where
  "index_add i k m = Mapping.update k (insert i (index_get m k)) m"

definition index_remove :: "string \<Rightarrow> string \<Rightarrow> store_index \<Rightarrow> store_index" where
  "index_remove i k m =
     (case Mapping.lookup m k of
        None \<Rightarrow> m
      | Some S \<Rightarrow> if S - {i} = {} then Mapping.delete k m else Mapping.update k (S - {i}) m)"

definition op_key :: "go_span \<Rightarrow> string" where
  "op_key sp = gs_service sp @ '':'' @ gs_name sp"

definition removeFromIndexes :: "go_trace \<Rightarrow> memory_store \<Rightarrow> memory_store" where
  "removeFromIndexes tr s =
     s\<lparr>ms_byService := fold (index_remove (gt_traceID tr)) (gt_services tr) (ms_byService s),
       ms_byOperation := fold (index_remove (gt_traceID tr)) (uniq (map op_key (gt_spans tr)))
         (ms_byOperation s),
       ms_byError := ms_byError s - {gt_traceID tr}\<rparr>"

subsection \<open>Upsert, Delete and eviction\<close>

definition evict :: "memory_store \<Rightarrow> memory_store" where
  "evict s =
     (case ms_timeline s of
        [] \<Rightarrow> s
      | oldest # rest \<Rightarrow>
          let s1 = s\<lparr>ms_timeline := rest\<rparr>
          in (case Mapping.lookup (ms_traces s1) (fst oldest) of
                None \<Rightarrow> s1
              | Some tr \<Rightarrow>
                  let s2 = removeFromIndexes tr s1
                  in s2\<lparr>ms_traces := Mapping.delete (fst oldest) (ms_traces s2)\<rparr>))"

partial_function (option) evict_until :: "memory_store \<Rightarrow> memory_store option" where
  "evict_until s =
     (if int (Mapping.size (ms_traces s)) \<ge> ms_maxSize s then evict_until (evict s) else Some s)"

declare evict_until.simps [code]

text \<open>The loop that removes the first timeline entry of a trace.\<close>

fun remove_entry :: "string \<Rightarrow> (string \<times> int) list \<Rightarrow> (string \<times> int) list" where
  "remove_entry i [] = []"
| "remove_entry i (e # es) = (if fst e = i then es else e # remove_entry i es)"

text \<open>\<open>sort.Search(n, f)\<close>: the library's binary search, between \<open>lo\<close> and \<open>hi\<close>.\<close>

function go_search :: "(nat \<Rightarrow> bool) \<Rightarrow> nat \<Rightarrow> nat \<Rightarrow> nat" where
  "go_search f lo hi =
     (if lo < hi then
        let h = (lo + hi) div 2
        in if f h then go_search f lo h else go_search f (Suc h) hi
      else lo)"
  by pat_completeness auto

termination by (relation "measure (\<lambda>(f, lo, hi). hi - lo)") auto

declare go_search.simps [simp del]

definition insert_entry :: "string \<Rightarrow> int \<Rightarrow> (string \<times> int) list \<Rightarrow> (string \<times> int) list" where
  "insert_entry i t es =
     (let pos = go_search (\<lambda>j. snd (es ! j) > t) 0 (length es)
      in take pos es @ (i, t) # drop pos es)"

text \<open>The second half of \<open>Upsert\<close>: the trace is put into the map, the indexes and the timeline.\<close>

definition store_trace :: "go_trace \<Rightarrow> memory_store \<Rightarrow> memory_store" where
  "store_trace tr s =
     s\<lparr>ms_traces := Mapping.update (gt_traceID tr) tr (ms_traces s),
       ms_byService := fold (index_add (gt_traceID tr)) (gt_services tr) (ms_byService s),
       ms_byOperation := fold (index_add (gt_traceID tr)) (map op_key (gt_spans tr)) (ms_byOperation s),
       ms_byError := (if gt_errorCount tr > 0 then insert (gt_traceID tr) (ms_byError s)
                      else ms_byError s),
       ms_timeline := insert_entry (gt_traceID tr) (gt_receivedAt tr) (ms_timeline s)\<rparr>"

text \<open>The first half: an earlier version of the trace leaves the indexes and the timeline.\<close>

definition unindex_old :: "string \<Rightarrow> memory_store \<Rightarrow> memory_store" where
  "unindex_old i s =
     (case Mapping.lookup (ms_traces s) i of
        None \<Rightarrow> s
      | Some old \<Rightarrow> (removeFromIndexes old s)\<lparr>ms_timeline := remove_entry i (ms_timeline s)\<rparr>)"

definition Upsert :: "go_trace \<Rightarrow> memory_store \<Rightarrow> memory_store option" where
  "Upsert tr s = map_option (store_trace tr) (evict_until (unindex_old (gt_traceID tr) s))"

definition Get :: "string \<Rightarrow> memory_store \<Rightarrow> go_trace option" where
  "Get i s = Mapping.lookup (ms_traces s) i"

definition Delete :: "string \<Rightarrow> memory_store \<Rightarrow> memory_store" where
  "Delete i s =
     (case Mapping.lookup (ms_traces s) i of
        None \<Rightarrow> s
      | Some tr \<Rightarrow>
          let s1 = removeFromIndexes tr s
          in s1\<lparr>ms_traces := Mapping.delete i (ms_traces s1),
                ms_timeline := remove_entry i (ms_timeline s1)\<rparr>)"

lemma evict_timeline [simp]: "ms_timeline (evict s) = tl (ms_timeline s)"
  by (auto simp: evict_def removeFromIndexes_def Let_def split: list.splits option.splits)

text \<open>The new store, and the number of traces evicted.\<close>

function EvictOlderThan :: "int \<Rightarrow> memory_store \<Rightarrow> memory_store \<times> nat" where
  "EvictOlderThan cutoff s =
     (case ms_timeline s of
        [] \<Rightarrow> (s, 0)
      | e # es \<Rightarrow>
          if snd e < cutoff
          then (let r = EvictOlderThan cutoff (evict s) in (fst r, Suc (snd r)))
          else (s, 0))"
  by pat_completeness auto

termination by (relation "measure (\<lambda>(c, s). length (ms_timeline s))") auto

declare EvictOlderThan.simps [simp del]

subsection \<open>Queries\<close>

record trace_summary =
  sum_tenantID :: string
  sum_traceID :: string
  sum_rootService :: string
  sum_rootOp :: string
  sum_duration :: int
  sum_spanCount :: int
  sum_services :: "string list"
  sum_hasError :: bool
  sum_receivedAt :: int

definition toSummary :: "go_trace \<Rightarrow> trace_summary" where
  "toSummary tr =
     \<lparr>sum_tenantID = gt_tenantID tr, sum_traceID = gt_traceID tr,
      sum_rootService = (case root_span tr of None \<Rightarrow> [] | Some r \<Rightarrow> gs_service r),
      sum_rootOp = (case root_span tr of None \<Rightarrow> [] | Some r \<Rightarrow> gs_name r),
      sum_duration = gt_duration tr, sum_spanCount = gt_spanCount tr,
      sum_services = gt_services tr, sum_hasError = (gt_errorCount tr > 0),
      sum_receivedAt = gt_receivedAt tr\<rparr>"

record summary_page =
  sp_traces :: "trace_summary list"
  sp_total :: nat
  sp_hasMore :: bool

definition empty_page :: summary_page where
  "empty_page = \<lparr>sp_traces = [], sp_total = 0, sp_hasMore = False\<rparr>"

definition summarise :: "query_result \<Rightarrow> summary_page" where
  "summarise r = \<lparr>sp_traces = map toSummary (qr_traces r), sp_total = qr_total r, sp_hasMore = qr_hasMore r\<rparr>"

definition operationFromKey :: "string \<Rightarrow> string" where
  "operationFromKey k =
     (if CHR '':'' \<in> set k then tl (dropWhile (\<lambda>c. c \<noteq> CHR '':'') k) else k)"

text \<open>The comma-separated join of \<open>strings.Join\<close>.\<close>

fun join_commas :: "string list \<Rightarrow> string" where
  "join_commas [] = []"
| "join_commas [x] = x"
| "join_commas (x # y # xs) = x @ '','' @ join_commas (y # xs)"

definition formatAttributeValue :: "(num \<Rightarrow> string) \<Rightarrow> key_value \<Rightarrow> string" where
  "formatAttributeValue pf kv =
     (case kv_type kv of
        ValueString \<Rightarrow> kv_sval kv
      | ValueInt \<Rightarrow> int_str (kv_ival kv)
      | ValueFloat \<Rightarrow> pf (kv_fval kv)
      | ValueBool \<Rightarrow> bool_str (kv_bval kv)
      | ValueStringSlice \<Rightarrow> join_commas (kv_sarr kv))"

text \<open>\<open>strings.Cut(s, "=")\<close>\<close>

definition cut_equals :: "string \<Rightarrow> string \<times> string \<times> bool" where
  "cut_equals s =
     (let k = takeWhile (\<lambda>c. c \<noteq> CHR ''='') s
      in if CHR ''='' \<in> set s then (k, drop (Suc (length k)) s, True) else (s, [], False))"

definition traceMatchesAttributeKV :: "(num \<Rightarrow> string) \<Rightarrow> go_trace \<Rightarrow> string \<Rightarrow> bool" where
  "traceMatchesAttributeKV pf tr flt =
     (let c = cut_equals flt; k = to_lower (trim (fst c)); v = to_lower (trim (fst (snd c)))
      in list_ex (\<lambda>sp. list_ex (\<lambda>kv.
           js_includes (to_lower (kv_key kv)) k \<and>
           (\<not> snd (snd c) \<or> js_includes (to_lower (formatAttributeValue pf kv)) v))
           (gs_attributes sp)) (gt_spans tr))"

text \<open>The filters applied to the loaded traces.\<close>

definition rest_filters :: "(num \<Rightarrow> string) \<Rightarrow> trace_query \<Rightarrow> go_trace \<Rightarrow> bool" where
  "rest_filters pf q tr \<longleftrightarrow>
     \<not> (q_tenant q \<noteq> [] \<and> gt_tenantID tr \<noteq> q_tenant q) \<and>
     (case q_minDuration q of None \<Rightarrow> True | Some d \<Rightarrow> \<not> gt_duration tr < d) \<and>
     (case q_maxDuration q of None \<Rightarrow> True | Some d \<Rightarrow> \<not> gt_duration tr > d) \<and>
     (case q_startTime q of None \<Rightarrow> True | Some t \<Rightarrow> \<not> gt_receivedAt tr < t) \<and>
     (case q_endTime q of None \<Rightarrow> True | Some t \<Rightarrow> \<not> gt_receivedAt tr > t) \<and>
     \<not> (q_attr q \<noteq> [] \<and> \<not> traceMatchesAttributeKV pf tr (q_attr q))"

definition ids_of_operation :: "trace_query \<Rightarrow> memory_store \<Rightarrow> string set" where
  "ids_of_operation q s =
     (if q_service q \<noteq> [] then index_get (ms_byOperation s) (q_service q @ '':'' @ q_operation q)
      else \<Union> (index_get (ms_byOperation s) `
             Set.filter (\<lambda>k. operationFromKey k = q_operation q) (Mapping.keys (ms_byOperation s))))"

definition candidates :: "trace_query \<Rightarrow> memory_store \<Rightarrow> string set option" where
  "candidates q s =
     (case (if q_service q \<noteq> [] then Mapping.lookup (ms_byService s) (q_service q)
            else Some (Mapping.keys (ms_traces s))) of
        None \<Rightarrow> None
      | Some c \<Rightarrow>
          let c1 = (if q_operation q \<noteq> [] then c \<inter> ids_of_operation q s else c)
          in Some (case q_hasError q of
               None \<Rightarrow> c1
             | Some b \<Rightarrow> if b then c1 \<inter> ms_byError s else c1 - ms_byError s))"

definition Query :: "go_env \<Rightarrow> trace_query \<Rightarrow> memory_store \<Rightarrow> summary_page" where
  "Query env q s =
     (case q_traceID q of
        Some i \<Rightarrow>
          (case Mapping.lookup (ms_traces s) i of
             Some tr \<Rightarrow>
               if q_tenant q \<noteq> [] \<and> gt_tenantID tr \<noteq> q_tenant q then empty_page
               else \<lparr>sp_traces = [toSummary tr], sp_total = 1, sp_hasMore = False\<rparr>
           | None \<Rightarrow> empty_page)
      | None \<Rightarrow>
          (case candidates q s of
             None \<Rightarrow> empty_page
           | Some c \<Rightarrow>
               summarise (sort_and_page (sort_traces env) q
                 (filter (rest_filters (print_float env) q)
                   (List.map_filter (Mapping.lookup (ms_traces s)) (range_ids env c))))))"

definition List_traces :: "go_env \<Rightarrow> trace_query \<Rightarrow> memory_store \<Rightarrow> go_trace list" where
  "List_traces env q s =
     List.map_filter (\<lambda>x. Mapping.lookup (ms_traces s) (sum_traceID x)) (sp_traces (Query env q s))"

text \<open>The traces a tenant may see; without a tenant, all.\<close>

definition visible :: "string \<Rightarrow> memory_store \<Rightarrow> go_trace set" where
  "visible tenant s =
     Set.filter (\<lambda>tr. \<not> (tenant \<noteq> [] \<and> gt_tenantID tr \<noteq> tenant))
       ((\<lambda>i. the (Mapping.lookup (ms_traces s) i)) ` Mapping.keys (ms_traces s))"

definition Services :: "string \<Rightarrow> memory_store \<Rightarrow> string list" where
  "Services tenant s = sorted_list_of_set (\<Union> ((\<lambda>tr. set (gt_services tr)) ` visible tenant s))"

definition Operations :: "string \<Rightarrow> string \<Rightarrow> memory_store \<Rightarrow> string list" where
  "Operations svc tenant s =
     sorted_list_of_set (\<Union> ((\<lambda>tr. set (map gs_name
       (filter (\<lambda>sp. \<not> (svc \<noteq> [] \<and> gs_service sp \<noteq> svc)) (gt_spans tr)))) ` visible tenant s))"

definition Stats :: "memory_store \<Rightarrow> nat \<times> int" where
  "Stats s = (Mapping.size (ms_traces s), ms_maxSize s)"

subsection \<open>The store's invariant\<close>

text \<open>
  An index holds, under each key, the stored traces that have it, and no empty set. Between the
  two halves of \<open>Upsert\<close> the traces with an id in \<open>X\<close> are in the map but not indexed.
\<close>

definition indexed ::
  "string set \<Rightarrow> (go_trace \<Rightarrow> string set) \<Rightarrow> (string, go_trace) mapping \<Rightarrow> store_index \<Rightarrow> bool" where
  "indexed X f trs m \<longleftrightarrow>
     (\<forall>k i. i \<in> index_get m k \<longleftrightarrow> i \<notin> X \<and> (\<exists>tr. Mapping.lookup trs i = Some tr \<and> k \<in> f tr)) \<and>
     (\<forall>k. Mapping.lookup m k \<noteq> Some {})"

definition timeline_ok :: "string set \<Rightarrow> (string, go_trace) mapping \<Rightarrow> (string \<times> int) list \<Rightarrow> bool" where
  "timeline_ok X trs es \<longleftrightarrow>
     distinct (map fst es) \<and> sorted (map snd es) \<and>
     (\<forall>i t. (i, t) \<in> set es \<longleftrightarrow>
        i \<notin> X \<and> (\<exists>tr. Mapping.lookup trs i = Some tr \<and> gt_receivedAt tr = t))"

definition store_ok :: "string set \<Rightarrow> memory_store \<Rightarrow> bool" where
  "store_ok X s \<longleftrightarrow>
     finite (Mapping.keys (ms_traces s)) \<and>
     (\<forall>i tr. Mapping.lookup (ms_traces s) i = Some tr \<longrightarrow> gt_traceID tr = i) \<and>
     indexed X (\<lambda>tr. set (gt_services tr)) (ms_traces s) (ms_byService s) \<and>
     indexed X (\<lambda>tr. set (map op_key (gt_spans tr))) (ms_traces s) (ms_byOperation s) \<and>
     (\<forall>i. i \<in> ms_byError s \<longleftrightarrow>
        i \<notin> X \<and> (\<exists>tr. Mapping.lookup (ms_traces s) i = Some tr \<and> gt_errorCount tr > 0)) \<and>
     timeline_ok X (ms_traces s) (ms_timeline s)"

definition store_inv :: "memory_store \<Rightarrow> bool" where
  "store_inv s \<longleftrightarrow> store_ok {} s \<and> 0 < ms_maxSize s \<and> int (Mapping.size (ms_traces s)) \<le> ms_maxSize s"

text \<open>What a query asks for, without the indexes.\<close>

definition index_filters :: "trace_query \<Rightarrow> go_trace \<Rightarrow> bool" where
  "index_filters q tr \<longleftrightarrow>
     (q_service q \<noteq> [] \<longrightarrow> q_service q \<in> set (gt_services tr)) \<and>
     (q_operation q \<noteq> [] \<longrightarrow>
        list_ex (\<lambda>sp. gs_name sp = q_operation q \<and> (q_service q \<noteq> [] \<longrightarrow> gs_service sp = q_service q))
          (gt_spans tr)) \<and>
     (case q_hasError q of None \<Rightarrow> True | Some b \<Rightarrow> (gt_errorCount tr > 0) = b)"

definition matches :: "(num \<Rightarrow> string) \<Rightarrow> trace_query \<Rightarrow> go_trace \<Rightarrow> bool" where
  "matches pf q tr \<longleftrightarrow> index_filters q tr \<and> rest_filters pf q tr"

definition matching :: "(num \<Rightarrow> string) \<Rightarrow> trace_query \<Rightarrow> memory_store \<Rightarrow> go_trace set" where
  "matching pf q s = {tr. Mapping.lookup (ms_traces s) (gt_traceID tr) = Some tr \<and> matches pf q tr}"

definition no_colon :: "string \<Rightarrow> bool" where
  "no_colon s \<longleftrightarrow> CHR '':'' \<notin> set s"

definition colon_free :: "memory_store \<Rightarrow> bool" where
  "colon_free s \<longleftrightarrow>
     (\<forall>i \<in> Mapping.keys (ms_traces s).
        list_all (\<lambda>sp. no_colon (gs_service sp)) (gt_spans (the (Mapping.lookup (ms_traces s) i))))"

text \<open>A trace that was dropped was received no later than any other that was kept.\<close>

definition evicts_oldest :: "string \<Rightarrow> memory_store \<Rightarrow> memory_store \<Rightarrow> bool" where
  "evicts_oldest i s s' \<longleftrightarrow>
     (\<forall>j j' t t'. j \<noteq> i \<longrightarrow> j' \<noteq> i \<longrightarrow> Get j s = Some t \<longrightarrow> Get j s' = None \<longrightarrow>
        Get j' s' = Some t' \<longrightarrow> gt_receivedAt t \<le> gt_receivedAt t')"

text \<open>The operations that change a store, and what a sequence of them leaves of one trace.\<close>

datatype store_op = OpUpsert go_trace | OpDelete string | OpEvict int

fun run_ops ::
  "(go_trace \<Rightarrow> 's \<Rightarrow> 's option) \<Rightarrow> (string \<Rightarrow> 's \<Rightarrow> 's) \<Rightarrow> (int \<Rightarrow> 's \<Rightarrow> 's) \<Rightarrow>
   store_op list \<Rightarrow> 's \<Rightarrow> 's option" where
  "run_ops ups del ev [] s = Some s"
| "run_ops ups del ev (OpUpsert tr # ops) s =
     (case ups tr s of None \<Rightarrow> None | Some s' \<Rightarrow> run_ops ups del ev ops s')"
| "run_ops ups del ev (OpDelete i # ops) s = run_ops ups del ev ops (del i s)"
| "run_ops ups del ev (OpEvict c # ops) s = run_ops ups del ev ops (ev c s)"

abbreviation run_store :: "store_op list \<Rightarrow> memory_store \<Rightarrow> memory_store option" where
  "run_store \<equiv> run_ops Upsert Delete (\<lambda>c s. fst (EvictOlderThan c s))"

fun last_version :: "string \<Rightarrow> store_op list \<Rightarrow> go_trace option \<Rightarrow> go_trace option" where
  "last_version i [] t = t"
| "last_version i (OpUpsert tr # ops) t = last_version i ops (if gt_traceID tr = i then Some tr else t)"
| "last_version i (OpDelete j # ops) t = last_version i ops (if j = i then None else t)"
| "last_version i (OpEvict c # ops) t = last_version i ops t"

text \<open>
  The interface \<open>TraceStore\<close> of \<open>internal/storage/store.go\<close>, as far as it changes the store: what
  its methods promise of the traces one can get, whatever the store is allowed to forget.
\<close>

locale trace_store =
  fixes ok :: "'s \<Rightarrow> bool"
    and get :: "string \<Rightarrow> 's \<Rightarrow> go_trace option"
    and ups :: "go_trace \<Rightarrow> 's \<Rightarrow> 's option"
    and del :: "string \<Rightarrow> 's \<Rightarrow> 's"
    and ev :: "int \<Rightarrow> 's \<Rightarrow> 's"
  assumes ok_ups: "ok s \<Longrightarrow> ups tr s = Some s' \<Longrightarrow> ok s'"
    and ok_del: "ok s \<Longrightarrow> ok (del i s)"
    and ok_ev: "ok s \<Longrightarrow> ok (ev c s)"
    and get_ups: "ok s \<Longrightarrow> ups tr s = Some s' \<Longrightarrow> get (gt_traceID tr) s' = Some tr"
    and get_ups_other: "ok s \<Longrightarrow> ups tr s = Some s' \<Longrightarrow> j \<noteq> gt_traceID tr \<Longrightarrow> get j s' = None \<or> get j s' = get j s"
    and get_del: "ok s \<Longrightarrow> get i (del i s) = None"
    and get_del_other: "ok s \<Longrightarrow> j \<noteq> i \<Longrightarrow> get j (del i s) = get j s"
    and get_ev: "ok s \<Longrightarrow> get i (ev c s) = None \<or> get i (ev c s) = get i s"
begin

lemma ok_run: "ok s \<Longrightarrow> run_ops ups del ev ops s = Some s' \<Longrightarrow> ok s'"
proof (induction ops arbitrary: s)
  case (Cons a ops)
  then show ?case by (cases a) (auto intro: ok_ups ok_del ok_ev split: option.splits)
qed simp

lemma get_last_version:
  assumes "ok s" and "run_ops ups del ev ops s = Some s'" and "get i s = None \<or> get i s = t"
  shows "get i s' = None \<or> get i s' = last_version i ops t"
  using assms
proof (induction ops arbitrary: s t)
  case (Cons a ops)
  show ?case
  proof (cases a)
    case (OpUpsert tr)
    then obtain s1 where s1: "ups tr s = Some s1" "run_ops ups del ev ops s1 = Some s'"
      using Cons.prems(2) by (auto split: option.splits)
    have "get i s1 = None \<or> get i s1 = (if gt_traceID tr = i then Some tr else t)"
      using get_ups [OF Cons.prems(1) s1(1)] get_ups_other [OF Cons.prems(1) s1(1), of i] Cons.prems(3) by auto
    from Cons.IH [OF ok_ups [OF Cons.prems(1) s1(1)] s1(2) this] show ?thesis by (simp add: OpUpsert)
  next
    case (OpDelete j)
    have "get i (del j s) = None \<or> get i (del j s) = (if j = i then None else t)"
      using get_del [OF Cons.prems(1)] get_del_other [OF Cons.prems(1)] Cons.prems(3) by auto
    from Cons.IH [OF ok_del [OF Cons.prems(1)] _ this] Cons.prems(2) show ?thesis by (simp add: OpDelete)
  next
    case (OpEvict c)
    have "get i (ev c s) = None \<or> get i (ev c s) = t" using get_ev [OF Cons.prems(1), of i c] Cons.prems(3) by auto
    from Cons.IH [OF ok_ev [OF Cons.prems(1)] _ this] Cons.prems(2) show ?thesis by (simp add: OpEvict)
  qed
qed simp

end

section \<open>Lemmas\<close>

subsection \<open>Indexes\<close>

lemma index_get_add: "index_get (index_add i k m) k' = (if k' = k then insert i (index_get m k) else index_get m k')"
  by (simp add: index_get_def index_add_def lookup_update_if)

lemma index_get_remove: "index_get (index_remove i k m) k' = (if k' = k then index_get m k - {i} else index_get m k')"
  by (auto simp: index_get_def index_remove_def lookup_update_if lookup_delete_if split: option.splits)

lemma mem_index_adds: "j \<in> index_get (fold (index_add i) ks m) k \<longleftrightarrow> j \<in> index_get m k \<or> (j = i \<and> k \<in> set ks)"
  by (induction ks arbitrary: m) (auto simp: index_get_add)

lemma mem_index_removes: "j \<in> index_get (fold (index_remove i) ks m) k \<longleftrightarrow> j \<in> index_get m k \<and> (j \<noteq> i \<or> k \<notin> set ks)"
  by (induction ks arbitrary: m) (auto simp: index_get_remove)

lemma no_empty_adds:
  "(\<And>k. Mapping.lookup m k \<noteq> Some {}) \<Longrightarrow> Mapping.lookup (fold (index_add i) ks m) k \<noteq> Some {}"
  by (induction ks arbitrary: m) (auto simp: index_add_def lookup_update_if)

lemma no_empty_removes:
  "(\<And>k. Mapping.lookup m k \<noteq> Some {}) \<Longrightarrow> Mapping.lookup (fold (index_remove i) ks m) k \<noteq> Some {}"
  by (induction ks arbitrary: m)
    (auto simp: index_remove_def lookup_update_if lookup_delete_if split: option.splits)

lemma indexed_adds:
  assumes "indexed (insert i X) f trs m" and "set ks = f tr" and "i \<notin> X"
  shows "indexed X f (Mapping.update i tr trs) (fold (index_add i) ks m)"
  using assms by (auto simp: indexed_def mem_index_adds no_empty_adds lookup_update_if)

lemma indexed_removes:
  assumes "indexed X f trs m" and "Mapping.lookup trs i = Some tr" and "set ks = f tr"
  shows "indexed (insert i X) f trs (fold (index_remove i) ks m)"
  using assms by (auto simp: indexed_def mem_index_removes no_empty_removes)

lemma indexed_delete: "indexed (insert i X) f trs m \<Longrightarrow> indexed X f (Mapping.delete i trs) m"
  by (auto simp: indexed_def lookup_delete_if)

lemma indexed_extra: "indexed X f trs m \<Longrightarrow> Mapping.lookup trs i = None \<Longrightarrow> indexed (insert i X) f trs m"
  by (auto simp: indexed_def)

lemma index_lookup:
  "indexed X f trs m \<Longrightarrow> Mapping.lookup m k = (if index_get m k = {} then None else Some (index_get m k))"
  by (auto simp: indexed_def index_get_def split: option.splits)

subsection \<open>The timeline\<close>

lemma remove_entry_filter: "distinct (map fst es) \<Longrightarrow> remove_entry i es = filter (\<lambda>e. fst e \<noteq> i) es"
proof (induction es)
  case (Cons e es)
  then have "fst e = i \<Longrightarrow> filter (\<lambda>e. fst e \<noteq> i) es = es" by (auto simp: filter_id_conv image_iff)
  with Cons show ?case by auto
qed simp

lemma timeline_remove: "timeline_ok X trs es \<Longrightarrow> timeline_ok (insert i X) trs (remove_entry i es)"
  by (auto simp: timeline_ok_def remove_entry_filter distinct_map_filter sorted_filter)

lemma timeline_delete: "timeline_ok (insert i X) trs es \<Longrightarrow> timeline_ok X (Mapping.delete i trs) es"
  by (auto simp: timeline_ok_def lookup_delete_if)

lemma timeline_extra: "timeline_ok X trs es \<Longrightarrow> Mapping.lookup trs i = None \<Longrightarrow> timeline_ok (insert i X) trs es"
  by (auto simp: timeline_ok_def)

text \<open>The binary search finds the first index of a monotone predicate.\<close>

lemma go_search_first:
  assumes "lo \<le> hi" and "mono_on {lo..<hi} f"
  shows "lo \<le> go_search f lo hi \<and> go_search f lo hi \<le> hi \<and>
    (\<forall>j. lo \<le> j \<longrightarrow> j < go_search f lo hi \<longrightarrow> \<not> f j) \<and>
    (\<forall>j. go_search f lo hi \<le> j \<longrightarrow> j < hi \<longrightarrow> f j)"
  using assms
proof (induction f lo hi rule: go_search.induct)
  case (1 f lo hi)
  show ?case
  proof (cases "lo < hi")
    case False
    then have "go_search f lo hi = lo" by (subst go_search.simps) simp
    with False 1(3) show ?thesis by simp
  next
    case True
    let ?h = "(lo + hi) div 2"
    have h: "lo \<le> ?h" "?h < hi" using True by auto
    show ?thesis
    proof (cases "f ?h")
      case f: True
      have "mono_on {lo..<?h} f" using 1(4) by (rule mono_on_subset) (use h in auto)
      from 1(1) [OF True refl f h(1) this] have IH: "lo \<le> go_search f lo ?h" "go_search f lo ?h \<le> ?h"
        "\<And>j. lo \<le> j \<Longrightarrow> j < go_search f lo ?h \<Longrightarrow> \<not> f j" "\<And>j. go_search f lo ?h \<le> j \<Longrightarrow> j < ?h \<Longrightarrow> f j"
        by auto
      have up: "f j" if "?h \<le> j" "j < hi" for j
        using mono_onD [OF 1(4), of ?h j] f that h by (simp add: le_bool_def)
      have eq: "go_search f lo hi = go_search f lo ?h" using True f by (subst go_search.simps) (simp add: Let_def)
      have hi: "f j" if "go_search f lo ?h \<le> j" "j < hi" for j
        using IH(4) [OF that(1)] up that(2) by (cases "j < ?h") simp_all
      show ?thesis unfolding eq using IH(1-3) hi h(2) order.trans [OF IH(2) less_imp_le [OF h(2)]] by blast
    next
      case f: False
      have "mono_on {Suc ?h..<hi} f" using 1(4) by (rule mono_on_subset) (use h in auto)
      from 1(2) [OF True refl f _ this] h have IH: "Suc ?h \<le> go_search f (Suc ?h) hi" "go_search f (Suc ?h) hi \<le> hi"
        "\<And>j. Suc ?h \<le> j \<Longrightarrow> j < go_search f (Suc ?h) hi \<Longrightarrow> \<not> f j"
        "\<And>j. go_search f (Suc ?h) hi \<le> j \<Longrightarrow> j < hi \<Longrightarrow> f j" by auto
      have down: "\<not> f j" if "lo \<le> j" "j \<le> ?h" for j
        using mono_onD [OF 1(4), of j ?h] f that h by (auto simp: le_bool_def)
      have eq: "go_search f lo hi = go_search f (Suc ?h) hi" using True f by (subst go_search.simps) (simp add: Let_def)
      have lo: "\<not> f j" if "lo \<le> j" "j < go_search f (Suc ?h) hi" for j
        using IH(3) [OF _ that(2)] down [OF that(1)] by (cases "j \<le> ?h") simp_all
      show ?thesis unfolding eq using IH(2,4) lo order.trans [OF le_SucI [OF h(1)] IH(1)] by blast
    qed
  qed
qed


lemma take_drop_all:
  assumes "p \<le> length xs" and "\<And>j. j < p \<Longrightarrow> P (xs ! j)" and "\<And>j. p \<le> j \<Longrightarrow> j < length xs \<Longrightarrow> Q (xs ! j)"
  shows "(\<forall>x \<in> set (take p xs). P x) \<and> (\<forall>x \<in> set (drop p xs). Q x)"
  using assms(1,2) assms(3) [OF le_add1] by (auto simp: set_conv_nth)

lemma insert_entry_split:
  assumes "sorted (map snd es)"
  shows "\<exists>xs ys. es = xs @ ys \<and> insert_entry i t es = xs @ (i, t) # ys \<and>
    (\<forall>e \<in> set xs. snd e \<le> t) \<and> (\<forall>e \<in> set ys. t < snd e)"
proof -
  let ?f = "\<lambda>j. snd (es ! j) > t" and ?n = "length es"
  have "mono_on {0..<?n} ?f"
    using sorted_nth_mono [OF assms] by (intro mono_onI le_boolI) (simp add: order.strict_trans2)
  note first = go_search_first [OF le0 this]
  have pos: "go_search ?f 0 ?n \<le> ?n" "\<And>j. j < go_search ?f 0 ?n \<Longrightarrow> \<not> ?f j"
    "\<And>j. go_search ?f 0 ?n \<le> j \<Longrightarrow> j < ?n \<Longrightarrow> ?f j" using first by blast+
  let ?p = "go_search ?f 0 ?n"
  have "\<forall>e \<in> set (take ?p es). snd e \<le> t" "\<forall>e \<in> set (drop ?p es). t < snd e"
    using take_drop_all [of ?p es "\<lambda>e. snd e \<le> t" "\<lambda>e. t < snd e", OF pos(1) leI [OF pos(2)] pos(3)] by blast+
  moreover have "es = take ?p es @ drop ?p es" by (rule append_take_drop_id [symmetric])
  moreover have "insert_entry i t es = take ?p es @ (i, t) # drop ?p es" by (simp only: insert_entry_def Let_def)
  ultimately show ?thesis by blast
qed

lemma timeline_insert:
  assumes "timeline_ok (insert i X) trs es" and "i \<notin> X"
  shows "timeline_ok X (Mapping.update i tr trs) (insert_entry i (gt_receivedAt tr) es)"
proof -
  from assms(1) have sorted: "sorted (map snd es)" by (simp add: timeline_ok_def)
  from insert_entry_split [OF this, of i "gt_receivedAt tr"] obtain xs ys where
    es: "es = xs @ ys" and ins: "insert_entry i (gt_receivedAt tr) es = xs @ (i, gt_receivedAt tr) # ys"
    and le: "\<forall>e \<in> set xs. snd e \<le> gt_receivedAt tr" "\<forall>e \<in> set ys. gt_receivedAt tr < snd e" by blast
  have "i \<notin> fst ` set es" using assms(1) by (auto simp: timeline_ok_def)
  then have "distinct (map fst (xs @ (i, gt_receivedAt tr) # ys))"
    using assms(1) by (auto simp: timeline_ok_def es)
  moreover have "sorted (map snd (xs @ (i, gt_receivedAt tr) # ys))"
    using sorted le by (force simp: es sorted_append)
  moreover have "(j, t) \<in> set (xs @ (i, gt_receivedAt tr) # ys) \<longleftrightarrow>
      j \<notin> X \<and> (\<exists>tr'. Mapping.lookup (Mapping.update i tr trs) j = Some tr' \<and> gt_receivedAt tr' = t)" for j t
    using assms unfolding timeline_ok_def es by (auto simp: lookup_update_if)
  ultimately show ?thesis unfolding timeline_ok_def ins by blast
qed

subsection \<open>The operations keep the invariant\<close>

lemma removeFromIndexes_simps [simp]:
  "ms_traces (removeFromIndexes tr s) = ms_traces s" "ms_timeline (removeFromIndexes tr s) = ms_timeline s"
  "ms_maxSize (removeFromIndexes tr s) = ms_maxSize s"
  by (simp_all add: removeFromIndexes_def)

text \<open>A stored trace leaves the indexes and the timeline; then it may leave the map.\<close>

lemma store_ok_unindex:
  assumes "store_ok X s" and "Mapping.lookup (ms_traces s) i = Some tr"
  shows "store_ok (insert i X) ((removeFromIndexes tr s)\<lparr>ms_timeline := remove_entry i (ms_timeline s)\<rparr>)"
proof -
  have id: "gt_traceID tr = i" using assms by (simp add: store_ok_def)
  have ops: "set (uniq (map op_key (gt_spans tr))) = set (map op_key (gt_spans tr))" by (rule set_uniq)
  show ?thesis
    using assms indexed_removes [OF _ assms(2), of X "\<lambda>tr. set (gt_services tr)" "ms_byService s" "gt_services tr"]
      indexed_removes [OF _ assms(2), of X "\<lambda>tr. set (map op_key (gt_spans tr))" _ "uniq (map op_key (gt_spans tr))"]
      timeline_remove [of X "ms_traces s" "ms_timeline s" i]
    unfolding store_ok_def by (auto simp: removeFromIndexes_def id ops)
qed

lemma store_ok_drop:
  "store_ok (insert i X) s \<Longrightarrow> store_ok X (s\<lparr>ms_traces := Mapping.delete i (ms_traces s)\<rparr>)"
  unfolding store_ok_def by (auto simp: indexed_delete timeline_delete lookup_delete_if keys_delete)

lemma store_ok_extra: "store_ok X s \<Longrightarrow> Mapping.lookup (ms_traces s) i = None \<Longrightarrow> store_ok (insert i X) s"
  unfolding store_ok_def by (auto simp: indexed_extra timeline_extra)

lemma store_ok_store:
  "store_ok {gt_traceID tr} s \<Longrightarrow> store_ok {} (store_trace tr s)"
  using indexed_adds [of "gt_traceID tr" "{}" "\<lambda>tr. set (gt_services tr)" "ms_traces s" "ms_byService s" "gt_services tr" tr]
    indexed_adds [of "gt_traceID tr" "{}" "\<lambda>tr. set (map op_key (gt_spans tr))" "ms_traces s" "ms_byOperation s" "map op_key (gt_spans tr)" tr]
    timeline_insert [of "gt_traceID tr" "{}" "ms_traces s" "ms_timeline s" tr]
  unfolding store_ok_def store_trace_def by (auto simp: lookup_update_if keys_update)

lemma store_ok_unindex_old: "store_ok {} s \<Longrightarrow> store_ok {i} (unindex_old i s)"
  using store_ok_unindex [of "{}" s i] store_ok_extra [of "{}" s i]
  by (auto simp: unindex_old_def split: option.splits)

lemma timeline_entry:
  "store_ok X s \<Longrightarrow> (i, t) \<in> set (ms_timeline s) \<longleftrightarrow>
    i \<notin> X \<and> (\<exists>tr. Mapping.lookup (ms_traces s) i = Some tr \<and> gt_receivedAt tr = t)"
  by (simp add: store_ok_def timeline_ok_def)

text \<open>The oldest entry of the timeline belongs to a stored trace, and is the one removed.\<close>

lemma evict_Cons:
  assumes "store_ok X s" and "ms_timeline s = (i, t) # es"
  shows "\<exists>tr. Mapping.lookup (ms_traces s) i = Some tr \<and> i \<notin> X \<and>
    evict s = (removeFromIndexes tr s)\<lparr>ms_timeline := es, ms_traces := Mapping.delete i (ms_traces s)\<rparr>"
proof -
  from assms obtain tr where "Mapping.lookup (ms_traces s) i = Some tr" "i \<notin> X"
    unfolding store_ok_def timeline_ok_def by (metis list.set_intros(1))
  then show ?thesis using assms(2) by (simp add: evict_def removeFromIndexes_def Let_def)
qed

lemma evict_Nil: "ms_timeline s = [] \<Longrightarrow> evict s = s"
  by (simp add: evict_def)

lemma store_ok_evict:
  assumes "store_ok X s"
  shows "store_ok X (evict s)"
proof (cases "ms_timeline s")
  case Nil
  with assms show ?thesis by (simp add: evict_Nil)
next
  case (Cons e es)
  obtain i t where e: "e = (i, t)" by (cases e)
  from evict_Cons [OF assms Cons [unfolded e]] obtain tr where
    tr: "Mapping.lookup (ms_traces s) i = Some tr"
      "evict s = (removeFromIndexes tr s)\<lparr>ms_timeline := es, ms_traces := Mapping.delete i (ms_traces s)\<rparr>" by blast
  from store_ok_drop [OF store_ok_unindex [OF assms tr(1)]] show ?thesis
    by (simp add: tr(2) Cons e)
qed

lemma store_ok_Delete:
  assumes "store_ok {} s"
  shows "store_ok {} (Delete i s)"
proof (cases "Mapping.lookup (ms_traces s) i")
  case None
  with assms show ?thesis by (simp add: Delete_def)
next
  case (Some tr)
  have "Delete i s = (removeFromIndexes tr s)
      \<lparr>ms_timeline := remove_entry i (ms_timeline s), ms_traces := Mapping.delete i (ms_traces s)\<rparr>"
    by (simp add: Delete_def Let_def Some)
  with store_ok_drop [OF store_ok_unindex [OF assms Some]] show ?thesis by simp
qed


lemma store_ok_keys:
  assumes "store_ok X s"
  shows "fst ` set (ms_timeline s) = Mapping.keys (ms_traces s) - X"
    and "length (ms_timeline s) = card (Mapping.keys (ms_traces s) - X)"
proof -
  show keys: "fst ` set (ms_timeline s) = Mapping.keys (ms_traces s) - X"
  proof (rule set_eqI)
    fix i
    have "i \<in> fst ` set (ms_timeline s) \<longleftrightarrow> (\<exists>t. (i, t) \<in> set (ms_timeline s))" by force
    also have "\<dots> \<longleftrightarrow> i \<notin> X \<and> (\<exists>tr. Mapping.lookup (ms_traces s) i = Some tr)"
      using assms unfolding store_ok_def timeline_ok_def by blast
    finally show "i \<in> fst ` set (ms_timeline s) \<longleftrightarrow> i \<in> Mapping.keys (ms_traces s) - X"
      by (auto simp: keys_dom_lookup)
  qed
  have "distinct (map fst (ms_timeline s))" using assms by (simp add: store_ok_def timeline_ok_def)
  from distinct_card [OF this] show "length (ms_timeline s) = card (Mapping.keys (ms_traces s) - X)"
    by (simp add: keys)
qed

lemma store_ok_size: "store_ok X s \<Longrightarrow> Mapping.size (ms_traces s) = card (Mapping.keys (ms_traces s))"
  by (simp add: store_ok_def Mapping.size_def)

text \<open>
  The eviction loop ends when fewer than \<open>maxSize\<close> traces are outside the timeline. It takes
  entries off the front of the timeline, and their traces off the map.
\<close>

lemma evict_until_returns:
  assumes "store_ok X s" and "int (card (X \<inter> Mapping.keys (ms_traces s))) < ms_maxSize s"
  shows "\<exists>s' k. evict_until s = Some s' \<and> store_ok X s' \<and> ms_maxSize s' = ms_maxSize s \<and>
    int (Mapping.size (ms_traces s')) < ms_maxSize s \<and> ms_timeline s' = drop k (ms_timeline s) \<and>
    (\<forall>i. Get i s' = (if i \<in> fst ` set (take k (ms_timeline s)) then None else Get i s))"
  using assms
proof (induction "length (ms_timeline s)" arbitrary: s)
  case 0
  then have "Mapping.keys (ms_traces s) \<subseteq> X" using store_ok_keys(1) [OF 0(2)] by auto
  then have "int (Mapping.size (ms_traces s)) < ms_maxSize s"
    using 0(3) by (simp add: store_ok_size [OF 0(2)] Int_absorb1)
  then show ?case using 0 by (intro exI [of _ s] exI [of _ 0]) (subst evict_until.simps, simp)
next
  case (Suc n)
  then obtain i t es where tl: "ms_timeline s = (i, t) # es" by (cases "ms_timeline s") auto
  show ?case
  proof (cases "int (Mapping.size (ms_traces s)) \<ge> ms_maxSize s")
    case False
    then show ?thesis using Suc by (intro exI [of _ s] exI [of _ 0]) (subst evict_until.simps, simp)
  next
    case True
    from evict_Cons [OF Suc(3) tl] obtain tr where tr: "Mapping.lookup (ms_traces s) i = Some tr" "i \<notin> X"
      and ev: "evict s = (removeFromIndexes tr s)\<lparr>ms_timeline := es, ms_traces := Mapping.delete i (ms_traces s)\<rparr>"
      by blast
    have max: "ms_maxSize (evict s) = ms_maxSize s" and es: "ms_timeline (evict s) = es" by (simp_all add: ev)
    have keys: "X \<inter> Mapping.keys (ms_traces (evict s)) = X \<inter> Mapping.keys (ms_traces s)"
      using tr(2) by (auto simp: ev keys_delete)
    have n: "n = length (ms_timeline (evict s))" using Suc(2) tl es by simp
    have lt: "int (card (X \<inter> Mapping.keys (ms_traces (evict s)))) < ms_maxSize (evict s)"
      using Suc(4) by (simp add: keys max)
    from Suc(1) [OF n store_ok_evict [OF Suc(3)] lt, unfolded max es] obtain s' k where
      s': "evict_until (evict s) = Some s'" "store_ok X s'" "ms_maxSize s' = ms_maxSize s"
        "int (Mapping.size (ms_traces s')) < ms_maxSize s" "ms_timeline s' = drop k es"
        "\<And>j. Get j s' = (if j \<in> fst ` set (take k es) then None else Get j (evict s))"
      by blast
    have "evict_until s = Some s'" using True s'(1) by (subst evict_until.simps) simp
    moreover have "Get j s' = (if j \<in> fst ` set (take (Suc k) (ms_timeline s)) then None else Get j s)" for j
      using s'(6) [of j] by (auto simp: tl Get_def ev lookup_delete_if)
    ultimately show ?thesis using s'(2-5) tl
      by (intro exI [of _ s'] exI [of _ "Suc k"]) simp
  qed
qed

text \<open>It does not end where it has nothing to evict.\<close>

lemma evict_until_stuck:
  assumes "ms_timeline s = []" and "ms_maxSize s \<le> int (Mapping.size (ms_traces s))"
  shows "evict_until s = None"
proof -
  have "evict_until s = Some y \<Longrightarrow>
      \<not> (ms_timeline s = [] \<and> ms_maxSize s \<le> int (Mapping.size (ms_traces s)))" for y
    by (erule evict_until.raw_induct [rotated]) (auto simp: evict_Nil split: if_splits)
  with assms show ?thesis by (cases "evict_until s") auto
qed


subsection \<open>Upsert\<close>

lemma unindex_old_simps [simp]:
  "ms_traces (unindex_old i s) = ms_traces s" "ms_maxSize (unindex_old i s) = ms_maxSize s"
  "Get j (unindex_old i s) = Get j s"
  by (auto simp: unindex_old_def Get_def split: option.splits)

lemma upsert_spec:
  assumes "store_inv s" and "Get (gt_traceID tr) s = None \<or> 2 \<le> ms_maxSize s"
  shows "\<exists>s'. Upsert tr s = Some s' \<and> store_inv s' \<and> ms_maxSize s' = ms_maxSize s \<and>
    Get (gt_traceID tr) s' = Some tr \<and>
    (\<forall>j. j \<noteq> gt_traceID tr \<longrightarrow> Get j s' = None \<or> Get j s' = Get j s) \<and> evicts_oldest (gt_traceID tr) s s'"
proof -
  let ?i = "gt_traceID tr" and ?s1 = "unindex_old (gt_traceID tr) s"
  have ok: "store_ok {} s" and max: "0 < ms_maxSize s" using assms(1) by (simp_all add: store_inv_def)
  note ok1 = store_ok_unindex_old [OF ok, of ?i]
  have "int (card ({?i} \<inter> Mapping.keys (ms_traces ?s1))) < ms_maxSize ?s1"
    using assms(2) max by (auto simp: Get_def keys_dom_lookup Int_insert_left dom_def)
  from evict_until_returns [OF ok1 this] obtain s2 k where s2: "evict_until ?s1 = Some s2" "store_ok {?i} s2"
    "ms_maxSize s2 = ms_maxSize s" "int (Mapping.size (ms_traces s2)) < ms_maxSize s"
    "ms_timeline s2 = drop k (ms_timeline ?s1)"
    "\<And>j. Get j s2 = (if j \<in> fst ` set (take k (ms_timeline ?s1)) then None else Get j s)" by auto
  let ?s' = "store_trace tr s2"
  have get: "Get j ?s' = (if j = ?i then Some tr else Get j s2)" for j
    by (simp add: Get_def store_trace_def lookup_update_if)
  have ok': "store_ok {} ?s'" by (rule store_ok_store [OF s2(2)])
  have "Mapping.size (ms_traces ?s') \<le> Suc (Mapping.size (ms_traces s2))"
    unfolding store_ok_size [OF ok'] store_ok_size [OF s2(2)]
    by (simp add: store_trace_def keys_update card_insert_le_m1 card_insert_if)
  then have inv: "store_inv ?s'" using ok' s2(3,4) max by (simp add: store_inv_def store_trace_def)
  have old: "evicts_oldest ?i s ?s'"
    unfolding evicts_oldest_def
  proof (intro allI impI)
    fix j j' t t'
    assume a: "j \<noteq> ?i" "j' \<noteq> ?i" "Get j s = Some t" "Get j ?s' = None" "Get j' ?s' = Some t'"
    have mem: "(x, gt_receivedAt u) \<in> set (ms_timeline ?s1)" if "Get x s = Some u" "x \<noteq> ?i" for x u
      using timeline_entry [OF ok1] that by (simp add: Get_def)
    have dist: "distinct (map fst (ms_timeline ?s1))" and sort: "sorted (map snd (ms_timeline ?s1))"
      using ok1 by (simp_all add: store_ok_def timeline_ok_def)
    have j: "j \<in> fst ` set (take k (ms_timeline ?s1))" using a(1,3,4) by (auto simp: get s2(6) split: if_splits)
    have j': "j' \<notin> fst ` set (take k (ms_timeline ?s1))" "Get j' s = Some t'"
      using a(2,5) by (auto simp: get s2(6) split: if_splits)
    have t': "(j', gt_receivedAt t') \<in> set (drop k (ms_timeline ?s1))"
      using mem [OF j'(2) a(2)] j'(1) by (metis Un_iff append_take_drop_id fst_conv image_eqI set_append)
    from j obtain u where u: "(j, u) \<in> set (take k (ms_timeline ?s1))" by force
    then have "(j, u) \<in> set (ms_timeline ?s1)" by (rule in_set_takeD)
    with mem [OF a(3,1)] dist have "u = gt_receivedAt t" by (meson eq_key_imp_eq_value)
    moreover have "sorted (map snd (take k (ms_timeline ?s1) @ drop k (ms_timeline ?s1)))" using sort by simp
    then have "u \<le> gt_receivedAt t'" using u t' unfolding map_append sorted_append by force
    ultimately show "gt_receivedAt t \<le> gt_receivedAt t'" by simp
  qed
  have "Upsert tr s = Some ?s'" by (simp add: Upsert_def s2(1))
  moreover have "\<forall>j. j \<noteq> ?i \<longrightarrow> Get j ?s' = None \<or> Get j ?s' = Get j s" by (simp add: get s2(6))
  moreover have "ms_maxSize ?s' = ms_maxSize s" by (simp add: store_trace_def s2(3))
  ultimately show ?thesis using inv old get [of ?i] by auto
qed

text \<open>It returns in exactly these cases.\<close>

lemma upsert_stuck:
  assumes "store_inv s" and "Get (gt_traceID tr) s \<noteq> None" and "ms_maxSize s < 2"
  shows "Upsert tr s = None"
proof -
  let ?i = "gt_traceID tr" and ?s1 = "unindex_old (gt_traceID tr) s"
  have ok: "store_ok {} s" and size: "Mapping.size (ms_traces s) \<le> 1" and max: "ms_maxSize s = 1"
    using assms(1,3) by (auto simp: store_inv_def)
  have i: "?i \<in> Mapping.keys (ms_traces s)" using assms(2) by (auto simp: Get_def keys_dom_lookup)
  have fin: "finite (Mapping.keys (ms_traces s))" using ok by (simp add: store_ok_def)
  have card: "card (Mapping.keys (ms_traces s)) = 1"
  proof -
    have "0 < card (Mapping.keys (ms_traces s))" using i fin card_gt_0_iff by blast
    moreover have "card (Mapping.keys (ms_traces s)) \<le> 1" using size unfolding store_ok_size [OF ok] .
    ultimately show ?thesis by linarith
  qed
  then obtain x where x: "Mapping.keys (ms_traces s) = {x}" by (rule card_1_singletonE)
  have keys: "Mapping.keys (ms_traces s) = {?i}" using i unfolding x by (simp only: singleton_iff)
  have "length (ms_timeline ?s1) = card (Mapping.keys (ms_traces ?s1) - {?i})"
    by (rule store_ok_keys(2) [OF store_ok_unindex_old [OF ok]])
  then have "ms_timeline ?s1 = []" unfolding unindex_old_simps keys by simp
  then have "evict_until ?s1 = None"
    by (rule evict_until_stuck) (simp only: unindex_old_simps store_ok_size [OF ok] card max of_nat_1 order_refl)
  then show ?thesis by (simp add: Upsert_def)
qed

lemma upsert_some:
  assumes "store_inv s" and "Upsert tr s = Some s'"
  shows "store_inv s' \<and> Get (gt_traceID tr) s' = Some tr \<and>
    (\<forall>j. j \<noteq> gt_traceID tr \<longrightarrow> Get j s' = None \<or> Get j s' = Get j s)"
proof -
  have "Get (gt_traceID tr) s = None \<or> 2 \<le> ms_maxSize s"
    using upsert_stuck [OF assms(1)] assms(2) by force
  from upsert_spec [OF assms(1) this] assms(2) show ?thesis by auto
qed


subsection \<open>Eviction by age, deletion\<close>

lemma evict_older_spec:
  "store_ok {} s \<Longrightarrow>
   store_ok {} (fst (EvictOlderThan c s)) \<and> ms_maxSize (fst (EvictOlderThan c s)) = ms_maxSize s \<and>
   (\<forall>i. Get i (fst (EvictOlderThan c s)) =
      (case Get i s of None \<Rightarrow> None | Some t \<Rightarrow> if gt_receivedAt t < c then None else Some t)) \<and>
   Mapping.size (ms_traces (fst (EvictOlderThan c s))) + snd (EvictOlderThan c s) = Mapping.size (ms_traces s)"
proof (induction c s rule: EvictOlderThan.induct)
  case (1 c s)
  have stored: "(i, gt_receivedAt t) \<in> set (ms_timeline s)" if "Get i s = Some t" for i t
    using timeline_entry [OF 1(2)] that by (simp add: Get_def)
  show ?case
  proof (cases "ms_timeline s")
    case Nil
    have "Get i s = None" for i using stored [of i] Nil by (cases "Get i s") auto
    then show ?thesis using 1(2) by (simp add: EvictOlderThan.simps [of c s] Nil)
  next
    case (Cons e es)
    show ?thesis
    proof (cases "snd e < c")
      case False
      have "\<not> gt_receivedAt t < c" if "Get i s = Some t" for i t
      proof -
        have "sorted (map snd (e # es))" using 1(2) by (simp add: store_ok_def timeline_ok_def Cons)
        then have "snd e \<le> gt_receivedAt t" using stored [OF that] unfolding Cons by force
        with False show ?thesis by simp
      qed
      then show ?thesis using False 1(2)
        by (auto simp: EvictOlderThan.simps [of c s] Cons split: option.splits)
    next
      case True
      obtain i t where e: "e = (i, t)" by (cases e)
      from evict_Cons [OF 1(2) Cons [unfolded e]] obtain tr where tr: "Mapping.lookup (ms_traces s) i = Some tr"
        and ev: "evict s = (removeFromIndexes tr s)\<lparr>ms_timeline := es, ms_traces := Mapping.delete i (ms_traces s)\<rparr>"
        by blast
      have time: "gt_receivedAt tr = t"
        using timeline_entry [OF 1(2), of i t] tr by (simp add: Cons e)
      note IH = 1(1) [OF Cons True store_ok_evict [OF 1(2)]]
      have older: "EvictOlderThan c s = (fst (EvictOlderThan c (evict s)), Suc (snd (EvictOlderThan c (evict s))))"
        using True by (simp add: EvictOlderThan.simps [of c s] Cons Let_def)
      have get: "Get j (evict s) = (if j = i then None else Get j s)" for j
        by (simp add: ev Get_def lookup_delete_if)
      have "i \<in> Mapping.keys (ms_traces s)" "finite (Mapping.keys (ms_traces s))"
        using tr 1(2) by (auto simp: keys_dom_lookup store_ok_def)
      then have size: "Suc (Mapping.size (ms_traces (evict s))) = Mapping.size (ms_traces s)"
        unfolding store_ok_size [OF 1(2)] store_ok_size [OF store_ok_evict [OF 1(2)]]
        by (simp add: ev keys_delete card_Suc_Diff1 del: card_Diff_insert)
      have max: "ms_maxSize (evict s) = ms_maxSize s" by (simp add: ev)
      have got: "Get i s = Some tr" using tr by (simp add: Get_def)
      have kept: "Get j (fst (EvictOlderThan c s)) =
          (case Get j s of None \<Rightarrow> None | Some t \<Rightarrow> if gt_receivedAt t < c then None else Some t)" for j
        using IH True by (cases "j = i") (simp_all add: older get got time e)
      show ?thesis using IH size kept by (simp only: older fst_conv snd_conv max) simp
    qed
  qed
qed

lemma evict_older_inv: "store_inv s \<Longrightarrow> store_inv (fst (EvictOlderThan c s))"
  using evict_older_spec [of s c] by (auto simp: store_inv_def)

lemma Delete_size: "store_ok {} s \<Longrightarrow> Mapping.size (ms_traces (Delete i s)) \<le> Mapping.size (ms_traces s)"
  using store_ok_size [of "{}" s] store_ok_size [OF store_ok_Delete, of s i]
  by (auto simp: Delete_def Let_def keys_delete store_ok_def split: option.splits intro: card_mono)

lemma Delete_inv: "store_inv s \<Longrightarrow> store_inv (Delete i s)"
  using store_ok_Delete [of s i] Delete_size [of s i]
  by (auto simp: store_inv_def) (auto simp: Delete_def Let_def split: option.splits)

lemma Get_Delete: "Get j (Delete i s) = (if j = i then None else Get j s)"
  by (auto simp: Get_def Delete_def Let_def lookup_delete_if split: option.splits)

lemma New_inv: "store_inv (NewMemoryStore n)"
  by (auto simp: store_inv_def NewMemoryStore_def store_ok_def indexed_def timeline_ok_def index_get_def Mapping.size_def)

interpretation memory: trace_store store_inv Get Upsert Delete "\<lambda>c s. fst (EvictOlderThan c s)"
proof unfold_locales
  show "Get i (fst (EvictOlderThan c s)) = None \<or> Get i (fst (EvictOlderThan c s)) = Get i s"
    if "store_inv s" for s i c
    using evict_older_spec [of s c] that by (auto simp: store_inv_def split: option.splits)
qed (use upsert_some in \<open>auto simp: Get_Delete Delete_inv evict_older_inv\<close>)


subsection \<open>Queries\<close>

text \<open>Without a colon in the service names, a key has one reading.\<close>

lemma until_colon: "no_colon a \<Longrightarrow> takeWhile (\<lambda>c. c \<noteq> CHR '':'') (a @ CHR '':'' # b) = a"
  "no_colon a \<Longrightarrow> dropWhile (\<lambda>c. c \<noteq> CHR '':'') (a @ CHR '':'' # b) = CHR '':'' # b"
  by (induction a) (auto simp: no_colon_def)

lemma op_key_inj:
  "no_colon (gs_service sp) \<Longrightarrow> no_colon svc \<Longrightarrow>
   op_key sp = svc @ '':'' @ opn \<longleftrightarrow> gs_service sp = svc \<and> gs_name sp = opn"
  using until_colon(1) [of "gs_service sp" "gs_name sp"] until_colon(1) [of svc opn]
  by (auto simp: op_key_def)

lemma operation_of_key: "no_colon (gs_service sp) \<Longrightarrow> operationFromKey (op_key sp) = gs_name sp"
  by (simp add: operationFromKey_def op_key_def until_colon)

lemma store_ok_indexes:
  assumes "store_ok {} s"
  shows "i \<in> index_get (ms_byService s) k \<longleftrightarrow> (\<exists>tr. Get i s = Some tr \<and> k \<in> set (gt_services tr))"
    and "i \<in> index_get (ms_byOperation s) k \<longleftrightarrow> (\<exists>tr. Get i s = Some tr \<and> k \<in> op_key ` set (gt_spans tr))"
    and "i \<in> ms_byError s \<longleftrightarrow> (\<exists>tr. Get i s = Some tr \<and> gt_errorCount tr > 0)"
  using assms by (simp_all add: store_ok_def indexed_def Get_def)

lemma ids_of_operation_iff:
  assumes "store_ok {} s" and "colon_free s" and "no_colon (q_service q)"
  shows "i \<in> ids_of_operation q s \<longleftrightarrow>
    (\<exists>tr. Get i s = Some tr \<and> list_ex (\<lambda>sp. gs_name sp = q_operation q \<and>
       (q_service q \<noteq> [] \<longrightarrow> gs_service sp = q_service q)) (gt_spans tr))"
proof -
  have colon: "no_colon (gs_service sp)" if "Get i s = Some tr" "sp \<in> set (gt_spans tr)" for tr sp
    using assms(2) that by (force simp: colon_free_def Get_def list_all_iff keys_dom_lookup dom_def)
  show ?thesis
  proof (cases "q_service q = []")
    case False
    have "i \<in> ids_of_operation q s \<longleftrightarrow>
        (\<exists>tr. Get i s = Some tr \<and> (\<exists>sp \<in> set (gt_spans tr). op_key sp = q_service q @ '':'' @ q_operation q))"
      using False store_ok_indexes(2) [OF assms(1)] by (auto simp: ids_of_operation_def image_iff eq_commute)
    then show ?thesis using False op_key_inj [OF colon assms(3)] by (auto simp: list_ex_iff)
  next
    case True
    have keys: "k \<in> Mapping.keys (ms_byOperation s)" if "i \<in> index_get (ms_byOperation s) k" for k
      using that by (auto simp: index_get_def keys_dom_lookup split: option.splits)
    have "i \<in> ids_of_operation q s \<longleftrightarrow>
        (\<exists>k. operationFromKey k = q_operation q \<and> i \<in> index_get (ms_byOperation s) k)"
      using True keys by (auto simp: ids_of_operation_def)
    also have "\<dots> \<longleftrightarrow>
        (\<exists>tr. Get i s = Some tr \<and> (\<exists>sp \<in> set (gt_spans tr). operationFromKey (op_key sp) = q_operation q))"
      unfolding store_ok_indexes(2) [OF assms(1)] by blast
    finally show ?thesis using True operation_of_key [OF colon] by (auto simp: list_ex_iff)
  qed
qed

text \<open>The candidates are the stored traces the indexes are asked for.\<close>

lemma candidates_iff:
  assumes "store_ok {} s" and "colon_free s" and "no_colon (q_service q)"
  shows "(case candidates q s of None \<Rightarrow> {} | Some c \<Rightarrow> c) =
    {i. \<exists>tr. Get i s = Some tr \<and> index_filters q tr}"
proof -
  let ?c = "if q_service q \<noteq> [] then index_get (ms_byService s) (q_service q) else Mapping.keys (ms_traces s)"
  have "indexed {} (\<lambda>tr. set (gt_services tr)) (ms_traces s) (ms_byService s)"
    using assms(1) by (simp add: store_ok_def)
  note lookup = index_lookup [OF this]
  obtain C where C: "C = (if q_operation q \<noteq> [] then ?c \<inter> ids_of_operation q s else ?c)" by simp
  have "(case candidates q s of None \<Rightarrow> {} | Some c \<Rightarrow> c) =
      (case q_hasError q of None \<Rightarrow> C | Some b \<Rightarrow> if b then C \<inter> ms_byError s else C - ms_byError s)"
    by (simp add: candidates_def Let_def lookup C split: option.splits)
  moreover have "i \<in> ?c \<longleftrightarrow> (\<exists>tr. Get i s = Some tr \<and> (q_service q \<noteq> [] \<longrightarrow> q_service q \<in> set (gt_services tr)))" for i
    using store_ok_indexes(1) [OF assms(1)] by (auto simp: keys_dom_lookup Get_def)
  then have "i \<in> C \<longleftrightarrow> (\<exists>tr. Get i s = Some tr \<and> (q_service q \<noteq> [] \<longrightarrow> q_service q \<in> set (gt_services tr)) \<and>
      (q_operation q \<noteq> [] \<longrightarrow> list_ex (\<lambda>sp. gs_name sp = q_operation q \<and>
         (q_service q \<noteq> [] \<longrightarrow> gs_service sp = q_service q)) (gt_spans tr)))" for i
    using ids_of_operation_iff [OF assms, of i] unfolding C by (cases "q_operation q = []") auto
  ultimately show ?thesis
    using store_ok_indexes(3) [OF assms(1)]
    by (cases "q_hasError q") (auto simp: index_filters_def)
qed

text \<open>The loading of the candidates: a list of the traces, each once.\<close>

lemma loaded_traces:
  fixes P :: "go_trace \<Rightarrow> bool"
  assumes "store_ok {} s" and "go_range rng" and "c \<subseteq> Mapping.keys (ms_traces s)"
  defines "xs \<equiv> filter P (List.map_filter (Mapping.lookup (ms_traces s)) (rng c))"
  shows "distinct xs" and "set xs = {tr. Get (gt_traceID tr) s = Some tr \<and> gt_traceID tr \<in> c \<and> P tr}"
proof -
  let ?lk = "Mapping.lookup (ms_traces s)"
  have "finite c" using assms(1,3) by (auto simp: store_ok_def intro: finite_subset)
  then have rng: "set (rng c) = c" "distinct (rng c)" using assms(2) by (simp_all add: go_range_def)
  have id: "?lk i = Some tr \<Longrightarrow> gt_traceID tr = i" for i tr using assms(1) by (simp add: store_ok_def)
  have load: "List.map_filter ?lk (rng c) = map (the \<circ> ?lk) (filter (\<lambda>i. ?lk i \<noteq> None) (rng c))"
    by (simp add: map_filter_def)
  have "inj_on (the \<circ> ?lk) (set (filter (\<lambda>i. ?lk i \<noteq> None) (rng c)))"
    by (rule inj_onI, clarsimp) (metis id)
  then show "distinct xs" unfolding xs_def load by (simp add: distinct_map rng(2))
  have "set (List.map_filter ?lk (rng c)) = {tr. \<exists>i \<in> c. ?lk i = Some tr}"
    unfolding load by (force simp: rng(1))
  also have "\<dots> = {tr. ?lk (gt_traceID tr) = Some tr \<and> gt_traceID tr \<in> c}" using id by blast
  finally show "set xs = {tr. Get (gt_traceID tr) s = Some tr \<and> gt_traceID tr \<in> c \<and> P tr}"
    unfolding xs_def by (auto simp: Get_def)
qed

lemma empty_page_summarise: "go_sort srt \<Longrightarrow> empty_page = summarise (sort_and_page srt q [])"
proof -
  assume "go_sort srt"
  then have "mset (srt (query_less q) []) = {#}" by (simp add: go_sort_def)
  then show ?thesis by (simp add: sort_and_page_def Let_def summarise_def empty_page_def)
qed

lemma query_filters:
  assumes "go_env_ok env" and "store_ok {} s" and "colon_free s" and "no_colon (q_service q)"
    and "q_traceID q = None"
  shows "\<exists>xs. distinct xs \<and> set xs = matching (print_float env) q s \<and>
    Query env q s = summarise (sort_and_page (sort_traces env) q xs)"
proof -
  note cand = candidates_iff [OF assms(2-4)]
  have matching: "matching (print_float env) q s =
      {tr. Get (gt_traceID tr) s = Some tr \<and> index_filters q tr \<and> rest_filters (print_float env) q tr}"
    by (auto simp: matching_def matches_def Get_def)
  show ?thesis
  proof (cases "candidates q s")
    case None
    then have "matching (print_float env) q s = {}" using cand by (auto simp: matching)
    then show ?thesis using assms(1,5) empty_page_summarise [of "sort_traces env" q]
      by (intro exI [of _ "[]"]) (simp add: Query_def None go_env_ok_def)
  next
    case (Some c)
    have "c \<subseteq> Mapping.keys (ms_traces s)" using cand by (auto simp: Some Get_def keys_dom_lookup)
    note l = loaded_traces [OF assms(2) _ this, of "range_ids env" "rest_filters (print_float env) q"]
    have "{tr. Get (gt_traceID tr) s = Some tr \<and> gt_traceID tr \<in> c \<and> rest_filters (print_float env) q tr}
        = matching (print_float env) q s"
      using cand by (auto simp: Some matching)
    with l assms(1,5) show ?thesis
      by (intro exI [of _ "filter (rest_filters (print_float env) q)
          (List.map_filter (Mapping.lookup (ms_traces s)) (range_ids env c))"])
        (simp add: Query_def Some go_env_ok_def)
  qed
qed


lemma full_update:
  assumes "store_inv s" and "Upsert tr s = Some s'" and "Get (gt_traceID tr) s \<noteq> None"
    and "int (Mapping.size (ms_traces s)) = ms_maxSize s"
  shows "Mapping.size (ms_traces s') < Mapping.size (ms_traces s)"
proof -
  let ?i = "gt_traceID tr" and ?s1 = "unindex_old (gt_traceID tr) s"
  have ok: "store_ok {} s" using assms(1) by (simp add: store_inv_def)
  have max: "2 \<le> ms_maxSize s" using upsert_stuck [OF assms(1,3)] assms(2) by force
  note ok1 = store_ok_unindex_old [OF ok, of ?i]
  have "int (card ({?i} \<inter> Mapping.keys (ms_traces ?s1))) < ms_maxSize ?s1"
    using max by (auto simp: Int_insert_left)
  from evict_until_returns [OF ok1 this] obtain s2 k where s2: "evict_until ?s1 = Some s2" "store_ok {?i} s2"
    "int (Mapping.size (ms_traces s2)) < ms_maxSize s"
    "Get ?i s2 = (if ?i \<in> fst ` set (take k (ms_timeline ?s1)) then None else Get ?i s)"
    by (metis unindex_old_simps(2,3))
  have "?i \<notin> fst ` set (ms_timeline ?s1)" using store_ok_keys(1) [OF ok1] by simp
  then have "?i \<notin> fst ` set (take k (ms_timeline ?s1))" using set_take_subset by fast
  then have "Get ?i s2 = Get ?i s" by (simp add: s2(4))
  then have "?i \<in> Mapping.keys (ms_traces s2)" using assms(3) by (auto simp: Get_def keys_dom_lookup)
  then have "Mapping.keys (ms_traces (store_trace tr s2)) = Mapping.keys (ms_traces s2)"
    by (auto simp: store_trace_def keys_update)
  moreover have "s' = store_trace tr s2" using assms(2) s2(1) by (simp add: Upsert_def)
  ultimately show ?thesis
    using s2(3) assms(4) store_ok_size [OF s2(2)] store_ok_size [OF store_ok_store [OF s2(2)]] by simp
qed

section \<open>Properties\<close>

text \<open>
  C13. The store stays consistent: after any sequence of upserts, deletions and evictions from a
  new store, the indexes by service, operation and error hold exactly the stored traces that
  belong in them, the timeline lists every stored trace once in the order of reception, and
  there are at most \<open>maxSize\<close> traces.
\<close>

theorem store_stays_consistent:
  assumes "run_store ops (NewMemoryStore n) = Some s"
  shows "store_inv s"
  by (rule memory.ok_run [OF New_inv assms])

definition sample_op :: "string \<Rightarrow> int \<Rightarrow> store_op" where
  "sample_op i t = OpUpsert (sample_go_trace i [sample_go_span ''s'' ZeroSpanID ''api'' t] t)"

theorem store_stays_consistent_witness:
  "store_inv (the (run_store [sample_op ''a'' 10, sample_op ''b'' 5, OpEvict 7] (NewMemoryStore 2)))"
proof -
  have "run_store [sample_op ''a'' 10, sample_op ''b'' 5, OpEvict 7] (NewMemoryStore 2) \<noteq> None" by code_simp
  then show ?thesis by (metis option.collapse store_stays_consistent)
qed

text \<open>
  C20. \<open>Upsert\<close> returns exactly when the trace is new or the store can hold more than one: then
  the eviction loop ends. In a store of capacity one the update of the stored trace has
  already left the timeline, so the loop finds nothing to evict and runs for ever.
\<close>

theorem upsert_returns_iff:
  assumes "store_inv s"
  shows "(\<exists>s'. Upsert tr s = Some s') \<longleftrightarrow> (Get (gt_traceID tr) s = None \<or> 2 \<le> ms_maxSize s)"
  using upsert_spec [OF assms, of tr] upsert_stuck [OF assms, of tr] by fastforce

theorem upsert_returns_iff_witness:
  "(\<exists>s'. Upsert (sample_go_trace ''a'' [] 1) (NewMemoryStore 1) = Some s') \<and>
   Upsert (sample_go_trace ''a'' [] 2) (the (run_store [sample_op ''a'' 1] (NewMemoryStore 1))) = None"
proof -
  let ?s = "the (run_store [sample_op ''a'' 1] (NewMemoryStore 1))"
  have run: "run_store [sample_op ''a'' 1] (NewMemoryStore 1) = Some ?s" by code_simp
  have "Get ''a'' ?s \<noteq> None" "ms_maxSize ?s = 1" by code_simp+
  then have "\<not> (\<exists>s'. Upsert (sample_go_trace ''a'' [] 2) ?s = Some s')"
    unfolding upsert_returns_iff [OF memory.ok_run [OF New_inv run]] by (simp add: sample_go_trace_def)
  moreover have "\<exists>s'. Upsert (sample_go_trace ''a'' [] 1) (NewMemoryStore 1) = Some s'"
    unfolding upsert_returns_iff [OF New_inv] by (simp add: NewMemoryStore_def Get_def)
  ultimately show ?thesis by (cases "Upsert (sample_go_trace ''a'' [] 2) ?s") auto
qed

text \<open>
  When \<open>Upsert\<close> returns, the trace is stored, every other trace is unchanged or gone, and the
  ones that are gone were received no later than those that are kept.
\<close>

theorem upsert_evicts_oldest:
  assumes "store_inv s" and "Upsert tr s = Some s'"
  shows "Get (gt_traceID tr) s' = Some tr \<and> evicts_oldest (gt_traceID tr) s s' \<and>
    (j = gt_traceID tr \<or> Get j s' = None \<or> Get j s' = Get j s)"
proof -
  have "Get (gt_traceID tr) s = None \<or> 2 \<le> ms_maxSize s" using upsert_stuck [OF assms(1)] assms(2) by force
  from upsert_spec [OF assms(1) this] assms(2) show ?thesis by auto
qed

theorem upsert_evicts_oldest_witness:
  "evicts_oldest ''c'' (the (run_store [sample_op ''a'' 10, sample_op ''b'' 5] (NewMemoryStore 2)))
     (the (run_store [sample_op ''a'' 10, sample_op ''b'' 5, sample_op ''c'' 1] (NewMemoryStore 2)))"
proof -
  let ?s = "the (run_store [sample_op ''a'' 10, sample_op ''b'' 5] (NewMemoryStore 2))"
  let ?tr = "sample_go_trace ''c'' [sample_go_span ''s'' ZeroSpanID ''api'' 1] 1"
  have run: "run_store [sample_op ''a'' 10, sample_op ''b'' 5] (NewMemoryStore 2) = Some ?s" by code_simp
  have ups: "Upsert ?tr ?s = Some (the (run_store [sample_op ''a'' 10, sample_op ''b'' 5, sample_op ''c'' 1] (NewMemoryStore 2)))"
    by code_simp
  from upsert_evicts_oldest [OF memory.ok_run [OF New_inv run] ups] show ?thesis
    by (simp add: sample_go_trace_def)
qed

text \<open>
  Updating a trace of a full store evicts another one although the number of traces would not
  have grown: the store ends up with fewer traces than it had.
\<close>

theorem update_of_full_store_shrinks_it:
  assumes "store_inv s" and "Upsert tr s = Some s'" and "Get (gt_traceID tr) s \<noteq> None"
    and "int (Mapping.size (ms_traces s)) = ms_maxSize s"
  shows "Mapping.size (ms_traces s') < Mapping.size (ms_traces s)"
  using assms by (rule full_update)

theorem update_of_full_store_shrinks_it_witness:
  "Mapping.size (ms_traces (the (run_store [sample_op ''a'' 10, sample_op ''b'' 5, sample_op ''a'' 20] (NewMemoryStore 2)))) < 2"
proof -
  let ?s = "the (run_store [sample_op ''a'' 10, sample_op ''b'' 5] (NewMemoryStore 2))"
  let ?tr = "sample_go_trace ''a'' [sample_go_span ''s'' ZeroSpanID ''api'' 20] 20"
  have run: "run_store [sample_op ''a'' 10, sample_op ''b'' 5] (NewMemoryStore 2) = Some ?s" by code_simp
  have ups: "Upsert ?tr ?s = Some (the (run_store [sample_op ''a'' 10, sample_op ''b'' 5, sample_op ''a'' 20] (NewMemoryStore 2)))"
    by code_simp
  have "Get (gt_traceID ?tr) ?s \<noteq> None" "Mapping.size (ms_traces ?s) = 2" "ms_maxSize ?s = 2" by code_simp+
  with update_of_full_store_shrinks_it [OF memory.ok_run [OF New_inv run] ups] show ?thesis by simp
qed

text \<open>
  C18. A store refines the map from trace ids to the last version stored under each: whatever is
  got for an id is that version, after any operations; the store may only have forgotten it.
\<close>

theorem get_is_last_version:
  assumes "run_store ops (NewMemoryStore n) = Some s" and "Get i s = Some tr"
  shows "last_version i ops None = Some tr"
  using memory.get_last_version [OF New_inv assms(1), of i None] assms(2)
  by (auto simp: Get_def NewMemoryStore_def)

theorem get_is_last_version_witness:
  "last_version ''a'' [sample_op ''a'' 10, sample_op ''b'' 5, sample_op ''a'' 20] None =
   Some (sample_go_trace ''a'' [sample_go_span ''s'' ZeroSpanID ''api'' 20] 20)"
proof -
  let ?ops = "[sample_op ''a'' 10, sample_op ''b'' 5, sample_op ''a'' 20]"
  have "run_store ?ops (NewMemoryStore 9) = Some (the (run_store ?ops (NewMemoryStore 9)))" by code_simp
  moreover have "Get ''a'' (the (run_store ?ops (NewMemoryStore 9))) =
      Some (sample_go_trace ''a'' [sample_go_span ''s'' ZeroSpanID ''api'' 20] 20)" by code_simp
  ultimately show ?thesis by (rule get_is_last_version)
qed

text \<open>
  C14. A query answers from the indexes what a scan of all stored traces would: the traces that
  match the filters, each once, sorted and paged; for service names without a colon (in the
  query, and in the spans of the store).
\<close>

theorem query_is_filter:
  assumes "go_env_ok env" and "store_inv s" and "colon_free s" and "no_colon (q_service q)"
    and "q_traceID q = None"
  shows "\<exists>xs. distinct xs \<and> set xs = matching (print_float env) q s \<and>
    Query env q s = summarise (sort_and_page (sort_traces env) q xs)"
  using assms(2) by (intro query_filters assms(1,3-5)) (simp add: store_inv_def)

definition sample_env :: go_env where
  "sample_env = \<lparr>range_ids = sorted_list_of_set, sort_traces = insertion_sort, print_float = num_str\<rparr>"

lemma sample_env_ok: "go_env_ok sample_env"
  by (simp add: go_env_ok_def sample_env_def go_sort_insertion go_range_def)

theorem query_is_filter_witness:
  "\<exists>xs. distinct xs \<and>
     set xs = matching num_str (buildTraceQuery [] [(''service'', ''api'')])
       (the (run_store [sample_op ''a'' 10, sample_op ''b'' 5] (NewMemoryStore 2))) \<and>
     Query sample_env (buildTraceQuery [] [(''service'', ''api'')])
       (the (run_store [sample_op ''a'' 10, sample_op ''b'' 5] (NewMemoryStore 2))) =
     summarise (sort_and_page insertion_sort (buildTraceQuery [] [(''service'', ''api'')]) xs)"
proof -
  let ?q = "buildTraceQuery [] [(''service'', ''api'')]"
  let ?s = "the (run_store [sample_op ''a'' 10, sample_op ''b'' 5] (NewMemoryStore 2))"
  have run: "run_store [sample_op ''a'' 10, sample_op ''b'' 5] (NewMemoryStore 2) = Some ?s" by code_simp
  have "colon_free ?s" "no_colon (q_service ?q)" "q_traceID ?q = None" by code_simp+
  from query_is_filter [OF sample_env_ok memory.ok_run [OF New_inv run] this] show ?thesis
    by (simp add: sample_env_def)
qed

text \<open>
  With a colon in a service name the operation index is read wrongly: a trace of the
  service \<open>db:5432\<close> with the operation \<open>op\<close> is not found by that operation.
\<close>

theorem colon_hides_operation:
  "let s = the (run_store [OpUpsert (sample_go_trace ''a'' [sample_go_span ''s'' ZeroSpanID ''db:5432'' 1] 1)]
             (NewMemoryStore 2))
   in sp_total (Query sample_env (buildTraceQuery [] []) s) = 1 \<and>
      sp_total (Query sample_env (buildTraceQuery [] [(''operation'', ''op'')]) s) = 0"
  by code_simp

text \<open>
  \<open>EvictOlderThan\<close> removes exactly the traces received before the cutoff, and reports how many.
\<close>

theorem evict_older_exact:
  assumes "store_inv s"
  shows "Get i (fst (EvictOlderThan c s)) =
      (case Get i s of None \<Rightarrow> None | Some t \<Rightarrow> if gt_receivedAt t < c then None else Some t) \<and>
    Mapping.size (ms_traces (fst (EvictOlderThan c s))) + snd (EvictOlderThan c s) = Mapping.size (ms_traces s)"
  using evict_older_spec [of s c] assms by (simp add: store_inv_def)

theorem evict_older_exact_witness:
  "snd (EvictOlderThan 7 (the (run_store [sample_op ''a'' 10, sample_op ''b'' 5] (NewMemoryStore 2)))) = 1"
proof -
  let ?s = "the (run_store [sample_op ''a'' 10, sample_op ''b'' 5] (NewMemoryStore 2))"
  have run: "run_store [sample_op ''a'' 10, sample_op ''b'' 5] (NewMemoryStore 2) = Some ?s" by code_simp
  have "Mapping.size (ms_traces ?s) = 2" "Mapping.size (ms_traces (fst (EvictOlderThan 7 ?s))) = 1" by code_simp+
  with evict_older_exact [OF memory.ok_run [OF New_inv run], of undefined 7] show ?thesis by simp
qed

end
