(* ===== verification/Assembler.thy ===== *)
theory Assembler
  imports MemoryStore
begin

text \<open>
  \<open>internal/processor/assembler.go\<close>: spans are collected per trace id until no new one arrives
  for the quiet period; then \<open>buildTree\<close> links them to a tree and computes what the trace
  shows. A span is referred to by its index in the list of the trace's spans, as the code does
  by its address, so that two spans with one id stay different spans.

  The loop over the breadth-first queue has no bound in the code: it is a partial function, and
  that it ends for every list of spans is a theorem. \<open>sort.Slice\<close> is a parameter, a sorter of
  span indexes. The time is an input of the operations.
\<close>

section \<open>Definitions\<close>

subsection \<open>Linking\<close>

text \<open>\<open>spanMap\<close>: of several spans with one id, the last.\<close>

definition span_map :: "go_span list \<Rightarrow> string \<Rightarrow> nat option" where
  "span_map ss = map_of (rev (zip (map gs_spanID ss) [0..<length ss]))"

record link_state =
  lk_children :: "nat list list"
  lk_roots :: "nat list"
  lk_orphans :: "nat list"

definition link_span :: "go_span list \<Rightarrow> nat \<Rightarrow> link_state \<Rightarrow> link_state" where
  "link_span ss j st =
     (if gs_isRoot (ss ! j) then st\<lparr>lk_roots := lk_roots st @ [j]\<rparr>
      else (case span_map ss (gs_parentSpanID (ss ! j)) of
          Some p \<Rightarrow> st\<lparr>lk_children := (lk_children st)[p := lk_children st ! p @ [j]]\<rparr>
        | None \<Rightarrow> st\<lparr>lk_orphans := lk_orphans st @ [j]\<rparr>))"

definition link_spans :: "go_span list \<Rightarrow> link_state" where
  "link_spans ss =
     fold (link_span ss) [0..<length ss]
       \<lparr>lk_children = replicate (length ss) [], lk_roots = [], lk_orphans = []\<rparr>"

definition starts_before :: "go_span list \<Rightarrow> nat \<Rightarrow> nat \<Rightarrow> bool" where
  "starts_before ss i j \<longleftrightarrow> gs_start (ss ! i) < gs_start (ss ! j)"

text \<open>The root, and the spans the traversal starts from besides it.\<close>

definition pick_root :: "nat go_sorter \<Rightarrow> go_span list \<Rightarrow> link_state \<Rightarrow> nat option \<times> nat list" where
  "pick_root srt ss st =
     (case lk_roots st of
        [] \<Rightarrow> (None, lk_orphans st)
      | [r] \<Rightarrow> (Some r, lk_orphans st)
      | _ \<Rightarrow> let rs = srt (starts_before ss) (lk_roots st)
             in (Some (hd rs), lk_orphans st @ tl rs))"

subsection \<open>The breadth-first pass\<close>

record bfs_state =
  bf_queue :: "(nat \<times> int) list"
  bf_children :: "nat list list"
  bf_depths :: "int list"
  bf_order :: "nat list"

definition bfs_step :: "nat go_sorter \<Rightarrow> go_span list \<Rightarrow> bfs_state \<Rightarrow> bfs_state" where
  "bfs_step srt ss st =
     (case bf_queue st of
        [] \<Rightarrow> st
      | (i, d) # q \<Rightarrow>
          let cs = srt (starts_before ss) (bf_children st ! i)
          in st\<lparr>bf_queue := q @ map (\<lambda>c. (c, d + 1)) cs,
                bf_children := (bf_children st)[i := cs],
                bf_depths := (bf_depths st)[i := d],
                bf_order := bf_order st @ [i]\<rparr>)"

partial_function (option) bfs :: "nat go_sorter \<Rightarrow> go_span list \<Rightarrow> bfs_state \<Rightarrow> bfs_state option" where
  "bfs srt ss st = (if bf_queue st = [] then Some st else bfs srt ss (bfs_step srt ss st))"

declare bfs.simps [code]

definition bfs_start :: "nat go_sorter \<Rightarrow> go_span list \<Rightarrow> bfs_state" where
  "bfs_start srt ss =
     (let st = link_spans ss; pr = pick_root srt ss st
      in \<lparr>bf_queue = map (\<lambda>i. (i, 0)) ((case fst pr of None \<Rightarrow> [] | Some r \<Rightarrow> [r]) @ snd pr),
          bf_children = lk_children st, bf_depths = replicate (length ss) 0, bf_order = []\<rparr>)"

text \<open>\<open>HasError\<close>, upwards: the spans in the reverse of the order they were visited.\<close>

definition propagate :: "nat list list \<Rightarrow> nat \<Rightarrow> bool list \<Rightarrow> bool list" where
  "propagate cs i hs = (if list_ex (\<lambda>c. hs ! c) (cs ! i) then hs[i := True] else hs)"

definition propagate_all :: "nat list list \<Rightarrow> nat list \<Rightarrow> bool list \<Rightarrow> bool list" where
  "propagate_all cs order hs = fold (propagate cs) (rev order) hs"

subsection \<open>buildTree\<close>

definition empty_trace :: "int \<Rightarrow> go_trace" where
  "empty_trace now =
     \<lparr>gt_traceID = replicate 32 (CHR ''0''), gt_tenantID = [], gt_spans = [], gt_root = None,
      gt_services = [], gt_duration = 0, gt_spanCount = 0, gt_errorCount = 0, gt_criticalPath = [],
      gt_parallelGroups = [], gt_gaps = [], gt_receivedAt = now\<rparr>"

text \<open>The duration of a trace without a root.\<close>

definition extent :: "go_span list \<Rightarrow> int" where
  "extent ss =
     go_sub (foldl (\<lambda>m s. if gs_end s > m then gs_end s else m) (gs_end (hd ss)) (tl ss))
            (foldl (\<lambda>m s. if gs_start s < m then gs_start s else m) (gs_start (hd ss)) (tl ss))"

definition finished_spans :: "go_span list \<Rightarrow> bfs_state \<Rightarrow> go_span list" where
  "finished_spans ss st =
     (let hs = propagate_all (bf_children st) (bf_order st) (map gs_hasError ss)
      in map (\<lambda>i. (ss ! i)\<lparr>gs_depth := bf_depths st ! i, gs_hasError := hs ! i,
                           gs_children := bf_children st ! i\<rparr>) [0..<length ss])"

definition buildTree :: "nat go_sorter \<Rightarrow> int \<Rightarrow> go_span list \<Rightarrow> go_trace option" where
  "buildTree srt now ss =
     (if ss = [] then Some (empty_trace now)
      else (case bfs srt ss (bfs_start srt ss) of
          None \<Rightarrow> None
        | Some st \<Rightarrow>
            let rt = fst (pick_root srt ss (link_spans ss))
            in Some \<lparr>gt_traceID = gs_traceID (hd ss), gt_tenantID = gs_tenantID (hd ss),
                 gt_spans = finished_spans ss st, gt_root = rt,
                 gt_services = sorted_list_of_set (set (filter (\<lambda>s. s \<noteq> []) (map gs_service ss))),
                 gt_duration = (case rt of Some r \<Rightarrow> gs_duration (ss ! r) | None \<Rightarrow> extent ss),
                 gt_spanCount = int (length ss),
                 gt_errorCount = int (length (filter (\<lambda>s. gs_code s = go_StatusError) ss)),
                 gt_criticalPath = [], gt_parallelGroups = [], gt_gaps = [], gt_receivedAt = now\<rparr>))"

subsection \<open>Pending traces\<close>

record pending_trace =
  pt_spans :: "go_span list"
  pt_due :: int

type_synonym assembler = "(string, pending_trace) mapping"

text \<open>The timer of a pending trace is due a quiet period after its last span.\<close>

definition AddSpan :: "int \<Rightarrow> int \<Rightarrow> go_span \<Rightarrow> assembler \<Rightarrow> assembler" where
  "AddSpan timeout now sp a =
     (case Mapping.lookup a (gs_traceID sp) of
        None \<Rightarrow> Mapping.update (gs_traceID sp) \<lparr>pt_spans = [sp], pt_due = now + timeout\<rparr> a
      | Some pt \<Rightarrow>
          Mapping.update (gs_traceID sp) \<lparr>pt_spans = pt_spans pt @ [sp], pt_due = now + timeout\<rparr> a)"

text \<open>
  \<open>finalize\<close>: the spans handed to \<open>buildTree\<close>, and the assembler without them. A timer that
  fires while a span is being added waits for the lock, so a trace may be finalized at any time,
  or not be pending any more.
\<close>

definition finalize :: "string \<Rightarrow> assembler \<Rightarrow> go_span list option \<times> assembler" where
  "finalize i a =
     (case Mapping.lookup a i of
        None \<Rightarrow> (None, a)
      | Some pt \<Rightarrow> (Some (pt_spans pt), Mapping.delete i a))"

definition PendingCount :: "assembler \<Rightarrow> nat" where
  "PendingCount a = Mapping.size a"

text \<open>\<open>Stop\<close>: every id pending at the time is finalized, in the order of a \<open>range\<close>.\<close>

fun finalize_all :: "string list \<Rightarrow> assembler \<Rightarrow> go_span list list \<times> assembler" where
  "finalize_all [] a = ([], a)"
| "finalize_all (i # is) a =
     (let r = finalize i a; r' = finalize_all is (snd r)
      in ((case fst r of None \<Rightarrow> [] | Some ss \<Rightarrow> [ss]) @ fst r', snd r'))"

definition Stop :: "(string set \<Rightarrow> string list) \<Rightarrow> assembler \<Rightarrow> go_span list list \<times> assembler" where
  "Stop rng a = finalize_all (rng (Mapping.keys a)) a"

text \<open>The life of an assembler: the batches it has handed on, and what is pending.\<close>

datatype assembler_event = SpanArrives int go_span | TimerFires string

fun assembler_run :: "int \<Rightarrow> assembler_event list \<Rightarrow> assembler \<Rightarrow> go_span list list \<times> assembler" where
  "assembler_run timeout [] a = ([], a)"
| "assembler_run timeout (SpanArrives now sp # es) a = assembler_run timeout es (AddSpan timeout now sp a)"
| "assembler_run timeout (TimerFires i # es) a =
     (let r = finalize i a; r' = assembler_run timeout es (snd r)
      in ((case fst r of None \<Rightarrow> [] | Some ss \<Rightarrow> [ss]) @ fst r', snd r'))"

definition arrived :: "assembler_event list \<Rightarrow> go_span list" where
  "arrived es = concat (map (\<lambda>e. case e of SpanArrives now sp \<Rightarrow> [sp] | TimerFires i \<Rightarrow> []) es)"

subsection \<open>What the tree is\<close>

text \<open>The parent of a span among the others; none for a root and for an orphan.\<close>

definition parent_index :: "go_span list \<Rightarrow> nat \<Rightarrow> nat option" where
  "parent_index ss j = (if gs_isRoot (ss ! j) then None else span_map ss (gs_parentSpanID (ss ! j)))"

definition kids :: "go_span list \<Rightarrow> nat \<Rightarrow> nat list" where
  "kids ss p = filter (\<lambda>j. parent_index ss j = Some p) [0..<length ss]"

text \<open>The spans whose chain of parents ends, and the chains themselves.\<close>

inductive attached :: "go_span list \<Rightarrow> nat \<Rightarrow> bool" for ss where
  attached_top: "i < length ss \<Longrightarrow> parent_index ss i = None \<Longrightarrow> attached ss i"
| attached_child: "attached ss p \<Longrightarrow> i < length ss \<Longrightarrow> parent_index ss i = Some p \<Longrightarrow> attached ss i"

inductive descends :: "go_span list \<Rightarrow> nat \<Rightarrow> nat \<Rightarrow> bool" for ss where
  descends_refl: "descends ss i i"
| descends_step: "descends ss j c \<Longrightarrow> c < length ss \<Longrightarrow> parent_index ss c = Some i \<Longrightarrow> descends ss j i"

definition depth_below :: "go_span list \<Rightarrow> int list \<Rightarrow> nat \<Rightarrow> int" where
  "depth_below ss ds i = (case parent_index ss i of None \<Rightarrow> 0 | Some p \<Rightarrow> ds ! p + 1)"

text \<open>
  The loop's invariant: visited and queued are the spans without a parent and the children of
  visited ones, each once; a child is visited after its parent.
\<close>

definition bfs_ok :: "go_span list \<Rightarrow> bfs_state \<Rightarrow> bool" where
  "bfs_ok ss st \<longleftrightarrow>
     distinct (bf_order st @ map fst (bf_queue st)) \<and>
     (\<forall>i \<in> set (bf_order st) \<union> fst ` set (bf_queue st). i < length ss \<and> attached ss i) \<and>
     (\<forall>j < length ss. j \<in> set (bf_order st) \<union> fst ` set (bf_queue st) \<longleftrightarrow>
        (case parent_index ss j of None \<Rightarrow> True | Some p \<Rightarrow> p \<in> set (bf_order st))) \<and>
     length (bf_children st) = length ss \<and>
     (\<forall>p < length ss. mset (bf_children st ! p) = mset (kids ss p)) \<and>
     length (bf_depths st) = length ss \<and>
     (\<forall>i \<in> set (bf_order st). bf_depths st ! i = depth_below ss (bf_depths st) i) \<and>
     (\<forall>e \<in> set (bf_queue st). snd e = depth_below ss (bf_depths st) (fst e)) \<and>
     sorted_wrt (\<lambda>a b. parent_index ss a \<noteq> Some b) (bf_order st)"

text \<open>The spans that wait in an assembler, and what holds of them.\<close>

definition pending_spans :: "assembler \<Rightarrow> go_span multiset" where
  "pending_spans a = held pt_spans a"

definition assembler_ok :: "assembler \<Rightarrow> bool" where
  "assembler_ok a \<longleftrightarrow> buffers_ok pt_spans a"

section \<open>Lemmas\<close>

subsection \<open>Linking\<close>

lemma span_map_less: "span_map ss k = Some p \<Longrightarrow> p < length ss \<and> gs_spanID (ss ! p) = k"
  unfolding span_map_def by (drule map_of_SomeD) (auto simp: set_zip)

lemma parent_less: "parent_index ss j = Some p \<Longrightarrow> p < length ss"
  by (auto simp: parent_index_def dest: span_map_less split: if_splits)

lemma link_span_parent:
  "link_span ss j st =
     (case parent_index ss j of
        None \<Rightarrow> if gs_isRoot (ss ! j) then st\<lparr>lk_roots := lk_roots st @ [j]\<rparr>
                else st\<lparr>lk_orphans := lk_orphans st @ [j]\<rparr>
      | Some p \<Rightarrow> st\<lparr>lk_children := (lk_children st)[p := lk_children st ! p @ [j]]\<rparr>)"
  by (simp add: link_span_def parent_index_def split: option.splits)

lemma parent_not_root: "parent_index ss j = Some p \<Longrightarrow> \<not> gs_isRoot (ss ! j)"
  by (auto simp: parent_index_def)

lemma link_spans_upto:
  "k \<le> length ss \<Longrightarrow>
   fold (link_span ss) [0..<k] \<lparr>lk_children = replicate (length ss) [], lk_roots = [], lk_orphans = []\<rparr> =
   \<lparr>lk_children = map (\<lambda>p. filter (\<lambda>j. parent_index ss j = Some p) [0..<k]) [0..<length ss],
    lk_roots = filter (\<lambda>j. gs_isRoot (ss ! j)) [0..<k],
    lk_orphans = filter (\<lambda>j. \<not> gs_isRoot (ss ! j) \<and> parent_index ss j = None) [0..<k]\<rparr>"
proof (induction k)
  case 0
  then show ?case by (simp add: map_replicate_const)
next
  case (Suc k)
  then have k: "k < length ss" by simp
  note step = Suc.IH [OF less_imp_le [OF k]]
  show ?case
  proof (cases "parent_index ss k")
    case None
    then show ?thesis by (simp add: step link_span_parent [of ss k])
  next
    case (Some p)
    have "(map (\<lambda>p. filter (\<lambda>j. parent_index ss j = Some p) [0..<k]) [0..<length ss])
        [p := filter (\<lambda>j. parent_index ss j = Some p) [0..<k] @ [k]] =
      map (\<lambda>p. filter (\<lambda>j. parent_index ss j = Some p) [0..<Suc k]) [0..<length ss]"
      using Some by (intro nth_equalityI) (auto simp: nth_list_update)
    then show ?thesis
      using Some parent_less [OF Some] parent_not_root [OF Some] by (simp add: step link_span_parent [of ss k])
  qed
qed

lemma link_spans_eq:
  "lk_children (link_spans ss) = map (kids ss) [0..<length ss]"
  "lk_roots (link_spans ss) = filter (\<lambda>j. gs_isRoot (ss ! j)) [0..<length ss]"
  "lk_orphans (link_spans ss) = filter (\<lambda>j. \<not> gs_isRoot (ss ! j) \<and> parent_index ss j = None) [0..<length ss]"
  unfolding link_spans_def link_spans_upto [OF order_refl] by (simp_all add: kids_def)

lemma mset_filter_split:
  "(\<And>x. R x \<longleftrightarrow> P x \<or> Q x) \<Longrightarrow> (\<And>x. \<not> (P x \<and> Q x)) \<Longrightarrow>
   mset (filter P xs) + mset (filter Q xs) = mset (filter R xs)"
  by (induction xs) auto

text \<open>The traversal starts from the spans without a parent.\<close>

lemma mset_start:
  assumes "go_sort srt"
  shows "mset (map fst (bf_queue (bfs_start srt ss))) =
    mset (filter (\<lambda>j. parent_index ss j = None) [0..<length ss])"
proof -
  let ?st = "link_spans ss"
  have srt: "mset (srt lt xs) = mset xs" for lt xs using assms by (simp add: go_sort_def)
  have "mset ((case fst (pick_root srt ss ?st) of None \<Rightarrow> [] | Some r \<Rightarrow> [r]) @ snd (pick_root srt ss ?st)) =
      mset (lk_roots ?st) + mset (lk_orphans ?st)"
  proof (cases "lk_roots ?st" rule: remdups_adj.cases)
    case (3 x y xs)
    let ?rs = "srt (starts_before ss) (lk_roots ?st)"
    have "?rs \<noteq> []" using srt [of "starts_before ss" "lk_roots ?st"] 3 by auto
    then have "mset (hd ?rs # tl ?rs) = mset (lk_roots ?st)" by (simp add: srt)
    with 3 show ?thesis by (simp add: pick_root_def Let_def)
  qed (simp_all add: pick_root_def)
  moreover have "mset (lk_roots ?st) + mset (lk_orphans ?st) =
      mset (filter (\<lambda>j. parent_index ss j = None) [0..<length ss])"
    unfolding link_spans_eq by (rule mset_filter_split) (auto simp: parent_index_def)
  ultimately show ?thesis by (simp add: bfs_start_def Let_def comp_def)
qed


subsection \<open>The breadth-first pass\<close>

lemma mem_kids: "j \<in> set (kids ss p) \<longleftrightarrow> j < length ss \<and> parent_index ss j = Some p"
  by (auto simp: kids_def)

lemma distinct_kids: "distinct (kids ss p)"
  by (simp add: kids_def)

lemma bfs_ok_start:
  assumes "go_sort srt"
  shows "bfs_ok ss (bfs_start srt ss)"
proof -
  let ?st = "bfs_start srt ss"
  note m = mset_start [OF assms, of ss]
  have start: "bf_order ?st = []" "bf_children ?st = map (kids ss) [0..<length ss]"
    "bf_depths ?st = replicate (length ss) 0" "\<forall>e \<in> set (bf_queue ?st). snd e = 0"
    by (auto simp: bfs_start_def Let_def link_spans_eq)
  have set: "fst ` set (bf_queue ?st) = {j. j < length ss \<and> parent_index ss j = None}"
    using mset_eq_setD [OF m] by auto
  have "distinct (map fst (bf_queue ?st))"
    unfolding mset_eq_imp_distinct_iff [OF m] by simp
  moreover have "snd e = depth_below ss (bf_depths ?st) (fst e)" if "e \<in> set (bf_queue ?st)" for e
  proof -
    have "fst e \<in> fst ` set (bf_queue ?st)" using that by simp
    then have "parent_index ss (fst e) = None" unfolding set by simp
    then show ?thesis using that start(4) by (simp add: depth_below_def)
  qed
  ultimately show ?thesis
    unfolding bfs_ok_def set by (auto simp: start intro: attached_top split: option.splits)
qed

lemma bfs_ok_step:
  assumes srt: "go_sort srt" and ok: "bfs_ok ss st" and queue: "bf_queue st = (i, d) # q"
  shows "bfs_ok ss (bfs_step srt ss st)"
proof -
  let ?V = "set (bf_order st)" and ?Q = "fst ` set q"
  define cs where "cs = srt (starts_before ss) (bf_children st ! i)"
  from ok have dist: "distinct (bf_order st @ i # map fst q)"
    and att: "\<And>j. j \<in> ?V \<union> insert i ?Q \<Longrightarrow> j < length ss \<and> attached ss j"
    and closed: "\<And>j. j < length ss \<Longrightarrow> j \<in> ?V \<union> insert i ?Q \<longleftrightarrow>
       (case parent_index ss j of None \<Rightarrow> True | Some p \<Rightarrow> p \<in> ?V)"
    and len: "length (bf_children st) = length ss" "length (bf_depths st) = length ss"
    and ch: "\<And>p. p < length ss \<Longrightarrow> mset (bf_children st ! p) = mset (kids ss p)"
    and dep: "\<And>j. j \<in> ?V \<Longrightarrow> bf_depths st ! j = depth_below ss (bf_depths st) j"
    and dq: "d = depth_below ss (bf_depths st) i" "\<And>e. e \<in> set q \<Longrightarrow> snd e = depth_below ss (bf_depths st) (fst e)"
    and sorted: "sorted_wrt (\<lambda>a b. parent_index ss a \<noteq> Some b) (bf_order st)"
    unfolding bfs_ok_def queue by auto
  have i: "i < length ss" "i \<notin> ?V" "attached ss i" using att dist by auto
  have "mset cs = mset (kids ss i)" using srt ch [OF i(1)] by (simp add: cs_def go_sort_def)
  from mset_eq_setD [OF this] mset_eq_imp_distinct_iff [OF this]
  have cs: "set cs = set (kids ss i)" "distinct cs" by (simp_all add: distinct_kids)
  have new: "j \<notin> ?V \<union> insert i ?Q" if "j \<in> set cs" for j
  proof -
    have j: "j < length ss" "parent_index ss j = Some i" using that by (simp_all add: cs mem_kids)
    show ?thesis using closed [OF j(1)] i(2) by (simp add: j(2))
  qed
  have kept: "parent_index ss j \<noteq> Some i" if "j \<in> ?V \<union> insert i ?Q" for j
    using closed [of j] att [OF that] that i(2) by (cases "parent_index ss j") auto
  let ?st = "bfs_step srt ss st" and ?ds = "(bf_depths st)[i := d]"
  have step: "bf_queue ?st = q @ map (\<lambda>c. (c, d + 1)) cs" "bf_order ?st = bf_order st @ [i]"
    "bf_children ?st = (bf_children st)[i := cs]" "bf_depths ?st = ?ds"
    by (simp_all add: bfs_step_def queue Let_def cs_def)
  have below: "depth_below ss ?ds j = depth_below ss (bf_depths st) j" if "j \<in> ?V \<union> insert i ?Q" for j
    using kept [OF that] by (auto simp: depth_below_def split: option.splits)
  have set: "set (bf_order ?st) \<union> fst ` set (bf_queue ?st) = ?V \<union> insert i ?Q \<union> set cs"
    by (auto simp: step image_Un image_image)
  have "distinct (bf_order ?st @ map fst (bf_queue ?st))"
    using dist cs(2) new by (auto simp: step comp_def)
  moreover have "j < length ss \<and> attached ss j" if "j \<in> ?V \<union> insert i ?Q \<union> set cs" for j
    using that att i(3) by (auto simp: cs mem_kids intro: attached_child)
  moreover have "j \<in> ?V \<union> insert i ?Q \<union> set cs \<longleftrightarrow>
      (case parent_index ss j of None \<Rightarrow> True | Some p \<Rightarrow> p \<in> set (bf_order ?st))" if "j < length ss" for j
    using closed [OF that] that by (auto simp: step cs mem_kids split: option.splits)
  moreover have "mset (bf_children ?st ! p) = mset (kids ss p)" if "p < length ss" for p
    using ch [OF that] \<open>mset cs = mset (kids ss i)\<close> len that by (cases "p = i") (simp_all add: step)
  moreover have "bf_depths ?st ! j = depth_below ss (bf_depths ?st) j" if "j \<in> set (bf_order ?st)" for j
    using that dep [of j] dq(1) below [of j] i(1,2) len by (auto simp: step nth_list_update)
  moreover have "snd e = depth_below ss (bf_depths ?st) (fst e)" if "e \<in> set (bf_queue ?st)" for e
  proof (cases "e \<in> set q")
    case True
    then show ?thesis using dq(2) [OF True] below [of "fst e"] by (simp add: step)
  next
    case False
    then have "fst e \<in> set cs" "snd e = d + 1" using that by (auto simp: step)
    then show ?thesis using i(1) len by (simp add: step cs mem_kids depth_below_def)
  qed
  moreover have "sorted_wrt (\<lambda>a b. parent_index ss a \<noteq> Some b) (bf_order ?st)"
    using sorted kept by (auto simp: step sorted_wrt_append)
  ultimately show ?thesis
    unfolding bfs_ok_def set by (auto simp: step len)
qed

lemma order_short:
  assumes "bfs_ok ss st"
  shows "length (bf_order st) + length (bf_queue st) \<le> length ss"
proof -
  have "set (bf_order st @ map fst (bf_queue st)) \<subseteq> {..<length ss}" using assms by (auto simp: bfs_ok_def)
  from card_mono [OF _ this] show ?thesis
    using distinct_card [of "bf_order st @ map fst (bf_queue st)"] assms by (simp add: bfs_ok_def)
qed

text \<open>The loop ends, with the invariant and an empty queue.\<close>

lemma bfs_returns:
  assumes "go_sort srt" and "bfs_ok ss st"
  shows "\<exists>st'. bfs srt ss st = Some st' \<and> bfs_ok ss st' \<and> bf_queue st' = []"
  using assms(2)
proof (induction "length ss - length (bf_order st)" arbitrary: st rule: less_induct)
  case less
  show ?case
  proof (cases "bf_queue st")
    case Nil
    then show ?thesis using less.prems by (subst bfs.simps) simp
  next
    case (Cons e q)
    obtain i d where e: "e = (i, d)" by (cases e)
    note ok = bfs_ok_step [OF assms(1) less.prems Cons [unfolded e]]
    have "length (bf_order (bfs_step srt ss st)) = Suc (length (bf_order st))"
      by (simp add: bfs_step_def Cons e Let_def)
    moreover have "length (bf_order st) < length ss" using order_short [OF less.prems] Cons by simp
    ultimately have "length ss - length (bf_order (bfs_step srt ss st)) < length ss - length (bf_order st)" by simp
    from less.hyps [OF this ok] show ?thesis using Cons by (subst bfs.simps) simp
  qed
qed


lemma bfs_visits:
  assumes "bfs_ok ss st" and "bf_queue st = []"
  shows "set (bf_order st) = {i. attached ss i}"
proof -
  have closed: "j \<in> set (bf_order st) \<longleftrightarrow> (case parent_index ss j of None \<Rightarrow> True | Some p \<Rightarrow> p \<in> set (bf_order st))"
    if "j < length ss" for j using assms that unfolding bfs_ok_def by auto
  have "i \<in> set (bf_order st)" if "attached ss i" for i
    using that by induction (simp_all add: closed)
  moreover have "attached ss i" if "i \<in> set (bf_order st)" for i using assms that unfolding bfs_ok_def by auto
  ultimately show ?thesis by blast
qed

lemma attached_less: "attached ss i \<Longrightarrow> i < length ss"
  by (induction rule: attached.induct) auto

subsection \<open>Errors\<close>

inductive_cases descends_cases: "descends ss j i"

lemma descends_kids: "descends ss j i \<longleftrightarrow> j = i \<or> (\<exists>c \<in> set (kids ss i). descends ss j c)"
  by (auto simp: mem_kids intro: descends_refl descends_step elim: descends_cases)

text \<open>
  The spans of a suffix of the order, visited backwards: each gets the flag if a descendant
  has it, since its children come later in the order.
\<close>

lemma propagate_suffix:
  assumes "distinct ys" and "set ys \<subseteq> {..<length hs}"
    and "\<And>a i b. ys = a @ i # b \<Longrightarrow> set (cs ! i) = set (kids ss i) \<and> set (kids ss i) \<subseteq> set b"
  shows "length (propagate_all cs ys hs) = length hs \<and>
    (\<forall>i. i \<notin> set ys \<longrightarrow> propagate_all cs ys hs ! i = hs ! i) \<and>
    (\<forall>i \<in> set ys. propagate_all cs ys hs ! i \<longleftrightarrow> (\<exists>j. descends ss j i \<and> hs ! j))"
  using assms
proof (induction ys)
  case Nil
  then show ?case by (simp add: propagate_all_def)
next
  case (Cons i ys)
  let ?hs = "propagate_all cs ys hs"
  have IH: "length ?hs = length hs" "\<And>j. j \<notin> set ys \<Longrightarrow> ?hs ! j = hs ! j"
    "\<And>j. j \<in> set ys \<Longrightarrow> ?hs ! j \<longleftrightarrow> (\<exists>k. descends ss k j \<and> hs ! k)"
    using Cons.IH Cons.prems(1,2) Cons.prems(3) [of "i # _"] by (auto simp: Cons_eq_append_conv)
  have kids: "set (cs ! i) = set (kids ss i)" "set (kids ss i) \<subseteq> set ys" using Cons.prems(3) [of "[]"] by auto
  have step: "propagate_all cs (i # ys) hs = propagate cs i ?hs" by (simp add: propagate_all_def)
  have ex: "list_ex (\<lambda>c. ?hs ! c) (cs ! i) \<longleftrightarrow> (\<exists>c \<in> set (kids ss i). \<exists>k. descends ss k c \<and> hs ! k)"
  proof -
    have "?hs ! c \<longleftrightarrow> (\<exists>k. descends ss k c \<and> hs ! k)" if "c \<in> set (kids ss i)" for c
      using that kids(2) by (intro IH(3)) auto
    then show ?thesis unfolding list_ex_iff kids(1) by blast
  qed
  have i: "i < length hs" "?hs ! i = hs ! i" using Cons.prems(1,2) IH(2) by auto
  have here: "propagate cs i ?hs ! i \<longleftrightarrow> (\<exists>j. descends ss j i \<and> hs ! j)"
    using i IH(1) ex descends_kids [of ss _ i] by (auto simp: propagate_def)
  have there: "propagate cs i ?hs ! j = ?hs ! j" if "j \<noteq> i" for j
    using that by (simp add: propagate_def)
  have "length (propagate cs i ?hs) = length hs" by (simp add: propagate_def IH(1))
  moreover have "propagate cs i ?hs ! j = hs ! j" if "j \<notin> set (i # ys)" for j
    using that there [of j] IH(2) [of j] by simp
  moreover have "propagate cs i ?hs ! j \<longleftrightarrow> (\<exists>k. descends ss k j \<and> hs ! k)" if "j \<in> set (i # ys)" for j
    using that here there [of j] IH(3) [of j] Cons.prems(1) by (cases "j = i") simp_all
  ultimately show ?case unfolding step by blast
qed

lemma bfs_ok_children: "bfs_ok ss st \<Longrightarrow> p < length ss \<Longrightarrow> mset (bf_children st ! p) = mset (kids ss p)"
  unfolding bfs_ok_def by blast

lemma not_own_parent: "attached ss i \<Longrightarrow> parent_index ss i \<noteq> Some i"
  by (induction rule: attached.induct) auto

text \<open>In the order of the visits the children of a span come after it.\<close>

lemma kids_later:
  assumes "bfs_ok ss st" and "bf_queue st = []" and "bf_order st = a @ i # b"
  shows "set (kids ss i) \<subseteq> set b"
proof
  note V = bfs_visits [OF assms(1,2)]
  have i: "attached ss i" using V assms(3) by auto
  fix c assume "c \<in> set (kids ss i)"
  then have c: "c < length ss" "parent_index ss c = Some i" by (simp_all add: mem_kids)
  then have "c \<in> set (bf_order st)" using i V by (auto intro: attached_child)
  moreover have "c \<notin> set a"
    using assms(1) c(2) by (auto simp: bfs_ok_def assms(3) sorted_wrt_append)
  moreover have "c \<noteq> i" using not_own_parent [OF i] c(2) by auto
  ultimately show "c \<in> set b" by (simp add: assms(3))
qed

lemma propagate_order:
  assumes "bfs_ok ss st" and "bf_queue st = []" and "length hs = length ss"
  shows "propagate_all (bf_children st) (bf_order st) hs ! i =
    (if attached ss i then \<exists>j. descends ss j i \<and> hs ! j else hs ! i)"
proof -
  note V = bfs_visits [OF assms(1,2)]
  have later: "set (bf_children st ! i) = set (kids ss i) \<and> set (kids ss i) \<subseteq> set b"
    if "bf_order st = a @ i # b" for a i b
  proof -
    have "attached ss i" using V that by auto
    note bfs_ok_children [OF assms(1) attached_less [OF this]]
    from mset_eq_setD [OF this] kids_later [OF assms(1,2) that] show ?thesis by simp
  qed
  have "distinct (bf_order st)" "set (bf_order st) \<subseteq> {..<length hs}"
    using assms by (auto simp: bfs_ok_def)
  from propagate_suffix [OF this later] show ?thesis by (auto simp: V)
qed

lemma takeWhile_avoid: "c \<notin> set xs \<Longrightarrow> takeWhile (\<lambda>x. x \<noteq> c) (xs @ ys) = xs @ takeWhile (\<lambda>x. x \<noteq> c) ys"
  by (induction xs) auto

text \<open>A rank below the number of spans that grows from a span to its children.\<close>

lemma attached_rank:
  "\<exists>rank. \<forall>i. attached ss i \<longrightarrow> rank i < length ss \<and> (\<forall>c \<in> set (kids ss i). attached ss c \<and> rank i < (rank c :: nat))"
proof -
  from bfs_returns [OF go_sort_insertion bfs_ok_start [OF go_sort_insertion]] obtain st where
    st: "bfs_ok ss st" "bf_queue st = []" by blast
  note V = bfs_visits [OF st]
  define rank where "rank i = length (takeWhile (\<lambda>x. x \<noteq> i) (bf_order st))" for i
  have "rank i < length ss \<and> (\<forall>c \<in> set (kids ss i). attached ss c \<and> rank i < rank c)" if "attached ss i" for i
  proof -
    have "i \<in> set (bf_order st)" using V that by simp
    then obtain a b where ord: "bf_order st = a @ i # b" by (meson split_list)
    have dist: "distinct (bf_order st)" using st(1) by (simp add: bfs_ok_def)
    then have "i \<notin> set a" by (simp add: ord)
    then have rank: "rank i = length a" by (simp add: rank_def ord takeWhile_avoid)
    have "rank i < rank c" if "c \<in> set (kids ss i)" for c
    proof -
      have "c \<in> set b" using kids_later [OF st ord] that by blast
      then have "c \<notin> set (a @ [i])" using dist unfolding ord by auto
      from takeWhile_avoid [OF this, of b] show ?thesis unfolding rank by (simp add: rank_def ord)
    qed
    moreover have "attached ss c" if "c \<in> set (kids ss i)" for c
      using \<open>attached ss i\<close> that by (auto simp: mem_kids intro: attached_child)
    moreover have "rank i < length ss" using order_short [OF st(1)] by (simp add: rank ord)
    ultimately show ?thesis by blast
  qed
  then show ?thesis by blast
qed

subsection \<open>The finished trace\<close>

lemma buildTree_returns:
  assumes "go_sort srt"
  shows "\<exists>t. buildTree srt now ss = Some t"
proof -
  from bfs_returns [OF assms bfs_ok_start [OF assms, of ss]] obtain st where
    "bfs srt ss (bfs_start srt ss) = Some st" by blast
  then show ?thesis by (simp add: buildTree_def Let_def)
qed

lemma buildTree_spans:
  assumes "go_sort srt" and "buildTree srt now ss = Some t"
  shows "length (gt_spans t) = length ss"
    and "i < length ss \<Longrightarrow> \<exists>d h c. gt_spans t ! i = (ss ! i)\<lparr>gs_depth := d, gs_hasError := h, gs_children := c\<rparr>"
    and "attached ss i \<Longrightarrow> gs_depth (gt_spans t ! i) =
      (case parent_index ss i of None \<Rightarrow> 0 | Some p \<Rightarrow> gs_depth (gt_spans t ! p) + 1)"
    and "attached ss i \<Longrightarrow> gs_hasError (gt_spans t ! i) \<longleftrightarrow> (\<exists>j < length ss. descends ss j i \<and> gs_hasError (ss ! j))"
    and "i < length ss \<Longrightarrow> mset (gs_children (gt_spans t ! i)) = mset (kids ss i)"
    and "i < length ss \<Longrightarrow> \<not> attached ss i \<Longrightarrow> gs_hasError (gt_spans t ! i) = gs_hasError (ss ! i)"
proof -
  have "length (gt_spans t) = length ss \<and>
    (i < length ss \<longrightarrow> (\<exists>d h c. gt_spans t ! i = (ss ! i)\<lparr>gs_depth := d, gs_hasError := h, gs_children := c\<rparr>)) \<and>
    (attached ss i \<longrightarrow> gs_depth (gt_spans t ! i) =
      (case parent_index ss i of None \<Rightarrow> 0 | Some p \<Rightarrow> gs_depth (gt_spans t ! p) + 1)) \<and>
    (attached ss i \<longrightarrow> (gs_hasError (gt_spans t ! i) \<longleftrightarrow> (\<exists>j < length ss. descends ss j i \<and> gs_hasError (ss ! j)))) \<and>
    (i < length ss \<longrightarrow> mset (gs_children (gt_spans t ! i)) = mset (kids ss i)) \<and>
    (i < length ss \<longrightarrow> \<not> attached ss i \<longrightarrow> gs_hasError (gt_spans t ! i) = gs_hasError (ss ! i))"
  proof (cases "ss = []")
    case True
    then show ?thesis using assms(2) attached_less [of ss i] by (auto simp: buildTree_def empty_trace_def)
  next
    case False
    from bfs_returns [OF assms(1) bfs_ok_start [OF assms(1)]] obtain st where
      st: "bfs srt ss (bfs_start srt ss) = Some st" "bfs_ok ss st" "bf_queue st = []" by blast
    let ?hs = "map gs_hasError ss"
    have spans: "gt_spans t = finished_spans ss st" using assms(2) False by (auto simp: buildTree_def st Let_def)
    have nth: "gt_spans t ! k = (ss ! k)\<lparr>gs_depth := bf_depths st ! k,
        gs_hasError := propagate_all (bf_children st) (bf_order st) ?hs ! k, gs_children := bf_children st ! k\<rparr>"
      if "k < length ss" for k using that by (simp add: spans finished_spans_def Let_def)
    have len: "length (gt_spans t) = length ss" by (simp add: spans finished_spans_def Let_def)
    have "\<forall>k \<in> set (bf_order st). bf_depths st ! k = depth_below ss (bf_depths st) k"
      using st(2) unfolding bfs_ok_def by blast
    then have dep: "bf_depths st ! i = depth_below ss (bf_depths st) i" if "attached ss i"
      using bfs_visits [OF st(2,3)] that by blast
    have err: "gs_hasError (gt_spans t ! i) \<longleftrightarrow> (\<exists>j < length ss. descends ss j i \<and> gs_hasError (ss ! j))" if "attached ss i"
    proof -
      have less: "j < length ss" if "descends ss j i" for j
        using that attached_less [OF \<open>attached ss i\<close>] by induction auto
      have "gs_hasError (gt_spans t ! i) \<longleftrightarrow> (\<exists>j. descends ss j i \<and> ?hs ! j)"
        using propagate_order [OF st(2,3), of ?hs i] attached_less [OF that] that by (simp add: nth)
      then show ?thesis using less by (metis nth_map)
    qed
    have own: "gs_hasError (gt_spans t ! i) = gs_hasError (ss ! i)" if "i < length ss" "\<not> attached ss i"
      using propagate_order [OF st(2,3), of ?hs i] that by (simp add: nth)
    have kid: "mset (gs_children (gt_spans t ! i)) = mset (kids ss i)" if "i < length ss"
      using bfs_ok_children [OF st(2) that] that by (simp add: nth)
    have depth: "gs_depth (gt_spans t ! i) =
        (case parent_index ss i of None \<Rightarrow> 0 | Some p \<Rightarrow> gs_depth (gt_spans t ! p) + 1)" if "attached ss i"
    proof (cases "parent_index ss i")
      case None
      with dep [OF that] show ?thesis by (simp add: nth [OF attached_less [OF that]] depth_below_def)
    next
      case (Some p)
      with dep [OF that] show ?thesis
        by (simp add: nth [OF attached_less [OF that]] nth [OF parent_less [OF Some]] depth_below_def)
    qed
    have "\<exists>d h c. gt_spans t ! i = (ss ! i)\<lparr>gs_depth := d, gs_hasError := h, gs_children := c\<rparr>" if "i < length ss"
      using nth [OF that] by blast
    with len depth err kid own show ?thesis by blast
  qed
  then show "length (gt_spans t) = length ss"
    and "i < length ss \<Longrightarrow> \<exists>d h c. gt_spans t ! i = (ss ! i)\<lparr>gs_depth := d, gs_hasError := h, gs_children := c\<rparr>"
    and "attached ss i \<Longrightarrow> gs_depth (gt_spans t ! i) =
      (case parent_index ss i of None \<Rightarrow> 0 | Some p \<Rightarrow> gs_depth (gt_spans t ! p) + 1)"
    and "attached ss i \<Longrightarrow> gs_hasError (gt_spans t ! i) \<longleftrightarrow> (\<exists>j < length ss. descends ss j i \<and> gs_hasError (ss ! j))"
    and "i < length ss \<Longrightarrow> mset (gs_children (gt_spans t ! i)) = mset (kids ss i)"
    and "i < length ss \<Longrightarrow> \<not> attached ss i \<Longrightarrow> gs_hasError (gt_spans t ! i) = gs_hasError (ss ! i)" by blast+
qed


subsection \<open>Pending spans\<close>

lemma assembler_ok_empty: "assembler_ok Mapping.empty" "pending_spans Mapping.empty = {#}"
  by (simp_all add: assembler_ok_def pending_spans_def)

lemma AddSpan_pending:
  assumes "assembler_ok a"
  shows "assembler_ok (AddSpan timeout now sp a)" and "pending_spans (AddSpan timeout now sp a) = add_mset sp (pending_spans a)"
proof -
  have fin: "finite (Mapping.keys a)" using assms by (simp add: assembler_ok_def buffers_ok_def)
  show "pending_spans (AddSpan timeout now sp a) = add_mset sp (pending_spans a)"
    by (cases "Mapping.lookup a (gs_traceID sp)")
      (simp_all add: AddSpan_def pending_spans_def held_new [OF fin] held_grow [OF fin])
  show "assembler_ok (AddSpan timeout now sp a)"
    using assms by (cases "Mapping.lookup a (gs_traceID sp)")
      (auto simp: assembler_ok_def AddSpan_def intro: buffers_new buffers_grow)
qed

lemma finalize_pending:
  assumes "assembler_ok a"
  shows "assembler_ok (snd (finalize i a))"
    and "mset (concat (case fst (finalize i a) of None \<Rightarrow> [] | Some ss \<Rightarrow> [ss])) + pending_spans (snd (finalize i a)) = pending_spans a"
    and "list_all one_trace (case fst (finalize i a) of None \<Rightarrow> [] | Some ss \<Rightarrow> [ss])"
    and "Mapping.keys (snd (finalize i a)) = Mapping.keys a - {i}"
proof -
  have fin: "finite (Mapping.keys a)" using assms by (simp add: assembler_ok_def buffers_ok_def)
  show "assembler_ok (snd (finalize i a))"
    using assms by (auto simp: assembler_ok_def finalize_def buffers_delete split: option.splits)
  show "mset (concat (case fst (finalize i a) of None \<Rightarrow> [] | Some ss \<Rightarrow> [ss])) + pending_spans (snd (finalize i a)) = pending_spans a"
    using held_delete [OF fin, of i] by (auto simp: finalize_def pending_spans_def split: option.splits)
  show "list_all one_trace (case fst (finalize i a) of None \<Rightarrow> [] | Some ss \<Rightarrow> [ss])"
    using assms by (auto simp: assembler_ok_def finalize_def dest: buffers_batch split: option.splits)
  show "Mapping.keys (snd (finalize i a)) = Mapping.keys a - {i}"
    by (cases "Mapping.lookup a i") (auto simp: finalize_def keys_delete, auto simp: keys_dom_lookup)
qed

lemma finalize_all_pending:
  "assembler_ok a \<Longrightarrow>
   mset (concat (fst (finalize_all is a))) + pending_spans (snd (finalize_all is a)) = pending_spans a \<and>
   list_all one_trace (fst (finalize_all is a)) \<and>
   Mapping.keys (snd (finalize_all is a)) = Mapping.keys a - set is"
proof (induction "is" arbitrary: a)
  case (Cons i "is")
  note f = finalize_pending [OF Cons.prems, of i] and IH = Cons.IH [OF finalize_pending(1) [OF Cons.prems, of i]]
  show ?case using f(2-4) IH by (auto simp: Let_def add.assoc)
qed simp

lemma assembler_run_pending:
  "assembler_ok a \<Longrightarrow>
   assembler_ok (snd (assembler_run timeout es a)) \<and>
   mset (concat (fst (assembler_run timeout es a))) + pending_spans (snd (assembler_run timeout es a)) =
     mset (arrived es) + pending_spans a \<and>
   list_all one_trace (fst (assembler_run timeout es a))"
proof (induction es arbitrary: a)
  case (Cons e es)
  show ?case
  proof (cases e)
    case (SpanArrives now sp)
    with Cons.IH [OF AddSpan_pending(1) [OF Cons.prems]] AddSpan_pending(2) [OF Cons.prems]
    show ?thesis by (simp add: arrived_def)
  next
    case (TimerFires i)
    note f = finalize_pending [OF Cons.prems, of i]
    with TimerFires Cons.IH [OF f(1)] show ?thesis by (simp add: arrived_def Let_def add.assoc)
  qed
qed (simp add: arrived_def)

section \<open>Properties\<close>

text \<open>
  C15. \<open>buildTree\<close> always returns: the breadth-first loop ends for every list of spans, also with
  repeated ids and with spans that are their own ancestors.
\<close>

theorem build_tree_returns:
  assumes "go_sort srt"
  shows "\<exists>t. buildTree srt now ss = Some t"
  using assms by (rule buildTree_returns)

definition looped_spans :: "go_span list" where
  "looped_spans = [sample_go_span ''r'' ZeroSpanID ''web'' 1, sample_go_span ''x'' ''y'' ''api'' 5,
     sample_go_span ''y'' ''x'' ''api'' 6, sample_go_span ''r'' ''r'' ''web'' 7]"

theorem build_tree_returns_witness: "\<exists>t. buildTree insertion_sort 0 looped_spans = Some t"
  by (rule build_tree_returns [OF go_sort_insertion])

text \<open>
  The assembled spans are the spans given, in their order, and every span whose chain of
  parents ends is one level deeper than its parent, or at depth 0 if it has none.
\<close>

theorem assembled_depths:
  assumes "go_sort srt" and "buildTree srt now ss = Some t" and "attached ss i"
  shows "length (gt_spans t) = length ss \<and> gs_spanID (gt_spans t ! i) = gs_spanID (ss ! i) \<and>
    gs_depth (gt_spans t ! i) =
      (case parent_index ss i of None \<Rightarrow> 0 | Some p \<Rightarrow> gs_depth (gt_spans t ! p) + 1)"
  using buildTree_spans(1,3) [OF assms(1,2)] buildTree_spans(2) [OF assms(1,2) attached_less [OF assms(3)]]
    assms(3) by auto

definition sample_spans :: "go_span list" where
  "sample_spans = [sample_go_span ''c'' ''r'' ''api'' 5, sample_go_span ''r'' ZeroSpanID ''web'' 1,
     (sample_go_span ''d'' ''c'' ''db'' 7)\<lparr>gs_hasError := True\<rparr>]"

lemma sample_attached: "attached sample_spans 0" "attached sample_spans 1"
proof -
  have "parent_index sample_spans 1 = None" "parent_index sample_spans 0 = Some 1" by code_simp+
  moreover have "length sample_spans = 3" by (simp add: sample_spans_def)
  ultimately show "attached sample_spans 1" "attached sample_spans 0"
    using attached_top [of 1 sample_spans] attached_child [of sample_spans 1 0] by simp_all
qed

theorem assembled_depths_witness:
  "gs_depth (gt_spans (the (buildTree insertion_sort 0 sample_spans)) ! 0) =
   gs_depth (gt_spans (the (buildTree insertion_sort 0 sample_spans)) ! 1) + 1"
proof -
  have "buildTree insertion_sort 0 sample_spans = Some (the (buildTree insertion_sort 0 sample_spans))"
    using buildTree_returns [OF go_sort_insertion] by (metis option.sel)
  moreover have "parent_index sample_spans 0 = Some 1" by code_simp
  ultimately show ?thesis
    using assembled_depths [OF go_sort_insertion _ sample_attached(1)] by simp
qed

text \<open>
  C16. After assembly a span whose chain of parents ends (at a span without a parent in the trace) is
  marked as failed exactly if it or one of its descendants was: one backward pass over the
  breadth-first order is enough. A span on a cycle of parents, or below one, which that order does
  not reach, keeps the mark it came with.
\<close>

theorem errors_reach_ancestors:
  assumes "go_sort srt" and "buildTree srt now ss = Some t" and "i < length ss"
  shows "gs_hasError (gt_spans t ! i) \<longleftrightarrow>
    (if attached ss i then \<exists>j < length ss. descends ss j i \<and> gs_hasError (ss ! j) else gs_hasError (ss ! i))"
  using buildTree_spans(4,6) [OF assms(1,2)] assms(3) by simp

theorem errors_reach_ancestors_witness:
  "gs_hasError (gt_spans (the (buildTree insertion_sort 0 sample_spans)) ! 1)"
proof -
  have t: "buildTree insertion_sort 0 sample_spans = Some (the (buildTree insertion_sort 0 sample_spans))"
    using buildTree_returns [OF go_sort_insertion] by (metis option.sel)
  have "parent_index sample_spans 0 = Some 1" "parent_index sample_spans 2 = Some 0"
    "gs_hasError (sample_spans ! 2)" by code_simp+
  moreover have "length sample_spans = 3" by (simp add: sample_spans_def)
  ultimately have "\<exists>j < length sample_spans. descends sample_spans j 1 \<and> gs_hasError (sample_spans ! j)"
    using descends_step [OF descends_step [OF descends_refl, of 2 sample_spans 0], of 1]
    by (intro exI [of _ 2]) simp
  then show ?thesis
    using errors_reach_ancestors [OF go_sort_insertion t, of 1] sample_attached(2)
    by (simp add: sample_spans_def)
qed

text \<open>
  So on a cycle the mark is not what the type's comment says: of two spans that name each other as
  parent, with one failed, the other has a failed child and is not marked.
\<close>

theorem cycle_hides_errors:
  "let ss = [sample_go_span ''r'' ZeroSpanID ''web'' 1, sample_go_span ''x'' ''y'' ''api'' 5,
             (sample_go_span ''y'' ''x'' ''api'' 6)\<lparr>gs_hasError := True\<rparr>]
   in map_option (\<lambda>t. map (\<lambda>sp. (gs_children sp, gs_hasError sp)) (gt_spans t)) (buildTree insertion_sort 0 ss) =
        Some [([], False), ([2], False), ([1], True)]"
  by code_simp

text \<open>
  C17. No span is lost or assembled twice: whatever the order of arrivals and timers, the batches
  handed on by the timers and by the final \<open>Stop\<close> hold exactly the spans that arrived, each
  batch is of one trace, and nothing stays pending.
\<close>

theorem spans_are_assembled_once:
  assumes "go_range rng"
  shows "let r = assembler_run timeout es Mapping.empty; r' = Stop rng (snd r)
         in mset (concat (fst r @ fst r')) = mset (arrived es) \<and> list_all one_trace (fst r @ fst r') \<and>
            PendingCount (snd r') = 0"
proof -
  let ?r = "assembler_run timeout es Mapping.empty" and ?r' = "Stop rng (snd (assembler_run timeout es Mapping.empty))"
  note run = assembler_run_pending [OF assembler_ok_empty(1), of timeout es]
  then have ok: "assembler_ok (snd ?r)" by blast
  then have "finite (Mapping.keys (snd ?r))" by (simp add: assembler_ok_def buffers_ok_def)
  then have rng: "set (rng (Mapping.keys (snd ?r))) = Mapping.keys (snd ?r)"
    using assms by (simp add: go_range_def)
  note stop = finalize_all_pending [OF ok, of "rng (Mapping.keys (snd ?r))", folded Stop_def, unfolded rng Diff_cancel]
  then have "pending_spans (snd ?r') = {#}" by (simp add: pending_spans_def held_def)
  moreover have "PendingCount (snd ?r') = 0" using stop by (simp add: PendingCount_def Mapping.size_def)
  ultimately show ?thesis using run stop by (simp add: Let_def assembler_ok_empty(2))
qed

theorem spans_are_assembled_once_witness:
  "let es = [SpanArrives 0 (sample_go_span ''a'' ZeroSpanID ''web'' 1), TimerFires ''t'',
             SpanArrives 9 (sample_go_span ''b'' ''a'' ''api'' 2)];
       r = assembler_run 5 es Mapping.empty; r' = Stop sorted_list_of_set (snd r)
   in fst r \<noteq> [] \<and> mset (concat (fst r @ fst r')) = mset (arrived es)"
proof -
  let ?es = "[SpanArrives 0 (sample_go_span ''a'' ZeroSpanID ''web'' 1), TimerFires ''t'',
             SpanArrives 9 (sample_go_span ''b'' ''a'' ''api'' 2)]"
  have "go_range sorted_list_of_set" by (simp add: go_range_def)
  from spans_are_assembled_once [OF this, of 5 ?es]
  have "mset (concat (fst (assembler_run 5 ?es Mapping.empty) @
      fst (Stop sorted_list_of_set (snd (assembler_run 5 ?es Mapping.empty))))) = mset (arrived ?es)" by (simp add: Let_def)
  moreover have "fst (assembler_run 5 ?es Mapping.empty) \<noteq> []" by code_simp
  ultimately show ?thesis by (simp only: Let_def) simp
qed

end
