(* ===== verification/Analysis.thy ===== *)
theory Analysis
  imports Assembler
begin

text \<open>
  \<open>internal/analysis/critical_path.go\<close>: what the collector computes of an assembled trace before
  it stores it. The recursion of \<open>longestPath\<close> follows the child pointers of the tree and takes
  fuel; as many units as the trace has spans are enough for every tree of \<open>buildTree\<close>. Sums of
  durations wrap around at 64 bits (292 years), as in the code.
\<close>

section \<open>Definitions\<close>

subsection \<open>The critical path\<close>

fun longestPath :: "nat \<Rightarrow> go_span list \<Rightarrow> nat \<Rightarrow> (nat list \<times> int) option"
  and best_child :: "nat \<Rightarrow> go_span list \<Rightarrow> nat list \<Rightarrow> nat list \<times> int \<Rightarrow> (nat list \<times> int) option" where
  "longestPath 0 ss i = None"
| "longestPath (Suc f) ss i =
     (case best_child f ss (gs_children (ss ! i)) ([], 0) of
        None \<Rightarrow> None
      | Some b \<Rightarrow> Some (i # fst b, wrap64 (gs_duration (ss ! i) + snd b)))"
| "best_child f ss [] b = Some b"
| "best_child f ss (c # cs) b =
     (case longestPath f ss c of
        None \<Rightarrow> None
      | Some r \<Rightarrow> best_child f ss cs (if snd r > snd b then r else b))"

definition ComputeCriticalPath :: "nat \<Rightarrow> go_trace \<Rightarrow> nat list option" where
  "ComputeCriticalPath fuel t =
     (case gt_root t of
        None \<Rightarrow> Some []
      | Some r \<Rightarrow> map_option fst (longestPath fuel (gt_spans t) r))"

subsection \<open>Parallel groups\<close>

text \<open>
  The inner loop: the later children that start before the group ends, and the group's end,
  which each of them can move.
\<close>

fun grow_group :: "go_span list \<Rightarrow> nat list \<Rightarrow> nat list \<Rightarrow> int \<Rightarrow> nat list \<times> int" where
  "grow_group ss [] g e = (g, e)"
| "grow_group ss (j # js) g e =
     (if gs_start (ss ! j) < e
      then grow_group ss js (g @ [j]) (if gs_end (ss ! j) > e then gs_end (ss ! j) else e)
      else grow_group ss js g e)"

text \<open>The outer loop; \<open>taken\<close> are the children with \<open>inGroup\<close> set.\<close>

fun parallel_groups :: "go_span list \<Rightarrow> nat list \<Rightarrow> nat set \<Rightarrow> parallel_group list" where
  "parallel_groups ss [] taken = []"
| "parallel_groups ss (i # is) taken =
     (if i \<in> taken then parallel_groups ss is taken
      else
        let r = grow_group ss is [i] (gs_end (ss ! i))
        in (if length (fst r) > 1
            then [\<lparr>pg_spans = fst r, pg_start = gs_start (ss ! i), pg_end = snd r\<rparr>]
            else []) @ parallel_groups ss is (taken \<union> set (fst r)))"

definition DetectParallelGroups :: "nat go_sorter \<Rightarrow> go_span list \<Rightarrow> nat \<Rightarrow> parallel_group list" where
  "DetectParallelGroups srt ss i =
     (if length (gs_children (ss ! i)) < 2 then []
      else parallel_groups ss (srt (starts_before ss) (gs_children (ss ! i))) {})"

subsection \<open>Gaps\<close>

fun gaps_of :: "go_span list \<Rightarrow> nat list \<Rightarrow> span_gap list" where
  "gaps_of ss (c # d # cs) =
     (if gs_start (ss ! d) > gs_end (ss ! c) \<and> go_sub (gs_start (ss ! d)) (gs_end (ss ! c)) > 0
      then [\<lparr>sg_before = c, sg_after = d, sg_duration = go_sub (gs_start (ss ! d)) (gs_end (ss ! c))\<rparr>]
      else []) @ gaps_of ss (d # cs)"
| "gaps_of ss _ = []"

definition DetectGaps :: "nat go_sorter \<Rightarrow> go_trace \<Rightarrow> span_gap list" where
  "DetectGaps srt t =
     (case gt_root t of
        None \<Rightarrow> []
      | Some r \<Rightarrow>
          if length (gs_children (gt_spans t ! r)) < 2 then []
          else gaps_of (gt_spans t) (srt (starts_before (gt_spans t)) (gs_children (gt_spans t ! r))))"

subsection \<open>A completed trace\<close>

text \<open>The callback of \<open>NewPipeline\<close> up to the store: the analysis is written into the trace.\<close>

definition analyse :: "nat go_sorter \<Rightarrow> nat \<Rightarrow> go_trace \<Rightarrow> go_trace option" where
  "analyse srt fuel t =
     map_option (\<lambda>p. t\<lparr>gt_criticalPath := p,
         gt_parallelGroups := (case gt_root t of None \<Rightarrow> gt_parallelGroups t
           | Some r \<Rightarrow> DetectParallelGroups srt (gt_spans t) r),
         gt_gaps := DetectGaps srt t\<rparr>)
       (ComputeCriticalPath fuel t)"

definition complete_trace :: "nat go_sorter \<Rightarrow> int \<Rightarrow> go_span list \<Rightarrow> go_trace option" where
  "complete_trace srt now ss =
     Option.bind (buildTree srt now ss) (\<lambda>t. analyse srt (length ss) t)"

subsection \<open>What a path is\<close>

text \<open>A chain of children, and its duration.\<close>

fun chain :: "go_span list \<Rightarrow> nat list \<Rightarrow> bool" where
  "chain ss [] \<longleftrightarrow> False"
| "chain ss [i] \<longleftrightarrow> True"
| "chain ss (i # j # p) \<longleftrightarrow> j \<in> set (gs_children (ss ! i)) \<and> chain ss (j # p)"

definition path_duration :: "go_span list \<Rightarrow> nat list \<Rightarrow> int" where
  "path_duration ss p = sum_list (map (\<lambda>i. gs_duration (ss ! i)) p)"

definition longest_from :: "go_span list \<Rightarrow> nat \<Rightarrow> nat list \<Rightarrow> bool" where
  "longest_from ss i p \<longleftrightarrow> chain ss p \<and> hd p = i \<and>
     (\<forall>q. chain ss q \<longrightarrow> hd q = i \<longrightarrow> path_duration ss q \<le> path_duration ss p)"

section \<open>Lemmas\<close>

lemma chain_Cons: "chain ss (i # p) \<longleftrightarrow> p = [] \<or> (hd p \<in> set (gs_children (ss ! i)) \<and> chain ss p)"
  by (cases p) auto

lemma path_duration_Cons: "path_duration ss (i # p) = gs_duration (ss ! i) + path_duration ss p"
  by (simp add: path_duration_def)

text \<open>The path found is a chain of children.\<close>

lemma longest_path_chain:
  "longestPath f ss i = Some r \<Longrightarrow> chain ss (fst r) \<and> hd (fst r) = i"
  "best_child f ss cs b = Some r \<Longrightarrow> r = b \<or> (hd (fst r) \<in> set cs \<and> chain ss (fst r))"
proof (induction f ss i and f ss cs b arbitrary: r and r rule: longestPath_best_child.induct)
  case (2 f ss i)
  then obtain b where b: "best_child f ss (gs_children (ss ! i)) ([], 0) = Some b"
    and r: "r = (i # fst b, wrap64 (gs_duration (ss ! i) + snd b))" by (auto split: option.splits)
  from 2(1) [OF b] show ?case by (auto simp: r chain_Cons)
next
  case (4 f ss c cs b)
  then obtain rc where rc: "longestPath f ss c = Some rc"
    and rest: "best_child f ss cs (if snd rc > snd b then rc else b) = Some r" by (auto split: option.splits)
  from 4(1) [OF rc] 4(2) [OF rc rest] show ?case by (auto split: if_splits)
qed auto

text \<open>
  It is a longest one, where no chain's duration leaves the 64 bits. For the children: the best so
  far is empty with duration 0 or the longest path of a child, and no path of a child seen is longer.
\<close>

lemma longest_path_is_longest:
  assumes down: "\<forall>i. R i \<longrightarrow> (\<forall>c \<in> set (gs_children (ss ! i)). R c)"
    and fits: "\<forall>q. chain ss q \<longrightarrow> R (hd q) \<longrightarrow> \<bar>path_duration ss q\<bar> < 2 ^ 63"
  shows "longestPath f ss i = Some r \<Longrightarrow> R i \<Longrightarrow> longest_from ss i (fst r) \<and> path_duration ss (fst r) = snd r"
    and "best_child f ss cs b = Some r \<Longrightarrow> \<forall>c \<in> set cs. R c \<Longrightarrow> path_duration ss (fst b) = snd b \<Longrightarrow>
   path_duration ss (fst r) = snd r \<and> snd b \<le> snd r \<and>
   (\<forall>q. chain ss q \<longrightarrow> hd q \<in> set cs \<longrightarrow> path_duration ss q \<le> snd r)"
  using down fits
proof (induction f ss i and f ss cs b arbitrary: r and r rule: longestPath_best_child.induct)
  case (2 f ss i)
  then obtain b where b: "best_child f ss (gs_children (ss ! i)) ([], 0) = Some b"
    and r: "r = (i # fst b, wrap64 (gs_duration (ss ! i) + snd b))" by (auto split: option.splits)
  have "\<forall>c \<in> set (gs_children (ss ! i)). R c" using 2(3,4) by blast
  from 2(1) [OF b this _ 2(4,5)] have IH: "path_duration ss (fst b) = snd b" "0 \<le> snd b"
    "\<And>q. chain ss q \<Longrightarrow> hd q \<in> set (gs_children (ss ! i)) \<Longrightarrow> path_duration ss q \<le> snd b"
    by (auto simp: path_duration_def)
  have chain: "chain ss (i # fst b)" using longest_path_chain(2) [OF b] by (auto simp: chain_Cons)
  have "\<bar>path_duration ss (i # fst b)\<bar> < 2 ^ 63" using 2(5) chain 2(3) by fastforce
  then have sum: "snd r = path_duration ss (i # fst b)"
    using IH(1) by (simp add: r path_duration_Cons wrap64_id)
  have "path_duration ss q \<le> path_duration ss (i # fst b)" if "chain ss q" "hd q = i" for q
  proof -
    from that obtain q' where q: "q = i # q'" by (cases q) auto
    show ?thesis
      using that(1) IH unfolding q chain_Cons path_duration_Cons by (auto simp: path_duration_def)
  qed
  with chain sum show ?case by (simp add: longest_from_def r)
next
  case (4 f ss c cs b)
  then obtain rc where rc: "longestPath f ss c = Some rc"
    and rest: "best_child f ss cs (if snd rc > snd b then rc else b) = Some r" by (auto split: option.splits)
  have R: "R c" "\<forall>c \<in> set cs. R c" using 4(4) by simp_all
  note child = 4(1) [OF rc R(1) 4(6,7)]
  have "path_duration ss (fst (if snd rc > snd b then rc else b)) = snd (if snd rc > snd b then rc else b)"
    using child 4(5) by simp
  note IH = 4(2) [OF rc rest R(2) this 4(6,7)]
  have c: "longest_from ss c (fst rc)" and dc: "path_duration ss (fst rc) = snd rc" using child by auto
  have "path_duration ss q \<le> snd r" if "chain ss q" "hd q \<in> set (c # cs)" for q
  proof (cases "hd q = c")
    case True
    with c that(1) have "path_duration ss q \<le> snd rc" by (auto simp: longest_from_def dc [symmetric])
    also have "\<dots> \<le> snd r" using IH by (auto split: if_splits)
    finally show ?thesis .
  qed (use IH that in auto)
  moreover have "snd b \<le> snd r" using IH by (auto split: if_splits)
  ultimately show ?case using IH by blast
qed auto

text \<open>Along the rank of a tree the recursion ends.\<close>

lemma longest_path_returns:
  assumes "\<And>i. R i \<Longrightarrow> rank i < n \<and> (\<forall>c \<in> set (gs_children (ss ! i)). R c \<and> rank i < (rank c :: nat))"
  shows "R i \<Longrightarrow> n - rank i \<le> f \<Longrightarrow> \<exists>r. longestPath f ss i = Some r"
proof (induction f arbitrary: i)
  case 0
  then show ?case using assms [of i] by simp
next
  case (Suc f)
  have child: "\<exists>r. longestPath f ss c = Some r" if "c \<in> set (gs_children (ss ! i))" for c
    using that assms [OF Suc.prems(1)] Suc.prems(2) by (intro Suc.IH) auto
  have "\<exists>r. best_child f ss cs b = Some r" if "set cs \<subseteq> set (gs_children (ss ! i))" for cs b
    using that
  proof (induction cs arbitrary: b)
    case (Cons c cs)
    from child [of c] Cons.prems obtain r where "longestPath f ss c = Some r" by auto
    with Cons show ?case by simp
  qed simp
  from this [OF subset_refl] obtain b where "best_child f ss (gs_children (ss ! i)) ([], 0) = Some b" by blast
  then show ?case by simp
qed

lemma buildTree_top:
  assumes "go_sort srt" and "buildTree srt now ss = Some t" and "gt_root t = Some r"
  shows "r < length ss \<and> parent_index ss r = None"
proof -
  have ss: "ss \<noteq> []" using assms(2,3) by (auto simp: buildTree_def empty_trace_def)
  with assms(2,3) have r: "fst (pick_root srt ss (link_spans ss)) = Some r"
    by (auto simp: buildTree_def Let_def split: option.splits)
  then have "r \<in> set (map fst (bf_queue (bfs_start srt ss)))" by (simp add: bfs_start_def Let_def)
  then have "r \<in> set (filter (\<lambda>j. parent_index ss j = None) [0..<length ss])"
    using mset_eq_setD [OF mset_start [OF assms(1), of ss]] by simp
  then show ?thesis by simp
qed

lemma buildTree_root:
  "go_sort srt \<Longrightarrow> buildTree srt now ss = Some t \<Longrightarrow> gt_root t = Some r \<Longrightarrow> attached ss r"
  using buildTree_top [of srt now ss t r] by (auto intro: attached_top)

lemma buildTree_children:
  assumes "go_sort srt" and "buildTree srt now ss = Some t" and "attached ss i"
  shows "set (gs_children (gt_spans t ! i)) = set (kids ss i)"
  using mset_eq_setD [OF buildTree_spans(5) [OF assms(1,2) attached_less [OF assms(3)]]] .

text \<open>
  Below an attached span a chain goes up in rank, so it meets no span twice and its duration is at
  most that of all spans together.
\<close>

definition total_duration :: "go_span list \<Rightarrow> int" where
  "total_duration ss = sum_list (map (\<lambda>sp. \<bar>gs_duration sp\<bar>) ss)"

lemma chain_ranked:
  assumes "\<And>i. R i \<Longrightarrow> i < n \<and> (\<forall>c \<in> set (gs_children (ss ! i)). R c \<and> rank i < (rank c :: nat))"
  shows "chain ss p \<Longrightarrow> R (hd p) \<Longrightarrow> distinct p \<and> set p \<subseteq> {..<n} \<and> (\<forall>j \<in> set p. rank (hd p) \<le> rank j)"
proof (induction p)
  case (Cons i p)
  show ?case
  proof (cases "p = []")
    case False
    with Cons.prems have p: "chain ss p" "R (hd p)" "rank i < rank (hd p)" using assms [of i] by (auto simp: chain_Cons)
    from Cons.IH [OF p(1,2)] p(3) assms [of i] Cons.prems(2) show ?thesis by fastforce
  qed (use Cons.prems assms [of i] in simp)
qed simp

lemma path_within_total:
  assumes "distinct p" and "set p \<subseteq> {..<length ss}"
  shows "\<bar>path_duration ss p\<bar> \<le> total_duration ss"
proof -
  have "\<bar>path_duration ss p\<bar> \<le> (\<Sum>i \<in> set p. \<bar>gs_duration (ss ! i)\<bar>)"
    using assms(1) by (simp add: path_duration_def sum_list_distinct_conv_sum_set)
  also have "\<dots> \<le> (\<Sum>i \<in> {..<length ss}. \<bar>gs_duration (ss ! i)\<bar>)"
    using assms(2) by (intro sum_mono2) simp_all
  also have "\<dots> = total_duration ss"
    by (simp add: total_duration_def sum_list_sum_nth atLeast0LessThan)
  finally show ?thesis .
qed

lemma buildTree_duration:
  assumes "go_sort srt" and "buildTree srt now ss = Some t"
  shows "total_duration (gt_spans t) = total_duration ss"
proof -
  note spans = buildTree_spans [OF assms]
  have "map (\<lambda>sp. \<bar>gs_duration sp\<bar>) (gt_spans t) = map (\<lambda>sp. \<bar>gs_duration sp\<bar>) ss"
  proof (rule nth_equalityI)
    fix i assume "i < length (map (\<lambda>sp. \<bar>gs_duration sp\<bar>) (gt_spans t))"
    then have i: "i < length ss" using spans(1) by simp
    from spans(2) [OF i] have "gs_duration (gt_spans t ! i) = gs_duration (ss ! i)" by (auto simp: gs_duration_def)
    with i spans(1) show "map (\<lambda>sp. \<bar>gs_duration sp\<bar>) (gt_spans t) ! i = map (\<lambda>sp. \<bar>gs_duration sp\<bar>) ss ! i" by simp
  qed (simp add: spans(1))
  then show ?thesis by (simp add: total_duration_def)
qed

lemma critical_path_chain:
  assumes "go_sort srt" and "buildTree srt now ss = Some t" and "gt_root t = Some r" and "length ss \<le> fuel"
  shows "\<exists>x. longestPath fuel (gt_spans t) r = Some x \<and> ComputeCriticalPath fuel t = Some (fst x) \<and>
    chain (gt_spans t) (fst x) \<and> hd (fst x) = r"
proof -
  from attached_rank [of ss] obtain rank where rank: "attached ss i \<Longrightarrow> rank i < length ss \<and>
      (\<forall>c \<in> set (kids ss i). attached ss c \<and> rank i < (rank c :: nat))" for i by blast
  have "\<exists>x. longestPath fuel (gt_spans t) r = Some x"
    using longest_path_returns [of "attached ss" rank "length ss" "gt_spans t" r fuel] rank
      buildTree_children [OF assms(1,2)] buildTree_root [OF assms(1-3)] assms(4) by auto
  then obtain x where x: "longestPath fuel (gt_spans t) r = Some x" ..
  with longest_path_chain(1) [OF x] show ?thesis by (simp add: ComputeCriticalPath_def assms(3))
qed

lemma critical_path_spec:
  assumes "go_sort srt" and "buildTree srt now ss = Some t" and "gt_root t = Some r" and "length ss \<le> fuel"
    and "total_duration ss < 2 ^ 63"
  shows "\<exists>p. ComputeCriticalPath fuel t = Some p \<and> longest_from (gt_spans t) r p"
proof -
  from attached_rank [of ss] obtain rank where rank: "attached ss i \<Longrightarrow> rank i < length ss \<and>
      (\<forall>c \<in> set (kids ss i). attached ss c \<and> rank i < (rank c :: nat))" for i by blast
  have down: "i < length ss \<and> (\<forall>c \<in> set (gs_children (gt_spans t ! i)). attached ss c \<and> rank i < rank c)"
    if "attached ss i" for i
    using rank [OF that] attached_less [OF that] buildTree_children [OF assms(1,2) that] by simp
  have fits: "\<bar>path_duration (gt_spans t) q\<bar> < 2 ^ 63" if "chain (gt_spans t) q" "attached ss (hd q)" for q
  proof -
    from chain_ranked [of "attached ss", OF down that] have "distinct q" "set q \<subseteq> {..<length (gt_spans t)}"
      by (simp_all add: buildTree_spans(1) [OF assms(1,2)])
    from path_within_total [OF this] assms(5) show ?thesis by (simp add: buildTree_duration [OF assms(1,2)])
  qed
  from critical_path_chain [OF assms(1-4)] obtain x where
    x: "longestPath fuel (gt_spans t) r = Some x" "ComputeCriticalPath fuel t = Some (fst x)" by blast
  have "longest_from (gt_spans t) r (fst x)"
    using longest_path_is_longest(1) [of "attached ss", OF _ _ x(1) buildTree_root [OF assms(1-3)]] down fits by blast
  with x(2) show ?thesis by blast
qed

lemma complete_trace_returns:
  assumes "go_sort srt"
  shows "\<exists>t. complete_trace srt now ss = Some t"
proof -
  from buildTree_returns [OF assms] obtain t where t: "buildTree srt now ss = Some t" by blast
  have "\<exists>p. ComputeCriticalPath (length ss) t = Some p"
    using critical_path_chain [OF assms t _ order_refl] by (cases "gt_root t") (auto simp: ComputeCriticalPath_def)
  then show ?thesis by (auto simp: complete_trace_def t analyse_def)
qed

text \<open>Each span of a completed trace is the one that was assembled, with its place in the tree.\<close>

lemma complete_span:
  assumes "go_sort srt" and "complete_trace srt now ss = Some t" and "i < length ss"
  shows "i < length (gt_spans t) \<and> (\<exists>d h c. gt_spans t ! i = (ss ! i)\<lparr>gs_depth := d, gs_hasError := h, gs_children := c\<rparr>)"
proof -
  obtain u where u: "buildTree srt now ss = Some u" "gt_spans t = gt_spans u"
    using assms(2) by (auto simp: complete_trace_def analyse_def bind_eq_Some_conv)
  with buildTree_spans(1,2) [OF assms(1) u(1)] assms(3) show ?thesis by simp
qed

subsection \<open>Groups and gaps\<close>

lemma grow_group_elems: "set (fst (grow_group ss js g e)) \<subseteq> set g \<union> set js \<and> set g \<subseteq> set (fst (grow_group ss js g e))"
  by (induction ss js g e rule: grow_group.induct) auto

lemma grow_group_end: "e \<le> snd (grow_group ss js g e)"
proof (induction ss js g e rule: grow_group.induct)
  case (2 ss j js g e)
  then show ?case by (auto split: if_splits)
qed simp

lemma gaps_of_sound:
  "g \<in> set (gaps_of ss cs) \<Longrightarrow>
   sg_before g \<in> set cs \<and> sg_after g \<in> set cs \<and> gs_end (ss ! sg_before g) < gs_start (ss ! sg_after g)"
  by (induction ss cs rule: gaps_of.induct) (auto split: if_splits)

section \<open>Properties\<close>

text \<open>
  C19. The critical path is a longest one: for an assembled trace with a root, whose spans' durations
  together stay below \<open>2 ^ 63\<close> nanoseconds (292 years), the recursion returns (the number of spans is
  enough fuel), and its path is a chain of children from the root whose duration no other such
  chain exceeds.
\<close>

theorem critical_path_is_longest:
  assumes "go_sort srt" and "buildTree srt now ss = Some t" and "gt_root t = Some r"
    and "total_duration ss < 2 ^ 63"
  shows "\<exists>p. ComputeCriticalPath (length ss) t = Some p \<and> longest_from (gt_spans t) r p"
  by (rule critical_path_spec [OF assms(1-3) order_refl assms(4)])

theorem critical_path_is_longest_witness:
  "longest_from (gt_spans (the (buildTree insertion_sort 0 sample_spans))) 1 [1, 0, 2]"
proof -
  let ?t = "the (buildTree insertion_sort 0 sample_spans)"
  have "buildTree insertion_sort 0 sample_spans = Some ?t"
    using buildTree_returns [OF go_sort_insertion] by (metis option.sel)
  moreover have "gt_root ?t = Some 1" "ComputeCriticalPath (length sample_spans) ?t = Some [1, 0, 2]" by code_simp+
  moreover have "total_duration sample_spans < 2 ^ 63" by code_simp
  ultimately show ?thesis using critical_path_is_longest [OF go_sort_insertion, of 0 sample_spans ?t 1] by auto
qed

text \<open>
  Beyond that bound the sum wraps around: under a root that runs for 292 years a child that does, too,
  has a path of negative duration, and a child of 5 nanoseconds is preferred to it.
\<close>

theorem critical_path_overflows:
  "let long = (\<lambda>j p. (sample_go_span j p ''web'' 1)\<lparr>gs_end := 2 ^ 63 - 1\<rparr>);
       ss = [long ''r'' ZeroSpanID, long ''a'' ''r'', long ''b'' ''a'', (sample_go_span ''c'' ''r'' ''web'' 1)\<lparr>gs_end := 6\<rparr>]
   in map_option (\<lambda>t. (gt_criticalPath t, chain (gt_spans t) [0, 1, 2],
          path_duration (gt_spans t) [0, 3] < path_duration (gt_spans t) [0, 1, 2]))
        (complete_trace insertion_sort 0 ss) = Some ([0, 3], True, True)"
  by code_simp

text \<open>
  A gap lies between two children that follow each other by start; it need not be idle: a child
  that started earlier can run through it.
\<close>

theorem gap_is_not_idle:
  "let ss = [sample_go_span ''r'' ZeroSpanID ''web'' 0, (sample_go_span ''a'' ''r'' ''api'' 1)\<lparr>gs_end := 99\<rparr>,
             sample_go_span ''b'' ''r'' ''api'' 2, sample_go_span ''c'' ''r'' ''api'' 50]
   in map_option (\<lambda>t. map (\<lambda>g. (sg_before g, sg_after g, sg_duration g)) (gt_gaps t))
        (complete_trace insertion_sort 0 ss) = Some [(2, 3, 38)]"
  by code_simp

text \<open>
  The type of a trace whose spans are referred to by index: every reference of the root, of the
  children, of the critical path, of the groups and of the gaps is to a span of the trace. All the
  lists of children together name a span at most once, and the root not at all: the pointers form a
  forest in which every span has at most one parent.
\<close>

definition refs_ok :: "go_trace \<Rightarrow> bool" where
  "refs_ok t \<longleftrightarrow>
     (let ok = (\<lambda>is. \<forall>i \<in> set is. i < length (gt_spans t))
      in gt_spanCount t = int (length (gt_spans t)) \<and>
         ok (case gt_root t of None \<Rightarrow> [] | Some r \<Rightarrow> [r]) \<and>
         (\<forall>sp \<in> set (gt_spans t). ok (gs_children sp)) \<and>
         distinct (concat (map gs_children (gt_spans t))) \<and>
         (case gt_root t of None \<Rightarrow> True | Some r \<Rightarrow> r \<notin> set (concat (map gs_children (gt_spans t)))) \<and>
         ok (gt_criticalPath t) \<and>
         (\<forall>g \<in> set (gt_parallelGroups t). ok (pg_spans g) \<and> 2 \<le> length (pg_spans g)) \<and>
         (\<forall>g \<in> set (gt_gaps t). sg_before g < length (gt_spans t) \<and> sg_after g < length (gt_spans t)))"

lemma chain_in_range:
  assumes "\<And>i c. i < n \<Longrightarrow> c \<in> set (gs_children (ss ! i)) \<Longrightarrow> c < n"
  shows "chain ss p \<Longrightarrow> hd p < n \<Longrightarrow> j \<in> set p \<Longrightarrow> j < n"
proof (induction p)
  case (Cons i p)
  show ?case
  proof (cases "p = []")
    case False
    with Cons.prems have p: "chain ss p" "hd p \<in> set (gs_children (ss ! i))" by (simp_all add: chain_Cons)
    then have "hd p < n" using assms Cons.prems(2) by simp
    with Cons p show ?thesis by auto
  qed (use Cons.prems in simp)
qed simp

lemma parallel_groups_elems:
  "g \<in> set (parallel_groups ss is taken) \<Longrightarrow> set (pg_spans g) \<subseteq> set is \<and> 2 \<le> length (pg_spans g)"
proof (induction ss "is" taken rule: parallel_groups.induct)
  case (2 ss i "is" taken)
  then show ?case using grow_group_elems [of ss "is" "[i]" "gs_end (ss ! i)"]
    by (auto simp: Let_def split: if_splits)
qed simp

lemma distinct_concat_apart:
  "list_all distinct xs \<Longrightarrow> sorted_wrt (\<lambda>a b. set a \<inter> set b = {}) xs \<Longrightarrow> distinct (concat xs)"
  by (induction xs) auto

lemma complete_refs_ok:
  assumes "go_sort srt" and "complete_trace srt now ss = Some t"
  shows "refs_ok t"
proof -
  obtain u where u: "buildTree srt now ss = Some u" and a: "analyse srt (length ss) u = Some t"
    using assms(2) by (auto simp: complete_trace_def bind_eq_Some_conv)
  then obtain p where p: "ComputeCriticalPath (length ss) u = Some p"
    and t: "t = u\<lparr>gt_criticalPath := p, gt_parallelGroups := (case gt_root u of None \<Rightarrow> gt_parallelGroups u
        | Some r \<Rightarrow> DetectParallelGroups srt (gt_spans u) r), gt_gaps := DetectGaps srt u\<rparr>"
    by (auto simp: analyse_def)
  note spans = buildTree_spans [OF assms(1) u]
  have kid: "set (gs_children (gt_spans u ! i)) = set (kids ss i)" "distinct (gs_children (gt_spans u ! i))" if "i < length ss" for i
    using mset_eq_setD [OF spans(5) [OF that]] mset_eq_imp_distinct_iff [OF spans(5) [OF that]] distinct_kids by auto
  then have child: "c < length ss" if "i < length ss" "c \<in> set (gs_children (gt_spans u ! i))" for i c
    using that by (simp add: mem_kids)
  have one: "distinct (concat (map gs_children (gt_spans u)))"
    using kid by (intro distinct_concat_apart) (auto simp: list_all_length sorted_wrt_iff_nth_less spans(1) mem_kids)
  have top: "r \<notin> set (concat (map gs_children (gt_spans u)))" if "gt_root u = Some r" for r
    using buildTree_top [OF assms(1) u that] kid(1) spans(1) by (auto simp: in_set_conv_nth [of _ "gt_spans u"] mem_kids)
  have count: "gt_spanCount u = int (length ss)" and none: "gt_root u = None \<Longrightarrow> gt_parallelGroups u = []"
    using u by (auto simp: buildTree_def empty_trace_def Let_def split: option.splits if_splits)
  have srt: "set (srt (starts_before (gt_spans u)) xs) = set xs" for xs
    using assms(1) by (intro mset_eq_setD) (simp add: go_sort_def)
  show ?thesis
  proof (cases "gt_root u")
    case None
    then have "p = []" "DetectGaps srt u = []" using p by (simp_all add: ComputeCriticalPath_def DetectGaps_def)
    with None show ?thesis using count spans(1) none one child
      by (simp add: refs_ok_def t all_set_conv_all_nth)
  next
    case (Some r)
    have r: "r < length ss" using attached_less [OF buildTree_root [OF assms(1) u Some]] .
    from critical_path_chain [OF assms(1) u Some order_refl] p have "chain (gt_spans u) p" "hd p = r" by auto
    then have path: "j < length ss" if "j \<in> set p" for j
      using that r child by (auto intro: chain_in_range [of "length ss"])
    have grp: "set (pg_spans g) \<subseteq> {..<length ss} \<and> 2 \<le> length (pg_spans g)"
      if "g \<in> set (DetectParallelGroups srt (gt_spans u) r)" for g
      using that child [OF r] parallel_groups_elems [of g "gt_spans u"] srt
      by (fastforce simp: DetectParallelGroups_def split: if_splits)
    have gap: "sg_before g < length ss \<and> sg_after g < length ss" if "g \<in> set (DetectGaps srt u)" for g
      using that child [OF r] gaps_of_sound [of g "gt_spans u"] srt Some
      by (fastforce simp: DetectGaps_def split: if_splits)
    show ?thesis using count spans(1) Some r path grp gap one top [OF Some] child
      by (auto simp: refs_ok_def t all_set_conv_all_nth subset_eq)
  qed
qed

text \<open>C25. A completed trace is well-formed: whatever spans arrived, every index in it, of the root, of
  children, on the critical path, in groups and in gaps, is that of one of its spans, no span is
  listed twice as a child, neither of one span nor of two, the root is no span's child, and a group
  has at least two spans.\<close>

theorem completed_trace_is_well_formed:
  assumes "go_sort srt" and "complete_trace srt now ss = Some t"
  shows "refs_ok t"
  by (rule complete_refs_ok [OF assms])

theorem completed_trace_is_well_formed_witness:
  "refs_ok (the (complete_trace insertion_sort 0 sample_spans))"
  using completed_trace_is_well_formed [OF go_sort_insertion, of 0 sample_spans] complete_trace_returns [OF go_sort_insertion]
  by (metis option.sel)

end
