(* ===== verification/TraceApi.thy ===== *)
theory TraceApi
  imports Types Analysis
begin

text \<open>
  The edges of the collector: spans as they come in (\<open>HandleNativeSpans\<close> and \<open>dtoToSpan\<close> of
  \<open>api/handler_ingest.go\<close>), traces as they go out (\<open>traceToDetailDTO\<close>, \<open>HandleListTraces\<close> and
  \<open>HandleGetTrace\<close> of \<open>api/handler_query.go\<close>, the conversions of \<open>api/dto.go\<close>), and who may
  see them (\<open>api/auth.go\<close>). The outgoing records are those of \<open>Types\<close>, which the web client
  declares. Fields the client does not declare (the tenant) are left out.

  The printing of a time (\<open>RFC 3339\<close>) is a parameter. Instants are in the range of
  \<open>time.UnixNano\<close>, 64 bits.
\<close>

section \<open>Definitions\<close>

subsection \<open>Ids\<close>

definition hex_digit :: "char \<Rightarrow> bool" where
  "hex_digit c \<longleftrightarrow> c \<in> set ''0123456789abcdefABCDEF''"

datatype id_error = IdLength nat | IdHex

text \<open>An id is the text its \<open>String\<close> prints, which is in lower case.\<close>

definition ParseID :: "nat \<Rightarrow> string \<Rightarrow> id_error + string" where
  "ParseID n s =
     (if length s \<noteq> n then Inl (IdLength (length s))
      else if \<not> list_all hex_digit s then Inl IdHex
      else Inr (to_lower s))"

definition ParseTraceID :: "string \<Rightarrow> id_error + string" where
  "ParseTraceID s = ParseID 32 s"

definition ParseSpanID :: "string \<Rightarrow> id_error + string" where
  "ParseSpanID s = ParseID 16 s"

subsection \<open>Times\<close>

text \<open>\<open>int64\<close> of an unsigned number and back.\<close>

definition to_int64 :: "int \<Rightarrow> int" where
  "to_int64 n = wrap64 n"

definition to_uint64 :: "int \<Rightarrow> int" where
  "to_uint64 z = z mod 2 ^ 64"

definition nanoToTime :: "int \<Rightarrow> int" where
  "nanoToTime ns = (if ns = 0 then zero_time else to_int64 ns)"

subsection \<open>Spans in\<close>

record attribute_in =
  ai_key :: string
  ai_string :: "string option"
  ai_int :: "int option"
  ai_bool :: "bool option"
  ai_double :: "num option"

record event_in =
  ei_time :: int
  ei_name :: string
  ei_attributes :: "attribute_in list"

record link_in =
  li_traceId :: string
  li_spanId :: string
  li_traceState :: string
  li_attributes :: "attribute_in list"

record span_in =
  si_traceId :: string
  si_spanId :: string
  si_parentSpanId :: string
  si_name :: string
  si_kind :: int
  si_service :: string
  si_serviceAttributes :: "(string \<times> string) list"
  si_start :: int
  si_end :: int
  si_attributes :: "attribute_in list"
  si_events :: "event_in list"
  si_links :: "link_in list"
  si_code :: int
  si_message :: string

text \<open>The first value that is present; an attribute without one is dropped.\<close>

definition attribute_value :: "attribute_in \<Rightarrow> key_value option" where
  "attribute_value a =
     (case ai_string a of Some v \<Rightarrow> Some (StringKV (ai_key a) v)
      | None \<Rightarrow> (case ai_int a of Some v \<Rightarrow> Some (IntKV (ai_key a) v)
      | None \<Rightarrow> (case ai_bool a of Some v \<Rightarrow> Some (BoolKV (ai_key a) v)
      | None \<Rightarrow> (case ai_double a of Some v \<Rightarrow> Some (FloatKV (ai_key a) v)
      | None \<Rightarrow> None))))"

definition dtoToAttributes :: "attribute_in list \<Rightarrow> key_value list" where
  "dtoToAttributes as = List.map_filter attribute_value as"

datatype span_error =
    BadTraceID id_error
  | BadSpanID id_error
  | StartZero
  | EndBeforeStart
  | ServiceTooLong
  | NameTooLong
  | TooManyAttributes
  | KeyTooLong string
  | ValueTooLong string

text \<open>The limits on the attributes, checked in order.\<close>

fun check_attributes :: "attribute_in list \<Rightarrow> span_error option" where
  "check_attributes [] = None"
| "check_attributes (a # as) =
     (if length (ai_key a) > 128 then Some (KeyTooLong (ai_key a))
      else if (case ai_string a of None \<Rightarrow> False | Some v \<Rightarrow> length v > 1024) then Some (ValueTooLong (ai_key a))
      else check_attributes as)"

definition check_span :: "span_in \<Rightarrow> span_error option" where
  "check_span d =
     (if si_start d = 0 then Some StartZero
      else if si_end d < si_start d then Some EndBeforeStart
      else if length (si_service d) > 256 then Some ServiceTooLong
      else if length (si_name d) > 256 then Some NameTooLong
      else if length (si_attributes d) > 64 then Some TooManyAttributes
      else check_attributes (si_attributes d))"

definition link_of :: "link_in \<Rightarrow> span_link option" where
  "link_of l =
     (case (ParseTraceID (li_traceId l), ParseSpanID (li_spanId l)) of
        (Inr t, Inr s) \<Rightarrow> Some \<lparr>sl_traceID = t, sl_spanID = s, sl_traceState = li_traceState l,
          sl_attributes = dtoToAttributes (li_attributes l)\<rparr>
      | _ \<Rightarrow> None)"

definition dtoToSpan :: "span_in \<Rightarrow> span_error + go_span" where
  "dtoToSpan d =
     (case ParseTraceID (si_traceId d) of
        Inl e \<Rightarrow> Inl (BadTraceID e)
      | Inr tid \<Rightarrow>
          (case ParseSpanID (si_spanId d) of
             Inl e \<Rightarrow> Inl (BadSpanID e)
           | Inr sid \<Rightarrow>
               (case check_span d of
                  Some e \<Rightarrow> Inl e
                | None \<Rightarrow>
                    Inr \<lparr>gs_traceID = tid, gs_spanID = sid,
                      gs_parentSpanID = (if si_parentSpanId d \<noteq> []
                        then (case ParseSpanID (si_parentSpanId d) of Inr p \<Rightarrow> p | Inl e \<Rightarrow> ZeroSpanID)
                        else ZeroSpanID),
                      gs_traceState = [], gs_tenantID = [], gs_name = si_name d, gs_kind = si_kind d,
                      gs_service = si_service d, gs_serviceAttrs = si_serviceAttributes d,
                      gs_start = nanoToTime (si_start d), gs_end = nanoToTime (si_end d),
                      gs_attributes = dtoToAttributes (si_attributes d),
                      gs_events = map (\<lambda>e. \<lparr>se_time = nanoToTime (ei_time e), se_name = ei_name e,
                        se_attributes = dtoToAttributes (ei_attributes e)\<rparr>) (si_events d),
                      gs_links = List.map_filter link_of (si_links d),
                      gs_code = si_code d, gs_message = si_message d,
                      gs_depth = 0, gs_hasError = False, gs_children = []\<rparr>)))"

text \<open>\<open>HandleNativeSpans\<close>: the spans handed to the pipeline, and how many are dropped.\<close>

definition native_spans :: "string \<Rightarrow> span_in list \<Rightarrow> go_span list \<times> nat" where
  "native_spans tenant ds =
     (List.map_filter (\<lambda>d. case dtoToSpan d of Inl e \<Rightarrow> None | Inr sp \<Rightarrow> Some (sp\<lparr>gs_tenantID := tenant\<rparr>)) ds,
      length (filter (\<lambda>d. case dtoToSpan d of Inl e \<Rightarrow> True | Inr sp \<Rightarrow> False) ds))"

text \<open>\<open>Enrich\<close> (\<open>internal/processor/enricher.go\<close>); the arrival time it records is not read again.\<close>

definition Enrich :: "go_span \<Rightarrow> go_span" where
  "Enrich sp =
     sp\<lparr>gs_hasError := (gs_code sp = go_StatusError),
        gs_service := (if gs_service sp = []
          then (case map_of (gs_serviceAttrs sp) ''service.name'' of Some n \<Rightarrow> n | None \<Rightarrow> gs_service sp)
          else gs_service sp)\<rparr>"

subsection \<open>Traces out\<close>

definition attributesToDTO :: "key_value list \<Rightarrow> AttributeDTO list" where
  "attributesToDTO kvs =
     map (\<lambda>kv. \<lparr>key = kv_key kv,
       stringValue = (if kv_type kv = ValueString then Some (kv_sval kv) else None),
       intValue = (if kv_type kv = ValueInt then Some (of_int (kv_ival kv)) else None),
       boolValue = (if kv_type kv = ValueBool then Some (kv_bval kv) else None),
       doubleValue = (if kv_type kv = ValueFloat then Some (kv_fval kv) else None)\<rparr>) kvs"

definition spanToDetailDTO :: "go_span \<Rightarrow> SpanDetailDTO" where
  "spanToDetailDTO sp =
     \<lparr>spanId = gs_spanID sp,
      parentSpanId = (if gs_parentSpanID sp = ZeroSpanID then [] else gs_parentSpanID sp),
      sp_traceId = gs_traceID sp, name = gs_name sp, serviceName = gs_service sp, kind = gs_kind sp,
      startTimeUnixNano = of_int (to_uint64 (gs_start sp)),
      durationMs = (if gs_start sp \<noteq> zero_time \<and> gs_end sp \<noteq> zero_time
        then of_int (go_sub (gs_end sp) (gs_start sp)) / 10 ^ 6 else 0),
      status = \<lparr>code = gs_code sp, message = gs_message sp\<rparr>,
      attributes = attributesToDTO (gs_attributes sp),
      events = map (\<lambda>e. \<lparr>timeUnixNano = of_int (to_uint64 (se_time e)), ev_name = se_name e,
        ev_attributes = attributesToDTO (se_attributes e)\<rparr>) (gs_events sp),
      links = map (\<lambda>l. \<lparr>ln_traceId = sl_traceID l, ln_spanId = sl_spanID l, traceState = sl_traceState l,
        ln_attributes = attributesToDTO (sl_attributes l)\<rparr>) (gs_links sp),
      depth = gs_depth sp, hasError = gs_hasError sp\<rparr>"

text \<open>\<open>traceStartNano\<close>: the earliest start that is not 0.\<close>

definition trace_start_nano :: "go_span list \<Rightarrow> int" where
  "trace_start_nano ss =
     foldl (\<lambda>m sp. let ns = to_uint64 (gs_start sp)
                   in if ns > 0 \<and> (m = 0 \<or> ns < m) then ns else m) 0 ss"

definition traceToDetailDTO :: "go_trace \<Rightarrow> TraceDetailDTO" where
  "traceToDetailDTO t =
     (let sid = (\<lambda>i. gs_spanID (gt_spans t ! i)); t0 = trace_start_nano (gt_spans t)
      in \<lparr>td_traceId = gt_traceID t, spans = map spanToDetailDTO (gt_spans t),
          criticalPath = map sid (gt_criticalPath t), td_services = gt_services t,
          td_durationMs = of_int (gt_duration t) / 10 ^ 6,
          td_spanCount = gt_spanCount t, errorCount = gt_errorCount t,
          parallelGroups = map (\<lambda>g. \<lparr>spanIds = map sid (pg_spans g),
            startMs = of_int (wrap64 (pg_start g - wrap64 t0)) / 10 ^ 6,
            endMs = of_int (wrap64 (pg_end g - wrap64 t0)) / 10 ^ 6\<rparr>) (gt_parallelGroups t),
          gaps = map (\<lambda>g. \<lparr>beforeSpanId = sid (sg_before g), afterSpanId = sid (sg_after g),
            gap_durationMs = of_int (sg_duration g) / 10 ^ 6\<rparr>) (gt_gaps t)\<rparr>)"

text \<open>
  How \<open>encoding/json\<close> writes the list of services: it is \<open>nil\<close> when no span named one, and
  \<open>nil\<close> is written as \<open>null\<close>.
\<close>

definition services_json :: "string list \<Rightarrow> json" where
  "services_json ss = (if ss = [] then JNull else JArr (map JStr ss))"

definition summaryToDTO :: "(int \<Rightarrow> string) \<Rightarrow> trace_summary \<Rightarrow> TraceSummaryDTO" where
  "summaryToDTO rfc s =
     \<lparr>traceId = sum_traceID s, rootService = sum_rootService s, rootOp = sum_rootOp s,
      ts_durationMs = of_int (sum_duration s) / 10 ^ 6, spanCount = sum_spanCount s,
      services = sum_services s, ts_hasError = sum_hasError s, receivedAt = rfc (sum_receivedAt s)\<rparr>"

subsection \<open>Who asks\<close>

record principal =
  pr_tenantID :: string
  pr_isGlobal :: bool
  pr_requestedTenant :: string

definition EffectiveTenant :: "principal \<Rightarrow> string" where
  "EffectiveTenant p = (if pr_isGlobal p then pr_requestedTenant p else pr_tenantID p)"

definition principalCanAccessTenant :: "principal \<Rightarrow> string \<Rightarrow> bool" where
  "principalCanAccessTenant p tenant \<longleftrightarrow> pr_isGlobal p \<or> tenant = [] \<or> pr_tenantID p = tenant"

definition HandleListTraces ::
  "go_env \<Rightarrow> (int \<Rightarrow> string) \<Rightarrow> principal \<Rightarrow> (string \<times> string) list \<Rightarrow> memory_store \<Rightarrow> TraceListResponse" where
  "HandleListTraces env rfc p ps s =
     (let r = Query env (buildTraceQuery (EffectiveTenant p) ps) s
      in \<lparr>traces = map (summaryToDTO rfc) (sp_traces r), total = int (sp_total r), hasMore = sp_hasMore r\<rparr>)"

text \<open>The answer, or the status of the error.\<close>

definition HandleGetTrace :: "principal \<Rightarrow> string \<Rightarrow> memory_store \<Rightarrow> nat + TraceDetailDTO" where
  "HandleGetTrace p tid s =
     (case ParseTraceID tid of
        Inl e \<Rightarrow> Inl 400
      | Inr i \<Rightarrow>
          (case Get i s of
             None \<Rightarrow> Inl 404
           | Some t \<Rightarrow>
               if principalCanAccessTenant p (gt_tenantID t) then Inr (traceToDetailDTO t) else Inl 404))"

text \<open>An attribute as it comes back: its first value, if it has one.\<close>

definition kept_attribute :: "attribute_in \<Rightarrow> AttributeDTO option" where
  "kept_attribute a =
     (case (ai_string a, ai_int a, ai_bool a, ai_double a) of
        (Some v, _, _, _) \<Rightarrow> Some \<lparr>key = ai_key a, stringValue = Some v, intValue = None, boolValue = None, doubleValue = None\<rparr>
      | (None, Some v, _, _) \<Rightarrow> Some \<lparr>key = ai_key a, stringValue = None, intValue = Some (of_int v), boolValue = None, doubleValue = None\<rparr>
      | (None, None, Some v, _) \<Rightarrow> Some \<lparr>key = ai_key a, stringValue = None, intValue = None, boolValue = Some v, doubleValue = None\<rparr>
      | (None, None, None, Some v) \<Rightarrow> Some \<lparr>key = ai_key a, stringValue = None, intValue = None, boolValue = None, doubleValue = Some v\<rparr>
      | (None, None, None, None) \<Rightarrow> None)"

section \<open>Lemmas\<close>

lemma attributes_back: "attributesToDTO (dtoToAttributes as) = List.map_filter kept_attribute as"
proof (induction as)
  case (Cons a as)
  then show ?case
    by (auto simp: attributesToDTO_def dtoToAttributes_def attribute_value_def kept_attribute_def List.map_filter_simps
        StringKV_def IntKV_def BoolKV_def FloatKV_def split: option.splits)
qed (simp add: attributesToDTO_def dtoToAttributes_def List.map_filter_simps)

lemma int64_back: "0 \<le> n \<Longrightarrow> n < 2 ^ 64 \<Longrightarrow> to_uint64 (to_int64 n) = n"
  by (simp add: to_uint64_def to_int64_def wrap64_def mod_diff_left_eq)

lemma int64_low: "0 \<le> n \<Longrightarrow> n < 2 ^ 63 \<Longrightarrow> to_int64 n = n"
  by (simp add: to_int64_def wrap64_def)

lemma int64_not_zero_time: "to_int64 n \<noteq> zero_time"
proof -
  have "- (2 ^ 63) \<le> to_int64 n" by (simp add: to_int64_def wrap64_def)
  moreover have "zero_time < - (2 ^ 63)" by (simp add: zero_time_def)
  ultimately show ?thesis by linarith
qed

lemma dtoToSpan_cases:
  assumes "dtoToSpan d = Inr sp"
  shows "ParseTraceID (si_traceId d) = Inr (gs_traceID sp)" and "ParseSpanID (si_spanId d) = Inr (gs_spanID sp)"
    and "check_span d = None" and "gs_name sp = si_name d" and "gs_service sp = si_service d" and "gs_kind sp = si_kind d"
    and "gs_start sp = nanoToTime (si_start d)" and "gs_end sp = nanoToTime (si_end d)"
    and "gs_attributes sp = dtoToAttributes (si_attributes d)" and "gs_code sp = si_code d" and "gs_message sp = si_message d"
    and "gs_serviceAttrs sp = si_serviceAttributes d"
  using assms by (auto simp: dtoToSpan_def split: sum.splits option.splits)

lemma ParseID_Inr: "ParseID n s = Inr i \<Longrightarrow> length i = n \<and> i = to_lower s"
  by (auto simp: ParseID_def to_lower_def split: if_splits)

lemma parent_back:
  assumes "dtoToSpan d = Inr sp"
  shows "(if gs_parentSpanID sp = ZeroSpanID then [] else gs_parentSpanID sp) =
    (case ParseSpanID (si_parentSpanId d) of Inl e \<Rightarrow> [] | Inr p \<Rightarrow> if p = ZeroSpanID then [] else p)"
  using assms by (auto simp: dtoToSpan_def ParseSpanID_def ParseID_def split: sum.splits option.splits if_splits)

lemma check_span_times: "check_span d = None \<Longrightarrow> si_start d \<noteq> 0 \<and> si_start d \<le> si_end d"
  by (auto simp: check_span_def split: if_splits)

lemma span_back:
  assumes "dtoToSpan d = Inr sp" and "0 < si_start d" and "si_end d < 2 ^ 63"
  shows "startTimeUnixNano (spanToDetailDTO sp) = of_int (si_start d) \<and>
    durationMs (spanToDetailDTO sp) = of_int (si_end d - si_start d) / 10 ^ 6"
proof -
  note c = dtoToSpan_cases [OF assms(1)]
  have le: "si_start d \<le> si_end d" using check_span_times [OF c(3)] by simp
  have times: "gs_start sp = si_start d" "gs_end sp = si_end d"
    using assms(2,3) le by (simp_all add: c nanoToTime_def int64_low)
  have "gs_start sp \<noteq> zero_time" "gs_end sp \<noteq> zero_time"
    using assms(2) le by (simp_all add: times zero_time_def)
  moreover have "go_sub (si_end d) (si_start d) = si_end d - si_start d"
    using assms(2,3) le by (simp add: go_sub_def)
  ultimately show ?thesis using assms(2,3) le by (simp add: spanToDetailDTO_def times to_uint64_def)
qed

lemma page_subset: "go_sort srt \<Longrightarrow> set (qr_traces (sort_and_page srt q xs)) \<subseteq> set xs"
proof -
  assume "go_sort srt"
  then have "set (srt (query_less q) xs) = set xs" using go_sorted(1) mset_eq_setD by blast
  then show ?thesis by (auto simp: sort_and_page_def Let_def dest: in_set_takeD in_set_dropD)
qed

text \<open>The answers of a list request are stored traces that match the query.\<close>

lemma list_answers:
  assumes "go_env_ok env" and "store_inv s" and "colon_free s" and "no_colon (q_service q)" and "q_traceID q = None"
  shows "set (sp_traces (Query env q s)) \<subseteq> toSummary ` matching (print_float env) q s"
    and "sp_total (Query env q s) = card (matching (print_float env) q s)"
proof -
  from query_filters [OF assms(1) _ assms(3-5)] assms(2) obtain xs where xs: "distinct xs"
    "set xs = matching (print_float env) q s" "Query env q s = summarise (sort_and_page (sort_traces env) q xs)"
    by (auto simp: store_inv_def)
  have srt: "go_sort (sort_traces env)" using assms(1) by (simp add: go_env_ok_def)
  show "set (sp_traces (Query env q s)) \<subseteq> toSummary ` matching (print_float env) q s"
    using page_subset [OF srt, of q xs] by (auto simp: xs(2,3) summarise_def)
  have "qr_total (sort_and_page (sort_traces env) q xs) = length xs"
    using go_sorted(3) [OF srt] by (simp add: sort_and_page_def Let_def)
  then show "sp_total (Query env q s) = card (matching (print_float env) q s)"
    using distinct_card [OF xs(1)] by (simp add: xs(2,3) summarise_def)
qed

lemma query_tenant:
  assumes "go_range (range_ids env)" and "go_sort (sort_traces env)" and "store_inv s" and "q_tenant q \<noteq> []" and "q_traceID q = None"
    and "x \<in> set (sp_traces (Query env q s))"
  shows "sum_tenantID x = q_tenant q"
proof (cases "candidates q s")
  case None
  with assms(5,6) show ?thesis by (simp add: Query_def empty_page_def)
next
  case (Some c)
  with assms(5,6) obtain t where t: "x = toSummary t"
    "t \<in> set (qr_traces (sort_and_page (sort_traces env) q (filter (rest_filters (print_float env) q)
      (List.map_filter (Mapping.lookup (ms_traces s)) (range_ids env c)))))"
    by (auto simp: Query_def summarise_def)
  with page_subset [OF assms(2)] have "rest_filters (print_float env) q t" by fastforce
  with assms(4) show ?thesis by (auto simp: t(1) toSummary_def rest_filters_def)
qed

section \<open>Properties\<close>

text \<open>
  C28. A span taken in is reported as it was sent: when an accepted span with times below \<open>2 ^ 63\<close>
  nanoseconds was given its tenant, enriched and assembled, among whatever other spans, the trace's answer
  shows at its place the ids of the request (in lower case; the parent's if it is one), its name, kind,
  status, start and duration, its attributes with the first value of each, and its service: the one
  sent, or if that is empty the \<open>service.name\<close> of its service attributes.
\<close>

theorem accepted_span_is_reported:
  assumes "dtoToSpan d = Inr sp" and "0 < si_start d" and "si_end d < 2 ^ 63"
    and "go_sort srt" and "complete_trace srt now ss = Some t"
    and "i < length ss" and "ss ! i = Enrich (sp\<lparr>gs_tenantID := tenant\<rparr>)"
  shows "let out = spans (traceToDetailDTO t) ! i in
    spanId out = to_lower (si_spanId d) \<and> sp_traceId out = to_lower (si_traceId d) \<and>
    parentSpanId out =
      (case ParseSpanID (si_parentSpanId d) of Inl e \<Rightarrow> [] | Inr p \<Rightarrow> if p = ZeroSpanID then [] else p) \<and>
    name out = si_name d \<and> kind out = si_kind d \<and>
    serviceName out = (if si_service d \<noteq> [] then si_service d
      else case map_of (si_serviceAttributes d) ''service.name'' of Some n \<Rightarrow> n | None \<Rightarrow> []) \<and>
    code (status out) = si_code d \<and> message (status out) = si_message d \<and>
    startTimeUnixNano out = of_int (si_start d) \<and>
    durationMs out = of_int (si_end d - si_start d) / 10 ^ 6 \<and>
    attributes out = List.map_filter kept_attribute (si_attributes d)"
proof -
  note c = dtoToSpan_cases [OF assms(1)]
  have ids: "gs_spanID sp = to_lower (si_spanId d)" "gs_traceID sp = to_lower (si_traceId d)"
    using ParseID_Inr [of 16 "si_spanId d" "gs_spanID sp"] ParseID_Inr [of 32 "si_traceId d" "gs_traceID sp"] c(1,2)
    by (simp_all add: ParseTraceID_def ParseSpanID_def)
  from complete_span [OF assms(4-6)] obtain dp h cs where
    "i < length (gt_spans t)" "gt_spans t ! i = (Enrich (sp\<lparr>gs_tenantID := tenant\<rparr>))\<lparr>gs_depth := dp, gs_hasError := h, gs_children := cs\<rparr>"
    unfolding assms(7) by blast
  then have out: "spans (traceToDetailDTO t) ! i =
      (spanToDetailDTO sp)\<lparr>serviceName := gs_service (Enrich sp), depth := dp, hasError := h\<rparr>"
    by (simp add: traceToDetailDTO_def Let_def) (simp add: spanToDetailDTO_def Enrich_def split: option.split)
  have "parentSpanId (spanToDetailDTO sp) =
      (case ParseSpanID (si_parentSpanId d) of Inl e \<Rightarrow> [] | Inr p \<Rightarrow> if p = ZeroSpanID then [] else p)"
    unfolding parent_back [OF assms(1), symmetric] by (simp add: spanToDetailDTO_def)
  moreover have "gs_service (Enrich sp) = (if si_service d \<noteq> [] then si_service d
      else case map_of (si_serviceAttributes d) ''service.name'' of Some n \<Rightarrow> n | None \<Rightarrow> [])"
    by (simp add: Enrich_def c split: option.split)
  moreover have "spanId (spanToDetailDTO sp) = to_lower (si_spanId d)" "sp_traceId (spanToDetailDTO sp) = to_lower (si_traceId d)"
    "name (spanToDetailDTO sp) = si_name d" "kind (spanToDetailDTO sp) = si_kind d"
    "status (spanToDetailDTO sp) = \<lparr>code = si_code d, message = si_message d\<rparr>"
    "attributes (spanToDetailDTO sp) = List.map_filter kept_attribute (si_attributes d)"
    by (simp_all add: spanToDetailDTO_def ids c attributes_back)
  ultimately show ?thesis unfolding Let_def out using span_back [OF assms(1-3)] by simp
qed

definition sample_span_in :: span_in where
  "sample_span_in =
     \<lparr>si_traceId = replicate 32 (CHR ''A''), si_spanId = replicate 16 (CHR ''b''), si_parentSpanId = [],
      si_name = ''GET /'', si_kind = 2, si_service = ''web'', si_serviceAttributes = [],
      si_start = 1000000, si_end = 3500000,
      si_attributes = [\<lparr>ai_key = ''n'', ai_string = None, ai_int = Some 7, ai_bool = Some True, ai_double = None\<rparr>],
      si_events = [], si_links = [], si_code = 0, si_message = []\<rparr>"

theorem accepted_span_is_reported_witness:
  "let d = sample_span_in\<lparr>si_service := [], si_serviceAttributes := [(''service.name'', ''api'')]\<rparr> in
   \<exists>sp t. dtoToSpan d = Inr sp \<and> complete_trace insertion_sort 9 [Enrich (sp\<lparr>gs_tenantID := ''t''\<rparr>)] = Some t \<and>
     durationMs (spans (traceToDetailDTO t) ! 0) = 5 / 2 \<and> serviceName (spans (traceToDetailDTO t) ! 0) = ''api'' \<and>
     spanId (spans (traceToDetailDTO t) ! 0) = replicate 16 (CHR ''b'')"
proof -
  let ?d = "sample_span_in\<lparr>si_service := [], si_serviceAttributes := [(''service.name'', ''api'')]\<rparr>"
  have "case dtoToSpan ?d of Inl e \<Rightarrow> False | Inr sp \<Rightarrow> True" by code_simp
  then obtain sp where sp: "dtoToSpan ?d = Inr sp" by (auto split: sum.splits)
  obtain t where t: "complete_trace insertion_sort 9 [Enrich (sp\<lparr>gs_tenantID := ''t''\<rparr>)] = Some t"
    using complete_trace_returns [OF go_sort_insertion] by blast
  have "to_lower (si_spanId ?d) = replicate 16 (CHR ''b'')" by code_simp
  with accepted_span_is_reported [OF sp _ _ go_sort_insertion t, of 0 "''t''"] sp t show ?thesis
    by (auto simp: Let_def sample_span_in_def)
qed

text \<open>
  C27. Tenants are separated on the way out: a principal that is bound to a tenant is answered
  only traces of that tenant by the list, and by the trace endpoint also those without one.
\<close>

theorem tenants_are_separated:
  assumes "go_env_ok env" and "store_inv s" and "\<not> pr_isGlobal p" and "pr_tenantID p \<noteq> []"
  shows "list_all (\<lambda>x. sum_tenantID x = pr_tenantID p)
      (sp_traces (Query env (buildTraceQuery (EffectiveTenant p) ps) s)) \<and>
    (case HandleGetTrace p tid s of
       Inl e \<Rightarrow> True
     | Inr d \<Rightarrow> \<exists>t. Get (to_lower tid) s = Some t \<and> d = traceToDetailDTO t \<and>
         (gt_tenantID t = [] \<or> gt_tenantID t = pr_tenantID p))"
proof
  have q: "q_tenant (buildTraceQuery (EffectiveTenant p) ps) = pr_tenantID p" "q_traceID (buildTraceQuery (EffectiveTenant p) ps) = None"
    using assms(3) by (simp_all add: buildTraceQuery_def Let_def EffectiveTenant_def)
  show "list_all (\<lambda>x. sum_tenantID x = pr_tenantID p) (sp_traces (Query env (buildTraceQuery (EffectiveTenant p) ps) s))"
    using query_tenant [of env s "buildTraceQuery (EffectiveTenant p) ps"] assms(1,2,4)
    by (auto simp: list_all_iff q go_env_ok_def)
  show "case HandleGetTrace p tid s of Inl e \<Rightarrow> True
     | Inr d \<Rightarrow> \<exists>t. Get (to_lower tid) s = Some t \<and> d = traceToDetailDTO t \<and>
         (gt_tenantID t = [] \<or> gt_tenantID t = pr_tenantID p)"
    using assms(3) ParseID_Inr [of 32 tid]
    by (auto simp: HandleGetTrace_def ParseTraceID_def principalCanAccessTenant_def split: sum.splits option.splits)
qed

definition tenant_trace :: "string \<Rightarrow> string \<Rightarrow> go_trace" where
  "tenant_trace i tenant = (sample_go_trace i [sample_go_span ''s'' ZeroSpanID ''api'' 1] 1)\<lparr>gt_tenantID := tenant\<rparr>"

theorem tenants_are_separated_witness:
  "let s = the (run_store [OpUpsert (tenant_trace ''a'' ''acme''), OpUpsert (tenant_trace ''b'' ''other'')] (NewMemoryStore 5));
       p = \<lparr>pr_tenantID = ''acme'', pr_isGlobal = False, pr_requestedTenant = ''other''\<rparr>
   in list_all (\<lambda>x. sum_tenantID x = ''acme'') (sp_traces (Query sample_env (buildTraceQuery (EffectiveTenant p) []) s)) \<and>
      length (sp_traces (Query sample_env (buildTraceQuery (EffectiveTenant p) []) s)) = 1"
proof -
  let ?s = "the (run_store [OpUpsert (tenant_trace ''a'' ''acme''), OpUpsert (tenant_trace ''b'' ''other'')] (NewMemoryStore 5))"
  let ?p = "\<lparr>pr_tenantID = ''acme'', pr_isGlobal = False, pr_requestedTenant = ''other''\<rparr>"
  have run: "run_store [OpUpsert (tenant_trace ''a'' ''acme''), OpUpsert (tenant_trace ''b'' ''other'')] (NewMemoryStore 5) = Some ?s"
    by code_simp
  have "length (sp_traces (Query sample_env (buildTraceQuery (EffectiveTenant ?p) []) ?s)) = 1" by code_simp
  with tenants_are_separated [OF sample_env_ok memory.ok_run [OF New_inv run], of ?p "[]"] show ?thesis
    by (simp add: Let_def)
qed

text \<open>
  On the way in they are not: spans are collected by trace id alone, so that spans of two tenants
  with one trace id become one trace, which belongs to the tenant of the first span and shows
  it the spans of the other.
\<close>

theorem tenants_share_a_trace:
  "let mine = (sample_go_span ''a'' ZeroSpanID ''web'' 1)\<lparr>gs_tenantID := ''acme''\<rparr>;
       yours = (sample_go_span ''b'' ZeroSpanID ''db'' 2)\<lparr>gs_tenantID := ''other''\<rparr>;
       batches = fst (assembler_run 5 [SpanArrives 0 mine, SpanArrives 1 yours, TimerFires ''t''] Mapping.empty)
   in map (map_option (\<lambda>t. (gt_tenantID t, map gs_tenantID (gt_spans t)))) (map (buildTree insertion_sort 9) batches)
      = [Some (''acme'', [''acme'', ''other''])]"
  by code_simp

text \<open>
  A trace none of whose spans names a service is written with \<open>null\<close> for its services, which
  the client takes for a list.
\<close>

theorem unnamed_services_are_null:
  assumes "ss \<noteq> []" and "list_all (\<lambda>sp. gs_service sp = []) ss" and "buildTree srt now ss = Some t"
  shows "services_json (td_services (traceToDetailDTO t)) = JNull"
proof -
  have "filter (\<lambda>x. x \<noteq> []) (map gs_service ss) = []" using assms(2) by (simp add: list_all_iff)
  then have "gt_services t = []"
    using assms(1,3) by (auto simp: buildTree_def Let_def split: option.splits)
  then show ?thesis by (simp add: traceToDetailDTO_def Let_def services_json_def)
qed

theorem unnamed_services_are_null_witness:
  "services_json (td_services (traceToDetailDTO (the (buildTree insertion_sort 0 [sample_go_span ''a'' ZeroSpanID [] 1])))) = JNull"
proof (rule unnamed_services_are_null)
  show "buildTree insertion_sort 0 [sample_go_span ''a'' ZeroSpanID [] 1] =
      Some (the (buildTree insertion_sort 0 [sample_go_span ''a'' ZeroSpanID [] 1]))"
    using buildTree_returns [OF go_sort_insertion] by (metis option.sel)
qed (simp_all add: sample_go_span_def)

text \<open>
  The check of the times is on the unsigned numbers, but the times are signed: a span that ends
  at \<open>2 ^ 63\<close> or later is accepted and has the smallest duration there is.
\<close>

theorem late_end_is_negative:
  "(case dtoToSpan (sample_span_in\<lparr>si_end := 2 ^ 63\<rparr>) of
      Inl e \<Rightarrow> False
    | Inr sp \<Rightarrow> durationMs (spanToDetailDTO sp) = - (2 ^ 63) / 10 ^ 6)"
  by code_simp

end
