(* ===== verification/Lib.thy ===== *)
theory Lib
  imports Types
begin

text \<open>
  \<open>web/src/lib/colors.ts\<close>: the module-level map that gives each service its colour, as
  a state that \<open>getServiceColor\<close> reads and extends, and the label switches; and
  \<open>web/src/lib/errors.ts\<close>: the message shown for a thrown value.
\<close>

section \<open>Definitions\<close>

definition SERVICE_COLORS :: "string list" where
  "SERVICE_COLORS =
     [''#2563eb'', ''#059669'', ''#d97706'', ''#7c3aed'', ''#db2777'',
      ''#0891b2'', ''#65a30d'', ''#dc2626'', ''#4f46e5'', ''#0d9488'']"

text \<open>The module's two variables.\<close>

record color_state =
  serviceColorMap :: "string \<rightharpoonup> string"
  colorIndex :: nat

definition initial_colors :: color_state where
  "initial_colors = \<lparr>serviceColorMap = Map.empty, colorIndex = 0\<rparr>"

definition getServiceColor :: "string \<Rightarrow> color_state \<Rightarrow> string \<times> color_state" where
  "getServiceColor svc cs =
     (let cs' =
        (case serviceColorMap cs svc of
           None \<Rightarrow>
             \<lparr>serviceColorMap = (serviceColorMap cs)
                (svc \<mapsto> SERVICE_COLORS ! (colorIndex cs mod length SERVICE_COLORS)),
              colorIndex = Suc (colorIndex cs)\<rparr>
         | Some _ \<Rightarrow> cs)
      in (the (serviceColorMap cs' svc), cs'))"

text \<open>The calls a rendering makes, one after the other.\<close>

fun color_calls :: "string list \<Rightarrow> color_state \<Rightarrow> color_state" where
  "color_calls [] cs = cs"
| "color_calls (s # ss) cs = color_calls ss (snd (getServiceColor s cs))"

text \<open>The colour a service has in a given state of the module.\<close>

definition color_of :: "color_state \<Rightarrow> string \<Rightarrow> string" where
  "color_of cs s = fst (getServiceColor s cs)"

definition getKindLabel :: "int \<Rightarrow> string" where
  "getKindLabel k =
     (if k = 1 then ''INTERNAL'' else if k = 2 then ''SERVER'' else if k = 3 then ''CLIENT''
      else if k = 4 then ''PRODUCER'' else if k = 5 then ''CONSUMER'' else ''UNKNOWN'')"

definition getStatusLabel :: "int \<Rightarrow> string" where
  "getStatusLabel c =
     (if c = 0 then ''UNSET'' else if c = 1 then ''OK'' else if c = 2 then ''ERROR''
      else ''UNKNOWN'')"

text \<open>A \<open>DOMException\<close> is an instance of \<open>Error\<close>.\<close>

fun getErrorMessage :: "failure \<Rightarrow> string \<Rightarrow> string" where
  "getErrorMessage (ErrorObj m) fallback = (if m \<noteq> [] then m else fallback)"
| "getErrorMessage (AbortError m) fallback = (if m \<noteq> [] then m else fallback)"
| "getErrorMessage NotAnError fallback = fallback"

text \<open>The module's invariant: \<open>colorIndex\<close> counts the services, in order of first use.\<close>

definition colors_ok :: "string list \<Rightarrow> color_state \<Rightarrow> bool" where
  "colors_ok order cs \<longleftrightarrow>
     distinct order \<and> colorIndex cs = length order \<and> dom (serviceColorMap cs) = set order \<and>
     (\<forall>i < length order. serviceColorMap cs (order ! i) = Some (SERVICE_COLORS ! (i mod 10)))"

section \<open>Lemmas\<close>

lemma length_SERVICE_COLORS [simp]: "length SERVICE_COLORS = 10"
  by (simp add: SERVICE_COLORS_def)

lemma distinct_SERVICE_COLORS: "distinct SERVICE_COLORS"
  by (simp add: SERVICE_COLORS_def)

named_theorems color_simps "the colour map"

lemma color_map_extends:
  "serviceColorMap cs s = Some c \<Longrightarrow> serviceColorMap (snd (getServiceColor t cs)) s = Some c"
  by (auto simp: getServiceColor_def Let_def split: option.splits)

lemma color_calls_extends:
  "serviceColorMap cs s = Some c \<Longrightarrow> serviceColorMap (color_calls ss cs) s = Some c"
  by (induction ss arbitrary: cs) (auto intro: color_map_extends)

lemma getServiceColor_known [color_simps]:
  "serviceColorMap cs s = Some c \<Longrightarrow> getServiceColor s cs = (c, cs)"
  by (simp add: getServiceColor_def)

lemma getServiceColor_remembers [color_simps]:
  "serviceColorMap (snd (getServiceColor s cs)) s = Some (fst (getServiceColor s cs))"
  by (auto simp: getServiceColor_def Let_def split: option.splits)

lemma color_calls_known: "s \<in> set ss \<Longrightarrow> s \<in> dom (serviceColorMap (color_calls ss cs))"
proof (induction ss arbitrary: cs)
  case Nil
  then show ?case by simp
next
  case (Cons t ts)
  show ?case
  proof (cases "s = t")
    case True
    then show ?thesis
      using color_calls_extends [OF getServiceColor_remembers [of t cs], of ts] by auto
  next
    case False
    with Cons show ?thesis by simp
  qed
qed

lemma colors_ok_initial: "colors_ok [] initial_colors"
  by (simp add: colors_ok_def initial_colors_def)

lemma colors_ok_step:
  assumes "colors_ok order cs"
  shows "colors_ok (if s \<in> set order then order else order @ [s]) (snd (getServiceColor s cs))"
proof (cases "serviceColorMap cs s")
  case None
  with assms have "s \<notin> set order" by (auto simp: colors_ok_def)
  then show ?thesis
    using assms None
    by (auto simp: colors_ok_def getServiceColor_def Let_def nth_append less_Suc_eq)
next
  case (Some c)
  with assms have "s \<in> set order" by (auto simp: colors_ok_def)
  with assms Some show ?thesis by (simp add: color_simps)
qed

lemma colors_ok_calls:
  "colors_ok order cs \<Longrightarrow>
   colors_ok (order @ uniq_by (\<lambda>x. x) (set order) ss) (color_calls ss cs)"
proof (induction ss arbitrary: order cs)
  case Nil
  then show ?case by simp
next
  case (Cons s ss)
  from Cons.IH [OF colors_ok_step [OF Cons.prems, of s]]
  show ?case by (cases "s \<in> set order") (simp_all add: Un_insert_right insert_absorb)
qed

lemma color_calls_in_palette:
  assumes "colors_ok order cs" and "serviceColorMap cs s = Some c"
  shows "c \<in> set SERVICE_COLORS"
proof -
  from assms have "s \<in> set order" by (auto simp: colors_ok_def)
  then obtain i where i: "i < length order" "s = order ! i" by (auto simp: in_set_conv_nth)
  then have "c = SERVICE_COLORS ! (i mod 10)"
    using assms by (auto simp: colors_ok_def)
  then show ?thesis by simp
qed

lemma colors_ok_inj:
  assumes ok: "colors_ok order cs" and small: "length order \<le> 10"
    and st: "s \<in> set order" "t \<in> set order" and eq: "serviceColorMap cs s = serviceColorMap cs t"
  shows "s = t"
proof -
  obtain i j where i: "i < length order" "s = order ! i" and j: "j < length order" "t = order ! j"
    using st by (auto simp: in_set_conv_nth)
  with ok eq have "SERVICE_COLORS ! (i mod 10) = SERVICE_COLORS ! (j mod 10)"
    by (auto simp: colors_ok_def)
  then have "i mod 10 = j mod 10"
    using distinct_SERVICE_COLORS by (simp add: nth_eq_iff_index_eq)
  with i j small have "i = j" by simp
  with i j show ?thesis by simp
qed

section \<open>Properties\<close>

text \<open>
  A service keeps its colour: whatever services are asked for after it, the next
  call for it returns what the first returned.
\<close>

theorem service_color_stable:
  "fst (getServiceColor s (color_calls ss (snd (getServiceColor s cs)))) = fst (getServiceColor s cs)"
  using color_calls_extends [OF getServiceColor_remembers [of s cs], of ss]
  by (simp add: color_simps)

text \<open>
  The first ten services a session shows have ten different colours, all from the
  palette, in whatever order and however often they are asked for.
\<close>

theorem ten_services_ten_colors:
  assumes "card (set ss) \<le> 10" and "s \<in> set ss" and "t \<in> set ss"
  shows "color_of (color_calls ss initial_colors) s \<in> set SERVICE_COLORS \<and>
         (color_of (color_calls ss initial_colors) s = color_of (color_calls ss initial_colors) t
            \<longleftrightarrow> s = t)"
proof -
  let ?cs = "color_calls ss initial_colors"
  have ok: "colors_ok (uniq ss) ?cs"
    using colors_ok_calls [OF colors_ok_initial, of ss] by (simp add: uniq_def)
  have small: "length (uniq ss) \<le> 10"
    using assms(1) by (metis distinct_card distinct_uniq set_uniq)
  obtain c d where c: "serviceColorMap ?cs s = Some c" and d: "serviceColorMap ?cs t = Some d"
    using color_calls_known assms(2,3) by (metis domD)
  have "s \<in> set (uniq ss)" "t \<in> set (uniq ss)"
    using assms(2,3) by (simp_all add: set_uniq)
  then have "c = d \<longleftrightarrow> s = t"
    using colors_ok_inj [OF ok small, of s t] c d by auto
  moreover have "c \<in> set SERVICE_COLORS" by (rule color_calls_in_palette [OF ok c])
  ultimately show ?thesis using c d by (simp add: color_of_def color_simps)
qed

theorem ten_services_ten_colors_witness:
  "color_of (color_calls [''a'', ''b'', ''a''] initial_colors) ''a'' \<noteq>
   color_of (color_calls [''a'', ''b'', ''a''] initial_colors) ''b''"
proof -
  have "card (set [''a'', ''b'', ''a'']) \<le> 10" by (simp add: card_insert_if)
  from ten_services_ten_colors [OF this, of "''a''" "''b''"] show ?thesis by simp
qed

end
