(* ===== verification/Latest.thy ===== *)
theory Latest
  imports Prelude
begin

text \<open>
  The interface the pages and hooks share for loading data. Each keeps a counter
  \<open>requestIdRef\<close>: starting a request aborts the one before and takes the next number;
  a response is used only while its number is still the counter's. The locale states
  that contract over the component's own state, and proves once what it gives: the
  order in which superseded responses arrive does not matter. The components that load
  data interpret it on their model.

  \<open>view\<close> is the part of the state the data and the error live in; \<open>accept\<close> and \<open>refuse\<close>
  are what a current response and a current failure do to it.
\<close>

datatype 'r settlement = Resolved nat 'r | Rejected nat failure

fun settled_id :: "'r settlement \<Rightarrow> nat" where
  "settled_id (Resolved i r) = i"
| "settled_id (Rejected i e) = i"

fun settle ::
  "(nat \<Rightarrow> 'r \<Rightarrow> 's \<Rightarrow> 's) \<Rightarrow> (nat \<Rightarrow> failure \<Rightarrow> 's \<Rightarrow> 's) \<Rightarrow> 's \<Rightarrow> 'r settlement \<Rightarrow> 's" where
  "settle res rej s (Resolved i r) = res i r s"
| "settle res rej s (Rejected i e) = rej i e s"

fun settle_all ::
  "(nat \<Rightarrow> 'r \<Rightarrow> 's \<Rightarrow> 's) \<Rightarrow> (nat \<Rightarrow> failure \<Rightarrow> 's \<Rightarrow> 's) \<Rightarrow> 's \<Rightarrow> 'r settlement list \<Rightarrow> 's" where
  "settle_all res rej s [] = s"
| "settle_all res rej s (x # xs) = settle_all res rej (settle res rej s x) xs"

text \<open>Settlements of the first \<open>n\<close> requests only.\<close>

definition settled_upto :: "nat \<Rightarrow> 'r settlement list \<Rightarrow> bool" where
  "settled_upto n xs = list_all (\<lambda>x. settled_id x \<le> n) xs"

lemma settled_uptoD: "settled_upto n xs \<Longrightarrow> x \<in> set xs \<Longrightarrow> settled_id x \<noteq> Suc n"
  by (auto simp: settled_upto_def list_all_iff)

locale latest_wins =
  fixes cur :: "'s \<Rightarrow> nat"
    and start :: "'s \<Rightarrow> 's"
    and resolve :: "nat \<Rightarrow> 'r \<Rightarrow> 's \<Rightarrow> 's"
    and reject :: "nat \<Rightarrow> failure \<Rightarrow> 's \<Rightarrow> 's"
    and view :: "'s \<Rightarrow> 'v"
    and accept :: "'r \<Rightarrow> 'v \<Rightarrow> 'v"
  assumes cur_start: "cur (start s) = Suc (cur s)"
    and cur_resolve: "cur (resolve i r s) = cur s"
    and cur_reject: "cur (reject i e s) = cur s"
    and stale_resolve: "i \<noteq> cur s \<Longrightarrow> view (resolve i r s) = view s"
    and stale_reject: "i \<noteq> cur s \<Longrightarrow> view (reject i e s) = view s"
    and current_resolve: "view (resolve (cur s) r s) = accept r (view s)"
begin

lemma cur_settle: "cur (settle resolve reject s x) = cur s"
  by (cases x) (simp_all add: cur_resolve cur_reject)

lemma cur_settle_all: "cur (settle_all resolve reject s xs) = cur s"
  by (induction xs arbitrary: s) (simp_all add: cur_settle)

lemma stale_settle: "settled_id x \<noteq> cur s \<Longrightarrow> view (settle resolve reject s x) = view s"
  by (cases x) (simp_all add: stale_resolve stale_reject)

lemma stale_settle_all:
  "(\<And>x. x \<in> set xs \<Longrightarrow> settled_id x \<noteq> cur s) \<Longrightarrow>
   view (settle_all resolve reject s xs) = view s"
  by (induction xs arbitrary: s) (simp_all add: stale_settle cur_settle)

text \<open>
  After a request is started, any settlements of earlier requests may arrive before and
  after its response: what is shown is what the latest response gives.
\<close>

lemma last_started_wins:
  assumes "settled_upto (cur s) xs" and "settled_upto (cur s) ys"
  shows "view (settle_all resolve reject
           (resolve (Suc (cur s)) r (settle_all resolve reject (start s) xs)) ys)
         = accept r (view (start s))"
proof -
  have before: "view (settle_all resolve reject (start s) xs) = view (start s)"
    using assms by (intro stale_settle_all) (simp add: cur_start settled_uptoD)
  have cur: "cur (settle_all resolve reject (start s) xs) = Suc (cur s)"
    by (simp add: cur_settle_all cur_start)
  have after: "view (settle_all resolve reject
      (resolve (Suc (cur s)) r (settle_all resolve reject (start s) xs)) ys)
    = view (resolve (Suc (cur s)) r (settle_all resolve reject (start s) xs))"
    using assms by (intro stale_settle_all) (simp add: cur_resolve cur settled_uptoD)
  have "view (resolve (Suc (cur s)) r (settle_all resolve reject (start s) xs))
    = accept r (view (settle_all resolve reject (start s) xs))"
    using current_resolve [of "settle_all resolve reject (start s) xs" r] by (simp add: cur)
  with before after show ?thesis by simp
qed

end

text \<open>
  The components that also show a loading indicator: it is taken down when the current
  request settles, in whichever way, and not by a superseded one.
\<close>

locale latest_loading = latest_wins +
  fixes busy :: "'s \<Rightarrow> bool"
  assumes resolve_idle: "\<not> busy (resolve (cur s) r s)"
    and reject_idle: "\<not> busy (reject (cur s) e s)"
    and stale_resolve_busy: "i \<noteq> cur s \<Longrightarrow> busy (resolve i r s) = busy s"
    and stale_reject_busy: "i \<noteq> cur s \<Longrightarrow> busy (reject i e s) = busy s"
begin

lemma stale_settle_busy: "settled_id x \<noteq> cur s \<Longrightarrow> busy (settle resolve reject s x) = busy s"
  by (cases x) (simp_all add: stale_resolve_busy stale_reject_busy)

lemma stale_settle_all_busy:
  "(\<And>x. x \<in> set xs \<Longrightarrow> settled_id x \<noteq> cur s) \<Longrightarrow>
   busy (settle_all resolve reject s xs) = busy s"
  by (induction xs arbitrary: s) (simp_all add: stale_settle_busy cur_settle)

lemma current_settle_idle: "settled_id x = cur s \<Longrightarrow> \<not> busy (settle resolve reject s x)"
  by (cases x) (auto simp: resolve_idle reject_idle)

text \<open>
  The indicator is down after a run of settlements exactly when it was down before, or
  the current request is among those that settled.
\<close>

lemma busy_settle_all:
  "busy (settle_all resolve reject s xs) \<longleftrightarrow>
   busy s \<and> (\<forall>x \<in> set xs. settled_id x \<noteq> cur s)"
proof (induction xs arbitrary: s)
  case Nil
  then show ?case by simp
next
  case (Cons x xs)
  show ?case
    by (cases "settled_id x = cur s")
      (auto simp: Cons cur_settle current_settle_idle stale_settle_busy)
qed

end

text \<open>
  The bookkeeping behind that contract, which every loader repeats: \<open>requestIdRef\<close>, the
  controller in \<open>abortRef\<close> (named here by the number of the request it was made for), and
  the controllers aborted so far. Starting a request aborts the controller before it.
\<close>

record requests =
  requestId :: nat
  abortRef :: "nat option"
  aborted :: "nat list"

definition no_requests :: requests where
  "no_requests = \<lparr>requestId = 0, abortRef = None, aborted = []\<rparr>"

definition abort_current :: "requests \<Rightarrow> requests" where
  "abort_current q =
     (case abortRef q of None \<Rightarrow> q | Some k \<Rightarrow> q\<lparr>aborted := k # aborted q\<rparr>)"

definition begin_request :: "requests \<Rightarrow> requests" where
  "begin_request q =
     (let q' = abort_current q; n = Suc (requestId q')
      in q'\<lparr>requestId := n, abortRef := Some n\<rparr>)"

text \<open>Every request but the latest has been aborted.\<close>

definition requests_ok :: "requests \<Rightarrow> bool" where
  "requests_ok q \<longleftrightarrow>
     abortRef q = (if requestId q = 0 then None else Some (requestId q)) \<and>
     {1..<requestId q} \<subseteq> set (aborted q)"

lemma requestId_begin [simp]: "requestId (begin_request q) = Suc (requestId q)"
  by (simp add: begin_request_def abort_current_def Let_def split: option.splits)

lemma requestId_abort [simp]: "requestId (abort_current q) = requestId q"
  by (simp add: abort_current_def split: option.splits)

lemma requests_ok_none: "requests_ok no_requests"
  by (simp add: requests_ok_def no_requests_def)

lemma requests_ok_abort: "requests_ok q \<Longrightarrow> requests_ok (abort_current q)"
  by (auto simp: requests_ok_def abort_current_def)

lemma requests_ok_begin: "requests_ok q \<Longrightarrow> requests_ok (begin_request q)"
  by (auto simp: requests_ok_def begin_request_def abort_current_def Let_def less_Suc_eq
      split: if_splits)

end
