(* ===== verification/Collector.thy ===== *)
theory Collector
  imports Types Lib Latest
begin

text \<open>
  The collector's status: the polling hook \<open>hooks/useCollectorStatus.ts\<close> and the panel
  \<open>components/SystemStatus.tsx\<close> that shows what it holds.
\<close>

section \<open>Definitions\<close>

subsection \<open>useCollectorStatus\<close>

record collector_state =
  col_status :: "CollectorReadyDTO option"
  col_error :: "string option"
  col_reqs :: requests

definition collector_initial :: collector_state where
  "collector_initial = \<lparr>col_status = None, col_error = None, col_reqs = no_requests\<rparr>"

text \<open>\<open>refresh\<close>, run once after mounting and then on every tick of the interval.\<close>

definition collector_refresh :: "collector_state \<Rightarrow> collector_state" where
  "collector_refresh s = s\<lparr>col_reqs := begin_request (col_reqs s)\<rparr>"

definition collector_then :: "nat \<Rightarrow> CollectorReadyDTO \<Rightarrow> collector_state \<Rightarrow> collector_state" where
  "collector_then i next s =
     (if i \<noteq> requestId (col_reqs s) then s
      else s\<lparr>col_status := Some next, col_error := None\<rparr>)"

definition is_abort :: "failure \<Rightarrow> bool" where
  "is_abort e = (case e of AbortError m \<Rightarrow> True | _ \<Rightarrow> False)"

definition collector_catch :: "nat \<Rightarrow> failure \<Rightarrow> collector_state \<Rightarrow> collector_state" where
  "collector_catch i e s =
     (if is_abort e then s
      else if i \<noteq> requestId (col_reqs s) then s
      else s\<lparr>col_error := Some (getErrorMessage e ''Collector status is unavailable.'')\<rparr>)"

definition collector_unmount :: "collector_state \<Rightarrow> collector_state" where
  "collector_unmount s = s\<lparr>col_reqs := abort_current (col_reqs s)\<rparr>"

subsection \<open>SystemStatus\<close>

datatype status_icon = AlertTriangle | Gauge | LoaderCircle | Activity

record tone =
  tone_dot :: string
  tone_label :: string
  tone_detail :: string
  tone_icon :: status_icon
  tone_panel :: string

definition statusTone :: "string option \<Rightarrow> bool \<Rightarrow> tone" where
  "statusTone st hasErr =
     (if hasErr then
        \<lparr>tone_dot = ''bg-red-500'', tone_label = ''Collector offline'',
         tone_detail = ''Unable to reach /readyz'', tone_icon = AlertTriangle,
         tone_panel = ''border-red-300/70 bg-red-50/80 text-red-900 dark:bg-red-950/30 dark:text-red-100''\<rparr>
      else if st = Some ''overloaded'' then
        \<lparr>tone_dot = ''bg-amber-500'', tone_label = ''Collector overloaded'',
         tone_detail = ''Queue pressure is above the configured readiness threshold'',
         tone_icon = Gauge,
         tone_panel = ''border-amber-300/70 bg-amber-50/80 text-amber-950 dark:bg-amber-950/30 dark:text-amber-100''\<rparr>
      else if st = Some ''draining'' then
        \<lparr>tone_dot = ''bg-orange-500'', tone_label = ''Collector draining'',
         tone_detail = ''Readiness is intentionally disabled while the process winds down'',
         tone_icon = LoaderCircle,
         tone_panel = ''border-orange-300/70 bg-orange-50/80 text-orange-950 dark:bg-orange-950/30 dark:text-orange-100''\<rparr>
      else
        \<lparr>tone_dot = ''bg-emerald-500'', tone_label = ''Collector ready'',
         tone_detail = ''Healthy and ready to accept traffic'', tone_icon = Activity,
         tone_panel = ''border-emerald-300/70 bg-emerald-50/80 text-emerald-950 dark:bg-emerald-950/30 dark:text-emerald-100''\<rparr>)"

text \<open>What the panel prints: one line on narrow screens, a summary and a list on wide ones.\<close>

record status_panel =
  panel_tone :: tone
  panel_spinning :: bool
  panel_summary :: string
  panel_compact :: string
  panel_stats :: "string list"

text \<open>\<open>Boolean(error)\<close>, for a message that may be empty.\<close>

definition present :: "string option \<Rightarrow> bool" where
  "present e = (case e of None \<Rightarrow> False | Some m \<Rightarrow> m \<noteq> [])"

definition queue_line :: "CollectorReadyDTO \<Rightarrow> string" where
  "queue_line c = ''queue '' @ int_str (queueDepth c) @ ''/'' @ int_str (queueCapacity c)"

definition uptime_line :: "CollectorReadyDTO \<Rightarrow> string" where
  "uptime_line c = int_str (js_round (uptimeSec c)) @ ''s uptime''"

definition SystemStatus :: "collector_state \<Rightarrow> status_panel" where
  "SystemStatus s =
     (let t = statusTone (map_option cr_status (col_status s)) (present (col_error s));
          summary = (case col_error s of None \<Rightarrow> tone_detail t | Some m \<Rightarrow> m);
          shown = (if present (col_error s) then None else col_status s)
      in \<lparr>panel_tone = t,
          panel_spinning = (map_option cr_status (col_status s) = Some ''draining''),
          panel_summary = summary,
          panel_compact = (case shown of None \<Rightarrow> summary
             | Some c \<Rightarrow> queue_line c @ '' '' @ bullet @ '' '' @ uptime_line c),
          panel_stats = (case shown of None \<Rightarrow> []
             | Some c \<Rightarrow> [uptime_line c, num_str (heapMB c) @ '' MB heap'',
                          int_str (goroutines c) @ '' goroutines'', queue_line c])\<rparr>)"

definition sample_ready :: "string \<Rightarrow> CollectorReadyDTO" where
  "sample_ready st =
     \<lparr>cr_status = st, uptimeSec = 12, goroutines = 9, heapMB = 5 / 2, queueDepth = 1,
      queueCapacity = 64, queueUsagePct = 1, queueThreshold = 80\<rparr>"

section \<open>Lemmas\<close>

definition col_view :: "collector_state \<Rightarrow> CollectorReadyDTO option \<times> string option" where
  "col_view s = (col_status s, col_error s)"

definition col_accept ::
  "CollectorReadyDTO \<Rightarrow> CollectorReadyDTO option \<times> string option \<Rightarrow>
   CollectorReadyDTO option \<times> string option" where
  "col_accept r v = (Some r, None)"

lemmas collector_defs = collector_refresh_def collector_then_def collector_catch_def
  collector_unmount_def col_view_def col_accept_def

interpretation collector: latest_wins "requestId \<circ> col_reqs" collector_refresh collector_then
  collector_catch col_view col_accept
  by unfold_locales (auto simp: collector_defs)

lemma SystemStatus_view: "col_view s = col_view s' \<Longrightarrow> SystemStatus s = SystemStatus s'"
  by (simp add: SystemStatus_def col_view_def)

lemma getErrorMessage_nonempty: "d \<noteq> [] \<Longrightarrow> getErrorMessage e d \<noteq> []"
  by (cases e) auto

section \<open>Properties\<close>

text \<open>
  The panel shows the latest poll. Whatever earlier polls settle, before or after the
  response to the latest one, the panel is the one of that response alone.
\<close>

theorem latest_poll_is_shown:
  assumes "settled_upto (requestId (col_reqs s)) xs"
    and "settled_upto (requestId (col_reqs s)) ys"
  shows "SystemStatus (settle_all collector_then collector_catch
           (collector_then (Suc (requestId (col_reqs s))) c
             (settle_all collector_then collector_catch (collector_refresh s) xs)) ys)
         = SystemStatus (s\<lparr>col_status := Some c, col_error := None\<rparr>)"
  by (rule SystemStatus_view,
      use collector.last_started_wins [of s xs ys c] assms in
        \<open>simp add: col_view_def col_accept_def\<close>)

theorem latest_poll_is_shown_witness:
  "tone_label (panel_tone (SystemStatus (settle_all collector_then collector_catch
     (collector_then 2 (sample_ready ''draining'')
       (settle_all collector_then collector_catch
         (collector_refresh (collector_refresh collector_initial)) [Rejected 1 (ErrorObj ''x'')]))
     [Resolved 1 (sample_ready ''ready'')])))
   = ''Collector draining''"
proof -
  have r: "requestId (col_reqs (collector_refresh collector_initial)) = 1"
    by (simp add: collector_refresh_def collector_initial_def no_requests_def)
  let ?s = "collector_refresh collector_initial"
  have "tone_label (panel_tone (SystemStatus
      (?s\<lparr>col_status := Some (sample_ready ''draining''), col_error := None\<rparr>))) = ''Collector draining''"
    by code_simp
  then show ?thesis
    using latest_poll_is_shown [of ?s "[Rejected 1 (ErrorObj ''x'')]"
        "[Resolved 1 (sample_ready ''ready'')]" "sample_ready ''draining''"]
    by (simp add: r numeral_2_eq_2 settled_upto_def)
qed

text \<open>
  An outage is shown and hides stale figures: when the current poll fails with anything
  but an abort, the panel reads ``offline'', gives the error as its summary, and lists no
  statistics, although the last good response is still held.
\<close>

theorem failed_poll_shows_offline:
  assumes "\<not> is_abort e"
  shows "let p = SystemStatus (collector_catch (requestId (col_reqs s)) e s)
         in tone_label (panel_tone p) = ''Collector offline'' \<and>
            panel_stats p = [] \<and>
            panel_summary p = getErrorMessage e ''Collector status is unavailable.'' \<and>
            panel_compact p = panel_summary p"
  using assms getErrorMessage_nonempty [of "''Collector status is unavailable.''" e]
  by (simp add: SystemStatus_def collector_catch_def present_def statusTone_def Let_def)

theorem failed_poll_shows_offline_witness:
  "tone_label (panel_tone (SystemStatus
     (collector_catch 1 (ErrorObj ''down'') (collector_refresh collector_initial))))
   = ''Collector offline''"
  using failed_poll_shows_offline [of "ErrorObj ''down''" "collector_refresh collector_initial"]
  by (simp add: is_abort_def collector_refresh_def collector_initial_def no_requests_def Let_def)

text \<open>
  Before the first response, and for a status it does not know, the panel reports a
  ready collector.
\<close>

theorem unknown_status_reads_ready:
  "tone_label (panel_tone (SystemStatus collector_initial)) = ''Collector ready'' \<and>
   tone_label (statusTone (Some ''starting'') False) = ''Collector ready''"
  by (simp add: SystemStatus_def collector_initial_def statusTone_def present_def Let_def)

end
