(* ===== verification/UseSearch.thy ===== *)
theory UseSearch
  imports Types Client Collector
begin

text \<open>
  \<open>hooks/useSearch.ts\<close>: the filters of the trace search, the debounced request they cause,
  the pages of results it collects; and \<open>hasActiveSearchFilters\<close> of
  \<open>pages/search-helpers.ts\<close>.
\<close>

section \<open>Definitions\<close>

datatype search_status = StatusAll | StatusError

record SearchFilters =
  sf_service :: "string option"
  sf_operation :: "string option"
  sf_attr :: "string option"
  sf_status :: "search_status option"
  sf_minDuration :: "num option"
  sf_maxDuration :: "num option"
  sf_timeRangeMinutes :: "num option"
  sf_limit :: "num option"
  sf_offset :: "num option"
  sf_sortBy :: "string option"
  sf_sortDesc :: "bool option"

definition limit_only :: "num \<Rightarrow> SearchFilters" where
  "limit_only n =
     \<lparr>sf_service = None, sf_operation = None, sf_attr = None, sf_status = None,
      sf_minDuration = None, sf_maxDuration = None, sf_timeRangeMinutes = None,
      sf_limit = Some n, sf_offset = None, sf_sortBy = None, sf_sortDesc = None\<rparr>"

text \<open>An optional string, or number, that is also not falsy.\<close>

definition truthy_str :: "string option \<Rightarrow> string option" where
  "truthy_str v = (case v of None \<Rightarrow> None | Some s \<Rightarrow> if s = [] then None else Some s)"

definition truthy_num :: "num option \<Rightarrow> num option" where
  "truthy_num v = (case v of None \<Rightarrow> None | Some x \<Rightarrow> if x = 0 then None else Some x)"

text \<open>One conditional assignment \<open>if (...) params.k = v\<close> per entry; an entry not assigned is absent.\<close>

definition assigned :: "string \<Rightarrow> param option \<Rightarrow> (string \<times> param option) list" where
  "assigned k v = (case v of None \<Rightarrow> [] | Some p \<Rightarrow> [(k, Some p)])"

definition buildTraceQueryParams :: "num \<Rightarrow> SearchFilters \<Rightarrow> (string \<times> param option) list" where
  "buildTraceQueryParams now f =
     assigned ''service'' (map_option PStr (truthy_str (sf_service f))) @
     assigned ''operation'' (map_option PStr (truthy_str (sf_operation f))) @
     assigned ''attr'' (map_option PStr (truthy_str (sf_attr f))) @
     assigned ''status'' (if sf_status f = Some StatusError then Some (PStr ''error'') else None) @
     assigned ''minDuration'' (map_option PNum (sf_minDuration f)) @
     assigned ''maxDuration'' (map_option PNum (sf_maxDuration f)) @
     assigned ''startTime''
       (map_option (\<lambda>t. PNum (now - t * 60 * 1000)) (truthy_num (sf_timeRangeMinutes f))) @
     assigned ''limit'' (map_option PNum (sf_limit f)) @
     assigned ''offset'' (map_option PNum (sf_offset f)) @
     assigned ''sortBy'' (map_option PStr (truthy_str (sf_sortBy f))) @
     assigned ''sortDesc'' (map_option PBool (sf_sortDesc f))"

definition hasActiveSearchFilters :: "SearchFilters \<Rightarrow> bool" where
  "hasActiveSearchFilters f \<longleftrightarrow>
     truthy_str (sf_service f) \<noteq> None \<or>
     truthy_str (sf_operation f) \<noteq> None \<or>
     truthy_str (sf_attr f) \<noteq> None \<or>
     (sf_status f \<noteq> None \<and> sf_status f \<noteq> Some StatusAll) \<or>
     sf_minDuration f \<noteq> None \<or>
     sf_maxDuration f \<noteq> None \<or>
     truthy_num (sf_timeRangeMinutes f) \<noteq> None"

definition mergeTracePages ::
  "TraceSummaryDTO list \<Rightarrow> TraceSummaryDTO list \<Rightarrow> TraceSummaryDTO list" where
  "mergeTracePages existing incoming =
     existing @ uniq_by traceId (set (map traceId existing)) incoming"

text \<open>
  The hook. \<open>us_timer\<close> is the pending timeout with the filters its closure captured;
  \<open>us_sent\<close> the filters each request's handlers captured; \<open>us_queries\<close> the parameters of
  the calls of \<open>getTraces\<close>, latest first.
\<close>

record search_hook =
  us_filters :: SearchFilters
  us_results :: "TraceListResponse option"
  us_loading :: bool
  us_error :: "string option"
  us_timer :: "SearchFilters option"
  us_reqs :: requests
  us_sent :: "nat \<rightharpoonup> SearchFilters"
  us_queries :: "(string \<times> param option) list list"

text \<open>The first render, whose effect sets the timeout.\<close>

definition useSearch :: "SearchFilters \<Rightarrow> search_hook" where
  "useSearch initialFilters =
     \<lparr>us_filters = initialFilters, us_results = None, us_loading = False, us_error = None,
      us_timer = Some initialFilters, us_reqs = no_requests, us_sent = Map.empty,
      us_queries = []\<rparr>"

text \<open>
  \<open>setFilters\<close>: the effect's cleanup clears the timeout and aborts the request; the effect
  for the new filters sets a timeout of 300 ms.
\<close>

definition search_setFilters :: "SearchFilters \<Rightarrow> search_hook \<Rightarrow> search_hook" where
  "search_setFilters f s =
     s\<lparr>us_filters := f, us_reqs := abort_current (us_reqs s), us_timer := Some f\<rparr>"

definition search_send :: "num \<Rightarrow> SearchFilters \<Rightarrow> search_hook \<Rightarrow> search_hook" where
  "search_send now f s =
     (let q = begin_request (us_reqs s)
      in s\<lparr>us_timer := None, us_reqs := q, us_sent := (us_sent s)(requestId q \<mapsto> f),
           us_queries := buildTraceQueryParams now f # us_queries s,
           us_loading := True, us_error := None\<rparr>)"

definition search_timeout :: "num \<Rightarrow> search_hook \<Rightarrow> search_hook" where
  "search_timeout now s =
     (case us_timer s of None \<Rightarrow> s | Some f \<Rightarrow> search_send now f s)"

text \<open>The update of \<open>setResults\<close>, for the captured filters and the previous results.\<close>

definition place_page ::
  "SearchFilters option \<Rightarrow> TraceListResponse option \<Rightarrow> TraceListResponse \<Rightarrow> TraceListResponse" where
  "place_page captured prev r =
     (let offset = (case captured of None \<Rightarrow> 0
        | Some f \<Rightarrow> (case sf_offset f of None \<Rightarrow> 0 | Some x \<Rightarrow> x))
      in (if offset \<le> 0 then r
          else case prev of
            None \<Rightarrow> r
          | Some p \<Rightarrow> r\<lparr>traces := mergeTracePages (traces p) (traces r)\<rparr>))"

text \<open>The handlers; each is followed by the one of \<open>finally\<close>.\<close>

definition search_finally :: "nat \<Rightarrow> search_hook \<Rightarrow> search_hook" where
  "search_finally i s = (if i = requestId (us_reqs s) then s\<lparr>us_loading := False\<rparr> else s)"

definition search_then :: "nat \<Rightarrow> TraceListResponse \<Rightarrow> search_hook \<Rightarrow> search_hook" where
  "search_then i r s = search_finally i
     (if i \<noteq> requestId (us_reqs s) then s
      else s\<lparr>us_results := Some (place_page (us_sent s i) (us_results s) r)\<rparr>)"

definition search_catch :: "nat \<Rightarrow> failure \<Rightarrow> search_hook \<Rightarrow> search_hook" where
  "search_catch i e s = search_finally i
     (case e of
        AbortError m \<Rightarrow> s
      | ErrorObj m \<Rightarrow> s\<lparr>us_error := Some m\<rparr>
      | NotAnError \<Rightarrow> s\<lparr>us_error := Some ''Failed to load traces.''\<rparr>)"

definition search_unmount :: "search_hook \<Rightarrow> search_hook" where
  "search_unmount s = s\<lparr>us_timer := None, us_reqs := abort_current (us_reqs s)\<rparr>"

text \<open>
  One use of ``Load more'': the filters with the next offset are set, the timeout runs, and
  the page arrives.
\<close>

definition next_page :: "num \<Rightarrow> num \<Rightarrow> TraceListResponse \<Rightarrow> search_hook \<Rightarrow> search_hook" where
  "next_page now sz r s =
     (let f = us_filters s;
          offset = (case sf_offset f of None \<Rightarrow> 0 | Some x \<Rightarrow> x);
          s' = search_timeout now (search_setFilters (f\<lparr>sf_offset := Some (offset + sz)\<rparr>) s)
      in search_then (requestId (us_reqs s')) r s')"

fun next_pages :: "num \<Rightarrow> num \<Rightarrow> TraceListResponse list \<Rightarrow> search_hook \<Rightarrow> search_hook" where
  "next_pages now sz [] s = s"
| "next_pages now sz (r # rs) s = next_pages now sz rs (next_page now sz r s)"

definition filter_keys :: "string set" where
  "filter_keys =
     {''service'', ''operation'', ''attr'', ''status'', ''minDuration'', ''maxDuration'', ''startTime''}"

definition page_of :: "string list \<Rightarrow> TraceListResponse" where
  "page_of ids = \<lparr>traces = map sample_summary ids, total = 5, hasMore = True\<rparr>"

section \<open>Lemmas\<close>

definition search_view ::
  "search_hook \<Rightarrow> TraceListResponse option \<times> SearchFilters option" where
  "search_view s = (us_results s, us_sent s (requestId (us_reqs s)))"

definition search_accept ::
  "TraceListResponse \<Rightarrow> TraceListResponse option \<times> SearchFilters option \<Rightarrow>
   TraceListResponse option \<times> SearchFilters option" where
  "search_accept r v = (Some (place_page (snd v) (fst v) r), snd v)"

lemmas search_defs = search_then_def search_catch_def search_finally_def search_send_def
  search_view_def search_accept_def Let_def

interpretation search: latest_loading "requestId \<circ> us_reqs" "search_send now f" search_then
  search_catch search_view search_accept us_loading
  for now f
  by unfold_locales (auto simp: search_defs split: failure.splits)

lemma filter_keys_code: "list_all (\<lambda>k. k \<in> filter_keys) [''service'', ''operation'', ''attr'',
    ''status'', ''minDuration'', ''maxDuration'', ''startTime'']"
  by (simp add: filter_keys_def)

lemma paging_keys_code:
  "list_all (\<lambda>k. k \<notin> filter_keys) [''limit'', ''offset'', ''sortBy'', ''sortDesc'']"
  by (simp add: filter_keys_def)

lemma list_ex_assigned:
  "list_ex (\<lambda>(k, v). k \<in> filter_keys) (assigned k' w) \<longleftrightarrow> w \<noteq> None \<and> k' \<in> filter_keys"
  by (auto simp: assigned_def split: option.splits)

lemma status_not_all:
  "sf_status f \<noteq> None \<and> sf_status f \<noteq> Some StatusAll \<longleftrightarrow> sf_status f = Some StatusError"
  by (metis option.exhaust search_status.exhaust search_status.distinct(1) option.inject option.distinct(1))

lemma buildTraceQueryParams_filter:
  "list_ex (\<lambda>(k, v). k \<in> filter_keys) (buildTraceQueryParams now f) \<longleftrightarrow> hasActiveSearchFilters f"
  using filter_keys_code paging_keys_code
  unfolding buildTraceQueryParams_def hasActiveSearchFilters_def status_not_all
  by (simp only: list.pred_inject list_ex_append list_ex_assigned option.map_disc_iff) auto

lemma traces_next_page:
  assumes "us_results s = Some p"
    and "0 < sz" and "sf_offset (us_filters s) = None \<or> 0 \<le> the (sf_offset (us_filters s))"
  shows "us_results (next_page now sz r s) =
      Some (r\<lparr>traces := mergeTracePages (traces p) (traces r)\<rparr>) \<and>
    0 \<le> the (sf_offset (us_filters (next_page now sz r s)))"
  using assms
  by (auto simp: next_page_def search_defs search_timeout_def search_setFilters_def place_page_def
      split: option.splits)

lemma mergeTracePages_uniq:
  "mergeTracePages (uniq_by traceId {} xs) ys = uniq_by traceId {} (xs @ ys)"
  by (simp add: mergeTracePages_def uniq_by_append uniq_by_keys)

text \<open>
  The handler of errors does not ask whether its request is current.
\<close>

lemma error_of_any_request: "us_error (search_catch i (ErrorObj m) s) = Some m"
  by (simp add: search_catch_def search_finally_def)

section \<open>Properties\<close>

text \<open>
  C36. Whatever earlier searches settle, before and after the answer to the latest one, the
  results are those of that answer: for a first page (no positive offset) exactly the
  answer, else the answer appended to what was shown when it was asked for.
\<close>

theorem latest_search_wins:
  assumes "settled_upto (requestId (us_reqs s)) xs"
    and "settled_upto (requestId (us_reqs s)) ys"
  shows "us_results (settle_all search_then search_catch
           (search_then (Suc (requestId (us_reqs s))) r
             (settle_all search_then search_catch (search_send now f s) xs)) ys)
         = Some (place_page (Some f) (us_results s) r)"
  using search.last_started_wins [where s = s and xs = xs and ys = ys and r = r and now = now and f = f] assms
  by (simp add: search_view_def search_accept_def search_send_def Let_def)

theorem latest_search_wins_witness:
  "map_option (map traceId \<circ> traces) (us_results (settle_all search_then search_catch
     (search_then 2 (page_of [''b''])
       (settle_all search_then search_catch
         (search_send 0 (limit_only 20) (search_timeout 0 (useSearch (limit_only 20))))
         [Resolved 1 (page_of [''a''])]))
     [Rejected 1 (ErrorObj ''x'')]))
   = Some [''b'']"
proof -
  let ?s = "search_timeout 0 (useSearch (limit_only 20))"
  have r: "requestId (us_reqs ?s) = 1"
    by (simp add: search_timeout_def useSearch_def search_send_def no_requests_def Let_def)
  have p: "place_page (Some (limit_only 20)) v r = r" for v r
    by (simp add: place_page_def limit_only_def)
  show ?thesis
    using latest_search_wins [of ?s "[Resolved 1 (page_of [''a''])]"
        "[Rejected 1 (ErrorObj ''x'')]" "page_of [''b'']" 0 "limit_only 20"]
    by (simp add: r p settled_upto_def numeral_2_eq_2)
      (simp add: page_of_def sample_summary_def)
qed

text \<open>
  C29. Pagination. From a first page that lists no trace twice, with filters without an offset and
  a positive page size, each ``Load more'' that runs to completion appends its page: the traces
  shown are the traces of all pages in order, each trace once, at its first place; total and
  \<open>hasMore\<close> are those of the last page.
\<close>

theorem pages_accumulate:
  assumes "us_results s = Some p" and "distinct (map traceId (traces p))"
    and "0 < sz" and "sf_offset (us_filters s) = None"
  shows "map_option traces (us_results (next_pages now sz rs s))
         = Some (uniq_by traceId {} (concat (map traces (p # rs)))) \<and>
         map_option total (us_results (next_pages now sz rs s)) = Some (total (last (p # rs))) \<and>
         map_option hasMore (us_results (next_pages now sz rs s)) = Some (hasMore (last (p # rs)))"
proof -
  have gen: "map_option traces (us_results (next_pages now sz rs s))
      = Some (uniq_by traceId {} (xs @ concat (map traces rs))) \<and>
    map_option total (us_results (next_pages now sz rs s)) = Some (total (last (p # rs))) \<and>
    map_option hasMore (us_results (next_pages now sz rs s)) = Some (hasMore (last (p # rs)))"
    if "us_results s = Some p" "traces p = uniq_by traceId {} xs"
      "sf_offset (us_filters s) = None \<or> 0 \<le> the (sf_offset (us_filters s))" for s p xs rs
    using that
  proof (induction rs arbitrary: s p xs)
    case Nil
    then show ?case by simp
  next
    case (Cons r rs)
    note n = traces_next_page [OF Cons.prems(1) assms(3) Cons.prems(3), of now r]
    let ?m = "r\<lparr>traces := mergeTracePages (traces p) (traces r)\<rparr>"
    have "total (last (?m # rs)) = total (last (p # r # rs)) \<and> hasMore (last (?m # rs)) = hasMore (last (p # r # rs))"
      by (cases rs) auto
    then show ?case
      using Cons.IH [OF conjunct1 [OF n], of "xs @ traces r"] n Cons.prems
      by (simp add: mergeTracePages_uniq)
  qed
  show ?thesis
    using gen [of s p "traces p" rs] assms by (simp add: uniq_by_id)
qed

theorem pages_accumulate_witness:
  "map_option (map traceId \<circ> traces) (us_results (next_pages 0 20
     [page_of [''b'', ''c''], page_of [''c'', ''d'']]
     (search_then 1 (page_of [''a'', ''b'']) (search_timeout 0 (useSearch (limit_only 20))))))
   = Some [''a'', ''b'', ''c'', ''d'']"
proof -
  let ?s = "search_then 1 (page_of [''a'', ''b'']) (search_timeout 0 (useSearch (limit_only 20)))"
  have s: "us_results ?s = Some (page_of [''a'', ''b''])" "sf_offset (us_filters ?s) = None"
    by (simp_all add: search_timeout_def useSearch_def search_defs no_requests_def
        begin_request_def abort_current_def place_page_def limit_only_def)
  have "distinct (map traceId (traces (page_of [''a'', ''b''])))" by code_simp
  from pages_accumulate [OF s(1) this, of 20 0 "[page_of [''b'', ''c''], page_of [''c'', ''d'']]"] s(2)
  show ?thesis
    by (cases "us_results (next_pages 0 20 [page_of [''b'', ''c''], page_of [''c'', ''d'']] ?s)")
      (simp_all add: page_of_def sample_summary_def)
qed

text \<open>
  The request carries a filter parameter exactly when \<open>hasActiveSearchFilters\<close> says the
  query is filtered: live traces are blended in only beside an unfiltered query.
\<close>

theorem filters_active_iff_sent:
  "hasActiveSearchFilters f \<longleftrightarrow>
   (\<exists>k v. (k, v) \<in> set (buildTraceQueryParams now f) \<and> k \<in> filter_keys)"
  unfolding buildTraceQueryParams_filter [of now f, symmetric] by (force simp: list_ex_iff)

text \<open>
  The loading mark is taken down exactly by the settlement of the current request.
\<close>

theorem loading_until_current_settles:
  "us_loading (settle_all search_then search_catch (search_send now f s) xs) \<longleftrightarrow>
   \<not> list_ex (\<lambda>x. settled_id x = Suc (requestId (us_reqs s))) xs"
  by (simp add: search.busy_settle_all list_ex_iff) (simp add: search_send_def Let_def)

text \<open>
  ``Load more'' twice within the 300 ms of the timeout skips a page: the first timeout is
  cleared, so the only request sent is the one for the second offset.
\<close>

theorem double_load_more_skips_page:
  "let f = us_filters s;
       s1 = search_setFilters (f\<lparr>sf_offset := Some 20\<rparr>) s;
       s2 = search_timeout now (search_setFilters (f\<lparr>sf_offset := Some 40\<rparr>) s1)
   in us_queries s2 = buildTraceQueryParams now (f\<lparr>sf_offset := Some 40\<rparr>) # us_queries s"
  by (simp add: search_setFilters_def search_timeout_def search_send_def Let_def)

end
