(* ===== verification/SearchRequest.thy ===== *)
theory SearchRequest
  imports UseSearch TraceQuery
begin

text \<open>
  The request of the trace search between its two ends: what \<open>buildTraceQuery\<close> of the collector
  reads for each parameter that \<open>buildTraceQueryParams\<close> of the client sets, for the property of
  the root theory that the filters arrive.
\<close>

section \<open>Lemmas\<close>

lemma map_of_assigned:
  "map_of (set_params (assigned k v) ps) x =
     (if x = k then (case v of None \<Rightarrow> map_of ps x | Some p \<Rightarrow> Some (param_str p)) else map_of ps x)"
  by (simp add: assigned_def map_of_qs_set split: option.splits)

definition sent :: "param option \<Rightarrow> string" where
  "sent v = (case v of None \<Rightarrow> [] | Some p \<Rightarrow> param_str p)"

definition start_param :: "num \<Rightarrow> num option \<Rightarrow> param option" where
  "start_param now v = map_option (\<lambda>t. PNum (now - t * 60 * 1000)) (truthy_num v)"

lemmas param_lookup = start_param_def url_get_def buildTraceQueryParams_def set_params_append map_of_assigned sent_def

lemma search_params_get:
  "url_get (set_params (buildTraceQueryParams now f) []) ''service'' = sent (map_option PStr (truthy_str (sf_service f)))"
  "url_get (set_params (buildTraceQueryParams now f) []) ''operation'' = sent (map_option PStr (truthy_str (sf_operation f)))"
  "url_get (set_params (buildTraceQueryParams now f) []) ''attr'' = sent (map_option PStr (truthy_str (sf_attr f)))"
  "url_get (set_params (buildTraceQueryParams now f) []) ''status'' = (if sf_status f = Some StatusError then ''error'' else [])"
  "url_get (set_params (buildTraceQueryParams now f) []) ''minDuration'' = sent (map_option PNum (sf_minDuration f))"
  "url_get (set_params (buildTraceQueryParams now f) []) ''maxDuration'' = sent (map_option PNum (sf_maxDuration f))"
  "url_get (set_params (buildTraceQueryParams now f) []) ''startTime'' =
     sent (start_param now (sf_timeRangeMinutes f))"
  "url_get (set_params (buildTraceQueryParams now f) []) ''endTime'' = []"
  "url_get (set_params (buildTraceQueryParams now f) []) ''limit'' = sent (map_option PNum (sf_limit f))"
  "url_get (set_params (buildTraceQueryParams now f) []) ''offset'' = sent (map_option PNum (sf_offset f))"
  "url_get (set_params (buildTraceQueryParams now f) []) ''sortBy'' = sent (map_option PStr (truthy_str (sf_sortBy f)))"
  by (simp_all add: param_lookup split: option.splits)

lemma sent_text: "sent (map_option PStr (truthy_str v)) = (case v of None \<Rightarrow> [] | Some s \<Rightarrow> s)"
  by (simp add: sent_def truthy_str_def split: option.splits)

lemma parse_sent:
  "pred_option int64 v \<Longrightarrow> parse_int (sent (map_option PNum (map_option of_int v))) = v"
  by (cases v) (simp_all add: sent_def num_str_int parse_int_str)

text \<open>The numbers the controls of the page produce.\<close>

definition small :: "int \<Rightarrow> bool" where
  "small z \<longleftrightarrow> 0 \<le> z \<and> z \<le> 10 ^ 9"

lemma small_int64: "small z \<Longrightarrow> int64 z"
  by (simp add: small_def int64_def)

lemma wrap_small: "small z \<Longrightarrow> wrap64 (z * 1000000) = z * 1000000"
  by (simp add: small_def wrap64_def)

text \<open>The whole request: every filter arrives.\<close>

lemma request_query:
  assumes "sf_minDuration f = map_option of_int mi" and "sf_maxDuration f = map_option of_int ma"
    and "sf_timeRangeMinutes f = map_option of_int tr" and "sf_limit f = Some (of_int li)"
    and "sf_offset f = map_option of_int off" and "sf_sortBy f = None"
    and "pred_option small mi" and "pred_option small ma" and "pred_option small tr"
    and "pred_option small off" and "0 < li" and "li \<le> 1000" and "0 \<le> now" and "now \<le> 10 ^ 15"
  shows "buildTraceQuery tenant (set_params (buildTraceQueryParams (of_int now) f) []) =
     \<lparr>q_tenant = tenant,
      q_service = (case sf_service f of None \<Rightarrow> [] | Some s \<Rightarrow> s),
      q_operation = (case sf_operation f of None \<Rightarrow> [] | Some s \<Rightarrow> s),
      q_attr = (case sf_attr f of None \<Rightarrow> [] | Some s \<Rightarrow> s),
      q_minDuration = map_option (\<lambda>z. z * 1000000) mi,
      q_maxDuration = map_option (\<lambda>z. z * 1000000) ma,
      q_hasError = (if sf_status f = Some StatusError then Some True else None),
      q_startTime = (case tr of None \<Rightarrow> None
        | Some t \<Rightarrow> if t = 0 then None else Some ((now - t * 60000) * 1000000)),
      q_endTime = None, q_traceID = None, q_limit = li, q_offset = (case off of None \<Rightarrow> 0 | Some z \<Rightarrow> z),
      q_sortBy = ''receivedAt'', q_sortDesc = True\<rparr>"
proof -
  have pred: "pred_option int64 v" if "pred_option small v" for v
    using that by (cases v) (simp_all add: small_int64)
  have li: "parse_int (sent (Some (PNum (of_int li)))) = Some li"
    using parse_sent [of "Some li"] assms(11,12) by (simp add: int64_def)
  have wraps: "map_option (\<lambda>z. wrap64 (z * 1000000)) v = map_option (\<lambda>z. z * 1000000) v" if "pred_option small v" for v
    using that by (cases v) (simp_all add: wrap_small)
  have start: "parse_int (sent (start_param (of_int now) (map_option of_int tr)))
      = (case tr of None \<Rightarrow> None | Some t \<Rightarrow> if t = 0 then None else Some (now - t * 60000))"
  proof (cases tr)
    case (Some t)
    have "int64 (now - t * 60000)" using assms(9,13,14) by (simp add: Some small_def int64_def)
    from parse_int_str [OF this] num_str_int [of "now - t * 60000"] show ?thesis
      by (simp add: Some start_param_def truthy_num_def sent_def mult.commute)
  qed (simp add: start_param_def truthy_num_def sent_def)
  note gets = search_params_get [of "of_int now" f, unfolded assms(1-6) option.map(2)]
  show ?thesis
    using assms(11,12)
    by (simp add: buildTraceQuery_def Let_def gets sent_text li start wraps assms(7,8)
        parse_sent [OF pred [OF assms(7)]] parse_sent [OF pred [OF assms(8)]] parse_sent [OF pred [OF assms(10)]]
        split: option.splits)
qed

end
