(* ===== verification/TraceView.thy ===== *)
theory TraceView
  imports SpanLayout TraceApi SearchRequest
begin

text \<open>
  From the collector to the client: what the layout of the client (\<open>SpanLayout\<close>) makes of a
  trace that the collector assembled (\<open>Assembler\<close>, \<open>Analysis\<close>) and sent (\<open>TraceApi\<close>), and
  what the store (\<open>MemoryStore\<close>) answers to a request of the search page (\<open>SearchRequest\<close>).
  The lemmas for the properties of the root theory.
\<close>

section \<open>A trace on its way to the page\<close>

text \<open>The ids the pipeline lets through, each once in a trace.\<close>

definition valid_ids :: "go_span list \<Rightarrow> bool" where
  "valid_ids ss \<longleftrightarrow> distinct (map gs_spanID ss) \<and>
     list_all (\<lambda>sp. length (gs_spanID sp) = 16 \<and> gs_spanID sp \<noteq> ZeroSpanID) ss"

lemma zero_text: "ZeroSpanID = ''0000000000000000''"
  by (simp add: ZeroSpanID_def numeral_eq_Suc)

lemma complete_trace_spans:
  assumes "complete_trace srt now ss = Some t"
  shows "\<exists>t0. buildTree srt now ss = Some t0 \<and> gt_spans t = gt_spans t0"
  using assms by (auto simp: complete_trace_def analyse_def bind_eq_Some_conv)

lemma detail_simps:
  "spans (traceToDetailDTO t) = map spanToDetailDTO (gt_spans t)"
  "spanId (spanToDetailDTO sp) = gs_spanID sp"
  "parentSpanId (spanToDetailDTO sp) = (if gs_parentSpanID sp = ZeroSpanID then [] else gs_parentSpanID sp)"
  "depth (spanToDetailDTO sp) = gs_depth sp"
  by (simp_all add: traceToDetailDTO_def spanToDetailDTO_def Let_def)

lemma finished_fields:
  assumes "go_sort srt" and "buildTree srt now ss = Some t" and "i < length ss"
  shows "gs_spanID (gt_spans t ! i) = gs_spanID (ss ! i)" "gs_parentSpanID (gt_spans t ! i) = gs_parentSpanID (ss ! i)"
  using buildTree_spans(2) [OF assms] by auto

lemma detail_ids:
  assumes "go_sort srt" and "complete_trace srt now ss = Some t"
  shows "map spanId (spans (traceToDetailDTO t)) = map gs_spanID ss" and "length (gt_spans t) = length ss"
proof -
  from complete_trace_spans [OF assms(2)] obtain t0 where t0: "buildTree srt now ss = Some t0" "gt_spans t = gt_spans t0" by blast
  show "length (gt_spans t) = length ss" using buildTree_spans(1) [OF assms(1) t0(1)] by (simp add: t0(2))
  then show "map spanId (spans (traceToDetailDTO t)) = map gs_spanID ss"
    using finished_fields(1) [OF assms(1) t0(1)] by (intro nth_equalityI) (simp_all add: detail_simps t0(2))
qed

lemma detail_wf:
  assumes "go_sort srt" and "complete_trace srt now ss = Some t" and "valid_ids ss"
  shows "wf_spans (spans (traceToDetailDTO t))"
proof -
  have ids: "spanId ` set (spans (traceToDetailDTO t)) = gs_spanID ` set ss"
    using detail_ids(1) [OF assms(1,2)] by (metis list.set_map)
  have "distinct (map spanId (spans (traceToDetailDTO t)))"
    using assms(3) by (simp add: detail_ids(1) [OF assms(1,2)] valid_ids_def)
  then show ?thesis using assms(3) unfolding wf_spans_def ids
    by (force simp: valid_ids_def list_all_iff zero_text)
qed

lemma page_shows_all_spans:
  assumes "go_sort srt" and "complete_trace srt now ss = Some t" and "valid_ids ss"
  shows "\<exists>rows. buildSpanRows (length ss) (traceToDetailDTO t) = Some rows \<and>
    mset (map row_spanId rows) = mset (map gs_spanID ss)"
proof -
  have "length (spans (traceToDetailDTO t)) \<le> length ss"
    using detail_ids(2) [OF assms(1,2)] by (simp add: detail_simps)
  from rows_complete [OF detail_wf [OF assms] this] obtain rows where
    rows: "buildSpanRows (length ss) (traceToDetailDTO t) = Some rows"
      "mset (map row_span rows) = mset (spans (traceToDetailDTO t))" by blast
  have "row_spanId r = spanId (row_span r)" if "r \<in> set rows" for r
    using conjunct2 [OF build_rows_shape [OF rows(1) that]] by (metis mk_row_simps(1))
  then have "map row_spanId rows = map spanId (map row_span rows)" by simp
  then have "mset (map row_spanId rows) = image_mset spanId (mset (map row_span rows))" by (simp only: mset_map)
  also have "\<dots> = mset (map spanId (spans (traceToDetailDTO t)))" unfolding rows(2) by simp
  finally show ?thesis using rows(1) by (simp add: detail_ids(1) [OF assms(1,2)])
qed

text \<open>With distinct ids the parent of a span is the one its parent id names.\<close>

lemma span_map_distinct:
  assumes "distinct (map gs_spanID ss)" and "m < length ss"
  shows "span_map ss (gs_spanID (ss ! m)) = Some m"
proof -
  have "distinct (map fst (rev (zip (map gs_spanID ss) [0..<length ss])))"
    using assms(1) by (simp add: rev_map [symmetric] map_fst_zip)
  moreover have "(gs_spanID (ss ! m), m) \<in> set (rev (zip (map gs_spanID ss) [0..<length ss]))"
    using assms(2) by (auto simp: set_zip intro: exI [of _ m])
  ultimately show ?thesis unfolding span_map_def by (rule map_of_is_SomeI)
qed

lemma parent_of_row:
  assumes "valid_ids ss" and "k < length ss" and "m < length ss"
    and "gs_spanID (ss ! m) = (if gs_parentSpanID (ss ! k) = ZeroSpanID then [] else gs_parentSpanID (ss ! k))"
  shows "parent_index ss k = Some m"
proof -
  have "gs_spanID (ss ! m) \<noteq> []" using assms(1,3) by (auto simp: valid_ids_def list_all_length)
  then have "gs_parentSpanID (ss ! k) \<noteq> ZeroSpanID" "gs_parentSpanID (ss ! k) = gs_spanID (ss ! m)"
    using assms(4) by (auto split: if_splits)
  with span_map_distinct [of ss m] assms(1,3) show ?thesis
    by (simp add: parent_index_def gs_isRoot_def valid_ids_def)
qed

text \<open>The depth of a row below the root is the depth the collector computed.\<close>

lemma row_depth_is_depth:
  assumes srt: "go_sort srt" and t: "complete_trace srt now ss = Some t" and ids: "valid_ids ss"
    and rows: "buildSpanRows fuel (traceToDetailDTO t) = Some rows"
  shows "j < length rows \<Longrightarrow> 0 < row_depth (rows ! j) \<Longrightarrow>
    \<exists>k < length ss. row_span (rows ! j) = spanToDetailDTO (gt_spans t ! k) \<and> attached ss k \<and>
      gs_depth (gt_spans t ! k) = int (row_depth (rows ! j))"
proof (induction j rule: less_induct)
  case (less j)
  from complete_trace_spans [OF t] obtain t0 where t0: "buildTree srt now ss = Some t0" "gt_spans t = gt_spans t0" by blast
  have span: "\<exists>k < length ss. row_span (rows ! i) = spanToDetailDTO (gt_spans t ! k)" if "i < length rows" for i
    using build_rows_shape [OF rows nth_mem [OF that]] detail_ids(2) [OF srt t]
    by (auto simp: detail_simps in_set_conv_nth)
  from parent_row [OF rows less.prems] obtain i where i: "i < j"
    "row_spanId (rows ! i) = parentSpanId (row_span (rows ! j))"
    "row_depth (rows ! j) = Suc (row_depth (rows ! i))" by blast
  have i': "i < length rows" using i(1) less.prems(1) by simp
  from span [OF less.prems(1)] obtain k where k: "k < length ss"
    "row_span (rows ! j) = spanToDetailDTO (gt_spans t ! k)" by blast
  have up: "\<exists>m < length ss. row_span (rows ! i) = spanToDetailDTO (gt_spans t ! m) \<and> attached ss m \<and>
      gs_depth (gt_spans t ! m) = int (row_depth (rows ! i))"
  proof (cases "row_depth (rows ! i)")
    case 0
    from span [OF i'] obtain m where m: "m < length ss" "row_span (rows ! i) = spanToDetailDTO (gt_spans t ! m)" by blast
    have "is_root (row_span (rows ! i))" by (rule depth_zero_root [OF rows less.prems i(1) 0])
    then have "gs_parentSpanID (ss ! m) = ZeroSpanID \<or> gs_parentSpanID (ss ! m) = []"
      using finished_fields(2) [OF srt t0(1) m(1)] by (auto simp: m(2) is_root_def detail_simps t0(2) zero_text split: if_splits)
    moreover have "span_map ss [] = None"
    proof (rule ccontr)
      assume "span_map ss [] \<noteq> None"
      then obtain p where "span_map ss [] = Some p" by blast
      from span_map_less [OF this] ids show False by (auto simp: valid_ids_def list_all_length)
    qed
    ultimately have par: "parent_index ss m = None" by (auto simp: parent_index_def gs_isRoot_def)
    have att: "attached ss m" by (rule attached_top [OF m(1) par])
    show ?thesis using m att buildTree_spans(3) [OF srt t0(1) att] 0 par by (auto simp: t0(2))
  next
    case (Suc d)
    then show ?thesis using less.IH [OF i(1) i'] by simp
  qed
  then obtain m where m: "m < length ss" "row_span (rows ! i) = spanToDetailDTO (gt_spans t ! m)" "attached ss m"
    "gs_depth (gt_spans t ! m) = int (row_depth (rows ! i))" by blast
  have "row_spanId (rows ! i) = spanId (row_span (rows ! i))"
    using conjunct2 [OF build_rows_shape [OF rows nth_mem [OF i']]] by (metis mk_row_simps(1))
  then have "gs_spanID (ss ! m) = (if gs_parentSpanID (ss ! k) = ZeroSpanID then [] else gs_parentSpanID (ss ! k))"
    using i(2) finished_fields [OF srt t0(1) m(1)] finished_fields [OF srt t0(1) k(1)]
    by (auto simp: m(2) k(2) detail_simps t0(2) split: if_splits)
  from parent_of_row [OF ids k(1) m(1) this] have par: "parent_index ss k = Some m" .
  have att: "attached ss k" by (rule attached_child [OF m(3) k(1) par])
  have "gs_depth (gt_spans t ! k) = int (row_depth (rows ! j))"
    using buildTree_spans(3) [OF srt t0(1) att] m(4) i(3) by (simp add: t0(2) par)
  with k att show ?case by blast
qed

text \<open>A repeated id that is its own parent is assembled, but cannot be laid out.\<close>

lemma repeated_id_diverges:
  assumes "go_sort srt" and "complete_trace srt now ss = Some t"
    and "find gs_isRoot ss = Some r" and "c \<in> set ss" and "gs_spanID c = gs_spanID r"
    and "gs_parentSpanID c = gs_spanID c" and "gs_spanID r \<noteq> ZeroSpanID"
    and "list_all (\<lambda>sp. gs_parentSpanID sp \<noteq> []) ss"
  shows "buildSpanRows fuel (traceToDetailDTO t) = None"
proof -
  from complete_trace_spans [OF assms(2)] obtain t0 where t0: "buildTree srt now ss = Some t0" "gt_spans t = gt_spans t0" by blast
  note f = finished_fields [OF assms(1) t0(1), folded t0(2)]
  have len: "length (gt_spans t) = length ss" by (rule detail_ids(2) [OF assms(1,2)])
  have root: "is_root (spanToDetailDTO (gt_spans t ! i)) \<longleftrightarrow> gs_isRoot (ss ! i)" if "i < length ss" for i
    using f(2) [OF that] assms(8) that
    by (auto simp: is_root_def detail_simps gs_isRoot_def zero_text list_all_length)
  from assms(3) obtain i where i: "i < length ss" "gs_isRoot (ss ! i)" "r = ss ! i" "\<forall>j < i. \<not> gs_isRoot (ss ! j)"
    by (auto simp: find_Some_iff)
  have find: "find is_root (spans (traceToDetailDTO t)) = Some (spanToDetailDTO (gt_spans t ! i))"
    using i root len by (auto simp: find_Some_iff detail_simps intro!: exI [of _ i])
  from assms(4) obtain m where m: "m < length ss" "c = ss ! m" by (auto simp: in_set_conv_nth)
  let ?c = "spanToDetailDTO (gt_spans t ! m)"
  have "?c \<in> set (spans (traceToDetailDTO t))" using m(1) len by (simp add: detail_simps)
  moreover have "parentSpanId ?c = spanId ?c"
    using f [OF m(1)] assms(5-7) m(2) by (simp add: detail_simps)
  moreover have "spanId (spanToDetailDTO (gt_spans t ! i)) = spanId ?c"
    using f(1) [OF i(1)] f(1) [OF m(1)] assms(5) i(3) m(2) by (simp add: detail_simps)
  ultimately have "visit fuel (spans (traceToDetailDTO t)) t1 (spanToDetailDTO (gt_spans t ! i)) 0 = None" for t1
    by (rule visit_self_parent)
  then show ?thesis by (simp add: buildSpanRows_def visited_rows_def find)
qed


section \<open>A search on its way to the store\<close>

text \<open>What a row of the search page has to satisfy for the filters it was found with.\<close>

definition row_satisfies :: "SearchFilters \<Rightarrow> TraceSummaryDTO \<Rightarrow> bool" where
  "row_satisfies f x \<longleftrightarrow>
     (case sf_service f of None \<Rightarrow> True | Some s \<Rightarrow> s = [] \<or> s \<in> set (services x)) \<and>
     (sf_status f = Some StatusError \<longrightarrow> ts_hasError x) \<and>
     (case sf_minDuration f of None \<Rightarrow> True | Some d \<Rightarrow> d \<le> ts_durationMs x) \<and>
     (case sf_maxDuration f of None \<Rightarrow> True | Some d \<Rightarrow> ts_durationMs x \<le> d)"

definition plain_filters :: "SearchFilters \<Rightarrow> int \<Rightarrow> int option \<Rightarrow> int option \<Rightarrow> int option \<Rightarrow> int option \<Rightarrow> bool" where
  "plain_filters f li mi ma tr off \<longleftrightarrow>
     sf_minDuration f = map_option of_int mi \<and> sf_maxDuration f = map_option of_int ma \<and>
     sf_timeRangeMinutes f = map_option of_int tr \<and> sf_limit f = Some (of_int li) \<and>
     sf_offset f = map_option of_int off \<and> sf_sortBy f = None \<and>
     pred_option small mi \<and> pred_option small ma \<and> pred_option small tr \<and> pred_option small off \<and>
     0 < li \<and> li \<le> 1000"

lemma summary_row_satisfies:
  assumes "index_filters q t" and "rest_filters pf q t"
    and "q_service q = (case sf_service f of None \<Rightarrow> [] | Some s \<Rightarrow> s)"
    and "q_hasError q = (if sf_status f = Some StatusError then Some True else None)"
    and "q_minDuration q = map_option (\<lambda>z. z * 1000000) mi" and "sf_minDuration f = map_option of_int mi"
    and "q_maxDuration q = map_option (\<lambda>z. z * 1000000) ma" and "sf_maxDuration f = map_option of_int ma"
  shows "row_satisfies f (summaryToDTO rfc (toSummary t))"
proof -
  have ms: "of_int z \<le> (of_int d / 10 ^ 6 :: real) \<longleftrightarrow> z * 1000000 \<le> d" "(of_int d / 10 ^ 6 :: real) \<le> of_int z \<longleftrightarrow> d \<le> z * 1000000" for z d
    by (simp_all add: field_simps) linarith+
  show ?thesis
    using assms unfolding row_satisfies_def index_filters_def rest_filters_def
    by (auto simp: summaryToDTO_def toSummary_def ms split: option.splits if_splits)
qed


lemma search_answers:
  fixes p :: principal and rfc :: "int \<Rightarrow> string"
  assumes "go_env_ok env" and "store_inv s" and "colon_free s"
    and f: "plain_filters f li mi ma tr off" and "0 \<le> now" and "now \<le> 10 ^ 15"
    and "pred_option no_colon (sf_service f)"
  defines "q \<equiv> buildTraceQuery (EffectiveTenant p) (set_params (buildTraceQueryParams (of_int now) f) [])"
    and "resp \<equiv> HandleListTraces env rfc p (set_params (buildTraceQueryParams (of_int now) f) []) s"
  shows "list_all (row_satisfies f) (traces resp) \<and> total resp = int (card (matching (print_float env) q s))"
proof -
  note pf = f [unfolded plain_filters_def]
  have q: "q_service q = (case sf_service f of None \<Rightarrow> [] | Some s \<Rightarrow> s)"
    "q_hasError q = (if sf_status f = Some StatusError then Some True else None)"
    "q_minDuration q = map_option (\<lambda>z. z * 1000000) mi" "q_maxDuration q = map_option (\<lambda>z. z * 1000000) ma"
    "q_traceID q = None"
    using request_query [of f mi ma tr li off now "EffectiveTenant p"] pf assms(5,6) by (simp_all add: q_def)
  have colon: "no_colon (q_service q)"
    using assms(7) by (cases "sf_service f") (simp_all add: q no_colon_def)
  note ans = list_answers [OF assms(1-3) colon q(5)]
  have "row_satisfies f (summaryToDTO rfc x)" if "x \<in> set (sp_traces (Query env q s))" for x
  proof -
    from ans(1) that obtain t where t: "x = toSummary t" "t \<in> matching (print_float env) q s" by blast
    then show ?thesis
      using summary_row_satisfies [OF _ _ q(1-3) _ q(4)] pf by (auto simp: matching_def matches_def)
  qed
  then show ?thesis
    using ans(2) by (auto simp: resp_def HandleListTraces_def Let_def q_def [symmetric] list_all_iff)
qed

end
