(* ===== verification/Hooks.thy ===== *)
theory Hooks
  imports Types
begin

text \<open>
  The small hooks: \<open>useDarkMode.ts\<close> (stored preference, system preference, toggle),
  \<open>useKeyboardShortcuts.ts\<close> (which handler a key press runs), \<open>useConfig.ts\<close> (a
  module-level cache), \<open>useElementSize.ts\<close> and \<open>components/ui/chart-frame.tsx\<close> (measured
  sizes).
\<close>

section \<open>Definitions\<close>

subsection \<open>Dark mode\<close>

datatype media_query = NotAFunction | QueryThrows | Matches bool

text \<open>The browser: \<open>localStorage\<close> under the hook's key, or one that throws; \<open>matchMedia\<close>.\<close>

record browser =
  stored :: "string option"
  storage_throws :: bool
  matchMedia :: media_query

definition readStoredDarkMode :: "browser \<Rightarrow> bool option" where
  "readStoredDarkMode b =
     (if storage_throws b then None
      else if stored b = Some ''true'' then Some True
      else if stored b = Some ''false'' then Some False
      else None)"

definition readSystemDarkMode :: "browser \<Rightarrow> bool" where
  "readSystemDarkMode b =
     (case matchMedia b of NotAFunction \<Rightarrow> False | QueryThrows \<Rightarrow> False | Matches m \<Rightarrow> m)"

definition persistDarkMode :: "bool \<Rightarrow> browser \<Rightarrow> browser" where
  "persistDarkMode dark b =
     (if storage_throws b then b else b\<lparr>stored := Some (bool_str dark)\<rparr>)"

definition getInitialDarkMode :: "browser \<Rightarrow> bool" where
  "getInitialDarkMode b =
     (case readStoredDarkMode b of Some s \<Rightarrow> s | None \<Rightarrow> readSystemDarkMode b)"

text \<open>The hook: its state, the \<open>dark\<close> class of the document, and the browser it writes to.\<close>

record dark_state =
  is_dark :: bool
  dark_class :: bool
  dark_browser :: browser

definition dark_effect :: "dark_state \<Rightarrow> dark_state" where
  "dark_effect s =
     s\<lparr>dark_class := is_dark s, dark_browser := persistDarkMode (is_dark s) (dark_browser s)\<rparr>"

definition dark_mount :: "browser \<Rightarrow> dark_state" where
  "dark_mount b =
     dark_effect \<lparr>is_dark = getInitialDarkMode b, dark_class = False, dark_browser = b\<rparr>"

definition dark_toggle :: "dark_state \<Rightarrow> dark_state" where
  "dark_toggle s = dark_effect (s\<lparr>is_dark := \<not> is_dark s\<rparr>)"

fun toggles :: "nat \<Rightarrow> dark_state \<Rightarrow> dark_state" where
  "toggles 0 s = s"
| "toggles (Suc n) s = toggles n (dark_toggle s)"

subsection \<open>Keyboard shortcuts\<close>

record 'h KeyboardShortcut =
  sc_key :: string
  sc_metaKey :: bool
  sc_ctrlKey :: bool
  sc_shiftKey :: bool
  description :: string
  handler :: 'h

datatype key_target = InputElement | TextAreaElement | ContentEditable | OtherElement

record key_event =
  ev_key :: string
  ev_metaKey :: bool
  ev_ctrlKey :: bool
  ev_shiftKey :: bool
  ev_target :: key_target

definition shortcut_matches :: "key_event \<Rightarrow> 'h KeyboardShortcut \<Rightarrow> bool" where
  "shortcut_matches e sc \<longleftrightarrow>
     to_lower (ev_key e) = to_lower (sc_key sc) \<and>
     (\<not> sc_metaKey sc \<or> ev_metaKey e) \<and>
     (\<not> sc_ctrlKey sc \<or> ev_ctrlKey e) \<and>
     (\<not> sc_shiftKey sc \<or> ev_shiftKey e)"

text \<open>
  The handler a key press runs; running one also prevents the browser's default action.
\<close>

definition onKeyDown :: "'h KeyboardShortcut list \<Rightarrow> key_event \<Rightarrow> 'h option" where
  "onKeyDown shortcuts e =
     (if ev_target e \<noteq> OtherElement then None
      else map_option handler (find (shortcut_matches e) shortcuts))"

definition plain_shortcut :: "string \<Rightarrow> string \<Rightarrow> 'h \<Rightarrow> 'h KeyboardShortcut" where
  "plain_shortcut k d h =
     \<lparr>sc_key = k, sc_metaKey = False, sc_ctrlKey = False, sc_shiftKey = False,
      description = d, handler = h\<rparr>"

definition key_press :: "string \<Rightarrow> key_event" where
  "key_press k = \<lparr>ev_key = k, ev_metaKey = False, ev_ctrlKey = False, ev_shiftKey = False,
     ev_target = OtherElement\<rparr>"

subsection \<open>Configuration cache\<close>

text \<open>
  \<open>cachedConfig\<close> is shared by every component that uses the hook; \<open>logLinkTemplate\<close> is
  the configuration's one field. A mount reads the cache, and asks the collector only
  while it is empty.
\<close>

record AppConfig =
  logLinkTemplate :: "string option"

definition empty_config :: AppConfig where
  "empty_config = \<lparr>logLinkTemplate = None\<rparr>"

record config_hook =
  cachedConfig :: "AppConfig option"
  config :: AppConfig
  config_requested :: bool

definition config_mount :: "AppConfig option \<Rightarrow> config_hook" where
  "config_mount cached =
     \<lparr>cachedConfig = cached,
      config = (case cached of None \<Rightarrow> empty_config | Some c \<Rightarrow> c),
      config_requested = (cached = None)\<rparr>"

definition config_arrives :: "AppConfig \<Rightarrow> config_hook \<Rightarrow> config_hook" where
  "config_arrives c s =
     (if config_requested s then s\<lparr>cachedConfig := Some c, config := c\<rparr> else s)"

text \<open>A failure is swallowed.\<close>

definition config_fails :: "config_hook \<Rightarrow> config_hook" where
  "config_fails s = s"

subsection \<open>Measured sizes\<close>

record ElementSize =
  el_width :: int
  el_height :: int

definition element_update :: "num \<Rightarrow> num \<Rightarrow> ElementSize \<Rightarrow> ElementSize" where
  "element_update w h prev =
     (let width = js_round w; height = js_round h
      in if el_width prev = width \<and> el_height prev = height then prev
         else \<lparr>el_width = width, el_height = height\<rparr>)"

text \<open>\<open>ChartFrame\<close>: a frame that has been measured ignores a later measurement of nothing.\<close>

definition frame_update :: "num \<Rightarrow> num \<Rightarrow> ElementSize \<Rightarrow> ElementSize" where
  "frame_update w h prev =
     (let nextWidth = \<lfloor>w\<rfloor>; nextHeight = \<lfloor>h\<rfloor>
      in if nextWidth \<le> 0 \<or> nextHeight \<le> 0 then prev
         else if el_width prev = nextWidth \<and> el_height prev = nextHeight then prev
         else \<lparr>el_width = nextWidth, el_height = nextHeight\<rparr>)"

fun frame_run :: "(num \<times> num) list \<Rightarrow> ElementSize \<Rightarrow> ElementSize" where
  "frame_run [] s = s"
| "frame_run ((w, h) # ms) s = frame_run ms (frame_update w h s)"

definition frame_shows :: "ElementSize \<Rightarrow> bool" where
  "frame_shows s \<longleftrightarrow> 0 < el_width s \<and> 0 < el_height s"

section \<open>Lemmas\<close>

lemmas dark_defs = dark_effect_def dark_mount_def dark_toggle_def persistDarkMode_def
  readStoredDarkMode_def getInitialDarkMode_def bool_str_def

definition dark_ok :: "dark_state \<Rightarrow> bool" where
  "dark_ok s \<longleftrightarrow> dark_class s = is_dark s \<and>
     (storage_throws (dark_browser s) \<or> stored (dark_browser s) = Some (bool_str (is_dark s)))"

lemma dark_ok_effect: "dark_ok (dark_effect s)"
  by (simp add: dark_ok_def dark_defs)

lemma dark_ok_toggles: "dark_ok s \<Longrightarrow> dark_ok (toggles n s)"
  by (induction n arbitrary: s) (simp_all add: dark_toggle_def dark_ok_effect)

lemma storage_toggles: "storage_throws (dark_browser (toggles n s)) = storage_throws (dark_browser s)"
  by (induction n arbitrary: s) (simp_all add: dark_defs)

lemma is_dark_toggles: "is_dark (toggles n s) = (is_dark s = even n)"
  by (induction n arbitrary: s) (auto simp: dark_defs)

lemma frame_run_shows: "frame_shows s \<Longrightarrow> frame_shows (frame_run ms s)"
  by (induction ms s rule: frame_run.induct) (auto simp: frame_shows_def frame_update_def Let_def)

section \<open>Properties\<close>

text \<open>
  The dark-mode preference survives a reload: with a working store, after any number
  of toggles the class of the document is the mode shown, and a fresh mount starts in it.
\<close>

theorem dark_mode_roundtrip:
  assumes "\<not> storage_throws b"
  shows "let s = toggles n (dark_mount b) in
     dark_class s = is_dark s \<and> is_dark s = (getInitialDarkMode b = even n) \<and>
     is_dark (dark_mount (dark_browser s)) = is_dark s"
proof -
  let ?s = "toggles n (dark_mount b)"
  have ok: "dark_ok ?s"
    by (rule dark_ok_toggles) (simp add: dark_mount_def dark_ok_effect)
  have works: "\<not> storage_throws (dark_browser ?s)"
    using assms by (simp add: storage_toggles dark_defs)
  with ok have "getInitialDarkMode (dark_browser ?s) = is_dark ?s"
    by (simp add: dark_ok_def getInitialDarkMode_def readStoredDarkMode_def bool_str_def)
  then have "is_dark (dark_mount (dark_browser ?s)) = is_dark ?s"
    by (simp add: dark_mount_def dark_effect_def)
  moreover have "is_dark ?s = (getInitialDarkMode b = even n)"
    by (simp add: is_dark_toggles) (simp add: dark_mount_def dark_effect_def)
  ultimately show ?thesis using ok by (simp add: Let_def dark_ok_def)
qed

theorem dark_mode_roundtrip_witness:
  "is_dark (toggles 1 (dark_mount \<lparr>stored = None, storage_throws = False, matchMedia = Matches True\<rparr>)) = False"
  using dark_mode_roundtrip
    [of "\<lparr>stored = None, storage_throws = False, matchMedia = Matches True\<rparr>" 1]
  by (simp add: Let_def getInitialDarkMode_def readStoredDarkMode_def readSystemDarkMode_def)

text \<open>
  A modifier the shortcut does not ask for does not disable it: a plain shortcut runs,
  and takes the key press away from the browser, also with Ctrl, Meta or Shift held. So
  \<open>Ctrl+R\<close> on a page with a shortcut for \<open>r\<close> does not reload it.
\<close>

theorem modifiers_not_excluded:
  "onKeyDown (plain_shortcut k d h # rest)
     ((key_press k)\<lparr>ev_metaKey := m, ev_ctrlKey := c, ev_shiftKey := s\<rparr>) = Some h"
  by (simp add: onKeyDown_def key_press_def shortcut_matches_def plain_shortcut_def)

text \<open>
  A chart frame that shows its chart keeps showing it, whatever is measured later.
\<close>

theorem chart_frame_never_hides:
  assumes "0 < w" and "0 < h" and "1 \<le> w" and "1 \<le> h"
  shows "frame_shows (frame_run ms (frame_update w h prev))"
  by (rule frame_run_shows) (use assms in \<open>auto simp: frame_shows_def frame_update_def Let_def\<close>)

theorem chart_frame_never_hides_witness:
  "frame_shows (frame_run [(0, 0)] (frame_update 640 210 \<lparr>el_width = 0, el_height = 0\<rparr>))"
  by (rule chart_frame_never_hides) simp_all

end
