(* ===== verification/Shell.thy ===== *)
theory Shell
  imports Types Hooks
begin

text \<open>
  The application around the pages: the route table of \<open>App.tsx\<close>, the navigation bar of
  \<open>components/Nav.tsx\<close>, the error boundary of \<open>components/AppErrorBoundary.tsx\<close>, the shared
  notice \<open>components/ui/page-state.tsx\<close>, the page for unknown routes \<open>pages/NotFound.tsx\<close> and
  the filter of console warnings in \<open>main.tsx\<close>. Which route a URL selects is the router's
  (a library); the model has the table the router is given.
\<close>

section \<open>Definitions\<close>

subsection \<open>Notices\<close>

record 'a PageStateProps =
  ps_title :: string
  ps_description :: "string option"
  ps_actionLabel :: "string option"
  ps_onAction :: "'a option"
  ps_icon :: "string option"

text \<open>What the notice shows; the button appears only with both a label and an action.\<close>

record 'a notice =
  notice_title :: string
  notice_text :: "string option"
  notice_button :: "(string \<times> 'a) option"
  notice_icon :: string

definition nonempty :: "string option \<Rightarrow> string option" where
  "nonempty v = (case v of None \<Rightarrow> None | Some s \<Rightarrow> if s = [] then None else Some s)"

definition PageState :: "'a PageStateProps \<Rightarrow> 'a notice" where
  "PageState p =
     \<lparr>notice_title = ps_title p,
      notice_text = nonempty (ps_description p),
      notice_button =
        (case nonempty (ps_actionLabel p) of
           None \<Rightarrow> None
         | Some l \<Rightarrow> map_option (\<lambda>a. (l, a)) (ps_onAction p)),
      notice_icon = (case ps_icon p of None \<Rightarrow> ''Sparkles'' | Some i \<Rightarrow> i)\<rparr>"

text \<open>The usual notice of a page: a title, a text, one action.\<close>

definition plain_notice :: "string \<Rightarrow> string \<Rightarrow> string \<Rightarrow> 'a \<Rightarrow> 'a notice" where
  "plain_notice t d l a =
     PageState \<lparr>ps_title = t, ps_description = Some d, ps_actionLabel = Some l,
                ps_onAction = Some a, ps_icon = None\<rparr>"

definition bare_notice :: "string \<Rightarrow> string \<Rightarrow> 'a notice" where
  "bare_notice t d =
     PageState \<lparr>ps_title = t, ps_description = Some d, ps_actionLabel = None,
                ps_onAction = None, ps_icon = None\<rparr>"

subsection \<open>Routes and navigation\<close>

datatype page =
    SearchPage | TraceDetailPage | ServiceMapPage | MetricsPage | SamplerPage | ComparePage
  | TimelinePage | E2ECrashRoute | NotFoundPage

definition routes :: "bool \<Rightarrow> (string \<times> page) list" where
  "routes showE2ERoute =
     [(''/'', SearchPage), (''/trace/:id'', TraceDetailPage), (''/map'', ServiceMapPage),
      (''/metrics'', MetricsPage), (''/sampler'', SamplerPage), (''/compare'', ComparePage),
      (''/timeline'', TimelinePage)] @
     (if showE2ERoute then [(''/__e2e/error-boundary'', E2ECrashRoute)] else []) @
     [(''*'', NotFoundPage)]"

definition navItems :: "(string \<times> string) list" where
  "navItems =
     [(''/'', ''Search''), (''/timeline'', ''Timeline''), (''/map'', ''Service Map''),
      (''/metrics'', ''Metrics''), (''/sampler'', ''Sampler''), (''/compare'', ''Compare'')]"

text \<open>The bar: each link with its label and whether it is the current page; the theme button.\<close>

record nav_link =
  link_to :: string
  link_label :: string
  link_current :: bool

record nav_bar =
  nav_links :: "nav_link list"
  theme_title :: string
  theme_label :: string

definition Nav :: "string \<Rightarrow> bool \<Rightarrow> nav_bar" where
  "Nav pathname dark =
     \<lparr>nav_links = map (\<lambda>(p, l). \<lparr>link_to = p, link_label = l, link_current = (pathname = p)\<rparr>) navItems,
      theme_title = (if dark then ''Switch to light mode'' else ''Switch to dark mode''),
      theme_label = (if dark then ''Light'' else ''Dark'')\<rparr>"

subsection \<open>Error boundary\<close>

record boundary =
  eb_hasError :: bool
  errorMessage :: string

definition boundary_initial :: boundary where
  "boundary_initial = \<lparr>eb_hasError = False, errorMessage = []\<rparr>"

definition getDerivedStateFromError :: "string \<Rightarrow> boundary" where
  "getDerivedStateFromError m =
     \<lparr>eb_hasError = True, errorMessage = (if m \<noteq> [] then m else ''Unknown UI failure'')\<rparr>"

text \<open>
  A rendering of the tree below the boundary gives the page or throws an error with a
  message; the boundary then renders again with the derived state.
\<close>

datatype 'v screen = Children 'v | CrashScreen string

fun boundary_render :: "boundary \<Rightarrow> string + 'v \<Rightarrow> boundary \<times> 'v screen" where
  "boundary_render b child =
     (if eb_hasError b then (b, CrashScreen (errorMessage b))
      else case child of
        Inr v \<Rightarrow> (b, Children v)
      | Inl m \<Rightarrow> (let b' = getDerivedStateFromError m in (b', CrashScreen (errorMessage b'))))"

fun boundary_renders :: "boundary \<Rightarrow> (string + 'v) list \<Rightarrow> boundary" where
  "boundary_renders b [] = b"
| "boundary_renders b (c # cs) = boundary_renders (fst (boundary_render b c)) cs"

subsection \<open>Not found, and the console\<close>

datatype nav_action = GoTo string | GoBack

definition NotFound_notice :: "nav_action notice" where
  "NotFound_notice =
     PageState \<lparr>ps_title = ''Page not found'',
       ps_description = Some ''The route you requested does not exist in the tracing UI. Jump back to active traces or return to the investigation entry point.'',
       ps_actionLabel = Some ''Back to traces'', ps_onAction = Some (GoTo ''/''),
       ps_icon = Some ''404''\<rparr>"

text \<open>An argument of \<open>console.warn\<close>: a string, or another value.\<close>

datatype warn_arg = WarnText string | WarnOther

definition RECHARTS_LAYOUT_WARNING :: string where
  "RECHARTS_LAYOUT_WARNING =
     ''The width(-1) and height(-1) of chart should be greater than 0''"

definition console_warn :: "warn_arg list \<Rightarrow> warn_arg list list \<Rightarrow> warn_arg list list" where
  "console_warn args printed =
     (case args of
        WarnText t # rest \<Rightarrow>
          if js_includes t RECHARTS_LAYOUT_WARNING then printed else args # printed
      | _ \<Rightarrow> args # printed)"

section \<open>Lemmas\<close>

lemma nonempty_Some [simp]: "s \<noteq> [] \<Longrightarrow> nonempty (Some s) = Some s"
  by (simp add: nonempty_def)

lemma nonempty_None [simp]: "nonempty None = None"
  by (simp add: nonempty_def)

lemma boundary_stuck:
  "eb_hasError b \<Longrightarrow> boundary_renders b cs = b"
  by (induction cs) auto

lemma filter_eq_at_most_one: "distinct xs \<Longrightarrow> length (filter (\<lambda>p. a = p) xs) \<le> 1"
proof (induction xs)
  case (Cons x xs)
  then show ?case by (cases "a = x") (auto simp: filter_empty_conv)
qed simp

lemma boundary_renders_ok:
  "\<not> eb_hasError b \<Longrightarrow> boundary_renders b (map Inr vs @ rest) = boundary_renders b rest"
  by (induction vs) auto

section \<open>Properties\<close>

text \<open>
  Every link of the navigation bar leads to a declared page (no link falls through to
  the page for unknown routes), no path is declared twice, and at most one link is marked
  as the current page.
\<close>

theorem nav_links_are_routes:
  "list_all (\<lambda>(p, l). map_of (routes e2e) p \<notin> {None, Some NotFoundPage}) navItems \<and>
   distinct (map fst (routes e2e)) \<and>
   length (filter link_current (nav_links (Nav pathname dark))) \<le> 1"
proof -
  have d: "distinct (map fst navItems)" by (simp add: navItems_def)
  have "length (filter (\<lambda>p. pathname = p) (map fst navItems)) \<le> 1"
    using d by (rule filter_eq_at_most_one)
  moreover have "length (filter link_current (nav_links (Nav pathname dark)))
      = length (filter (\<lambda>p. pathname = p) (map fst navItems))"
    by (simp add: Nav_def filter_map o_def split_def)
  ultimately show ?thesis
    by (simp add: routes_def navItems_def)
qed

text \<open>
  The boundary is sticky: after the first rendering that throws, whatever the tree below
  would render later, the crash screen of that first error stays (only a reload of the
  application, which starts from the initial state, leaves it).
\<close>

theorem boundary_keeps_first_error:
  "fst (boundary_render (boundary_renders boundary_initial (map Inr vs @ Inl m # cs)) c)
     = getDerivedStateFromError m \<and>
   snd (boundary_render (boundary_renders boundary_initial (map Inr vs @ Inl m # cs)) c)
     = CrashScreen (if m \<noteq> [] then m else ''Unknown UI failure'')"
proof -
  have "boundary_renders boundary_initial (map Inr vs @ Inl m # cs) = getDerivedStateFromError m"
    by (simp add: boundary_renders_ok boundary_initial_def boundary_stuck getDerivedStateFromError_def)
  then show ?thesis by (simp add: getDerivedStateFromError_def)
qed

end
