(* ===== verification/Sse.thy ===== *)
theory Sse
  imports Types
begin

text \<open>
  \<open>web/src/hooks/useSSE.ts\<close>: one live event stream, reopened two seconds after an error,
  closed when the component goes away. The state is the closure's three variables, with
  the set of streams that are open in the browser beside them. The steps are what the
  browser can do: a stream fails, the reconnect timer fires, the component unmounts.
\<close>

section \<open>Definitions\<close>

record sse_state =
  es :: "nat option"
  reconnectTimer :: bool
  destroyed :: bool
  open_sources :: "nat set"
  created :: nat

definition sse_connect :: "sse_state \<Rightarrow> sse_state" where
  "sse_connect s =
     (if destroyed s then s
      else s\<lparr>es := Some (created s), open_sources := insert (created s) (open_sources s),
             created := Suc (created s)\<rparr>)"

definition sse_mounted :: sse_state where
  "sse_mounted = sse_connect
     \<lparr>es = None, reconnectTimer = False, destroyed = False, open_sources = {}, created = 0\<rparr>"

text \<open>\<open>es?.close()\<close> closes the stream the variable holds.\<close>

definition close_es :: "sse_state \<Rightarrow> sse_state" where
  "close_es s =
     (case es s of None \<Rightarrow> s | Some i \<Rightarrow> s\<lparr>open_sources := open_sources s - {i}\<rparr>)"

definition sse_onerror :: "sse_state \<Rightarrow> sse_state" where
  "sse_onerror s =
     (let s1 = (close_es s)\<lparr>es := None\<rparr>
      in if \<not> destroyed s1 then s1\<lparr>reconnectTimer := True\<rparr> else s1)"

definition sse_timer :: "sse_state \<Rightarrow> sse_state" where
  "sse_timer s = sse_connect (s\<lparr>reconnectTimer := False\<rparr>)"

definition sse_unmount :: "sse_state \<Rightarrow> sse_state" where
  "sse_unmount s = close_es (s\<lparr>destroyed := True, reconnectTimer := False\<rparr>)"

text \<open>A closed stream fires no event; a timer fires only while it is pending.\<close>

inductive sse_step :: "sse_state \<Rightarrow> sse_state \<Rightarrow> bool" where
  stream_error: "i \<in> open_sources s \<Longrightarrow> sse_step s (sse_onerror s)"
| timer_fires: "reconnectTimer s \<Longrightarrow> sse_step s (sse_timer s)"
| unmount: "\<not> destroyed s \<Longrightarrow> sse_step s (sse_unmount s)"

inductive sse_reachable :: "sse_state \<Rightarrow> bool" where
  mounted: "sse_reachable sse_mounted"
| stepped: "sse_reachable s \<Longrightarrow> sse_step s t \<Longrightarrow> sse_reachable t"

text \<open>
  \<open>onmessage\<close>: the callback gets the parsed data; when parsing throws, or the callback
  itself throws, it gets the raw text. \<open>parse\<close> is \<open>JSON.parse\<close> (\<^term>\<open>None\<close> when it
  throws); a callback changes a state and says whether it threw.
\<close>

definition sse_onmessage ::
  "(string \<Rightarrow> json option) \<Rightarrow> (json \<Rightarrow> 's \<Rightarrow> 's \<times> bool) \<Rightarrow> string \<Rightarrow> 's \<Rightarrow> 's \<times> bool" where
  "sse_onmessage parse onEvent data st =
     (case parse data of
        None \<Rightarrow> onEvent (JStr data) st
      | Some v \<Rightarrow>
          (case onEvent v st of
             (st', threw) \<Rightarrow> if threw then onEvent (JStr data) st' else (st', False)))"

text \<open>What the variables promise about the streams that are open.\<close>

definition sse_ok :: "sse_state \<Rightarrow> bool" where
  "sse_ok s \<longleftrightarrow>
     (if destroyed s then open_sources s = {} \<and> \<not> reconnectTimer s
      else open_sources s = set_option (es s) \<and> (reconnectTimer s \<longleftrightarrow> es s = None))"

section \<open>Lemmas\<close>

inductive_simps sse_step_iff: "sse_step s t"

lemmas sse_defs = sse_connect_def close_es_def sse_onerror_def sse_timer_def sse_unmount_def

lemma sse_ok_mounted: "sse_ok sse_mounted"
  by (simp add: sse_ok_def sse_mounted_def sse_connect_def)

lemma sse_ok_step: "sse_step s t \<Longrightarrow> sse_ok s \<Longrightarrow> sse_ok t"
  by (induction rule: sse_step.induct)
    (auto simp: sse_ok_def sse_defs Let_def split: option.splits if_split_asm)

lemma sse_ok_reachable: "sse_reachable s \<Longrightarrow> sse_ok s"
  by (induction rule: sse_reachable.induct) (auto intro: sse_ok_mounted sse_ok_step)

section \<open>Properties\<close>

text \<open>
  C35. The hook keeps exactly one way to be live: while mounted, either one stream is open
  and no timer is pending, or none is open and the reconnect timer is; after unmounting
  there is neither, so that nothing reconnects.
\<close>

theorem sse_one_connection:
  assumes "sse_reachable s"
  shows "(destroyed s \<and> open_sources s = {} \<and> \<not> reconnectTimer s) \<or>
         (\<not> destroyed s \<and> card (open_sources s) = 1 \<and> \<not> reconnectTimer s) \<or>
         (\<not> destroyed s \<and> open_sources s = {} \<and> reconnectTimer s)"
  using sse_ok_reachable [OF assms] by (cases "es s") (auto simp: sse_ok_def split: if_splits)

theorem sse_one_connection_witness: "card (open_sources (sse_timer (sse_onerror sse_mounted))) = 1"
proof -
  have 0: "sse_step sse_mounted (sse_onerror sse_mounted)"
    by (rule stream_error [of 0]) (simp add: sse_mounted_def sse_connect_def)
  have 1: "sse_step (sse_onerror sse_mounted) (sse_timer (sse_onerror sse_mounted))"
    by (rule timer_fires) (simp add: sse_mounted_def sse_defs Let_def)
  have "sse_reachable (sse_timer (sse_onerror sse_mounted))"
    by (rule stepped [OF stepped [OF mounted 0] 1])
  from sse_one_connection [OF this] show ?thesis
    by (auto simp: sse_mounted_def sse_defs Let_def)
qed

text \<open>
  A callback that throws on a well-formed message is run a second time, on the raw
  text: the \<open>catch\<close> meant for malformed JSON also catches the callback's own errors.
\<close>

theorem throwing_callback_runs_twice:
  assumes "parse data = Some v" and "onEvent v st = (st', True)"
  shows "sse_onmessage parse onEvent data st = onEvent (JStr data) st'"
  using assms by (simp add: sse_onmessage_def)

theorem throwing_callback_runs_twice_witness:
  "sse_onmessage (\<lambda>_. Some JNull) (\<lambda>v n. (Suc n, v = JNull)) ''null'' (0 :: nat) = (2, False)"
  using throwing_callback_runs_twice
    [of "\<lambda>_. Some JNull" "''null''" JNull "\<lambda>v n. (Suc n, v = JNull)" 0 1] by simp

end
