(* ===== verification/Store.thy ===== *)
theory Store
  imports Types
begin

text \<open>
  \<open>web/src/store/tracingStore.ts\<close>, the state the pages share: the list of services, the
  active sampler and the live traces, newest first and at most 500; and
  \<open>web/src/pages/search-helpers.ts\<close>, which merges lists of traces.
\<close>

section \<open>Definitions\<close>

definition LIVE_TRACE_LIMIT :: nat where
  "LIVE_TRACE_LIMIT = 500"

record TracingStore =
  st_services :: "string list"
  activeSampler :: "SamplerConfig option"
  liveTraces :: "TraceSummaryDTO list"

definition initial_store :: TracingStore where
  "initial_store = \<lparr>st_services = [], activeSampler = None, liveTraces = []\<rparr>"

definition setServices :: "string list \<Rightarrow> TracingStore \<Rightarrow> TracingStore" where
  "setServices s st = st\<lparr>st_services := s\<rparr>"

definition setActiveSampler :: "SamplerConfig option \<Rightarrow> TracingStore \<Rightarrow> TracingStore" where
  "setActiveSampler s st = st\<lparr>activeSampler := s\<rparr>"

definition addLiveTrace :: "TraceSummaryDTO \<Rightarrow> TracingStore \<Rightarrow> TracingStore" where
  "addLiveTrace t st =
     (let filtered = filter (\<lambda>lt. traceId lt \<noteq> traceId t) (liveTraces st);
          next' = t # filtered
      in st\<lparr>liveTraces := take LIVE_TRACE_LIMIT next'\<rparr>)"

text \<open>The actions of the store, and a run of them.\<close>

datatype store_action =
    SetServices "string list"
  | SetActiveSampler "SamplerConfig option"
  | AddLiveTrace TraceSummaryDTO

fun store_step :: "TracingStore \<Rightarrow> store_action \<Rightarrow> TracingStore" where
  "store_step st (SetServices s) = setServices s st"
| "store_step st (SetActiveSampler s) = setActiveSampler s st"
| "store_step st (AddLiveTrace t) = addLiveTrace t st"

fun store_run :: "TracingStore \<Rightarrow> store_action list \<Rightarrow> TracingStore" where
  "store_run st [] = st"
| "store_run st (a # as) = store_run (store_step st a) as"

text \<open>\<open>mergeUniqueTraces(...groups)\<close>: two nested loops over one set of seen ids.\<close>

definition mergeUniqueTraces :: "TraceSummaryDTO list list \<Rightarrow> TraceSummaryDTO list" where
  "mergeUniqueTraces groups = uniq_by traceId {} (concat groups)"

definition live_ok :: "TracingStore \<Rightarrow> bool" where
  "live_ok st \<longleftrightarrow> distinct (map traceId (liveTraces st)) \<and> length (liveTraces st) \<le> LIVE_TRACE_LIMIT"

text \<open>What the live list promises: the most recent arrival of each trace, newest first.\<close>

fun arrivals :: "store_action list \<Rightarrow> TraceSummaryDTO list" where
  "arrivals [] = []"
| "arrivals (AddLiveTrace t # as) = t # arrivals as"
| "arrivals (SetServices s # as) = arrivals as"
| "arrivals (SetActiveSampler s # as) = arrivals as"

definition newest_first :: "TraceSummaryDTO list \<Rightarrow> TraceSummaryDTO list" where
  "newest_first ts = take LIVE_TRACE_LIMIT (uniq_by traceId {} (rev ts))"

section \<open>Lemmas\<close>

named_theorems store_simps "the operations of the store"

lemmas store_defs = setServices_def setActiveSampler_def addLiveTrace_def Let_def

lemma live_ok_initial: "live_ok initial_store"
  by (simp add: live_ok_def initial_store_def)

lemma distinct_map_filter_take:
  "distinct (map f xs) \<Longrightarrow> distinct (map f (take n (filter P xs)))"
  by (metis distinct_map_filter distinct_take take_map)

lemma live_ok_step: "live_ok st \<Longrightarrow> live_ok (store_step st a)"
  by (cases a)
    (auto simp: live_ok_def store_defs LIVE_TRACE_LIMIT_def take_Cons'
      intro: distinct_map_filter_take dest: in_set_takeD)

lemma live_ok_run: "live_ok st \<Longrightarrow> live_ok (store_run st as)"
  by (induction as arbitrary: st) (simp_all add: live_ok_step)

text \<open>
  Prepending a trace to the deduplicated arrivals and dropping its older copy keeps the
  deduplication, also when only the newest 500 were kept: the cut-off ones can only be
  reached by more than one removal.
\<close>

lemma take_filter_key:
  assumes "distinct (map k xs)"
  shows "take n (filter (\<lambda>x. k x \<noteq> a) (take (Suc n) xs)) = take n (filter (\<lambda>x. k x \<noteq> a) xs)"
proof (cases "length xs \<le> Suc n")
  case True
  then show ?thesis by simp
next
  case False
  let ?ys = "take (Suc n) xs"
  have "distinct (map k ?ys)" using assms by (metis distinct_take take_map)
  then have "distinct (map k (filter (\<lambda>x. k x = a) ?ys))" by (rule distinct_map_filter)
  moreover have "set (map k (filter (\<lambda>x. k x = a) ?ys)) \<subseteq> {a}" by auto
  ultimately have "length (map k (filter (\<lambda>x. k x = a) ?ys)) \<le> 1"
    by (metis card_mono card.empty card.insert distinct_card empty_iff finite.intros One_nat_def)
  moreover have "length (filter (\<lambda>x. k x = a) ?ys) + length (filter (\<lambda>x. k x \<noteq> a) ?ys) = length ?ys"
    by (rule sum_length_filter_compl)
  ultimately have "n \<le> length (filter (\<lambda>x. k x \<noteq> a) ?ys)" using False by simp
  moreover have "filter (\<lambda>x. k x \<noteq> a) xs =
      filter (\<lambda>x. k x \<noteq> a) ?ys @ filter (\<lambda>x. k x \<noteq> a) (drop (Suc n) xs)"
    by (metis append_take_drop_id filter_append)
  ultimately show ?thesis by simp
qed

lemma live_traces_step:
  assumes "liveTraces st = newest_first ts"
  shows "liveTraces (addLiveTrace t st) = newest_first (ts @ [t])"
proof -
  let ?U = "uniq_by traceId {} (rev ts)" and ?P = "\<lambda>x. traceId x \<noteq> traceId t"
  obtain n where n: "LIVE_TRACE_LIMIT = Suc n"
    by (rule that [of 499]) (simp add: LIVE_TRACE_LIMIT_def)
  have "take LIVE_TRACE_LIMIT (t # zs) = t # take n zs" for zs
    unfolding n by simp
  moreover have "take n (filter ?P (take LIVE_TRACE_LIMIT ?U)) = take n (filter ?P ?U)"
    unfolding n by (rule take_filter_key) (rule uniq_by_distinct)
  ultimately show ?thesis
    using assms by (simp add: store_defs newest_first_def uniq_by_insert)
qed

lemma live_traces_run:
  "liveTraces st = newest_first ts \<Longrightarrow>
   liveTraces (store_run st as) = newest_first (ts @ arrivals as)"
proof (induction as arbitrary: st ts)
  case Nil
  then show ?case by simp
next
  case (Cons a as)
  show ?case
  proof (cases a)
    case (AddLiveTrace t)
    with Cons.IH [OF live_traces_step [OF Cons.prems, of t]] show ?thesis by simp
  qed (use Cons in \<open>simp_all add: store_defs\<close>)
qed

section \<open>Properties\<close>

text \<open>
  The live list refines its specification: after any run of the store's actions it
  is the arrivals so far, newest first, each trace once (its latest arrival), cut off at
  500. The step-by-step filter and slice never lose a trace that belongs there.
\<close>

theorem live_traces_refine:
  "liveTraces (store_run initial_store as) = newest_first (arrivals as)"
  using live_traces_run [of initial_store "[]" as]
  by (simp add: initial_store_def newest_first_def)

text \<open>
  Merging groups of traces keeps each trace id once: no id is lost, none is
  repeated, the order of first occurrence is kept, and the copy kept is the first one
  (so a live copy takes precedence over a queried one).
\<close>

theorem merge_unique_traces:
  "distinct (map traceId (mergeUniqueTraces gs)) \<and>
   traceId ` set (mergeUniqueTraces gs) = (\<Union>g \<in> set gs. traceId ` set g) \<and>
   subseq (mergeUniqueTraces gs) (concat gs) \<and>
   (\<forall>i. find (\<lambda>t. traceId t = i) (mergeUniqueTraces gs) = find (\<lambda>t. traceId t = i) (concat gs))"
  by (auto simp: mergeUniqueTraces_def uniq_by_distinct uniq_by_keys uniq_by_subseq find_uniq_by)

end
