(* ===== verification/SearchPage.thy ===== *)
theory SearchPage
  imports UseSearch Store Lib Shell
begin

text \<open>
  The search page: the filter bar \<open>components/search/FilterBar.tsx\<close>, the cards of
  \<open>components/search/TraceCard.tsx\<close> and the page itself, \<open>pages/Search.tsx\<close>, over the hook
  of \<open>UseSearch\<close> and the store of \<open>Store\<close>.
\<close>

section \<open>Definitions\<close>

subsection \<open>FilterBar\<close>

definition TIME_RANGES :: "(string \<times> num) list" where
  "TIME_RANGES =
     [(''Last 15m'', 15), (''Last 1h'', 60), (''Last 6h'', 360), (''Last 24h'', 1440),
      (''Last 7d'', 10080), (''All time'', 0)]"

definition MAX_DURATION_MS :: num where
  "MAX_DURATION_MS = 30000"

text \<open>The controls of the bar; a time range is picked by the number its item's value prints.\<close>

datatype filter_edit =
    PickService string
  | PickOperation string
  | PickTimeRange num
  | TypeAttr string
  | ToggleErrors bool
  | MoveSlider num num

fun filter_change :: "filter_edit \<Rightarrow> SearchFilters \<Rightarrow> SearchFilters" where
  "filter_change (PickService v) f =
     f\<lparr>sf_service := (if v = ''all'' then None else Some v), sf_operation := None\<rparr>"
| "filter_change (PickOperation v) f =
     f\<lparr>sf_operation := (if v = ''all'' then None else Some v)\<rparr>"
| "filter_change (PickTimeRange n) f =
     f\<lparr>sf_timeRangeMinutes := (if n = 0 then None else Some n)\<rparr>"
| "filter_change (TypeAttr v) f = f\<lparr>sf_attr := (if v = [] then None else Some v)\<rparr>"
| "filter_change (ToggleErrors checked) f =
     f\<lparr>sf_status := Some (if checked then StatusError else StatusAll)\<rparr>"
| "filter_change (MoveSlider lo hi) f =
     f\<lparr>sf_minDuration := (if lo > 0 then Some lo else None),
       sf_maxDuration := (if hi < MAX_DURATION_MS then Some hi else None)\<rparr>"

text \<open>What the bar shows for the filters.\<close>

record filter_bar =
  fb_service :: string
  fb_services :: "string list"
  fb_operation :: string
  fb_operations :: "string list"
  fb_operation_disabled :: bool
  fb_timeRange :: num
  fb_attr :: string
  fb_errors :: bool
  fb_slider :: "num \<times> num"
  fb_floor :: string
  fb_cap :: string

definition or_else :: "'a option \<Rightarrow> 'a \<Rightarrow> 'a" where
  "or_else v d = (case v of None \<Rightarrow> d | Some x \<Rightarrow> x)"

definition FilterBar :: "string list \<Rightarrow> string list \<Rightarrow> SearchFilters \<Rightarrow> filter_bar" where
  "FilterBar services' operations f =
     (let minDur = or_else (sf_minDuration f) 0;
          maxDur = or_else (sf_maxDuration f) MAX_DURATION_MS
      in \<lparr>fb_service = or_else (sf_service f) ''all'',
          fb_services = services',
          fb_operation = or_else (sf_operation f) ''all'',
          fb_operations = operations,
          fb_operation_disabled = (truthy_str (sf_service f) = None),
          fb_timeRange = or_else (sf_timeRangeMinutes f) 0,
          fb_attr = or_else (sf_attr f) [],
          fb_errors = (sf_status f = Some StatusError),
          fb_slider = (minDur, maxDur),
          fb_floor = num_str minDur @ ''ms floor'',
          fb_cap = (if maxDur \<ge> MAX_DURATION_MS then ''No cap'' else num_str maxDur @ ''ms cap'')\<rparr>)"

subsection \<open>TraceCard\<close>

text \<open>\<open>formatTimeAgo\<close>, for the milliseconds between the trace's arrival and now.\<close>

definition formatTimeAgo :: "num \<Rightarrow> string" where
  "formatTimeAgo diff =
     (if diff < 60000 then int_str \<lfloor>diff / 1000\<rfloor> @ ''s ago''
      else if diff < 3600000 then int_str \<lfloor>diff / 60000\<rfloor> @ ''m ago''
      else int_str \<lfloor>diff / 3600000\<rfloor> @ ''h ago'')"

record trace_card =
  card_label :: string
  card_service :: string
  card_accent :: string
  card_involved :: string
  card_op :: string
  card_erroring :: bool
  card_ago :: string
  card_spans :: int
  card_duration :: string
  card_id :: string
  card_services :: "(string \<times> string) list"
  card_bar :: num

definition barWidth :: "num \<Rightarrow> num \<Rightarrow> num" where
  "barWidth maxDuration d = (if maxDuration > 0 then d / maxDuration * 100 else 0)"

text \<open>
  The card and the colour map after it: the root service's colour is asked for only when the
  trace has no error, then those of the services in order. \<open>age\<close> is \<open>Date.now()\<close> less the
  time \<open>receivedAt\<close> denotes.
\<close>

definition TraceCard ::
  "(TraceSummaryDTO \<Rightarrow> num) \<Rightarrow> num \<Rightarrow> TraceSummaryDTO \<Rightarrow> color_state \<Rightarrow> trace_card \<times> color_state" where
  "TraceCard age maxDuration t cs =
     (let cs1 = (if ts_hasError t then cs else snd (getServiceColor (rootService t) cs));
          cs2 = color_calls (services t) cs1
      in (\<lparr>card_label = ''Open trace '' @ traceId t @ '' for '' @ rootOp t,
           card_service = rootService t,
           card_accent = (if ts_hasError t then ''#dc2626'' else color_of cs (rootService t)),
           card_involved = nat_str (length (services t)) @ '' services involved'',
           card_op = rootOp t,
           card_erroring = ts_hasError t,
           card_ago = formatTimeAgo (age t),
           card_spans = spanCount t,
           card_duration = toFixed (ts_durationMs t) 1 @ ''ms'',
           card_id = take 16 (traceId t) @ ellipsis,
           card_services = map (\<lambda>s. (s, color_of cs2 s)) (services t),
           card_bar = barWidth maxDuration (ts_durationMs t)\<rparr>, cs2))"

fun TraceCards ::
  "(TraceSummaryDTO \<Rightarrow> num) \<Rightarrow> num \<Rightarrow> TraceSummaryDTO list \<Rightarrow> color_state \<Rightarrow>
   trace_card list \<times> color_state" where
  "TraceCards age maxDuration [] cs = ([], cs)"
| "TraceCards age maxDuration (t # ts) cs =
     (let (c, cs1) = TraceCard age maxDuration t cs;
          (rest, cs2) = TraceCards age maxDuration ts cs1
      in (c # rest, cs2))"

subsection \<open>The page\<close>

definition PAGE_SIZE :: num where
  "PAGE_SIZE = 20"

text \<open>
  The state of the page beside the shared store. \<open>pg_opRequests\<close> are the services whose
  operations were asked for, latest first.
\<close>

record search_page =
  pg_search :: search_hook
  pg_operations :: "string list"
  pg_servicesError :: "string option"
  pg_operationsError :: "string option"
  pg_opRequests :: "string list"

definition search_mount :: search_page where
  "search_mount =
     \<lparr>pg_search = useSearch (limit_only PAGE_SIZE), pg_operations = [],
      pg_servicesError = None, pg_operationsError = None, pg_opRequests = []\<rparr>"

text \<open>
  \<open>setFilters\<close> as the page sees it: the hook's effect, and the effect that asks for the
  operations of the service when the service changed.
\<close>

definition page_setFilters :: "SearchFilters \<Rightarrow> search_page \<Rightarrow> search_page" where
  "page_setFilters f p =
     (let changed = (sf_service f \<noteq> sf_service (us_filters (pg_search p)));
          p' = p\<lparr>pg_search := search_setFilters f (pg_search p)\<rparr>
      in case truthy_str (sf_service f) of
           None \<Rightarrow> p'
         | Some svc \<Rightarrow> if changed then p'\<lparr>pg_opRequests := svc # pg_opRequests p\<rparr> else p')"

definition services_then ::
  "string list \<Rightarrow> search_page \<times> TracingStore \<Rightarrow> search_page \<times> TracingStore" where
  "services_then names ps = ((fst ps)\<lparr>pg_servicesError := None\<rparr>, setServices names (snd ps))"

definition services_catch :: "failure \<Rightarrow> search_page \<Rightarrow> search_page" where
  "services_catch e p =
     (if is_abort e then p
      else p\<lparr>pg_servicesError := Some (getErrorMessage e ''Failed to load services.'')\<rparr>)"

definition operations_then :: "string list \<Rightarrow> search_page \<Rightarrow> search_page" where
  "operations_then ops p = p\<lparr>pg_operations := ops, pg_operationsError := None\<rparr>"

definition operations_catch :: "failure \<Rightarrow> search_page \<Rightarrow> search_page" where
  "operations_catch e p =
     (if is_abort e then p
      else p\<lparr>pg_operations := [],
             pg_operationsError := Some (getErrorMessage e ''Failed to load operations.'')\<rparr>)"

text \<open>A message of \<open>/sse/traces\<close>: its type, and its trace unless the data is missing.\<close>

definition on_trace_event ::
  "string \<times> TraceSummaryDTO option \<Rightarrow> TracingStore \<Rightarrow> TracingStore" where
  "on_trace_event e st =
     (case e of (ty, Some t) \<Rightarrow> if ty = ''trace'' then addLiveTrace t st else st | _ \<Rightarrow> st)"

definition currentOffset :: "SearchFilters \<Rightarrow> num" where
  "currentOffset f = or_else (sf_offset f) 0"

text \<open>The page's own uses of \<open>setFilters\<close>.\<close>

definition bar_onChange :: "filter_edit \<Rightarrow> search_page \<Rightarrow> search_page" where
  "bar_onChange e p =
     page_setFilters ((filter_change e (us_filters (pg_search p)))\<lparr>sf_offset := Some 0\<rparr>) p"

definition loadMore :: "search_page \<Rightarrow> search_page" where
  "loadMore p =
     (let f = us_filters (pg_search p)
      in page_setFilters (f\<lparr>sf_offset := Some (currentOffset f + PAGE_SIZE)\<rparr>) p)"

definition retry :: "search_page \<Rightarrow> search_page" where
  "retry p = page_setFilters (us_filters (pg_search p)) p"

definition reset :: "search_page \<Rightarrow> search_page" where
  "reset p = page_setFilters (limit_only PAGE_SIZE) p"

datatype search_shortcut = FocusService | ResetFilters

definition search_shortcuts :: "search_shortcut KeyboardShortcut list" where
  "search_shortcuts =
     [plain_shortcut ''/'' ''Focus service filter'' FocusService,
      plain_shortcut ''r'' ''Reset filters'' ResetFilters]"

text \<open>The lists the page derives from the query's results and the live traces.\<close>

definition allTraces :: "search_page \<Rightarrow> TracingStore \<Rightarrow> TraceSummaryDTO list" where
  "allTraces p st =
     (let f = us_filters (pg_search p);
          queryTraces = (case us_results (pg_search p) of None \<Rightarrow> [] | Some r \<Rightarrow> traces r);
          includeLiveTraces = (\<not> hasActiveSearchFilters f \<and> currentOffset f = 0)
      in take 500 (mergeUniqueTraces [if includeLiveTraces then liveTraces st else [], queryTraces]))"

definition visibleServiceCount :: "TraceSummaryDTO list \<Rightarrow> nat" where
  "visibleServiceCount ts = length (uniq (concat (map services ts)))"

definition maxDuration :: "TraceSummaryDTO list \<Rightarrow> num" where
  "maxDuration ts = js_max (map ts_durationMs ts) 1"

datatype search_action = DoRetry | DoReset

datatype search_results =
    TracesUnavailable "search_action notice"
  | TraceQueue "search_action notice option" "trace_card list"

record search_view =
  sv_visible :: nat
  sv_total :: string
  sv_erroring :: nat
  sv_services :: string
  sv_refreshing :: bool
  sv_warning :: "string option"
  sv_bar :: filter_bar
  sv_mode :: string
  sv_heading :: string
  sv_showing :: string
  sv_body :: search_results
  sv_loadMore :: "bool option"

text \<open>\<open>servicesError || operationsWarning\<close>, then \<open>servicesError ?? operationsWarning\<close>.\<close>

definition search_warning :: "search_page \<Rightarrow> string option" where
  "search_warning p =
     (let w = (if truthy_str (sf_service (us_filters (pg_search p))) \<noteq> None
               then pg_operationsError p else None)
      in if present (pg_servicesError p) \<or> present w
         then (case pg_servicesError p of None \<Rightarrow> w | Some e \<Rightarrow> Some e) else None)"

definition empty_notice :: "bool \<Rightarrow> search_action notice" where
  "empty_notice isFiltering =
     PageState
       \<lparr>ps_title = (if isFiltering then ''No traces match these filters'' else ''No traces yet''),
        ps_description = Some (if isFiltering
          then ''Try broadening the service, operation, attribute, duration, or time filters.''
          else ''Ingest spans or run the demo traffic generator to populate the tracing view.''),
        ps_actionLabel = (if isFiltering then Some ''Reset filters'' else None),
        ps_onAction = (if isFiltering then Some DoReset else None),
        ps_icon = None\<rparr>"

definition search_body ::
  "(TraceSummaryDTO \<Rightarrow> num) \<Rightarrow> search_hook \<Rightarrow> TraceSummaryDTO list \<Rightarrow> color_state \<Rightarrow>
   search_results \<times> color_state" where
  "search_body age h ts cs =
     (if present (us_error h) then
        (TracesUnavailable
           (plain_notice ''Unable to load traces'' (or_else (us_error h) []) ''Retry'' DoRetry), cs)
      else let (cards, cs') = TraceCards age (maxDuration ts) ts cs
           in (TraceQueue (if ts = [] \<and> \<not> us_loading h
                           then Some (empty_notice (hasActiveSearchFilters (us_filters h))) else None)
                 cards, cs'))"

definition SearchPage_view ::
  "(TraceSummaryDTO \<Rightarrow> num) \<Rightarrow> search_page \<Rightarrow> TracingStore \<Rightarrow> color_state \<Rightarrow>
   search_view \<times> color_state" where
  "SearchPage_view age p st cs =
     (let h = pg_search p; f = us_filters h; ts = allTraces p st;
          isFiltering = hasActiveSearchFilters f;
          ops = (if truthy_str (sf_service f) \<noteq> None then pg_operations p else []);
          (body, cs') = search_body age h ts cs
      in (\<lparr>sv_visible = length ts,
           sv_total = int_str (case us_results h of None \<Rightarrow> int (length ts) | Some r \<Rightarrow> total r) @
             '' total returned in the current query window'',
           sv_erroring = length (filter ts_hasError ts),
           sv_services = nat_str (visibleServiceCount ts) @
             '' services represented in the visible result set'',
           sv_refreshing = us_loading h,
           sv_warning = search_warning p,
           sv_bar = FilterBar (st_services st) ops f,
           sv_mode = (if isFiltering then ''Filtered investigation mode''
             else ''Live stream blended with the first page of results''),
           sv_heading = (if isFiltering then ''Filtered candidates''
             else ''Recent arrivals and query matches''),
           sv_showing = ''Showing '' @ nat_str (length ts) @ '' trace'' @
             (if length ts \<noteq> 1 then ''s'' else []),
           sv_body = body,
           sv_loadMore = (case us_results h of None \<Rightarrow> None
             | Some r \<Rightarrow> if hasMore r then Some (\<not> us_loading h) else None)\<rparr>, cs'))"

section \<open>Lemmas\<close>

lemma maxDuration_pos: "0 < maxDuration ts"
  using js_max_ge_init [of 1 "map ts_durationMs ts"] by (simp add: maxDuration_def)

lemma maxDuration_ge: "t \<in> set ts \<Longrightarrow> ts_durationMs t \<le> maxDuration ts"
  by (simp add: maxDuration_def js_max_ge)

lemma barWidth_bounds: "0 < m \<Longrightarrow> 0 \<le> d \<Longrightarrow> d \<le> m \<Longrightarrow> 0 \<le> barWidth m d \<and> barWidth m d \<le> 100"
  by (simp add: barWidth_def field_simps)

lemma TraceCards_Cons:
  "fst (TraceCards age m (t # ts) cs) =
   fst (TraceCard age m t cs) # fst (TraceCards age m ts (snd (TraceCard age m t cs)))"
  by (simp add: split_def Let_def)

lemma TraceCards_bars:
  "map card_bar (fst (TraceCards age m ts cs)) = map (\<lambda>t. barWidth m (ts_durationMs t)) ts"
  by (induction ts arbitrary: cs)
    (simp_all add: TraceCards_Cons TraceCard_def Let_def del: TraceCards.simps(2))

lemma page_hook: "pg_search (page_setFilters f p) = search_setFilters f (pg_search p)"
  by (simp add: page_setFilters_def Let_def split: option.splits)

section \<open>Properties\<close>

text \<open>
  What the bar shows after an edit is what was picked: every control reads back the
  value it was set to, for all values the controls can send.
\<close>

theorem filter_bar_roundtrip:
  assumes "0 \<le> lo" and "hi \<le> MAX_DURATION_MS"
  shows "fb_service (FilterBar ss os (filter_change (PickService v) f)) = v \<and>
         fb_operation (FilterBar ss os (filter_change (PickService v) f)) = ''all'' \<and>
         fb_operation (FilterBar ss os (filter_change (PickOperation v) f)) = v \<and>
         fb_timeRange (FilterBar ss os (filter_change (PickTimeRange n) f)) = n \<and>
         fb_attr (FilterBar ss os (filter_change (TypeAttr v) f)) = v \<and>
         fb_errors (FilterBar ss os (filter_change (ToggleErrors b) f)) = b \<and>
         fb_slider (FilterBar ss os (filter_change (MoveSlider lo hi) f)) = (lo, hi)"
  using assms by (simp add: FilterBar_def or_else_def Let_def)

theorem filter_bar_roundtrip_witness:
  "fb_slider (FilterBar [] [] (filter_change (MoveSlider 0 30000) (limit_only 20))) = (0, 30000)"
  using filter_bar_roundtrip [of 0 30000 "[]" "[]" "''a''" "limit_only 20" 15 True]
  by (simp add: MAX_DURATION_MS_def)

text \<open>
  An edit of the filters starts a new list: the next request has offset 0, and its
  answer replaces what was shown, with nothing of the earlier pages.
\<close>

theorem filter_edit_replaces_results:
  "let p' = bar_onChange e p;
       h = search_timeout now (pg_search p')
   in sf_offset (us_filters h) = Some 0 \<and>
      us_queries h = buildTraceQueryParams now (us_filters h) # us_queries (pg_search p) \<and>
      us_results (search_then (requestId (us_reqs h)) r h) = Some r"
  by (simp add: bar_onChange_def page_hook search_setFilters_def search_timeout_def search_defs
      place_page_def)

text \<open>
  The list the page shows: no trace twice, at most 500, only what the query answered
  when the query is filtered (or beyond its first page); every bar is between 0 and 100
  percent wide, for traces of non-negative duration.
\<close>

theorem search_page_list:
  assumes "list_all (\<lambda>t. 0 \<le> ts_durationMs t) (allTraces p st)"
    and "\<not> present (us_error (pg_search p))"
  shows "distinct (map traceId (allTraces p st)) \<and> length (allTraces p st) \<le> 500 \<and>
    (hasActiveSearchFilters (us_filters (pg_search p)) \<or> currentOffset (us_filters (pg_search p)) \<noteq> 0
       \<longrightarrow> set (allTraces p st) \<subseteq>
             (case us_results (pg_search p) of None \<Rightarrow> {} | Some r \<Rightarrow> set (traces r))) \<and>
    (\<exists>notice cards. sv_body (fst (SearchPage_view age p st cs)) = TraceQueue notice cards \<and>
       length cards = length (allTraces p st) \<and>
       list_all (\<lambda>c. 0 \<le> card_bar c \<and> card_bar c \<le> 100) cards)"
proof (intro conjI impI)
  show "distinct (map traceId (allTraces p st))"
    by (simp add: allTraces_def mergeUniqueTraces_def Let_def take_map [symmetric] uniq_by_distinct)
  show "length (allTraces p st) \<le> 500" by (simp add: allTraces_def Let_def)
next
  assume "hasActiveSearchFilters (us_filters (pg_search p)) \<or> currentOffset (us_filters (pg_search p)) \<noteq> 0"
  then show "set (allTraces p st) \<subseteq>
      (case us_results (pg_search p) of None \<Rightarrow> {} | Some r \<Rightarrow> set (traces r))"
    using uniq_by_subset [where k = traceId and S = "{}"]
    by (fastforce simp: allTraces_def mergeUniqueTraces_def Let_def dest!: in_set_takeD
        split: option.splits)
next
  let ?cards = "fst (TraceCards age (maxDuration (allTraces p st)) (allTraces p st) cs)"
  note cards = TraceCards_bars [of age "maxDuration (allTraces p st)" "allTraces p st" cs]
  have "list_all (\<lambda>b. 0 \<le> b \<and> b \<le> 100) (map card_bar ?cards)"
    using assms(1) barWidth_bounds [OF maxDuration_pos] maxDuration_ge
    unfolding cards by (auto simp: list_all_iff)
  moreover have "length ?cards = length (allTraces p st)"
    using arg_cong [OF cards, of length] by simp
  ultimately show "\<exists>notice cards. sv_body (fst (SearchPage_view age p st cs)) = TraceQueue notice cards \<and>
      length cards = length (allTraces p st) \<and> list_all (\<lambda>c. 0 \<le> card_bar c \<and> card_bar c \<le> 100) cards"
    using assms(2)
    by (auto simp: SearchPage_view_def search_body_def Let_def list_all_iff split: prod.splits)
qed

theorem search_page_list_witness:
  "let p = search_mount\<lparr>pg_search :=
             search_then 1 (page_of [''a'', ''b'']) (search_timeout 0 (pg_search search_mount))\<rparr>;
       st = addLiveTrace (sample_summary ''b'') initial_store
   in map traceId (allTraces p st) = [''b'', ''a''] \<and> distinct (map traceId (allTraces p st))"
proof -
  let ?p = "search_mount\<lparr>pg_search :=
             search_then 1 (page_of [''a'', ''b'']) (search_timeout 0 (pg_search search_mount))\<rparr>"
  let ?st = "addLiveTrace (sample_summary ''b'') initial_store"
  have "list_all (\<lambda>t. 0 \<le> ts_durationMs t) (allTraces ?p ?st)" by code_simp
  moreover have "\<not> present (us_error (pg_search ?p))" by code_simp
  moreover have "map traceId (allTraces ?p ?st) = [''b'', ''a'']" by code_simp
  ultimately show ?thesis
    using search_page_list [of ?p ?st] by (simp add: Let_def)
qed

end
