(* ===== verification/SpanDrawer.thy ===== *)
theory SpanDrawer
  imports Types Lib Hooks
begin

text \<open>
  \<open>components/waterfall/SpanDrawer.tsx\<close>: what the drawer beside the charts shows of a span,
  with the link to the logs built from the configured template.
\<close>

section \<open>Definitions\<close>

definition nullish :: "'a option \<Rightarrow> 'a option \<Rightarrow> 'a option" where
  "nullish v w = (case v of None \<Rightarrow> w | Some x \<Rightarrow> Some x)"

text \<open>
  \<open>String(attr.stringValue ?? attr.intValue ?? attr.doubleValue ?? attr.boolValue ?? '')\<close>;
  the drawer prints the same text.
\<close>

definition attr_text :: "AttributeDTO \<Rightarrow> string" where
  "attr_text a =
     (case nullish (stringValue a) (nullish (map_option num_str (intValue a))
        (nullish (map_option num_str (doubleValue a)) (map_option bool_str (boolValue a)))) of
        None \<Rightarrow> [] | Some s \<Rightarrow> s)"

text \<open>
  The template with the first \<open>{traceId}\<close> and then the first \<open>{spanId}\<close> replaced, for ids
  without the character \<open>$\<close>.
\<close>

definition logLink :: "AppConfig \<Rightarrow> SpanDetailDTO \<Rightarrow> string option" where
  "logLink cfg s =
     (case logLinkTemplate cfg of
        None \<Rightarrow> None
      | Some t \<Rightarrow>
          if t = [] then None
          else Some (replace_first ''{spanId}'' (spanId s)
                 (replace_first ''{traceId}'' (sp_traceId s) t)))"

definition find_span :: "string \<Rightarrow> SpanDetailDTO list \<Rightarrow> SpanDetailDTO option" where
  "find_span i ss = find (\<lambda>s. spanId s = i) ss"

definition parentSpan :: "SpanDetailDTO list option \<Rightarrow> SpanDetailDTO \<Rightarrow> SpanDetailDTO option" where
  "parentSpan allSpans s =
     (if parentSpanId s = [] then None
      else case allSpans of None \<Rightarrow> None | Some ss \<Rightarrow> find_span (parentSpanId s) ss)"

record drawer =
  dr_open :: bool
  dr_title :: string
  dr_description :: string
  dr_service :: "string \<times> string"
  dr_destructive :: bool
  dr_status :: string
  dr_kind :: string
  dr_logLink :: "string option"
  dr_parent :: "(string \<times> string) option"
  dr_duration :: string
  dr_depth :: int
  dr_message :: "string option"
  dr_attributes :: "(string \<times> string) list"
  dr_events :: "(string \<times> string) list"
  dr_links :: "(string \<times> string) list"

text \<open>
  The parent link carries the id passed to \<open>onParentClick\<close> and its label. The colour map is
  read, and extended when the service is new.
\<close>

definition drawer_of ::
  "AppConfig \<Rightarrow> SpanDetailDTO \<Rightarrow> bool \<Rightarrow> SpanDetailDTO list option \<Rightarrow> color_state \<Rightarrow> drawer" where
  "drawer_of cfg s isOpen allSpans cs =
     \<lparr>dr_open = isOpen,
      dr_title = name s,
      dr_description = ''Inspect span metadata, attributes, events, and cross-links for '' @
        serviceName s @ ''.'',
      dr_service = (serviceName s, color_of cs (serviceName s)),
      dr_destructive = (code (status s) = 2),
      dr_status = getStatusLabel (code (status s)),
      dr_kind = getKindLabel (kind s),
      dr_logLink = (case logLink cfg s of None \<Rightarrow> None | Some l \<Rightarrow> if l = [] then None else Some l),
      dr_parent = map_option (\<lambda>p. (spanId p, arrow_up @ '' parent: '' @ name p)) (parentSpan allSpans s),
      dr_duration = toFixed (durationMs s) 2 @ ''ms'',
      dr_depth = depth s,
      dr_message = (if message (status s) = [] then None else Some (message (status s))),
      dr_attributes = map (\<lambda>a. (key a, attr_text a)) (attributes s),
      dr_events = map (\<lambda>e. (''+'' @ toFixed ((timeUnixNano e - startTimeUnixNano s) / 10 ^ 6) 1 @ ''ms'',
                             ev_name e)) (events s),
      dr_links = map (\<lambda>l. (''Trace: '' @ ln_traceId l, ''Span: '' @ ln_spanId l)) (links s)\<rparr>"

definition SpanDrawer ::
  "AppConfig \<Rightarrow> SpanDetailDTO option \<Rightarrow> bool \<Rightarrow> SpanDetailDTO list option \<Rightarrow> color_state \<Rightarrow>
   drawer option \<times> color_state" where
  "SpanDrawer cfg sel isOpen allSpans cs =
     (case sel of
        None \<Rightarrow> (None, cs)
      | Some s \<Rightarrow> (Some (drawer_of cfg s isOpen allSpans cs), snd (getServiceColor (serviceName s) cs)))"

section \<open>Lemmas\<close>

lemma replace_first_absent: "\<not> js_includes t pat \<Longrightarrow> replace_first pat r t = t"
  by (induction t) auto

lemma replace_first_skip:
  assumes "c \<notin> set a"
  shows "replace_first (c # p) r (a @ c # p @ b) = a @ r @ b"
  using assms by (induction a) auto

lemma replace_first_no_head:
  "c \<notin> set a \<Longrightarrow> replace_first (c # p) r (a @ t) = a @ replace_first (c # p) r t"
  by (induction a) auto

lemma find_span_Some: "find_span i ss = Some s \<Longrightarrow> s \<in> set ss \<and> spanId s = i"
  by (auto simp: find_span_def find_Some_iff in_set_conv_nth)

lemma find_span_distinct:
  "distinct (map spanId ss) \<Longrightarrow> s \<in> set ss \<Longrightarrow> find_span (spanId s) ss = Some s"
  unfolding find_span_def by (induction ss) (auto simp: image_iff)

section \<open>Properties\<close>

text \<open>
  Log correlation. In a template with one place for the trace id and one for the span
  id, both are filled in and the rest is kept.
\<close>

theorem log_link_filled:
  assumes "logLinkTemplate cfg = Some (a @ ''{traceId}'' @ b @ ''{spanId}'' @ c)"
    and "CHR ''{'' \<notin> set (a @ b @ sp_traceId s)"
  shows "logLink cfg s = Some (a @ sp_traceId s @ b @ spanId s @ c)"
proof -
  have 1: "replace_first ''{traceId}'' (sp_traceId s) (a @ ''{traceId}'' @ b @ ''{spanId}'' @ c)
      = a @ sp_traceId s @ b @ ''{spanId}'' @ c"
    using replace_first_skip [of "CHR ''{''" a "''traceId}''" "sp_traceId s" "b @ ''{spanId}'' @ c"] assms(2)
    by simp
  have 2: "replace_first ''{spanId}'' (spanId s) ((a @ sp_traceId s @ b) @ ''{spanId}'' @ c)
      = (a @ sp_traceId s @ b) @ spanId s @ c"
    using replace_first_skip [of "CHR ''{''" "a @ sp_traceId s @ b" "''spanId}''" "spanId s" c] assms(2)
    by simp
  show ?thesis
    unfolding logLink_def assms(1) option.case 1 using 2 by simp
qed

theorem log_link_filled_witness:
  "logLink \<lparr>logLinkTemplate = Some ''https://logs/?t={traceId}&s={spanId}''\<rparr> (sample_span ''s1'' [] 0)
   = Some ''https://logs/?t=abc123&s=s1''"
  using log_link_filled [of "\<lparr>logLinkTemplate = Some ''https://logs/?t={traceId}&s={spanId}''\<rparr>"
      "''https://logs/?t=''" "''&s=''" "[]" "sample_span ''s1'' [] 0"]
  by (simp add: sample_span_def)

text \<open>
  Parent navigation. The parent link is there exactly when the trace has a span with the
  parent's id, and it leads to such a span.
\<close>

theorem parent_link_leads_to_parent:
  "(\<exists>l. dr_parent (drawer_of cfg s isOpen (Some ss) cs) = Some (parentSpanId s, l)) \<longleftrightarrow>
   parentSpanId s \<noteq> [] \<and> parentSpanId s \<in> spanId ` set ss"
proof (cases "parentSpanId s = []")
  case False
  show ?thesis
  proof (cases "find_span (parentSpanId s) ss")
    case None
    then have "parentSpanId s \<notin> spanId ` set ss" by (auto simp: find_span_def find_None_iff)
    with None False show ?thesis by (simp add: parentSpan_def drawer_of_def)
  next
    case (Some p)
    from find_span_Some [OF Some] have "parentSpanId s \<in> spanId ` set ss" "spanId p = parentSpanId s"
      by (metis imageI, simp)
    with Some False show ?thesis by (simp add: parentSpan_def drawer_of_def)
  qed
qed (simp add: parentSpan_def drawer_of_def)

end
