(* ===== verification/TraceDetail.thy ===== *)
theory TraceDetail
  imports SpanDrawer Latest Collector Shell
begin

text \<open>
  \<open>pages/TraceDetail.tsx\<close>: loading a trace, stepping through its spans with the keyboard,
  the attribute filter, the root-cause candidate, copying the link and exporting the chart.
  The charts themselves are in \<open>Waterfall\<close> and \<open>Flame\<close>.
\<close>

section \<open>Definitions\<close>

datatype view_mode = WaterfallMode | FlameMode

record trace_page =
  tp_trace :: "TraceDetailDTO option"
  tp_selected :: "SpanDetailDTO option"
  tp_drawerOpen :: bool
  tp_copied :: bool
  tp_spanFilter :: string
  tp_viewMode :: view_mode
  tp_loading :: bool
  tp_error :: "string option"
  tp_actionError :: "string option"
  tp_spanIndex :: int
  tp_reqs :: requests

definition trace_initial :: trace_page where
  "trace_initial =
     \<lparr>tp_trace = None, tp_selected = None, tp_drawerOpen = False, tp_copied = False,
      tp_spanFilter = [], tp_viewMode = WaterfallMode, tp_loading = True, tp_error = None,
      tp_actionError = None, tp_spanIndex = 0, tp_reqs = no_requests\<rparr>"

subsection \<open>Loading\<close>

text \<open>
  \<open>reloadTrace\<close> for the id of the route, run by the effect after mounting and after a change
  of the id, and by ``Retry''. The effect's cleanup aborts.
\<close>

definition trace_start :: "trace_page \<Rightarrow> trace_page" where
  "trace_start s = s\<lparr>tp_reqs := begin_request (tp_reqs s), tp_loading := True, tp_error := None\<rparr>"

definition reloadTrace :: "string option \<Rightarrow> trace_page \<Rightarrow> trace_page" where
  "reloadTrace i s = (case i of None \<Rightarrow> s | Some t \<Rightarrow> if t = [] then s else trace_start s)"

definition trace_finally :: "nat \<Rightarrow> trace_page \<Rightarrow> trace_page" where
  "trace_finally i s = (if i = requestId (tp_reqs s) then s\<lparr>tp_loading := False\<rparr> else s)"

definition trace_then :: "nat \<Rightarrow> TraceDetailDTO \<Rightarrow> trace_page \<Rightarrow> trace_page" where
  "trace_then i t s = trace_finally i
     (if i \<noteq> requestId (tp_reqs s) then s else s\<lparr>tp_trace := Some t\<rparr>)"

definition trace_catch :: "nat \<Rightarrow> failure \<Rightarrow> trace_page \<Rightarrow> trace_page" where
  "trace_catch i e s = trace_finally i
     (if is_abort e then s
      else if i \<noteq> requestId (tp_reqs s) then s
      else s\<lparr>tp_error := Some (getErrorMessage e ''Failed to load trace detail.'')\<rparr>)"

definition trace_cleanup :: "trace_page \<Rightarrow> trace_page" where
  "trace_cleanup s = s\<lparr>tp_reqs := abort_current (tp_reqs s)\<rparr>"

subsection \<open>Selecting spans\<close>

definition select_index :: "int \<Rightarrow> TraceDetailDTO \<Rightarrow> trace_page \<Rightarrow> trace_page" where
  "select_index i t s =
     s\<lparr>tp_spanIndex := i, tp_selected := js_at (spans t) i, tp_drawerOpen := True\<rparr>"

definition key_j :: "trace_page \<Rightarrow> trace_page" where
  "key_j s =
     (case tp_trace s of
        None \<Rightarrow> s
      | Some t \<Rightarrow> select_index (min (tp_spanIndex s + 1) (int (length (spans t)) - 1)) t s)"

definition key_k :: "trace_page \<Rightarrow> trace_page" where
  "key_k s =
     (case tp_trace s of
        None \<Rightarrow> s
      | Some t \<Rightarrow> select_index (max (tp_spanIndex s - 1) 0) t s)"

definition close_drawer :: "trace_page \<Rightarrow> trace_page" where
  "close_drawer s = s\<lparr>tp_drawerOpen := False\<rparr>"

text \<open>A click on a span of a chart, or on the root-cause button.\<close>

definition onSpanSelect :: "SpanDetailDTO \<Rightarrow> trace_page \<Rightarrow> trace_page" where
  "onSpanSelect sp s = s\<lparr>tp_selected := Some sp, tp_drawerOpen := True\<rparr>"

definition onParentClick :: "string \<Rightarrow> trace_page \<Rightarrow> trace_page" where
  "onParentClick i s =
     (case tp_trace s of
        None \<Rightarrow> s
      | Some t \<Rightarrow> (case find_span i (spans t) of None \<Rightarrow> s | Some p \<Rightarrow> s\<lparr>tp_selected := Some p\<rparr>))"

text \<open>The keyboard shortcuts; \<open>e\<close> navigates to the export.\<close>

datatype trace_shortcut = CloseDrawer | NextSpan | PrevSpan | ExportJson

definition trace_shortcuts :: "trace_shortcut KeyboardShortcut list" where
  "trace_shortcuts =
     [plain_shortcut ''Escape'' ''Close span drawer'' CloseDrawer,
      plain_shortcut ''j'' ''Select next span'' NextSpan,
      plain_shortcut ''k'' ''Select previous span'' PrevSpan,
      plain_shortcut ''e'' ''Export trace as JSON'' ExportJson]"

definition export_url :: "string \<Rightarrow> string" where
  "export_url i = ''/api/v1/traces/'' @ i @ ''/export''"

text \<open>The page after a shortcut, and the address it navigates to.\<close>

fun run_shortcut :: "string option \<Rightarrow> trace_shortcut \<Rightarrow> trace_page \<Rightarrow> trace_page \<times> string option" where
  "run_shortcut i CloseDrawer s = (close_drawer s, None)"
| "run_shortcut i NextSpan s = (key_j s, None)"
| "run_shortcut i PrevSpan s = (key_k s, None)"
| "run_shortcut i ExportJson s =
     (s, (case i of None \<Rightarrow> None | Some t \<Rightarrow> if t = [] then None else Some (export_url t)))"

definition on_key :: "string option \<Rightarrow> key_event \<Rightarrow> trace_page \<Rightarrow> trace_page \<times> string option" where
  "on_key i e s =
     (case onKeyDown trace_shortcuts e of None \<Rightarrow> (s, None) | Some k \<Rightarrow> run_shortcut i k s)"

subsection \<open>What the page derives from the trace\<close>

definition errorSpans :: "TraceDetailDTO \<Rightarrow> SpanDetailDTO list" where
  "errorSpans t = filter (\<lambda>s. code (status s) = 2) (spans t)"

definition head_option :: "'a list \<Rightarrow> 'a option" where
  "head_option xs = (case xs of [] \<Rightarrow> None | x # _ \<Rightarrow> Some x)"

definition rootCauseSpan :: "TraceDetailDTO option \<Rightarrow> SpanDetailDTO option" where
  "rootCauseSpan tr =
     (case tr of
        None \<Rightarrow> None
      | Some t \<Rightarrow>
          if errorCount t > 0
          then head_option (js_sort (\<lambda>l r. startTimeUnixNano l - startTimeUnixNano r) (errorSpans t))
          else None)"

definition rootSpan :: "TraceDetailDTO option \<Rightarrow> SpanDetailDTO option" where
  "rootSpan tr =
     (case tr of
        None \<Rightarrow> None
      | Some t \<Rightarrow> (case find (\<lambda>s. parentSpanId s = []) (spans t) of
            Some s \<Rightarrow> Some s | None \<Rightarrow> head_option (spans t)))"

text \<open>
  The attribute filter. \<open>trimmed.split('=', 2)\<close> keeps the first two pieces and drops the
  rest of the text.
\<close>

definition filter_key_val :: "string \<Rightarrow> string \<times> string" where
  "filter_key_val trimmed =
     (if js_includes trimmed ''='' then
        (case take 2 (split_on (CHR ''='') trimmed) of k # v # _ \<Rightarrow> (k, v) | _ \<Rightarrow> (trimmed, []))
      else (trimmed, []))"

definition attr_hits :: "string \<Rightarrow> string \<Rightarrow> AttributeDTO \<Rightarrow> bool" where
  "attr_hits k v a \<longleftrightarrow>
     js_includes (to_lower (key a)) k \<and> (v = [] \<or> js_includes (to_lower (attr_text a)) v)"

definition span_hits :: "string \<Rightarrow> SpanDetailDTO \<Rightarrow> bool" where
  "span_hits trimmed s =
     (let (k, v) = filter_key_val trimmed
      in list_ex (attr_hits (to_lower k) (to_lower v)) (attributes s))"

text \<open>The sets \<open>grayed\<close> and \<open>matched\<close>, by the loop over the spans; none for an empty filter.\<close>

fun filter_loop ::
  "string \<Rightarrow> SpanDetailDTO list \<Rightarrow> string set \<times> string set \<Rightarrow> string set \<times> string set" where
  "filter_loop trimmed [] gm = gm"
| "filter_loop trimmed (s # ss) (g, m) =
     filter_loop trimmed ss
       (if span_hits trimmed s then (g, insert (spanId s) m) else (insert (spanId s) g, m))"

definition span_filter :: "string \<Rightarrow> SpanDetailDTO list \<Rightarrow> (string set \<times> string set) option" where
  "span_filter spanFilter ss =
     (let trimmed = trim spanFilter
      in if trimmed = [] then None else Some (filter_loop trimmed ss ({}, {})))"

subsection \<open>Copy and export\<close>

text \<open>
  The clipboard: the asynchronous API, with what its promise rejects with, if it does, or
  the command \<open>copy\<close> on a temporary text area, with its result.
\<close>

datatype clipboard = ClipboardApi "failure option" | ExecCommand bool

definition copyText :: "clipboard \<Rightarrow> failure option" where
  "copyText c =
     (case c of
        ClipboardApi r \<Rightarrow> r
      | ExecCommand copied \<Rightarrow>
          if copied then None
          else Some (ErrorObj ''Clipboard access is unavailable in this browser context.''))"

definition copyLink :: "clipboard \<Rightarrow> trace_page \<Rightarrow> trace_page" where
  "copyLink c s =
     (let s' = s\<lparr>tp_actionError := None\<rparr>
      in case copyText c of
           None \<Rightarrow> s'\<lparr>tp_copied := True\<rparr>
         | Some e \<Rightarrow> s'\<lparr>tp_actionError := Some (getErrorMessage e ''Unable to copy the trace URL.'')\<rparr>)"

definition copied_timeout :: "trace_page \<Rightarrow> trace_page" where
  "copied_timeout s = s\<lparr>tp_copied := False\<rparr>"

text \<open>
  The export. The browser: whether the page has a chart, its client size, what the calls
  in the \<open>try\<close> block throw, if anything, and whether a canvas has a 2d context. An export
  gives files to download, or the canvas of an image that still has to load.
\<close>

datatype chart_format = ExportSvg | ExportPng

record chart_env =
  chart_present :: bool
  clientWidth :: nat
  clientHeight :: nat
  export_throws :: "failure option"
  has_context :: bool

record export_result =
  ex_downloads :: "string list"
  ex_canvas :: "(nat \<times> nat) option"

definition nothing_exported :: export_result where
  "nothing_exported = \<lparr>ex_downloads = [], ex_canvas = None\<rparr>"

definition export_failed :: "failure \<Rightarrow> trace_page \<Rightarrow> trace_page" where
  "export_failed e s =
     s\<lparr>tp_actionError := Some (getErrorMessage e ''Unable to export the current chart.'')\<rparr>"

definition exportChart ::
  "chart_env \<Rightarrow> string \<Rightarrow> chart_format \<Rightarrow> trace_page \<Rightarrow> trace_page \<times> export_result" where
  "exportChart env i fmt s =
     (if \<not> chart_present env then
        (s\<lparr>tp_actionError := Some ''The current chart is not ready to export yet.''\<rparr>, nothing_exported)
      else let s' = s\<lparr>tp_actionError := None\<rparr>
      in case fmt of
           ExportSvg \<Rightarrow>
             (case export_throws env of
                Some e \<Rightarrow> (export_failed e s', nothing_exported)
              | None \<Rightarrow> (s', \<lparr>ex_downloads = [''trace-'' @ i @ ''.svg''], ex_canvas = None\<rparr>))
         | ExportPng \<Rightarrow>
             if \<not> has_context env then
               (export_failed (ErrorObj ''Canvas rendering is unavailable for PNG export.'') s',
                nothing_exported)
             else (case export_throws env of
                 Some e \<Rightarrow> (export_failed e s', nothing_exported)
               | None \<Rightarrow> (s', \<lparr>ex_downloads = [],
                   ex_canvas = Some (if clientWidth env = 0 then 1200 else clientWidth env,
                                     if clientHeight env = 0 then 600 else clientHeight env)\<rparr>)))"

definition image_onerror :: "trace_page \<Rightarrow> trace_page" where
  "image_onerror s =
     s\<lparr>tp_actionError := Some ''The browser could not render the SVG for PNG export.''\<rparr>"

definition image_onload :: "string \<Rightarrow> export_result" where
  "image_onload i = \<lparr>ex_downloads = [''trace-'' @ i @ ''.png''], ex_canvas = None\<rparr>"

subsection \<open>The page\<close>

datatype trace_action = ReloadTrace

record trace_view =
  tv_id :: string
  tv_summary :: string
  tv_badges :: "string list"
  tv_errors_badge :: "string option"
  tv_critical :: nat
  tv_errorSpans :: nat
  tv_rootCause_text :: string
  tv_rootCause_button :: "string option"
  tv_copy_label :: string
  tv_export :: "string \<times> string"
  tv_matches :: "string option"
  tv_mode :: view_mode
  tv_actionError :: "string option"
  tv_criticalPathIds :: "string set"
  tv_filter :: "(string set \<times> string set) option"
  tv_drawer_span :: "SpanDetailDTO option"
  tv_drawer_open :: bool

datatype trace_screen = TraceNotice "trace_action notice" | TraceView trace_view

definition match_count :: "string \<Rightarrow> SpanDetailDTO list \<Rightarrow> string option" where
  "match_count spanFilter ss =
     (if spanFilter = [] then None
      else map_option (\<lambda>(g, m). nat_str (card m) @ '' match'' @ (if card m \<noteq> 1 then ''es'' else []))
             (span_filter spanFilter ss))"

definition trace_view_of :: "string \<Rightarrow> TraceDetailDTO \<Rightarrow> trace_page \<Rightarrow> trace_view" where
  "trace_view_of i t s =
     \<lparr>tv_id = i,
      tv_summary = (case rootSpan (Some t) of None \<Rightarrow> ''Trace root unavailable'' | Some r \<Rightarrow> name r) @
        '' across '' @ nat_str (length (td_services t)) @
        '' services, with critical path overlays, span filtering, and export controls for incident review.'',
      tv_badges = [int_str (td_spanCount t) @ '' spans'', toFixed (td_durationMs t) 1 @ ''ms''] @ td_services t,
      tv_errors_badge = (if errorCount t > 0 then Some (int_str (errorCount t) @ '' errors'') else None),
      tv_critical = length (criticalPath t),
      tv_errorSpans = length (errorSpans t),
      tv_rootCause_text = (case rootCauseSpan (Some t) of
          None \<Rightarrow> ''No error spans detected'' | Some r \<Rightarrow> ''Root cause candidate: '' @ name r),
      tv_rootCause_button = map_option (\<lambda>r. ''Root cause: '' @ name r) (rootCauseSpan (Some t)),
      tv_copy_label = (if tp_copied s then ''Copied!'' else ''Copy link''),
      tv_export = (export_url i, ''trace-'' @ i @ ''.json''),
      tv_matches = match_count (tp_spanFilter s) (spans t),
      tv_mode = tp_viewMode s,
      tv_actionError = nonempty (tp_actionError s),
      tv_criticalPathIds = set (criticalPath t),
      tv_filter = span_filter (tp_spanFilter s) (spans t),
      tv_drawer_span = tp_selected s,
      tv_drawer_open = tp_drawerOpen s\<rparr>"

definition TraceDetailPage_view :: "string option \<Rightarrow> trace_page \<Rightarrow> trace_screen" where
  "TraceDetailPage_view i s =
     (case nonempty i of
        None \<Rightarrow> TraceNotice (bare_notice ''Trace ID missing'' ''Open this page with a valid trace identifier.'')
      | Some tid \<Rightarrow>
          if tp_loading s \<and> tp_trace s = None then
            TraceNotice (bare_notice ''Loading trace'' ''Fetching spans, analysis, and critical path data.'')
          else (case nonempty (tp_error s) of
              Some e \<Rightarrow> TraceNotice (plain_notice ''Unable to load trace'' e ''Retry'' ReloadTrace)
            | None \<Rightarrow> (case tp_trace s of
                None \<Rightarrow> TraceNotice (bare_notice ''Trace unavailable'' ''The requested trace could not be found.'')
              | Some t \<Rightarrow> TraceView (trace_view_of tid t s))))"

text \<open>A run of the keys \<open>j\<close> (\<open>True\<close>) and \<open>k\<close> (\<open>False\<close>).\<close>

fun step_keys :: "bool list \<Rightarrow> trace_page \<Rightarrow> trace_page" where
  "step_keys [] s = s"
| "step_keys (b # bs) s = step_keys bs (if b then key_j s else key_k s)"

section \<open>Lemmas\<close>

definition trace_shown :: "trace_page \<Rightarrow> TraceDetailDTO option \<times> string option" where
  "trace_shown s = (tp_trace s, tp_error s)"

definition trace_accept ::
  "TraceDetailDTO \<Rightarrow> TraceDetailDTO option \<times> string option \<Rightarrow> TraceDetailDTO option \<times> string option" where
  "trace_accept t v = (Some t, snd v)"

lemmas trace_defs = trace_start_def trace_then_def trace_catch_def trace_finally_def
  trace_shown_def trace_accept_def

interpretation trace: latest_loading "requestId \<circ> tp_reqs" trace_start trace_then trace_catch
  trace_shown trace_accept tp_loading
  by unfold_locales (auto simp: trace_defs)

lemma select_index_fields [simp]:
  "tp_trace (select_index i t s) = tp_trace s" "tp_spanIndex (select_index i t s) = i"
  "tp_selected (select_index i t s) = js_at (spans t) i" "tp_drawerOpen (select_index i t s)"
  by (simp_all add: select_index_def)

lemma key_trace [simp]: "tp_trace (key_j s) = tp_trace s" "tp_trace (key_k s) = tp_trace s"
  by (simp_all add: key_j_def key_k_def split: option.splits)

lemma step_keys_append: "step_keys (bs @ cs) s = step_keys cs (step_keys bs s)"
  by (induction bs arbitrary: s) simp_all

lemma trace_step_keys [simp]: "tp_trace (step_keys bs s) = tp_trace s"
  by (induction bs arbitrary: s) simp_all

lemma key_j_index:
  "tp_trace s = Some t \<Longrightarrow> tp_spanIndex (key_j s) = min (tp_spanIndex s + 1) (int (length (spans t)) - 1)"
  by (simp add: key_j_def)

lemma key_k_index: "tp_trace s = Some t \<Longrightarrow> tp_spanIndex (key_k s) = max (tp_spanIndex s - 1) 0"
  by (simp add: key_k_def)

lemma step_keys_bounds:
  assumes "tp_trace s = Some t" and "spans t \<noteq> []"
    and "0 \<le> tp_spanIndex s" and "tp_spanIndex s < int (length (spans t))"
  shows "0 \<le> tp_spanIndex (step_keys bs s) \<and> tp_spanIndex (step_keys bs s) < int (length (spans t))"
proof -
  have "0 < length (spans t)" using assms(2) by simp
  then show ?thesis
    using assms
  proof (induction bs arbitrary: s)
    case (Cons b bs)
    then show ?case
      by (cases b) (auto simp: key_j_index key_k_index)
  qed simp
qed

lemma filter_loop_sets:
  "filter_loop q ss (g, m) =
     (g \<union> spanId ` {s \<in> set ss. \<not> span_hits q s}, m \<union> spanId ` {s \<in> set ss. span_hits q s})"
  by (induction ss arbitrary: g m) auto

lemma js_sort_head_least:
  assumes "head_option (js_sort (\<lambda>l r. f l - f r) xs) = Some x"
  shows "x \<in> set xs \<and> (\<forall>y \<in> set xs. f x \<le> f y)"
proof -
  obtain ys where ys: "js_sort (\<lambda>l r. f l - f r) xs = x # ys"
    using assms by (auto simp: head_option_def split: list.splits)
  have sorted: "sorted_wrt (\<lambda>l r. f l - f r \<le> 0) (x # ys)"
    using sorted_js_sort [OF consistent_cmp_key, of f xs] ys by simp
  have "set xs = set (x # ys)" using set_js_sort [of "\<lambda>l r. f l - f r" xs] ys by simp
  with sorted show ?thesis by auto
qed

lemma head_option_None [simp]: "head_option xs = None \<longleftrightarrow> xs = []"
  by (cases xs) (simp_all add: head_option_def)

lemma js_sort_Nil_iff: "js_sort cmp xs = [] \<longleftrightarrow> xs = []"
  by (metis set_empty set_js_sort)

section \<open>Properties\<close>

text \<open>
  When the current request for a trace is answered, the page shows that trace: without
  error or loading notice, whatever superseded requests settle before and after.
\<close>

theorem latest_trace_is_shown:
  assumes "settled_upto (requestId (tp_reqs s)) xs"
    and "settled_upto (requestId (tp_reqs s)) ys" and "i \<noteq> []"
  shows "let s' = settle_all trace_then trace_catch
           (trace_then (Suc (requestId (tp_reqs s))) t
             (settle_all trace_then trace_catch (reloadTrace (Some i) s) xs)) ys
         in TraceDetailPage_view (Some i) s' = TraceView (trace_view_of i t s') \<and> \<not> tp_loading s'"
proof -
  let ?s1 = "settle_all trace_then trace_catch (trace_start s) xs"
  let ?s2 = "trace_then (Suc (requestId (tp_reqs s))) t ?s1"
  let ?s' = "settle_all trace_then trace_catch ?s2 ys"
  have shown: "trace_shown ?s' = (Some t, None)"
    using trace.last_started_wins [of s xs ys t] assms
    by (simp add: trace_accept_def trace_shown_def trace_start_def)
  have "requestId (tp_reqs ?s1) = Suc (requestId (tp_reqs s))"
    using trace.cur_settle_all [of "trace_start s" xs] by (simp add: trace_start_def)
  then have "\<not> tp_loading ?s2" by (simp add: trace_defs)
  then have "\<not> tp_loading ?s'" by (simp add: trace.busy_settle_all)
  with shown assms(3) show ?thesis
    by (simp add: reloadTrace_def TraceDetailPage_view_def trace_shown_def Let_def)
qed

theorem latest_trace_is_shown_witness:
  "\<not> tp_loading (settle_all trace_then trace_catch
     (trace_then 2 (sample_trace [])
       (settle_all trace_then trace_catch
         (reloadTrace (Some ''b'') (reloadTrace (Some ''a'') trace_initial))
         [Rejected 1 (AbortError [])]))
     [Resolved 1 (sample_trace [sample_span ''x'' [] 0])])"
proof -
  have "requestId (tp_reqs (reloadTrace (Some ''a'') trace_initial)) = 1"
    by (simp add: reloadTrace_def trace_start_def trace_initial_def no_requests_def)
  then show ?thesis
    using latest_trace_is_shown [of "reloadTrace (Some ''a'') trace_initial"
        "[Rejected 1 (AbortError [])]" "[Resolved 1 (sample_trace [sample_span ''x'' [] 0])]"
        "''b''" "sample_trace []"]
    by (simp add: settled_upto_def numeral_2_eq_2 Let_def)
qed

text \<open>
  Stepping with \<open>j\<close> and \<open>k\<close> never leaves the trace: after any run of the two keys in a
  non-empty trace the cursor is an index of a span, and after the last key that span is the
  one the drawer shows.
\<close>

theorem step_keys_stay_in_trace:
  assumes "tp_trace s = Some t" and "spans t \<noteq> []"
    and "0 \<le> tp_spanIndex s" and "tp_spanIndex s < int (length (spans t))" and "bs \<noteq> []"
  shows "let s' = step_keys bs s
         in 0 \<le> tp_spanIndex s' \<and> tp_spanIndex s' < int (length (spans t)) \<and>
            tp_selected s' = Some (spans t ! nat (tp_spanIndex s')) \<and> tp_drawerOpen s'"
proof -
  obtain cs b where bs: "bs = cs @ [b]" using assms(5) by (metis rev_exhaust)
  let ?s = "step_keys cs s"
  have t: "tp_trace ?s = Some t" using assms(1) by simp
  have i: "0 \<le> tp_spanIndex (step_keys bs s) \<and> tp_spanIndex (step_keys bs s) < int (length (spans t))"
    by (rule step_keys_bounds [OF assms(1-4)])
  have "step_keys bs s = select_index (tp_spanIndex (step_keys bs s)) t ?s"
    using t by (cases b) (simp_all add: bs step_keys_append key_j_def key_k_def)
  then have "tp_selected (step_keys bs s) = js_at (spans t) (tp_spanIndex (step_keys bs s))"
    and "tp_drawerOpen (step_keys bs s)"
    by (metis select_index_fields(3), metis select_index_fields(4))
  with i show ?thesis by (simp add: js_at_def Let_def)
qed

definition two_spans :: trace_page where
  "two_spans = trace_initial\<lparr>tp_loading := False,
     tp_trace := Some (sample_trace [sample_span ''a'' [] 0, sample_span ''b'' ''a'' 1])\<rparr>"

theorem step_keys_stay_in_trace_witness:
  "tp_drawerOpen (step_keys [True, True, False, False, False] two_spans)"
proof -
  have "tp_trace two_spans = Some (sample_trace [sample_span ''a'' [] 0, sample_span ''b'' ''a'' 1])"
    "tp_spanIndex two_spans = 0"
    by (simp_all add: two_spans_def trace_initial_def)
  with step_keys_stay_in_trace [OF this(1), of "[True, True, False, False, False]"] show ?thesis
    by (simp add: sample_trace_def Let_def)
qed

text \<open>
  The cursor starts on the first span without selecting it, so the first \<open>j\<close> opens the
  second one; and a click on a span does not move the cursor, so that \<open>j\<close> goes on from where
  the keys were.
\<close>

theorem first_j_selects_second:
  assumes "tp_trace s = Some t" and "2 \<le> length (spans t)" and "tp_spanIndex s = 0"
  shows "tp_selected (key_j s) = Some (spans t ! 1) \<and>
         tp_selected (key_j (onSpanSelect sp s)) = Some (spans t ! 1)"
  using assms by (simp add: key_j_def onSpanSelect_def js_at_def min_def)

theorem first_j_selects_second_witness:
  "map_option spanId (tp_selected (key_j two_spans)) = Some ''b''"
proof -
  have "tp_trace two_spans = Some (sample_trace [sample_span ''a'' [] 0, sample_span ''b'' ''a'' 1])"
    "tp_spanIndex two_spans = 0"
    by (simp_all add: two_spans_def trace_initial_def)
  with first_j_selects_second [OF this(1)] show ?thesis
    by (simp add: sample_trace_def sample_span_def)
qed

text \<open>
  A non-blank filter splits the spans: every span is highlighted or grayed out, never
  both (span ids being unique), and it is highlighted exactly when one of its attributes
  matches.
\<close>

theorem span_filter_partitions:
  assumes "trim q \<noteq> []" and "distinct (map spanId ss)"
  shows "\<exists>g m. span_filter q ss = Some (g, m) \<and> g \<union> m = spanId ` set ss \<and> g \<inter> m = {} \<and>
           list_all (\<lambda>s. spanId s \<in> m \<longleftrightarrow> span_hits (trim q) s) ss"
proof -
  let ?g = "spanId ` {s \<in> set ss. \<not> span_hits (trim q) s}"
  let ?m = "spanId ` {s \<in> set ss. span_hits (trim q) s}"
  have inj: "inj_on spanId (set ss)" using assms(2) by (simp add: distinct_map)
  have "span_filter q ss = Some (?g, ?m)"
    using assms(1) by (simp add: span_filter_def filter_loop_sets Let_def)
  moreover have "?g \<inter> ?m = {}" using inj by (auto dest: inj_onD)
  moreover have "list_all (\<lambda>s. spanId s \<in> ?m \<longleftrightarrow> span_hits (trim q) s) ss"
    using inj by (auto simp: list_all_iff dest: inj_onD)
  ultimately show ?thesis by blast
qed

definition tagged_span :: "string \<Rightarrow> string \<Rightarrow> int \<Rightarrow> SpanDetailDTO" where
  "tagged_span i v c = (sample_span i [] 0)
     \<lparr>attributes := [\<lparr>key = ''http.route'', stringValue = Some v, intValue = None,
                      boolValue = None, doubleValue = None\<rparr>],
      status := \<lparr>code = c, message = []\<rparr>\<rparr>"

theorem span_filter_partitions_witness:
  "\<exists>g m. span_filter '' Route=/api '' [tagged_span ''a'' ''/API/x'' 0, tagged_span ''b'' ''/'' 0] = Some (g, m) \<and>
     ''a'' \<in> m \<and> ''b'' \<notin> m \<and> g \<inter> m = {}"
proof -
  let ?q = "'' Route=/api ''" and ?a = "tagged_span ''a'' ''/API/x'' 0" and ?b = "tagged_span ''b'' ''/'' 0"
  have 1: "trim ?q \<noteq> []" "distinct (map spanId [?a, ?b])" by code_simp+
  have 2: "span_hits (trim ?q) ?a" "\<not> span_hits (trim ?q) ?b" "spanId ?a = ''a''" "spanId ?b = ''b''"
    by code_simp+
  from span_filter_partitions [OF 1] obtain g m where
    gm: "span_filter ?q [?a, ?b] = Some (g, m)" "g \<inter> m = {}"
    and "list_all (\<lambda>s. spanId s \<in> m \<longleftrightarrow> span_hits (trim ?q) s) [?a, ?b]"
    by blast
  then have "''a'' \<in> m \<and> ''b'' \<notin> m" using 2 by simp
  with gm show ?thesis by blast
qed

text \<open>
  A value with an equals sign is cut: the filter \<open>k=a=b\<close> matches as \<open>k=a\<close> does.
\<close>

theorem filter_cuts_second_equals:
  assumes "CHR ''='' \<notin> set k" and "CHR ''='' \<notin> set a"
  shows "span_hits (k @ ''='' @ a @ ''='' @ b) s = span_hits (k @ ''='' @ a) s"
proof -
  have "sublist [CHR ''=''] (k @ [CHR ''=''] @ x)" for x by (rule sublist_appendI)
  then have inc: "js_includes (k @ ''='' @ x) ''=''" for x by (simp add: includes_iff)
  have "filter_key_val (k @ ''='' @ a @ ''='' @ b) = (k, a)"
    using inc [of "a @ ''='' @ b"] assms
    by (simp add: filter_key_val_def split_on_append numeral_2_eq_2)
  moreover have "filter_key_val (k @ ''='' @ a) = (k, a)"
    using inc [of a] assms by (simp add: filter_key_val_def split_on_append split_on_single numeral_2_eq_2)
  ultimately show ?thesis by (simp add: span_hits_def)
qed

theorem filter_cuts_second_equals_witness:
  "span_hits (''route'' @ ''='' @ ''/'' @ ''='' @ ''zzz'') (tagged_span ''a'' ''/api'' 0)"
  using filter_cuts_second_equals [of "''route''" "''/''" "''zzz''" "tagged_span ''a'' ''/api'' 0"]
  by simp code_simp

text \<open>
  The root-cause candidate is a span with error status, and none of the spans with error
  status started before it; it is there whenever the trace counts errors and has such a span.
\<close>

theorem root_cause_is_earliest_error:
  assumes "errorCount t > 0" and "errorSpans t \<noteq> []"
  shows "\<exists>s. rootCauseSpan (Some t) = Some s \<and> s \<in> set (spans t) \<and> code (status s) = 2 \<and>
           list_all (\<lambda>s'. code (status s') = 2 \<longrightarrow> startTimeUnixNano s \<le> startTimeUnixNano s') (spans t)"
proof -
  obtain s where s: "rootCauseSpan (Some t) = Some s"
    using assms by (cases "rootCauseSpan (Some t)") (auto simp: rootCauseSpan_def js_sort_Nil_iff)
  then have "head_option (js_sort (\<lambda>l r. startTimeUnixNano l - startTimeUnixNano r) (errorSpans t)) = Some s"
    using assms(1) by (simp add: rootCauseSpan_def)
  from js_sort_head_least [OF this] s show ?thesis
    by (auto simp: errorSpans_def list_all_iff)
qed

theorem root_cause_is_earliest_error_witness:
  "\<exists>s. rootCauseSpan (Some ((sample_trace [tagged_span ''a'' ''x'' 0, tagged_span ''b'' ''y'' 2])
        \<lparr>errorCount := 1\<rparr>)) = Some s \<and> code (status s) = 2"
proof -
  let ?t = "(sample_trace [tagged_span ''a'' ''x'' 0, tagged_span ''b'' ''y'' 2])\<lparr>errorCount := 1\<rparr>"
  have "errorCount ?t > 0" by simp
  moreover have "errorSpans ?t \<noteq> []"
    by (simp add: errorSpans_def sample_trace_def tagged_span_def)
  ultimately show ?thesis using root_cause_is_earliest_error [of ?t] by blast
qed

end
