(* ===== verification/SamplerDraft.thy ===== *)
theory SamplerDraft
  imports Types
begin

text \<open>
  The sampler form of \<open>pages/Sampler.tsx\<close>: the drafts read from the collector's
  configuration, the request body built from a draft, and the validation of a draft.
\<close>

section \<open>Definitions\<close>

record RuleDraft =
  rd_id :: nat
  rd_operationGlob :: string
  rd_service :: string
  rd_priority :: num
  rd_samplerType :: string
  rd_samplerRate :: num

record TailPolicyDraft =
  pd_id :: nat
  pd_type :: string
  pd_thresholdMs :: num
  pd_rate :: num

text \<open>The module variables \<open>nextRuleID\<close> and \<open>nextPolicyID\<close>.\<close>

record draft_ids =
  nextRuleID :: nat
  nextPolicyID :: nat

definition initial_ids :: draft_ids where
  "initial_ids = \<lparr>nextRuleID = 0, nextPolicyID = 0\<rparr>"

subsection \<open>Reading a configuration\<close>

definition readNumber :: "json option \<Rightarrow> num \<Rightarrow> num" where
  "readNumber v fallback = (case v of Some (JNum x) \<Rightarrow> x | _ \<Rightarrow> fallback)"

definition readString :: "json option \<Rightarrow> string \<Rightarrow> string" where
  "readString v fallback = (case v of Some (JStr s) \<Rightarrow> s | _ \<Rightarrow> fallback)"

definition readArray :: "json option \<Rightarrow> json list" where
  "readArray v = (case v of Some (JArr xs) \<Rightarrow> xs | _ \<Rightarrow> [])"

text \<open>
  \<open>entry && typeof entry === 'object'\<close>: the properties of an object, none of the names read
  here for an array, and no entry otherwise.
\<close>

fun as_object :: "json \<Rightarrow> (string \<times> json) list option" where
  "as_object (JObj fs) = Some fs"
| "as_object (JArr xs) = Some []"
| "as_object j = None"

definition rule_draft :: "nat \<Rightarrow> (string \<times> json) list \<Rightarrow> RuleDraft" where
  "rule_draft i rule =
     (let samplerConfig = (case jget rule ''sampler'' of
            None \<Rightarrow> [] | Some j \<Rightarrow> (case as_object j of None \<Rightarrow> [] | Some fs \<Rightarrow> fs))
      in \<lparr>rd_id = i,
          rd_operationGlob = readString (jget rule ''operationGlob'') ''*'',
          rd_service = readString (jget rule ''serviceName'') [],
          rd_priority = readNumber (jget rule ''priority'') 10,
          rd_samplerType = readString (jget samplerConfig ''type'') ''always'',
          rd_samplerRate = readNumber (jget samplerConfig ''rate'') (1 / 10)\<rparr>)"

fun rule_drafts :: "nat \<Rightarrow> json list \<Rightarrow> RuleDraft list \<times> nat" where
  "rule_drafts n [] = ([], n)"
| "rule_drafts n (j # js) =
     (case as_object j of
        None \<Rightarrow> rule_drafts n js
      | Some rule \<Rightarrow>
          let (ds, n') = rule_drafts (Suc n) js in (rule_draft (Suc n) rule # ds, n'))"

definition new_rule :: "nat \<Rightarrow> RuleDraft" where
  "new_rule i =
     \<lparr>rd_id = i, rd_operationGlob = ''*'', rd_service = [], rd_priority = 10,
      rd_samplerType = ''always'', rd_samplerRate = 1\<rparr>"

definition buildRuleDrafts ::
  "(string \<times> json) list \<Rightarrow> draft_ids \<Rightarrow> RuleDraft list \<times> draft_ids" where
  "buildRuleDrafts config ids =
     (let (drafts, n) = rule_drafts (nextRuleID ids) (readArray (jget config ''rules''))
      in if drafts \<noteq> [] then (drafts, ids\<lparr>nextRuleID := n\<rparr>)
         else ([new_rule (Suc n)], ids\<lparr>nextRuleID := Suc n\<rparr>))"

definition policy_draft :: "nat \<Rightarrow> (string \<times> json) list \<Rightarrow> TailPolicyDraft" where
  "policy_draft i policy =
     \<lparr>pd_id = i,
      pd_type = readString (jget policy ''type'') ''error'',
      pd_thresholdMs = readNumber (jget policy ''thresholdMs'') 500,
      pd_rate = readNumber (jget policy ''rate'') (1 / 10)\<rparr>"

fun policy_drafts :: "nat \<Rightarrow> json list \<Rightarrow> TailPolicyDraft list \<times> nat" where
  "policy_drafts n [] = ([], n)"
| "policy_drafts n (j # js) =
     (case as_object j of
        None \<Rightarrow> policy_drafts n js
      | Some policy \<Rightarrow>
          let (ds, n') = policy_drafts (Suc n) js in (policy_draft (Suc n) policy # ds, n'))"

definition new_policy :: "nat \<Rightarrow> TailPolicyDraft" where
  "new_policy i = \<lparr>pd_id = i, pd_type = ''error'', pd_thresholdMs = 500, pd_rate = 1 / 10\<rparr>"

definition buildTailPolicyDrafts ::
  "(string \<times> json) list \<Rightarrow> draft_ids \<Rightarrow> TailPolicyDraft list \<times> draft_ids" where
  "buildTailPolicyDrafts config ids =
     (let (drafts, n) = policy_drafts (nextPolicyID ids) (readArray (jget config ''policies''))
      in if drafts \<noteq> [] then (drafts, ids\<lparr>nextPolicyID := n\<rparr>)
         else ([new_policy (Suc n)], ids\<lparr>nextPolicyID := Suc n\<rparr>))"

subsection \<open>The draft\<close>

record sampler_draft =
  selectedType :: string
  probRate :: num
  rlTps :: num
  adaptTarget :: num
  adaptMin :: num
  adaptMax :: num
  rules :: "RuleDraft list"
  tailTimeout :: num
  tailPolicies :: "TailPolicyDraft list"

definition initial_draft :: sampler_draft where
  "initial_draft =
     \<lparr>selectedType = ''always'', probRate = 1 / 10, rlTps = 100, adaptTarget = 100,
      adaptMin = 1 / 1000, adaptMax = 1, rules = [], tailTimeout = 10, tailPolicies = []\<rparr>"

text \<open>The draft part of \<open>applyDraftFromConfig\<close>.\<close>

definition draft_from_config ::
  "string \<Rightarrow> (string \<times> json) list \<Rightarrow> draft_ids \<Rightarrow> sampler_draft \<times> draft_ids" where
  "draft_from_config ty source ids =
     (let (rs, ids1) = buildRuleDrafts source ids;
          (ps, ids2) = buildTailPolicyDrafts source ids1
      in (\<lparr>selectedType = ty,
           probRate = readNumber (jget source ''rate'') (1 / 10),
           rlTps = readNumber (jget source ''tracesPerSec'') 100,
           adaptTarget = readNumber (jget source ''targetRate'') 100,
           adaptMin = readNumber (jget source ''minRate'') (1 / 1000),
           adaptMax = readNumber (jget source ''maxRate'') 1,
           rules = rs,
           tailTimeout = readNumber (jget source ''bufferTimeoutSec'') 10,
           tailPolicies = ps\<rparr>, ids2))"

subsection \<open>The request body\<close>

definition policy_body :: "TailPolicyDraft \<Rightarrow> json" where
  "policy_body p =
     JObj ([(''type'', JStr (pd_type p))] @
       (if pd_type p = ''latency'' then [(''thresholdMs'', JNum (pd_thresholdMs p))] else []) @
       (if pd_type p = ''probabilistic'' then [(''rate'', JNum (pd_rate p))] else []))"

definition rule_body :: "RuleDraft \<Rightarrow> json" where
  "rule_body r =
     JObj [(''operationGlob'', JStr (rd_operationGlob r)),
           (''serviceName'', JStr (rd_service r)),
           (''priority'', JNum (rd_priority r)),
           (''sampler'', JObj [(''type'', JStr (rd_samplerType r)), (''rate'', JNum (rd_samplerRate r))])]"

definition buildBody :: "sampler_draft \<Rightarrow> (string \<times> json) list" where
  "buildBody d =
     [(''type'', JStr (selectedType d))] @
     (if selectedType d = ''probabilistic'' then [(''rate'', JNum (probRate d))] else []) @
     (if selectedType d = ''ratelimit'' then [(''tracesPerSec'', JNum (rlTps d))] else []) @
     (if selectedType d = ''adaptive'' then
        [(''targetRate'', JNum (adaptTarget d)), (''minRate'', JNum (adaptMin d)),
         (''maxRate'', JNum (adaptMax d))] else []) @
     (if selectedType d = ''tail'' then
        [(''bufferTimeoutSec'', JNum (tailTimeout d)),
         (''policies'', JArr (map policy_body (tailPolicies d)))] else []) @
     (if selectedType d = ''rules'' then [(''rules'', JArr (map rule_body (rules d)))] else [])"

subsection \<open>Validation\<close>

definition out_of_unit :: "num \<Rightarrow> bool" where
  "out_of_unit x \<longleftrightarrow> x < 0 \<or> x > 1"

fun validate_rules :: "RuleDraft list \<Rightarrow> string option" where
  "validate_rules [] = None"
| "validate_rules (r # rs) =
     (if trim (rd_operationGlob r) = [] then Some ''Each sampler rule needs an operation glob.''
      else if rd_samplerType r = ''probabilistic'' \<and> out_of_unit (rd_samplerRate r)
      then Some ''Rule-based probabilistic rates must stay between 0 and 1.''
      else validate_rules rs)"

fun validate_policies :: "TailPolicyDraft list \<Rightarrow> string option" where
  "validate_policies [] = None"
| "validate_policies (p # ps) =
     (if pd_type p = ''latency'' \<and> pd_thresholdMs p \<le> 0
      then Some ''Tail latency policies need a threshold greater than 0ms.''
      else if pd_type p = ''probabilistic'' \<and> out_of_unit (pd_rate p)
      then Some ''Tail probabilistic rates must stay between 0 and 1.''
      else validate_policies ps)"

definition validateDraft :: "sampler_draft \<Rightarrow> string option" where
  "validateDraft d =
     (if selectedType d = ''probabilistic'' \<and> out_of_unit (probRate d)
      then Some ''Probabilistic rate must be between 0 and 1.''
      else if selectedType d = ''ratelimit'' \<and> rlTps d \<le> 0
      then Some ''Trace rate limit must be greater than 0.''
      else if selectedType d = ''adaptive'' \<and> adaptTarget d \<le> 0
      then Some ''Adaptive target rate must be greater than 0.''
      else if selectedType d = ''adaptive'' \<and> (out_of_unit (adaptMin d) \<or> out_of_unit (adaptMax d))
      then Some ''Adaptive min and max rates must be between 0 and 1.''
      else if selectedType d = ''adaptive'' \<and> adaptMin d > adaptMax d
      then Some ''Adaptive min rate must be less than or equal to the max rate.''
      else if selectedType d = ''rules'' then validate_rules (rules d)
      else if selectedType d = ''tail'' then
        (if tailTimeout d \<le> 0 then Some ''Tail buffer timeout must be greater than 0.''
         else validate_policies (tailPolicies d))
      else None)"

section \<open>Lemmas\<close>

named_theorems draft_simps "reading back what a body contains"

lemma readNumber_JNum [draft_simps]: "readNumber (Some (JNum x)) y = x"
  by (simp add: readNumber_def)

lemma readString_JStr [draft_simps]: "readString (Some (JStr s)) t = s"
  by (simp add: readString_def)

lemma readArray_JArr [draft_simps]: "readArray (Some (JArr xs)) = xs"
  by (simp add: readArray_def)

lemma jget_Cons [draft_simps]: "jget ((k, v) # fs) k' = (if k' = k then Some v else jget fs k')"
  by (simp add: jget_def)

lemma jget_Nil [draft_simps]: "jget [] k = None"
  by (simp add: jget_def)

lemma rule_drafts_ids:
  "map rd_id (fst (rule_drafts n js)) = [Suc n ..< Suc (snd (rule_drafts n js))] \<and>
   n \<le> snd (rule_drafts n js)"
proof (induction js arbitrary: n)
  case (Cons j js)
  show ?case
    using Cons [of n] Cons [of "Suc n"]
    by (auto simp: rule_draft_def Let_def upt_rec [of "Suc n"] split: option.splits prod.splits)
qed simp

lemma policy_drafts_ids:
  "map pd_id (fst (policy_drafts n js)) = [Suc n ..< Suc (snd (policy_drafts n js))] \<and>
   n \<le> snd (policy_drafts n js)"
proof (induction js arbitrary: n)
  case (Cons j js)
  show ?case
    using Cons [of n] Cons [of "Suc n"]
    by (auto simp: policy_draft_def Let_def upt_rec [of "Suc n"] split: option.splits prod.splits)
qed simp

lemma rule_body_back: "rule_body (rule_draft i (case rule_body r of JObj fs \<Rightarrow> fs)) = rule_body r"
  by (simp add: rule_body_def rule_draft_def draft_simps)

lemma rule_drafts_back:
  "map rule_body (fst (rule_drafts n (map rule_body rs))) = map rule_body rs \<and>
   length (fst (rule_drafts n (map rule_body rs))) = length rs"
proof (induction rs arbitrary: n)
  case (Cons r rs)
  have "rule_body r = JObj (case rule_body r of JObj fs \<Rightarrow> fs)" by (simp add: rule_body_def)
  then have "as_object (rule_body r) = Some (case rule_body r of JObj fs \<Rightarrow> fs)"
    by (metis as_object.simps(1))
  with Cons [of "Suc n"] show ?case by (simp add: rule_body_back split_def Let_def)
qed simp

lemma policy_body_back:
  "policy_body (policy_draft i (case policy_body p of JObj fs \<Rightarrow> fs)) = policy_body p"
  by (simp add: policy_body_def policy_draft_def draft_simps)

lemma policy_drafts_back:
  "map policy_body (fst (policy_drafts n (map policy_body ps))) = map policy_body ps \<and>
   length (fst (policy_drafts n (map policy_body ps))) = length ps"
proof (induction ps arbitrary: n)
  case (Cons p ps)
  have "policy_body p = JObj (case policy_body p of JObj fs \<Rightarrow> fs)" by (simp add: policy_body_def)
  then have "as_object (policy_body p) = Some (case policy_body p of JObj fs \<Rightarrow> fs)"
    by (metis as_object.simps(1))
  with Cons [of "Suc n"] show ?case by (simp add: policy_body_back split_def Let_def)
qed simp

lemma buildRuleDrafts_back:
  assumes "rs \<noteq> []" and "jget c ''rules'' = Some (JArr (map rule_body rs))"
  shows "map rule_body (fst (buildRuleDrafts c ids)) = map rule_body rs"
  using assms rule_drafts_back [of "nextRuleID ids" rs]
  by (auto simp: buildRuleDrafts_def draft_simps split: prod.splits)

lemma buildTailPolicyDrafts_back:
  assumes "ps \<noteq> []" and "jget c ''policies'' = Some (JArr (map policy_body ps))"
  shows "map policy_body (fst (buildTailPolicyDrafts c ids)) = map policy_body ps"
  using assms policy_drafts_back [of "nextPolicyID ids" ps]
  by (auto simp: buildTailPolicyDrafts_def draft_simps split: prod.splits)

lemma validate_rules_None:
  "validate_rules rs = None \<longleftrightarrow>
   list_all (\<lambda>r. trim (rd_operationGlob r) \<noteq> [] \<and>
     (rd_samplerType r = ''probabilistic'' \<longrightarrow> \<not> out_of_unit (rd_samplerRate r))) rs"
  by (induction rs) auto

lemma validate_policies_None:
  "validate_policies ps = None \<longleftrightarrow>
   list_all (\<lambda>p. (pd_type p = ''latency'' \<longrightarrow> 0 < pd_thresholdMs p) \<and>
     (pd_type p = ''probabilistic'' \<longrightarrow> \<not> out_of_unit (pd_rate p))) ps"
  by (induction ps) auto

section \<open>Properties\<close>

text \<open>
  Round trip. Reading a configuration that holds the fields of a request body gives a
  draft with that same body, for every strategy; lists of rules and policies must not be
  empty (an empty one is read as the default rule or policy).
\<close>

theorem body_reads_back:
  assumes "selectedType d = ''rules'' \<longrightarrow> rules d \<noteq> []"
    and "selectedType d = ''tail'' \<longrightarrow> tailPolicies d \<noteq> []"
  shows "buildBody (fst (draft_from_config (selectedType d) (buildBody d) ids)) = buildBody d"
proof -
  let ?b = "buildBody d"
  define e where "e = fst (draft_from_config (selectedType d) ?b ids)"
  have e: "selectedType e = selectedType d"
      "probRate e = readNumber (jget ?b ''rate'') (1 / 10)"
      "rlTps e = readNumber (jget ?b ''tracesPerSec'') 100"
      "adaptTarget e = readNumber (jget ?b ''targetRate'') 100"
      "adaptMin e = readNumber (jget ?b ''minRate'') (1 / 1000)"
      "adaptMax e = readNumber (jget ?b ''maxRate'') 1"
      "tailTimeout e = readNumber (jget ?b ''bufferTimeoutSec'') 10"
    and rs: "rules e = fst (buildRuleDrafts ?b ids)"
    and ps: "tailPolicies e = fst (buildTailPolicyDrafts ?b (snd (buildRuleDrafts ?b ids)))"
    by (simp_all add: e_def draft_from_config_def split_def Let_def)
  have "map policy_body (tailPolicies e) = map policy_body (tailPolicies d)"
    if "selectedType d = ''tail''"
    unfolding ps by (rule buildTailPolicyDrafts_back)
      (use assms that in \<open>simp_all add: buildBody_def draft_simps\<close>)
  moreover have "map rule_body (rules e) = map rule_body (rules d)"
    if "selectedType d = ''rules''"
    unfolding rs by (rule buildRuleDrafts_back)
      (use assms that in \<open>simp_all add: buildBody_def draft_simps\<close>)
  ultimately have "buildBody e = ?b"
    by (simp add: buildBody_def [of e] e) (simp add: buildBody_def draft_simps)
  then show ?thesis by (simp add: e_def)
qed

theorem body_reads_back_witness:
  "buildBody (fst (draft_from_config ''tail'' (buildBody (initial_draft\<lparr>selectedType := ''tail'',
     tailPolicies := [(new_policy 1)\<lparr>pd_type := ''latency'', pd_thresholdMs := 250\<rparr>]\<rparr>)) initial_ids))
   = [(''type'', JStr ''tail''), (''bufferTimeoutSec'', JNum 10),
      (''policies'', JArr [JObj [(''type'', JStr ''latency''), (''thresholdMs'', JNum 250)]])]"
proof -
  let ?d = "initial_draft\<lparr>selectedType := ''tail'',
     tailPolicies := [(new_policy 1)\<lparr>pd_type := ''latency'', pd_thresholdMs := 250\<rparr>]\<rparr>"
  have "buildBody (fst (draft_from_config (selectedType ?d) (buildBody ?d) initial_ids)) = buildBody ?d"
    by (rule body_reads_back) simp_all
  moreover have "selectedType ?d = ''tail''" by simp
  moreover have "buildBody ?d = [(''type'', JStr ''tail''), (''bufferTimeoutSec'', JNum 10),
      (''policies'', JArr [JObj [(''type'', JStr ''latency''), (''thresholdMs'', JNum 250)]])]"
    by (simp add: buildBody_def policy_body_def initial_draft_def new_policy_def)
  ultimately show ?thesis by (simp only:)
qed

text \<open>
  The configuration the collector reports for a rule-based sampler holds only the number
  of rules and the fallback, and for a tail sampler other names: read back, the active
  rules, policies and timeout are replaced by the defaults of the form.
\<close>

theorem reported_rules_are_lost:
  "map rule_body (rules (fst (draft_from_config ''rules''
     [(''ruleCount'', JNum n), (''fallback'', JStr f)] ids))) = [rule_body (new_rule 0)] \<and>
   tailTimeout (fst (draft_from_config ''tail''
     [(''timeoutSec'', JNum t), (''maxSize'', JNum m), (''bufferedTraces'', JNum b)] ids)) = 10"
  by (simp add: draft_from_config_def buildRuleDrafts_def buildTailPolicyDrafts_def readArray_def
      readNumber_def draft_simps new_rule_def rule_body_def)

end
