(* ===== verification/SamplerApi.thy ===== *)
theory SamplerApi
  imports SamplerDraft
begin

text \<open>
  The collector's side of a sampler change, \<open>HandlePutSampler\<close> of \<open>api/handler_sampler.go\<close>:
  decoding the request (\<open>SamplerConfigRequest\<close> of \<open>api/dto.go\<close>) and building the sampler it
  asks for. It is what the form's validation and its request body have to agree with.
\<close>

section \<open>Definitions\<close>

subsection \<open>Decoding\<close>

text \<open>
  \<open>encoding/json\<close> on the fields of the request: a missing field or \<open>null\<close> leaves the zero
  value, a value of another type is an error; a number for an \<open>int\<close> must be integral.
\<close>

definition dec_float :: "json option \<Rightarrow> num option option" where
  "dec_float v = (case v of
     None \<Rightarrow> Some None | Some JNull \<Rightarrow> Some None | Some (JNum x) \<Rightarrow> Some (Some x) | _ \<Rightarrow> None)"

definition dec_string :: "json option \<Rightarrow> string option" where
  "dec_string v = (case v of
     None \<Rightarrow> Some [] | Some JNull \<Rightarrow> Some [] | Some (JStr s) \<Rightarrow> Some s | _ \<Rightarrow> None)"

definition dec_int :: "json option \<Rightarrow> int option" where
  "dec_int v = (case v of
     None \<Rightarrow> Some 0 | Some JNull \<Rightarrow> Some 0
   | Some (JNum x) \<Rightarrow> if of_int \<lfloor>x\<rfloor> = x then Some \<lfloor>x\<rfloor> else None | _ \<Rightarrow> None)"

fun dec_all :: "((string \<times> json) list \<Rightarrow> 'a option) \<Rightarrow> json list \<Rightarrow> 'a list option" where
  "dec_all f [] = Some []"
| "dec_all f (JObj fs # js) =
     (case f fs of None \<Rightarrow> None | Some x \<Rightarrow> map_option (\<lambda>xs. x # xs) (dec_all f js))"
| "dec_all f (JNull # js) =
     (case f [] of None \<Rightarrow> None | Some x \<Rightarrow> map_option (\<lambda>xs. x # xs) (dec_all f js))"
| "dec_all f (j # js) = None"

definition dec_list :: "((string \<times> json) list \<Rightarrow> 'a option) \<Rightarrow> json option \<Rightarrow> 'a list option" where
  "dec_list f v = (case v of
     None \<Rightarrow> Some [] | Some JNull \<Rightarrow> Some [] | Some (JArr js) \<Rightarrow> dec_all f js | _ \<Rightarrow> None)"

record SamplerDTO =
  sd_type :: string
  sd_rate :: "num option"

record RuleDTO =
  r_operationGlob :: string
  r_serviceName :: string
  r_priority :: int
  r_sampler :: "SamplerDTO option"

record TailPolicyDTO =
  tpd_type :: string
  tpd_thresholdMs :: "num option"
  tpd_rate :: "num option"

record SamplerConfigRequest =
  req_type :: string
  req_rate :: "num option"
  req_tracesPerSec :: "num option"
  req_targetRate :: "num option"
  req_minRate :: "num option"
  req_maxRate :: "num option"
  req_bufferTimeoutSec :: "num option"
  req_policies :: "TailPolicyDTO list"
  req_rules :: "RuleDTO list"

definition dec_sampler :: "json option \<Rightarrow> SamplerDTO option option" where
  "dec_sampler v = (case v of
     None \<Rightarrow> Some None
   | Some JNull \<Rightarrow> Some None
   | Some (JObj fs) \<Rightarrow>
       (case (dec_string (jget fs ''type''), dec_float (jget fs ''rate'')) of
          (Some t, Some r) \<Rightarrow> Some (Some \<lparr>sd_type = t, sd_rate = r\<rparr>) | _ \<Rightarrow> None)
   | _ \<Rightarrow> None)"

definition dec_rule :: "(string \<times> json) list \<Rightarrow> RuleDTO option" where
  "dec_rule fs =
     (case (dec_string (jget fs ''operationGlob''), dec_string (jget fs ''serviceName''),
            dec_int (jget fs ''priority''), dec_sampler (jget fs ''sampler'')) of
        (Some g, Some s, Some p, Some sm) \<Rightarrow>
          Some \<lparr>r_operationGlob = g, r_serviceName = s, r_priority = p, r_sampler = sm\<rparr>
      | _ \<Rightarrow> None)"

definition dec_policy :: "(string \<times> json) list \<Rightarrow> TailPolicyDTO option" where
  "dec_policy fs =
     (case (dec_string (jget fs ''type''), dec_float (jget fs ''thresholdMs''),
            dec_float (jget fs ''rate'')) of
        (Some t, Some th, Some r) \<Rightarrow> Some \<lparr>tpd_type = t, tpd_thresholdMs = th, tpd_rate = r\<rparr>
      | _ \<Rightarrow> None)"

definition dec_request :: "(string \<times> json) list \<Rightarrow> SamplerConfigRequest option" where
  "dec_request fs =
     (case (dec_string (jget fs ''type''), dec_float (jget fs ''rate''),
            dec_float (jget fs ''tracesPerSec''), dec_float (jget fs ''targetRate''),
            dec_float (jget fs ''minRate''), dec_float (jget fs ''maxRate''),
            dec_float (jget fs ''bufferTimeoutSec''),
            dec_list dec_policy (jget fs ''policies''), dec_list dec_rule (jget fs ''rules'')) of
        (Some t, Some r, Some tps, Some tr, Some mn, Some mx, Some b, Some ps, Some rs) \<Rightarrow>
          Some \<lparr>req_type = t, req_rate = r, req_tracesPerSec = tps, req_targetRate = tr,
                req_minRate = mn, req_maxRate = mx, req_bufferTimeoutSec = b,
                req_policies = ps, req_rules = rs\<rparr>
      | _ \<Rightarrow> None)"

subsection \<open>Building the sampler\<close>

datatype head_sampler = Always | Never | Probabilistic num

record rule_spec =
  rs_operationGlob :: string
  rs_service :: string
  rs_priority :: int
  rs_sampler :: "head_sampler option"

datatype tail_policy = ErrorPolicy | LatencyPolicy num | ProbabilisticPolicy num

text \<open>The sampler built: the constructor with its arguments; a latency in milliseconds.\<close>

datatype sampler_spec =
    HeadSampler head_sampler
  | RateLimit num
  | Adaptive num num num
  | RuleBased "rule_spec list"
  | TailBased num "tail_policy list"

definition default :: "'a \<Rightarrow> 'a option \<Rightarrow> 'a" where
  "default d v = (case v of None \<Rightarrow> d | Some x \<Rightarrow> x)"

definition validateRate :: "num \<Rightarrow> string \<Rightarrow> string option" where
  "validateRate v field =
     (if v < 0 \<or> v > 1 then Some (field @ '' must be between 0 and 1'') else None)"

definition build_rule :: "RuleDTO \<Rightarrow> string + rule_spec" where
  "build_rule r =
     (let rule = (\<lambda>s. \<lparr>rs_operationGlob = r_operationGlob r, rs_service = r_serviceName r,
                       rs_priority = r_priority r, rs_sampler = s\<rparr>)
      in case r_sampler r of
           None \<Rightarrow> Inr (rule None)
         | Some s \<Rightarrow>
             if sd_type s = ''always'' then Inr (rule (Some Always))
             else if sd_type s = ''never'' then Inr (rule (Some Never))
             else if sd_type s = ''probabilistic'' then
               (let rate = default (1 / 10) (sd_rate s)
                in case validateRate rate ''rules[].sampler.rate'' of
                     Some e \<Rightarrow> Inl e | None \<Rightarrow> Inr (rule (Some (Probabilistic rate))))
             else Inl (''unknown rules[].sampler.type '' @ sd_type s))"

definition build_policy :: "TailPolicyDTO \<Rightarrow> string + tail_policy" where
  "build_policy p =
     (if tpd_type p = ''error'' then Inr ErrorPolicy
      else if tpd_type p = ''latency'' then
        (let threshold = default 500 (tpd_thresholdMs p)
         in if threshold \<le> 0 then Inl ''tail latency thresholdMs must be > 0''
            else Inr (LatencyPolicy threshold))
      else if tpd_type p = ''probabilistic'' then
        (let rate = default (1 / 10) (tpd_rate p)
         in case validateRate rate ''tail probabilistic rate'' of
              Some e \<Rightarrow> Inl e | None \<Rightarrow> Inr (ProbabilisticPolicy rate))
      else Inl (''unknown tail policy type '' @ tpd_type p))"

text \<open>The loops that build a list return at the first error.\<close>

fun build_all :: "('a \<Rightarrow> string + 'b) \<Rightarrow> 'a list \<Rightarrow> string + 'b list" where
  "build_all f [] = Inr []"
| "build_all f (x # xs) =
     (case f x of
        Inl e \<Rightarrow> Inl e
      | Inr y \<Rightarrow> (case build_all f xs of Inl e \<Rightarrow> Inl e | Inr ys \<Rightarrow> Inr (y # ys)))"

definition build_adaptive :: "num \<Rightarrow> num \<Rightarrow> num \<Rightarrow> string + sampler_spec" where
  "build_adaptive target minRate maxRate =
     (if target \<le> 0 then Inl ''targetRate must be > 0''
      else case validateRate minRate ''minRate'' of
        Some e \<Rightarrow> Inl e
      | None \<Rightarrow> (case validateRate maxRate ''maxRate'' of
          Some e \<Rightarrow> Inl e
        | None \<Rightarrow> if minRate > maxRate then Inl ''minRate must be <= maxRate''
                 else Inr (Adaptive target minRate maxRate)))"

definition buildSampler :: "SamplerConfigRequest \<Rightarrow> string + sampler_spec" where
  "buildSampler req =
     (if req_type req = ''always'' then Inr (HeadSampler Always)
      else if req_type req = ''never'' then Inr (HeadSampler Never)
      else if req_type req = ''probabilistic'' then
        (let rate = default (1 / 10) (req_rate req)
         in case validateRate rate ''rate'' of
              Some e \<Rightarrow> Inl e | None \<Rightarrow> Inr (HeadSampler (Probabilistic rate)))
      else if req_type req = ''ratelimit'' then
        (let tps = default 100 (req_tracesPerSec req)
         in if tps \<le> 0 then Inl ''tracesPerSec must be > 0'' else Inr (RateLimit tps))
      else if req_type req = ''adaptive'' then
        build_adaptive (default 100 (req_targetRate req)) (default (1 / 1000) (req_minRate req))
          (default 1 (req_maxRate req))
      else if req_type req = ''rules'' then
        (case build_all build_rule (req_rules req) of Inl e \<Rightarrow> Inl e | Inr rs \<Rightarrow> Inr (RuleBased rs))
      else if req_type req = ''tail'' then
        (let timeout = default 10 (req_bufferTimeoutSec req)
         in if timeout \<le> 0 then Inl ''bufferTimeoutSec must be > 0''
            else case build_all build_policy (req_policies req) of
                   Inl e \<Rightarrow> Inl e | Inr ps \<Rightarrow> Inr (TailBased timeout ps))
      else Inl (''unknown sampler type '' @ req_type req))"

text \<open>\<open>HandlePutSampler\<close>: the error of a 400 answer, or the sampler swapped in.\<close>

definition HandlePutSampler :: "(string \<times> json) list \<Rightarrow> string + sampler_spec" where
  "HandlePutSampler body =
     (case dec_request body of None \<Rightarrow> Inl ''invalid JSON'' | Some req \<Rightarrow> buildSampler req)"

subsection \<open>What a draft asks for\<close>

definition rule_meaning :: "RuleDraft \<Rightarrow> rule_spec" where
  "rule_meaning r =
     \<lparr>rs_operationGlob = rd_operationGlob r, rs_service = rd_service r,
      rs_priority = \<lfloor>rd_priority r\<rfloor>,
      rs_sampler = Some (if rd_samplerType r = ''always'' then Always
        else if rd_samplerType r = ''never'' then Never else Probabilistic (rd_samplerRate r))\<rparr>"

definition policy_meaning :: "TailPolicyDraft \<Rightarrow> tail_policy" where
  "policy_meaning p =
     (if pd_type p = ''error'' then ErrorPolicy
      else if pd_type p = ''latency'' then LatencyPolicy (pd_thresholdMs p)
      else ProbabilisticPolicy (pd_rate p))"

definition draft_meaning :: "sampler_draft \<Rightarrow> sampler_spec" where
  "draft_meaning d =
     (if selectedType d = ''always'' then HeadSampler Always
      else if selectedType d = ''never'' then HeadSampler Never
      else if selectedType d = ''probabilistic'' then HeadSampler (Probabilistic (probRate d))
      else if selectedType d = ''ratelimit'' then RateLimit (rlTps d)
      else if selectedType d = ''adaptive'' then Adaptive (adaptTarget d) (adaptMin d) (adaptMax d)
      else if selectedType d = ''rules'' then RuleBased (map rule_meaning (rules d))
      else TailBased (tailTimeout d) (map policy_meaning (tailPolicies d)))"

text \<open>What the form's controls can hold: the options of its lists, integral priorities.\<close>

definition form_draft :: "sampler_draft \<Rightarrow> bool" where
  "form_draft d \<longleftrightarrow>
     selectedType d \<in> {''always'', ''never'', ''probabilistic'', ''ratelimit'', ''adaptive'', ''rules'', ''tail''} \<and>
     list_all (\<lambda>r. rd_samplerType r \<in> {''always'', ''never'', ''probabilistic''} \<and>
                   of_int \<lfloor>rd_priority r\<rfloor> = rd_priority r) (rules d) \<and>
     list_all (\<lambda>p. pd_type p \<in> {''error'', ''latency'', ''probabilistic''}) (tailPolicies d)"

section \<open>Lemmas\<close>

lemmas dec_defs = dec_float_def dec_string_def dec_int_def dec_list_def dec_sampler_def

text \<open>If each element is decoded and built as meant, so is the list.\<close>

lemma accepted_all:
  "(\<And>x. x \<in> set xs \<Longrightarrow>
      \<exists>fs dto. body x = JObj fs \<and> dec fs = Some dto \<and> build dto = Inr (meaning x)) \<Longrightarrow>
   \<exists>ds. dec_all dec (map body xs) = Some ds \<and> build_all build ds = Inr (map meaning xs)"
proof (induction xs)
  case (Cons x xs)
  from Cons.IH Cons.prems obtain ds where
    "dec_all dec (map body xs) = Some ds" "build_all build ds = Inr (map meaning xs)"
    by auto
  with Cons.prems [of x] show ?case by auto
qed simp

lemma rule_accepted:
  assumes "rd_samplerType r \<in> {''always'', ''never'', ''probabilistic''}"
    and "of_int \<lfloor>rd_priority r\<rfloor> = rd_priority r"
    and "rd_samplerType r = ''probabilistic'' \<longrightarrow> \<not> out_of_unit (rd_samplerRate r)"
  shows "\<exists>fs dto. rule_body r = JObj fs \<and> dec_rule fs = Some dto \<and> build_rule dto = Inr (rule_meaning r)"
  using assms
  by (auto simp: rule_body_def dec_rule_def dec_defs draft_simps build_rule_def rule_meaning_def
      validateRate_def default_def out_of_unit_def Let_def)

lemma policy_accepted:
  assumes "pd_type p \<in> {''error'', ''latency'', ''probabilistic''}"
    and "pd_type p = ''latency'' \<longrightarrow> 0 < pd_thresholdMs p"
    and "pd_type p = ''probabilistic'' \<longrightarrow> \<not> out_of_unit (pd_rate p)"
  shows "\<exists>fs dto. policy_body p = JObj fs \<and> dec_policy fs = Some dto \<and>
           build_policy dto = Inr (policy_meaning p)"
  using assms
  by (auto simp: policy_body_def dec_policy_def dec_defs draft_simps build_policy_def
      policy_meaning_def validateRate_def default_def out_of_unit_def Let_def)

lemma rules_accepted:
  assumes "list_all (\<lambda>r. rd_samplerType r \<in> {''always'', ''never'', ''probabilistic''} \<and>
      of_int \<lfloor>rd_priority r\<rfloor> = rd_priority r) rs" and "validate_rules rs = None"
  shows "\<exists>ds. dec_all dec_rule (map rule_body rs) = Some ds \<and>
           build_all build_rule ds = Inr (map rule_meaning rs)"
  using assms by (intro accepted_all rule_accepted) (auto simp: validate_rules_None list_all_iff)

lemma policies_accepted:
  assumes "list_all (\<lambda>p. pd_type p \<in> {''error'', ''latency'', ''probabilistic''}) ps"
    and "validate_policies ps = None"
  shows "\<exists>ds. dec_all dec_policy (map policy_body ps) = Some ds \<and>
           build_all build_policy ds = Inr (map policy_meaning ps)"
  using assms by (intro accepted_all policy_accepted) (auto simp: validate_policies_None list_all_iff)

lemmas put_defs = HandlePutSampler_def dec_request_def buildBody_def draft_simps dec_defs
  buildSampler_def draft_meaning_def default_def Let_def

lemma form_accepted:
  assumes "form_draft d" and "validateDraft d = None"
  shows "HandlePutSampler (buildBody d) = Inr (draft_meaning d)"
proof -
  have r: "list_all (\<lambda>r. rd_samplerType r \<in> {''always'', ''never'', ''probabilistic''} \<and>
                   of_int \<lfloor>rd_priority r\<rfloor> = rd_priority r) (rules d)"
    and p: "list_all (\<lambda>p. pd_type p \<in> {''error'', ''latency'', ''probabilistic''}) (tailPolicies d)"
    using assms(1) by (simp_all add: form_draft_def)
  from assms(1) consider "selectedType d = ''always''" | "selectedType d = ''never''"
    | "selectedType d = ''probabilistic''" | "selectedType d = ''ratelimit''"
    | "selectedType d = ''adaptive''" | "selectedType d = ''rules''" | "selectedType d = ''tail''"
    by (auto simp: form_draft_def)
  then show ?thesis
  proof cases
    case 1
    then show ?thesis by (simp add: put_defs)
  next
    case 2
    then show ?thesis by (simp add: put_defs)
  next
    case 3
    with assms(2) have "\<not> out_of_unit (probRate d)" by (simp add: validateDraft_def split: if_splits)
    with 3 show ?thesis by (simp add: put_defs out_of_unit_def validateRate_def)
  next
    case 4
    with assms(2) have "0 < rlTps d" by (simp add: validateDraft_def split: if_splits)
    with 4 show ?thesis by (simp add: put_defs)
  next
    case 5
    with assms(2) have "0 < adaptTarget d" "\<not> out_of_unit (adaptMin d)" "\<not> out_of_unit (adaptMax d)"
      "adaptMin d \<le> adaptMax d"
      by (simp_all add: validateDraft_def split: if_splits)
    with 5 show ?thesis by (simp add: put_defs build_adaptive_def out_of_unit_def validateRate_def)
  next
    case 6
    with assms(2) have "validate_rules (rules d) = None" by (simp add: validateDraft_def)
    from rules_accepted [OF r this] 6 show ?thesis by (auto simp: put_defs)
  next
    case 7
    with assms(2) have "validate_policies (tailPolicies d) = None" "0 < tailTimeout d"
      by (simp_all add: validateDraft_def split: if_splits)
    from policies_accepted [OF p this(1)] this(2) 7 show ?thesis by (auto simp: put_defs)
  qed
qed

section \<open>Properties\<close>

text \<open>
  The form and the collector agree: a draft of the form that passes its validation is
  sent as a body the collector accepts, and the sampler built from it is the one the draft
  describes, with its rules and policies in order.
\<close>

theorem valid_draft_is_accepted:
  assumes "form_draft d" and "validateDraft d = None"
  shows "HandlePutSampler (buildBody d) = Inr (draft_meaning d)"
  using assms by (rule form_accepted)

theorem valid_draft_is_accepted_witness:
  "HandlePutSampler (buildBody (initial_draft\<lparr>selectedType := ''rules'',
     rules := [(new_rule 1)\<lparr>rd_samplerType := ''probabilistic'', rd_samplerRate := 1 / 2\<rparr>]\<rparr>))
   = Inr (RuleBased [\<lparr>rs_operationGlob = ''*'', rs_service = [], rs_priority = 10,
                      rs_sampler = Some (Probabilistic (1 / 2))\<rparr>])"
proof -
  let ?d = "initial_draft\<lparr>selectedType := ''rules'',
     rules := [(new_rule 1)\<lparr>rd_samplerType := ''probabilistic'', rd_samplerRate := 1 / 2\<rparr>]\<rparr>"
  have "form_draft ?d" by (simp add: form_draft_def new_rule_def initial_draft_def)
  moreover have "validateDraft ?d = None" by code_simp
  ultimately have "HandlePutSampler (buildBody ?d) = Inr (draft_meaning ?d)"
    by (rule valid_draft_is_accepted)
  then show ?thesis
    by (simp add: draft_meaning_def rule_meaning_def new_rule_def)
qed

text \<open>
  What the validation misses: a rule whose priority is not an integer passes it, and the
  collector answers that the body is not valid JSON.
\<close>

theorem fractional_priority_refused:
  "let d = initial_draft\<lparr>selectedType := ''rules'', rules := [(new_rule 1)\<lparr>rd_priority := 3 / 2\<rparr>]\<rparr>
   in validateDraft d = None \<and> HandlePutSampler (buildBody d) = Inl ''invalid JSON''"
  by code_simp

end
