(* ===== verification/SamplerPage.thy ===== *)
theory SamplerPage
  imports SamplerApi Latest Collector Shell
begin

text \<open>
  The page \<open>pages/Sampler.tsx\<close> around the form of \<open>SamplerDraft\<close>: polling, local edits,
  preview and confirmation of a change, the throughput history.
\<close>

section \<open>Definitions\<close>

record ThroughputPoint =
  tpt_t :: string
  tpt_sampled :: int
  tpt_dropped :: int
  tpt_rate :: num

definition MAX_HISTORY :: nat where
  "MAX_HISTORY = 60"

text \<open>
  \<open>sm_captured\<close>: for each request, whether the closure of \<open>fetchConfig\<close> that sent it saw
  local edits or a pending body. \<open>sm_puts\<close>: the bodies sent by confirmations, latest first.
\<close>

record sampler_page =
  sm_config :: "SamplerConfig option"
  sm_draft :: sampler_draft
  sm_ids :: draft_ids
  sm_loading :: bool
  sm_error :: "string option"
  sm_pending :: "(string \<times> json) list option"
  sm_history :: "ThroughputPoint list"
  sm_edits :: bool
  sm_prevSampled :: int
  sm_prevDropped :: int
  sm_reqs :: requests
  sm_captured :: "nat \<Rightarrow> bool"
  sm_puts :: "(string \<times> json) list list"

definition sampler_initial :: "draft_ids \<Rightarrow> sampler_page" where
  "sampler_initial ids =
     \<lparr>sm_config = None, sm_draft = initial_draft, sm_ids = ids, sm_loading = True, sm_error = None,
      sm_pending = None, sm_history = [], sm_edits = False, sm_prevSampled = 0, sm_prevDropped = 0,
      sm_reqs = no_requests, sm_captured = (\<lambda>_. False), sm_puts = []\<rparr>"

text \<open>\<open>hasLocalEdits\<close> or a pending body: the state in which polls leave the form alone.\<close>

definition guarded :: "sampler_page \<Rightarrow> bool" where
  "guarded s \<longleftrightarrow> sm_edits s \<or> sm_pending s \<noteq> None"

definition applyDraftFromConfig :: "SamplerConfig \<Rightarrow> sampler_page \<Rightarrow> sampler_page" where
  "applyDraftFromConfig c s =
     (let (d, ids) = draft_from_config (sc_type c) (sc_config c) (sm_ids s)
      in s\<lparr>sm_draft := d, sm_ids := ids, sm_pending := None, sm_edits := False\<rparr>)"

subsection \<open>Polling\<close>

text \<open>
  \<open>fetchConfig\<close>, with what its closure captured. The timers and the event stream call the
  closure of the last rendering, which captured the current state.
\<close>

definition fetchConfig :: "bool \<Rightarrow> sampler_page \<Rightarrow> sampler_page" where
  "fetchConfig captured s =
     (let q = begin_request (sm_reqs s)
      in s\<lparr>sm_reqs := q, sm_captured := (sm_captured s)(requestId q := captured), sm_error := None\<rparr>)"

definition sampler_poll :: "sampler_page \<Rightarrow> sampler_page" where
  "sampler_poll s = fetchConfig (guarded s) s"

definition sampler_finally :: "nat \<Rightarrow> sampler_page \<Rightarrow> sampler_page" where
  "sampler_finally i s = (if i = requestId (sm_reqs s) then s\<lparr>sm_loading := False\<rparr> else s)"

definition add_history :: "string \<Rightarrow> SamplerConfig \<Rightarrow> sampler_page \<Rightarrow> sampler_page" where
  "add_history now c s =
     (let st = stats c;
          point = \<lparr>tpt_t = now, tpt_sampled = sampledTotal st - sm_prevSampled s,
                   tpt_dropped = droppedTotal st - sm_prevDropped s, tpt_rate = samplingRate st * 100\<rparr>;
          next' = sm_history s @ [point]
      in s\<lparr>sm_prevSampled := sampledTotal st, sm_prevDropped := droppedTotal st,
           sm_history := (if length next' > MAX_HISTORY then slice_last MAX_HISTORY next' else next')\<rparr>)"

text \<open>A response comes with the time of day it is labelled with.\<close>

definition sampler_then :: "nat \<Rightarrow> string \<times> SamplerConfig \<Rightarrow> sampler_page \<Rightarrow> sampler_page" where
  "sampler_then i r s = sampler_finally i
     (if i \<noteq> requestId (sm_reqs s) then s
      else let s1 = s\<lparr>sm_config := Some (snd r)\<rparr>;
               s2 = (if \<not> sm_captured s i then applyDraftFromConfig (snd r) s1 else s1)
           in add_history (fst r) (snd r) s2)"

definition sampler_catch :: "nat \<Rightarrow> failure \<Rightarrow> sampler_page \<Rightarrow> sampler_page" where
  "sampler_catch i e s = sampler_finally i
     (if is_abort e then s
      else if i \<noteq> requestId (sm_reqs s) then s
      else s\<lparr>sm_error := Some (getErrorMessage e ''Failed to load sampler configuration.'')\<rparr>)"

text \<open>
  The effect depends on \<open>fetchConfig\<close>, which changes with the edits and the pending body:
  its cleanup aborts the request in flight (and a timeout starts a new one at once).
\<close>

definition rerendered :: "sampler_page \<Rightarrow> sampler_page \<Rightarrow> sampler_page" where
  "rerendered old new =
     (if sm_edits old \<noteq> sm_edits new \<or> sm_pending old \<noteq> sm_pending new
      then new\<lparr>sm_reqs := abort_current (sm_reqs new)\<rparr> else new)"

subsection \<open>Editing\<close>

definition markDirty :: "sampler_page \<Rightarrow> sampler_page" where
  "markDirty s = s\<lparr>sm_edits := True, sm_pending := None\<rparr>"

text \<open>The controls of the form. A slider sends percents.\<close>

datatype sampler_change =
    SelectType string | SetProbRate num | SetRlTps num
  | SetAdaptTarget num | SetAdaptMin num | SetAdaptMax num
  | RuleGlob nat string | RuleService nat string | RulePriority nat num
  | RuleType nat string | RuleRate nat num | RemoveRule nat | AddRule
  | SetTailTimeout num | PolicyType nat string | PolicyThreshold nat num | PolicyRate nat num
  | RemovePolicy nat | AddPolicy

fun edit_draft :: "sampler_change \<Rightarrow> sampler_draft \<Rightarrow> sampler_draft" where
  "edit_draft (SelectType v) d = d\<lparr>selectedType := v\<rparr>"
| "edit_draft (SetProbRate v) d = d\<lparr>probRate := v / 100\<rparr>"
| "edit_draft (SetRlTps v) d = d\<lparr>rlTps := v\<rparr>"
| "edit_draft (SetAdaptTarget v) d = d\<lparr>adaptTarget := v\<rparr>"
| "edit_draft (SetAdaptMin v) d = d\<lparr>adaptMin := v / 100\<rparr>"
| "edit_draft (SetAdaptMax v) d = d\<lparr>adaptMax := v / 100\<rparr>"
| "edit_draft (RuleGlob i v) d = d\<lparr>rules := map_at i (\<lambda>r. r\<lparr>rd_operationGlob := v\<rparr>) (rules d)\<rparr>"
| "edit_draft (RuleService i v) d = d\<lparr>rules := map_at i (\<lambda>r. r\<lparr>rd_service := v\<rparr>) (rules d)\<rparr>"
| "edit_draft (RulePriority i v) d = d\<lparr>rules := map_at i (\<lambda>r. r\<lparr>rd_priority := v\<rparr>) (rules d)\<rparr>"
| "edit_draft (RuleType i v) d = d\<lparr>rules := map_at i (\<lambda>r. r\<lparr>rd_samplerType := v\<rparr>) (rules d)\<rparr>"
| "edit_draft (RuleRate i v) d = d\<lparr>rules := map_at i (\<lambda>r. r\<lparr>rd_samplerRate := v\<rparr>) (rules d)\<rparr>"
| "edit_draft (RemoveRule i) d = d\<lparr>rules := remove_at i (rules d)\<rparr>"
| "edit_draft (SetTailTimeout v) d = d\<lparr>tailTimeout := v\<rparr>"
| "edit_draft (PolicyType i v) d =
     d\<lparr>tailPolicies := map_at i (\<lambda>p. p\<lparr>pd_type := v\<rparr>) (tailPolicies d)\<rparr>"
| "edit_draft (PolicyThreshold i v) d =
     d\<lparr>tailPolicies := map_at i (\<lambda>p. p\<lparr>pd_thresholdMs := v\<rparr>) (tailPolicies d)\<rparr>"
| "edit_draft (PolicyRate i v) d =
     d\<lparr>tailPolicies := map_at i (\<lambda>p. p\<lparr>pd_rate := v\<rparr>) (tailPolicies d)\<rparr>"
| "edit_draft (RemovePolicy i) d = d\<lparr>tailPolicies := remove_at i (tailPolicies d)\<rparr>"
| "edit_draft AddRule d = d"
| "edit_draft AddPolicy d = d"

definition add_rule :: "sampler_page \<Rightarrow> sampler_page" where
  "add_rule s =
     (let n = Suc (nextRuleID (sm_ids s)); d = sm_draft s
      in s\<lparr>sm_ids := (sm_ids s)\<lparr>nextRuleID := n\<rparr>, sm_draft := d\<lparr>rules := rules d @ [new_rule n]\<rparr>\<rparr>)"

definition add_policy :: "sampler_page \<Rightarrow> sampler_page" where
  "add_policy s =
     (let n = Suc (nextPolicyID (sm_ids s)); d = sm_draft s
      in s\<lparr>sm_ids := (sm_ids s)\<lparr>nextPolicyID := n\<rparr>,
           sm_draft := d\<lparr>tailPolicies := tailPolicies d @ [new_policy n]\<rparr>\<rparr>)"

definition sampler_edit :: "sampler_change \<Rightarrow> sampler_page \<Rightarrow> sampler_page" where
  "sampler_edit e s = rerendered s (markDirty
     (if e = AddRule then add_rule s
      else if e = AddPolicy then add_policy s
      else s\<lparr>sm_draft := edit_draft e (sm_draft s)\<rparr>))"

subsection \<open>Preview and confirmation\<close>

definition previewChange :: "sampler_page \<Rightarrow> sampler_page" where
  "previewChange s =
     (case validateDraft (sm_draft s) of
        Some e \<Rightarrow> s\<lparr>sm_error := Some e\<rparr>
      | None \<Rightarrow> rerendered (s\<lparr>sm_pending := None\<rparr>)
                  (s\<lparr>sm_error := None, sm_pending := Some (buildBody (sm_draft s))\<rparr>))"

definition cancelPreview :: "sampler_page \<Rightarrow> sampler_page" where
  "cancelPreview s = rerendered s (s\<lparr>sm_pending := None\<rparr>)"

definition resetDraft :: "sampler_page \<Rightarrow> sampler_page" where
  "resetDraft s =
     (case sm_config s of
        None \<Rightarrow> s
      | Some c \<Rightarrow> if guarded s then rerendered s (applyDraftFromConfig c s) else s)"

text \<open>
  \<open>handleConfirm\<close>: the request is sent; when it is answered, \<open>fetchConfig\<close> runs as the
  closure of the confirmed rendering has it, that is with a pending body.
\<close>

definition confirm_send :: "sampler_page \<Rightarrow> sampler_page" where
  "confirm_send s =
     (case sm_pending s of None \<Rightarrow> s | Some body \<Rightarrow> s\<lparr>sm_puts := body # sm_puts s\<rparr>)"

definition confirm_done :: "sampler_page \<Rightarrow> sampler_page" where
  "confirm_done s =
     rerendered s (fetchConfig True (s\<lparr>sm_pending := None, sm_edits := False\<rparr>))"

definition confirm_failed :: "failure \<Rightarrow> sampler_page \<Rightarrow> sampler_page" where
  "confirm_failed e s =
     s\<lparr>sm_error := Some (getErrorMessage e ''Failed to apply sampler configuration.'')\<rparr>"

subsection \<open>Steps\<close>

datatype sampler_action =
    Poll | Settle "(string \<times> SamplerConfig) settlement" | Edit sampler_change | Preview | Cancel
  | Reset | ConfirmSend | ConfirmDone | ConfirmFailed failure

fun sampler_step :: "sampler_action \<Rightarrow> sampler_page \<Rightarrow> sampler_page" where
  "sampler_step Poll s = sampler_poll s"
| "sampler_step (Settle x) s = settle sampler_then sampler_catch s x"
| "sampler_step (Edit e) s = sampler_edit e s"
| "sampler_step Preview s = previewChange s"
| "sampler_step Cancel s = cancelPreview s"
| "sampler_step Reset s = resetDraft s"
| "sampler_step ConfirmSend s = confirm_send s"
| "sampler_step ConfirmDone s = confirm_done s"
| "sampler_step (ConfirmFailed e) s = confirm_failed e s"

inductive sampler_reachable :: "sampler_page \<Rightarrow> bool" where
  sampler_start: "sampler_reachable (sampler_initial ids)"
| sampler_next: "sampler_reachable s \<Longrightarrow> sampler_reachable (sampler_step a s)"

subsection \<open>The page\<close>

record strategy =
  strategy_title :: string
  strategy_summary :: string
  strategy_caution :: string

definition strategyDescriptions :: "string \<rightharpoonup> strategy" where
  "strategyDescriptions = map_of
     [(''always'',
        \<lparr>strategy_title = ''Always sample'',
         strategy_summary = ''Capture every trace when fidelity matters more than ingestion cost.'',
         strategy_caution = ''Use only when throughput is low enough that storage and browser rendering can keep up.''\<rparr>),
      (''never'',
        \<lparr>strategy_title = ''Never sample'',
         strategy_summary = ''Drop all traces while preserving the ability to reconfigure quickly.'',
         strategy_caution = ''Useful as a circuit breaker, but it removes the raw data needed for later diagnosis.''\<rparr>),
      (''probabilistic'',
        \<lparr>strategy_title = ''Probabilistic sampling'',
         strategy_summary = ''Apply a stable percentage-based head-sampling rate across incoming traces.'',
         strategy_caution = ''Good for steady traffic, but rare failure paths may disappear if the rate is too low.''\<rparr>),
      (''ratelimit'',
        \<lparr>strategy_title = ''Rate-limited sampling'',
         strategy_summary = ''Cap accepted traces per second to hold ingest volume inside a fixed budget.'',
         strategy_caution = ''Burst traffic can bias which traces survive when the limit is reached.''\<rparr>),
      (''adaptive'',
        \<lparr>strategy_title = ''Adaptive sampling'',
         strategy_summary = ''Continuously adjust the head-sampling rate to steer toward a target trace output rate.'',
         strategy_caution = ''Tune min/max bounds carefully so the controller can react without thrashing.''\<rparr>),
      (''rules'',
        \<lparr>strategy_title = ''Rule-based sampling'',
         strategy_summary = ''Promote or suppress traces using priority-ordered service and operation rules.'',
         strategy_caution = ''Rule overlap can become hard to reason about; keep scopes narrow and explicit.''\<rparr>),
      (''tail'',
        \<lparr>strategy_title = ''Tail-based sampling'',
         strategy_summary = ''Buffer traces long enough to keep errors, latency outliers, and other post-hoc signals.'',
         strategy_caution = ''Tail policies improve relevance but consume memory and increase flush latency.''\<rparr>)]"

definition strategy_of :: "string \<Rightarrow> strategy" where
  "strategy_of ty = (case strategyDescriptions ty of
     Some st \<Rightarrow> st | None \<Rightarrow> the (strategyDescriptions ''always''))"

definition throughputSummary :: "sampler_page \<Rightarrow> int \<times> int \<times> num" where
  "throughputSummary s =
     (if sm_history s = [] then
        (0, 0, (case sm_config s of None \<Rightarrow> 0 | Some c \<Rightarrow> samplingRate (stats c)) * 100)
      else let latest = last (sm_history s)
           in (tpt_sampled latest, tpt_dropped latest, tpt_rate latest))"

text \<open>The controls shown for the selected strategy.\<close>

datatype form_controls =
    ProbForm string num
  | RateLimitForm num
  | AdaptiveForm num string num string num
  | RulesForm "(RuleDraft \<times> bool) list"
  | TailForm num "(TailPolicyDraft \<times> bool \<times> bool) list"
  | NoConfigurationNeeded
  | NoForm

definition sampler_form :: "sampler_draft \<Rightarrow> form_controls" where
  "sampler_form d =
     (if selectedType d = ''probabilistic'' then
        ProbForm (''Rate: '' @ toFixed (probRate d * 100) 0 @ ''%'') (probRate d * 100)
      else if selectedType d = ''ratelimit'' then RateLimitForm (rlTps d)
      else if selectedType d = ''adaptive'' then
        AdaptiveForm (adaptTarget d)
          (''Minimum rate '' @ toFixed (adaptMin d * 100) 1 @ ''%'') (adaptMin d * 100)
          (''Maximum rate '' @ toFixed (adaptMax d * 100) 0 @ ''%'') (adaptMax d * 100)
      else if selectedType d = ''rules'' then
        RulesForm (map (\<lambda>r. (r, rd_samplerType r = ''probabilistic'')) (rules d))
      else if selectedType d = ''tail'' then
        TailForm (tailTimeout d)
          (map (\<lambda>p. (p, pd_type p = ''latency'', pd_type p = ''probabilistic'')) (tailPolicies d))
      else if selectedType d = ''always'' \<or> selectedType d = ''never'' then NoConfigurationNeeded
      else NoForm)"

datatype sampler_retry = FetchConfig

record sampler_view =
  smv_strategy :: strategy
  smv_liveRate :: string
  smv_error :: "string option"
  smv_window :: "(int \<times> int \<times> int) option"
  smv_chart :: "ThroughputPoint list option"
  smv_current :: "(string \<times> (string \<times> json) list) option"
  smv_form :: form_controls
  smv_reset :: "bool option"
  smv_confirm :: "(string \<times> string \<times> (string \<times> json) list) option"

datatype sampler_screen = SamplerNotice "sampler_retry notice" | SamplerView sampler_view

text \<open>The reset button, with whether it can be pressed, and the dialog of a previewed change.\<close>

definition reset_button :: "sampler_page \<Rightarrow> bool option" where
  "reset_button s = map_option (\<lambda>_. guarded s) (sm_config s)"

definition confirm_dialog :: "sampler_page \<Rightarrow> (string \<times> string \<times> (string \<times> json) list) option" where
  "confirm_dialog s =
     map_option (\<lambda>b.
       ((case sm_config s of None \<Rightarrow> ''?'' | Some c \<Rightarrow> sc_type c),
        (case jget b ''type'' of None \<Rightarrow> ''undefined'' | Some j \<Rightarrow> json_str j), b)) (sm_pending s)"

definition sampler_view_of :: "sampler_page \<Rightarrow> sampler_view" where
  "sampler_view_of s =
     (let (sampled, dropped, liveRate) = throughputSummary s
      in \<lparr>smv_strategy = strategy_of (selectedType (sm_draft s)),
          smv_liveRate = toFixed liveRate 1 @ ''%'',
          smv_error = nonempty (sm_error s),
          smv_window = map_option (\<lambda>c. (sampled, dropped,
            sampledTotal (stats c) + droppedTotal (stats c))) (sm_config s),
          smv_chart = (if length (sm_history s) > 1 then Some (sm_history s) else None),
          smv_current = map_option (\<lambda>c. (sc_type c, sc_config c)) (sm_config s),
          smv_form = sampler_form (sm_draft s),
          smv_reset = reset_button s,
          smv_confirm = confirm_dialog s\<rparr>)"

definition SamplerPage_view :: "sampler_page \<Rightarrow> sampler_screen" where
  "SamplerPage_view s =
     (if sm_loading s \<and> sm_config s = None then
        SamplerNotice (bare_notice ''Loading sampler''
          ''Fetching current sampler configuration and throughput history.'')
      else case (nonempty (sm_error s), sm_config s) of
        (Some e, None) \<Rightarrow> SamplerNotice (plain_notice ''Unable to load sampler'' e ''Retry'' FetchConfig)
      | _ \<Rightarrow> SamplerView (sampler_view_of s))"

text \<open>One poll that is answered, and a run of them.\<close>

definition poll_round :: "string \<times> SamplerConfig \<Rightarrow> sampler_page \<Rightarrow> sampler_page" where
  "poll_round r s = (let s' = sampler_poll s in sampler_then (requestId (sm_reqs s')) r s')"

fun poll_rounds :: "(string \<times> SamplerConfig) list \<Rightarrow> sampler_page \<Rightarrow> sampler_page" where
  "poll_rounds [] s = s"
| "poll_rounds (r # rs) s = poll_rounds rs (poll_round r s)"

definition sample_config :: "string \<Rightarrow> int \<Rightarrow> int \<Rightarrow> SamplerConfig" where
  "sample_config ty n m =
     \<lparr>sc_type = ty, sc_config = [], stats = \<lparr>sampledTotal = n, droppedTotal = m, samplingRate = 1 / 2\<rparr>\<rparr>"

section \<open>Lemmas\<close>

lemmas sampler_defs = sampler_then_def sampler_catch_def sampler_finally_def fetchConfig_def
  add_history_def applyDraftFromConfig_def split_def Let_def

interpretation sampler: latest_loading "requestId \<circ> sm_reqs" "fetchConfig captured" sampler_then
  sampler_catch sm_config "\<lambda>r v. Some (snd r)" sm_loading
  for captured
  by unfold_locales (auto simp: sampler_defs)

lemma poll_round_fields:
  "sm_edits (poll_round r s) = (guarded s \<and> sm_edits s)"
  "sm_pending (poll_round r s) = (if guarded s then sm_pending s else None)"
  "sm_draft (poll_round r s) =
     (if guarded s then sm_draft s
      else fst (draft_from_config (sc_type (snd r)) (sc_config (snd r)) (sm_ids s)))"
  "sm_config (poll_round r s) = Some (snd r)"
  "sm_prevSampled (poll_round r s) = sampledTotal (stats (snd r))"
  by (simp_all add: poll_round_def sampler_poll_def sampler_defs)

lemma guarded_poll_round: "guarded (poll_round r s) = guarded s"
  by (auto simp: guarded_def poll_round_fields)

text \<open>The histories: each point counts what was sampled since the one before.\<close>

fun deltas :: "int \<Rightarrow> int list \<Rightarrow> int list" where
  "deltas p [] = []"
| "deltas p (x # xs) = (x - p) # deltas x xs"

lemma slice_last_snoc: "0 < n \<Longrightarrow> slice_last n (slice_last n xs @ [y]) = slice_last n (xs @ [y])"
proof (cases "length xs \<le> n")
  case False
  assume "0 < n"
  with False show ?thesis by (simp add: slice_last_def Suc_diff_le)
qed (simp add: slice_last_def)

lemma slice_last_all: "length xs \<le> n \<Longrightarrow> slice_last n xs = xs"
  by (simp add: slice_last_def)

lemma history_poll_round:
  assumes "map tpt_sampled (sm_history s) = slice_last MAX_HISTORY hs"
  shows "map tpt_sampled (sm_history (poll_round r s)) =
     slice_last MAX_HISTORY (hs @ [sampledTotal (stats (snd r)) - sm_prevSampled s])"
proof -
  let ?y = "sampledTotal (stats (snd r)) - sm_prevSampled s"
  have map_slice: "map f (slice_last n xs) = slice_last n (map f xs)" for f n and xs :: "'b list"
    by (simp add: slice_last_def drop_map)
  have "map tpt_sampled (sm_history (poll_round r s))
      = (if length (map tpt_sampled (sm_history s) @ [?y]) > MAX_HISTORY
         then slice_last MAX_HISTORY (map tpt_sampled (sm_history s) @ [?y])
         else map tpt_sampled (sm_history s) @ [?y])"
    by (auto simp: poll_round_def sampler_poll_def sampler_defs map_slice)
  also have "\<dots> = slice_last MAX_HISTORY (map tpt_sampled (sm_history s) @ [?y])"
    by (simp add: slice_last_all)
  also have "\<dots> = slice_last MAX_HISTORY (hs @ [?y])"
    unfolding assms by (rule slice_last_snoc) (simp add: MAX_HISTORY_def)
  finally show ?thesis .
qed

lemma history_poll_rounds:
  "map tpt_sampled (sm_history s) = slice_last MAX_HISTORY hs \<Longrightarrow>
   map tpt_sampled (sm_history (poll_rounds rs s)) =
     slice_last MAX_HISTORY (hs @ deltas (sm_prevSampled s) (map (sampledTotal \<circ> stats \<circ> snd) rs))"
proof (induction rs arbitrary: s hs)
  case (Cons r rs)
  from Cons.IH [OF history_poll_round [OF Cons.prems]] show ?case
    by (simp add: poll_round_fields)
qed simp

lemma sum_deltas: "sum_list (deltas p xs) = last (p # xs) - p"
  by (induction xs arbitrary: p) auto

subsection \<open>The invariant\<close>

text \<open>Distinct ids, none above the counter: what React's keys need.\<close>

definition keys_ok :: "('a \<Rightarrow> nat) \<Rightarrow> nat \<Rightarrow> 'a list \<Rightarrow> bool" where
  "keys_ok f n xs \<longleftrightarrow> distinct (map f xs) \<and> (\<forall>x \<in> set xs. f x \<le> n)"

definition ids_ok :: "sampler_draft \<Rightarrow> draft_ids \<Rightarrow> bool" where
  "ids_ok d ids \<longleftrightarrow>
     keys_ok rd_id (nextRuleID ids) (rules d) \<and> keys_ok pd_id (nextPolicyID ids) (tailPolicies d)"

definition pending_ok :: "sampler_page \<Rightarrow> bool" where
  "pending_ok s \<longleftrightarrow>
     (\<forall>b. sm_pending s = Some b \<longrightarrow>
        b = buildBody (sm_draft s) \<and> validateDraft (sm_draft s) = None)"

definition sampler_ok :: "sampler_page \<Rightarrow> bool" where
  "sampler_ok s \<longleftrightarrow>
     pending_ok s \<and> ids_ok (sm_draft s) (sm_ids s) \<and> length (sm_history s) \<le> MAX_HISTORY \<and>
     requests_ok (sm_reqs s)"

lemma keys_ok_upt:
  assumes "map f xs = [Suc m ..< Suc n]"
  shows "keys_ok f n xs"
proof -
  have "f x \<le> n" if "x \<in> set xs" for x
  proof -
    from that have "f x \<in> set (map f xs)" by simp
    then have "f x \<in> {Suc m ..< Suc n}" by (simp only: assms set_upt)
    then show ?thesis by simp
  qed
  moreover have "distinct (map f xs)" by (simp only: assms distinct_upt)
  ultimately show ?thesis by (simp add: keys_ok_def)
qed

lemma keys_ok_snoc: "keys_ok f n xs \<Longrightarrow> f x = Suc n \<Longrightarrow> keys_ok f (Suc n) (xs @ [x])"
  by (fastforce simp: keys_ok_def)

lemma keys_ok_map_at:
  assumes "\<And>x. f (g x) = f x" and "keys_ok f n xs"
  shows "keys_ok f n (map_at i g xs)"
proof -
  have eq: "map f (map_at i g xs) = map f xs" using assms(1) by (rule map_map_at)
  then have "f ` set (map_at i g xs) = f ` set xs" by (metis set_map)
  with assms(2) eq show ?thesis by (simp add: keys_ok_def) (metis imageE imageI)
qed

lemma keys_ok_remove_at:
  assumes "keys_ok f n xs"
  shows "keys_ok f n (remove_at i xs)"
proof -
  have "distinct (take i (map f xs) @ drop (Suc i) (map f xs))"
    using assms by (simp add: keys_ok_def distinct_take distinct_drop set_take_disj_set_drop_if_distinct)
  then have "distinct (map f (remove_at i xs))" by (simp add: remove_at_eq take_map drop_map)
  moreover have "set (remove_at i xs) \<subseteq> set xs"
    by (auto simp: remove_at_eq dest: in_set_takeD in_set_dropD)
  ultimately show ?thesis using assms by (auto simp: keys_ok_def)
qed

lemma buildRuleDrafts_ids:
  "keys_ok rd_id (nextRuleID (snd (buildRuleDrafts c ids))) (fst (buildRuleDrafts c ids))"
proof -
  obtain ds n where ds: "rule_drafts (nextRuleID ids) (readArray (jget c ''rules'')) = (ds, n)" by fastforce
  have "map rd_id ds = [Suc (nextRuleID ids) ..< Suc n]"
    using rule_drafts_ids [of "nextRuleID ids" "readArray (jget c ''rules'')"] ds by simp
  from keys_ok_upt [OF this] ds show ?thesis
    by (simp add: buildRuleDrafts_def new_rule_def keys_ok_def)
qed

lemma buildTailPolicyDrafts_ids:
  "keys_ok pd_id (nextPolicyID (snd (buildTailPolicyDrafts c ids))) (fst (buildTailPolicyDrafts c ids))"
proof -
  obtain ds n where ds: "policy_drafts (nextPolicyID ids) (readArray (jget c ''policies'')) = (ds, n)"
    by fastforce
  have "map pd_id ds = [Suc (nextPolicyID ids) ..< Suc n]"
    using policy_drafts_ids [of "nextPolicyID ids" "readArray (jget c ''policies'')"] ds by simp
  from keys_ok_upt [OF this] ds show ?thesis
    by (simp add: buildTailPolicyDrafts_def new_policy_def keys_ok_def)
qed

lemma other_ids:
  "nextRuleID (snd (buildTailPolicyDrafts c ids)) = nextRuleID ids"
  "nextPolicyID (snd (buildRuleDrafts c ids)) = nextPolicyID ids"
  by (simp_all add: buildTailPolicyDrafts_def buildRuleDrafts_def split_def Let_def)

lemma draft_from_config_ids:
  "ids_ok (fst (draft_from_config ty c ids)) (snd (draft_from_config ty c ids))"
  using buildRuleDrafts_ids [of c ids] buildTailPolicyDrafts_ids [of c "snd (buildRuleDrafts c ids)"]
  by (simp add: ids_ok_def draft_from_config_def split_def Let_def other_ids)

lemma edit_draft_ids: "ids_ok d ids \<Longrightarrow> ids_ok (edit_draft e d) ids"
  by (cases e) (simp_all add: ids_ok_def keys_ok_map_at keys_ok_remove_at)

text \<open>Every step keeps the invariant.\<close>

lemma pending_ok_None [simp]: "sm_pending s = None \<Longrightarrow> pending_ok s"
  by (simp add: pending_ok_def)

lemma rerendered_ok: "sampler_ok s \<Longrightarrow> sampler_ok (rerendered old s)"
  by (simp add: rerendered_def sampler_ok_def pending_ok_def requests_ok_abort)

lemma applyDraft_ok: "sampler_ok s \<Longrightarrow> sampler_ok (applyDraftFromConfig c s)"
  using draft_from_config_ids [of "sc_type c" "sc_config c" "sm_ids s"]
  by (simp add: applyDraftFromConfig_def sampler_ok_def split_def Let_def)

lemma fetchConfig_ok: "sampler_ok s \<Longrightarrow> sampler_ok (fetchConfig b s)"
  by (simp add: fetchConfig_def sampler_ok_def pending_ok_def requests_ok_begin Let_def)

lemma add_history_ok: "sampler_ok s \<Longrightarrow> sampler_ok (add_history now c s)"
  by (simp add: add_history_def sampler_ok_def pending_ok_def Let_def)

lemma set_config_ok: "sampler_ok s \<Longrightarrow> sampler_ok (s\<lparr>sm_config := c\<rparr>)"
  by (simp add: sampler_ok_def pending_ok_def)

lemma sampler_finally_ok: "sampler_ok s \<Longrightarrow> sampler_ok (sampler_finally i s)"
  by (simp add: sampler_finally_def sampler_ok_def pending_ok_def)

lemma sampler_then_ok: "sampler_ok s \<Longrightarrow> sampler_ok (sampler_then i r s)"
  unfolding sampler_then_def Let_def
  by (intro sampler_finally_ok) (simp add: add_history_ok applyDraft_ok set_config_ok)

lemma sampler_error_ok: "sampler_ok s \<Longrightarrow> sampler_ok (s\<lparr>sm_error := e\<rparr>)"
  by (simp add: sampler_ok_def pending_ok_def)

lemma sampler_catch_ok: "sampler_ok s \<Longrightarrow> sampler_ok (sampler_catch i e s)"
  unfolding sampler_catch_def by (intro sampler_finally_ok) (simp add: sampler_error_ok)

lemma sampler_edit_ok:
  assumes "sampler_ok s"
  shows "sampler_ok (sampler_edit e s)"
proof -
  have "ids_ok (sm_draft (add_rule s)) (sm_ids (add_rule s))"
    and "ids_ok (sm_draft (add_policy s)) (sm_ids (add_policy s))"
    and "ids_ok (edit_draft e (sm_draft s)) (sm_ids s)"
    using assms
    by (simp_all add: sampler_ok_def add_rule_def add_policy_def ids_ok_def keys_ok_snoc new_rule_def
        new_policy_def edit_draft_ids [unfolded ids_ok_def] Let_def)
  then have "sampler_ok (markDirty (if e = AddRule then add_rule s else if e = AddPolicy then add_policy s
      else s\<lparr>sm_draft := edit_draft e (sm_draft s)\<rparr>))"
    using assms by (simp add: markDirty_def sampler_ok_def add_rule_def add_policy_def Let_def)
  then show ?thesis by (simp add: sampler_edit_def rerendered_ok)
qed

lemma set_pending_ok:
  "sampler_ok s \<Longrightarrow> p = None \<or> p = Some (buildBody (sm_draft s)) \<and> validateDraft (sm_draft s) = None \<Longrightarrow>
   sampler_ok (s\<lparr>sm_pending := p\<rparr>)"
  by (auto simp: sampler_ok_def pending_ok_def)

lemma previewChange_ok:
  assumes "sampler_ok s"
  shows "sampler_ok (previewChange s)"
proof (cases "validateDraft (sm_draft s)")
  case None
  have "sampler_ok (s\<lparr>sm_error := None, sm_pending := Some (buildBody (sm_draft s))\<rparr>)"
    using None assms by (simp add: sampler_ok_def pending_ok_def)
  with None show ?thesis by (simp add: previewChange_def rerendered_ok)
qed (simp add: previewChange_def assms sampler_error_ok)

lemma sampler_step_ok:
  assumes "sampler_ok s"
  shows "sampler_ok (sampler_step a s)"
proof (cases a)
  case (Settle x)
  then show ?thesis using assms by (cases x) (simp_all add: sampler_then_ok sampler_catch_ok)
next
  case Reset
  then show ?thesis using assms
    by (simp add: resetDraft_def rerendered_ok applyDraft_ok split: option.splits)
next
  case ConfirmSend
  then show ?thesis using assms
    by (simp add: confirm_send_def sampler_ok_def pending_ok_def split: option.splits)
next
  case ConfirmDone
  have "sampler_ok (s\<lparr>sm_pending := None, sm_edits := False\<rparr>)"
    using assms by (simp add: sampler_ok_def)
  with ConfirmDone show ?thesis by (simp add: confirm_done_def rerendered_ok fetchConfig_ok)
qed (use assms in \<open>simp_all add: sampler_poll_def fetchConfig_ok sampler_edit_ok previewChange_ok
      cancelPreview_def rerendered_ok set_pending_ok confirm_failed_def sampler_error_ok\<close>)

lemma sampler_initial_ok: "sampler_ok (sampler_initial ids)"
  by (simp add: sampler_ok_def sampler_initial_def ids_ok_def keys_ok_def initial_draft_def
      requests_ok_none)

lemma sampler_reachable_ok: "sampler_reachable s \<Longrightarrow> sampler_ok s"
  by (induction rule: sampler_reachable.induct) (simp_all add: sampler_initial_ok sampler_step_ok)

lemma guarded_poll_rounds:
  "guarded s \<Longrightarrow>
   sm_draft (poll_rounds rs s) = sm_draft s \<and> sm_pending (poll_rounds rs s) = sm_pending s \<and>
   sm_edits (poll_rounds rs s) = sm_edits s \<and>
   sm_config (poll_rounds rs s) = (if rs = [] then sm_config s else Some (snd (last rs)))"
proof (induction rs arbitrary: s)
  case (Cons r rs)
  have g: "guarded (poll_round r s)" using Cons.prems by (simp add: guarded_poll_round)
  show ?case
    using Cons.IH [OF g] Cons.prems by (simp add: poll_round_fields)
qed simp

lemma error_cleared_by_poll: "sm_error (sampler_poll (previewChange s)) = None"
  by (simp add: sampler_poll_def fetchConfig_def Let_def)

section \<open>Properties\<close>

text \<open>
  C30. Polling does not touch what the operator is working on: while there are local edits
  or a pending change, any number of answered polls leave the draft, the pending body and
  the edit mark as they are, and still update the collector's configuration that is shown.
\<close>

theorem edits_survive_polls:
  assumes "guarded s"
  shows "sm_draft (poll_rounds rs s) = sm_draft s \<and> sm_pending (poll_rounds rs s) = sm_pending s \<and>
    sm_edits (poll_rounds rs s) = sm_edits s \<and> guarded (poll_rounds rs s) \<and>
    sm_config (poll_rounds rs s) = (if rs = [] then sm_config s else Some (snd (last rs)))"
  using guarded_poll_rounds [OF assms, of rs] assms by (simp add: guarded_def)

theorem edits_survive_polls_witness:
  "selectedType (sm_draft (poll_rounds [(''t'', sample_config ''never'' 1 1)]
     (sampler_edit (SelectType ''tail'') (sampler_initial initial_ids)))) = ''tail''"
proof -
  let ?s = "sampler_edit (SelectType ''tail'') (sampler_initial initial_ids)"
  have "guarded ?s" by code_simp
  moreover have "selectedType (sm_draft ?s) = ''tail''" by code_simp
  ultimately show ?thesis
    using edits_survive_polls [of ?s "[(''t'', sample_config ''never'' 1 1)]"] by simp
qed

text \<open>
  In every state the page can reach: a body that waits for confirmation is the one of
  the draft on the screen, and that draft is valid; the ids of rules and of policies are
  distinct; the history has at most 60 points; every request but the latest is aborted.
\<close>

theorem sampler_page_invariant:
  assumes "sampler_reachable s"
  shows "(sm_pending s = Some b \<longrightarrow> b = buildBody (sm_draft s) \<and> validateDraft (sm_draft s) = None) \<and>
    distinct (map rd_id (rules (sm_draft s))) \<and> distinct (map pd_id (tailPolicies (sm_draft s))) \<and>
    length (sm_history s) \<le> 60 \<and> {1..<requestId (sm_reqs s)} \<subseteq> set (aborted (sm_reqs s))"
  using sampler_reachable_ok [OF assms]
  by (auto simp: sampler_ok_def pending_ok_def ids_ok_def keys_ok_def MAX_HISTORY_def requests_ok_def)

theorem sampler_page_invariant_witness:
  "let s = sampler_step Preview (sampler_step (Edit AddRule) (sampler_step (Edit (SelectType ''rules''))
             (sampler_initial initial_ids)))
   in sm_pending s = Some (buildBody (sm_draft s)) \<and> validateDraft (sm_draft s) = None"
proof -
  let ?s = "sampler_step Preview (sampler_step (Edit AddRule) (sampler_step (Edit (SelectType ''rules''))
             (sampler_initial initial_ids)))"
  have "sampler_reachable ?s" by (intro sampler_next sampler_start)
  moreover have "\<exists>b. sm_pending ?s = Some b"
  proof -
    have "(case sm_pending ?s of None \<Rightarrow> False | Some b \<Rightarrow> True)" by code_simp
    then show ?thesis by (cases "sm_pending ?s") simp_all
  qed
  ultimately show ?thesis using sampler_page_invariant by (auto simp only: Let_def)
qed

text \<open>
  From the form to the collector: in a reachable state, a body that waits for
  confirmation is accepted by the collector's handler, which builds the sampler the draft
  on the screen describes (for a draft within what the form's controls can hold).
\<close>

theorem confirmed_change_takes_effect:
  assumes "sampler_reachable s" and "sm_pending s = Some b" and "form_draft (sm_draft s)"
  shows "HandlePutSampler b = Inr (draft_meaning (sm_draft s))"
proof -
  have "b = buildBody (sm_draft s)" "validateDraft (sm_draft s) = None"
    using sampler_reachable_ok [OF assms(1)] assms(2) by (simp_all add: sampler_ok_def pending_ok_def)
  moreover have "HandlePutSampler (buildBody (sm_draft s)) = Inr (draft_meaning (sm_draft s))"
    if "validateDraft (sm_draft s) = None"
    using assms(3) that by (rule form_accepted)
  ultimately show ?thesis by simp
qed

theorem confirmed_change_takes_effect_witness:
  "HandlePutSampler (buildBody (initial_draft\<lparr>selectedType := ''ratelimit'', rlTps := 50\<rparr>)) = Inr (RateLimit 50)"
proof -
  let ?s = "sampler_step Preview (sampler_step (Edit (SetRlTps 50)) (sampler_step (Edit (SelectType ''ratelimit''))
             (sampler_initial initial_ids)))"
  let ?d = "initial_draft\<lparr>selectedType := ''ratelimit'', rlTps := 50\<rparr>"
  have d: "sm_draft ?s = ?d"
    by (simp add: sampler_edit_def previewChange_def rerendered_def markDirty_def sampler_initial_def
        initial_draft_def validateDraft_def)
  have "validateDraft ?d = None" by code_simp
  then have p: "sm_pending ?s = Some (buildBody ?d)"
    by (simp add: sampler_edit_def previewChange_def rerendered_def markDirty_def sampler_initial_def)
  have f: "form_draft (sm_draft ?s)" unfolding d by (simp add: form_draft_def initial_draft_def)
  have r: "sampler_reachable ?s" by (intro sampler_next sampler_start)
  show ?thesis
    using confirmed_change_takes_effect [OF r p f] unfolding d by (simp add: draft_meaning_def)
qed

text \<open>
  The throughput history counts per window: after any answered polls from a fresh page
  its points are the last 60 differences of the collector's totals, the first of them
  against 0, so that the first point is the collector's total since it started.
\<close>

theorem history_counts_windows:
  "map tpt_sampled (sm_history (poll_rounds rs (sampler_initial ids))) =
     slice_last 60 (deltas 0 (map (sampledTotal \<circ> stats \<circ> snd) rs)) \<and>
   (length rs \<le> 60 \<longrightarrow>
     sum_list (map tpt_sampled (sm_history (poll_rounds rs (sampler_initial ids)))) =
       last (0 # map (sampledTotal \<circ> stats \<circ> snd) rs))"
proof -
  have len: "length (deltas p xs) = length xs" for p xs
    by (induction xs arbitrary: p) simp_all
  have "map tpt_sampled (sm_history (poll_rounds rs (sampler_initial ids))) =
     slice_last 60 (deltas 0 (map (sampledTotal \<circ> stats \<circ> snd) rs))"
    using history_poll_rounds [of "sampler_initial ids" "[]" rs]
    by (simp add: sampler_initial_def slice_last_def MAX_HISTORY_def)
  then show ?thesis by (auto simp: slice_last_all len sum_deltas)
qed

theorem history_counts_windows_witness:
  "sum_list (map tpt_sampled (sm_history (poll_rounds
     [(''a'', sample_config ''always'' 100 0), (''b'', sample_config ''always'' 130 0)]
     (sampler_initial initial_ids)))) = 130"
  using history_counts_windows [of "[(''a'', sample_config ''always'' 100 0),
      (''b'', sample_config ''always'' 130 0)]" initial_ids]
  by (simp add: sample_config_def slice_last_def)

text \<open>
  An edit made while a confirmation is in flight is lost: the answer clears the edit
  mark, and the next poll replaces the draft by the collector's configuration.
\<close>

theorem edit_during_confirm_is_lost:
  "let s' = confirm_done (sampler_edit e (confirm_send s))
   in \<not> guarded s' \<and>
      sm_draft (poll_round r s') = fst (draft_from_config (sc_type (snd r)) (sc_config (snd r)) (sm_ids s'))"
proof -
  have "\<not> guarded (confirm_done t)" for t
    by (simp add: confirm_done_def rerendered_def guarded_def fetchConfig_def Let_def)
  then show ?thesis by (simp add: poll_round_fields)
qed

end
