(* ===== verification/Scale.thy ===== *)
theory Scale
  imports Types
begin

text \<open>
  What the charts rely on of D3, a library that is not part of the sources. A chart makes a
  linear scale from a domain and a range, \<open>scaleLinear().domain([a, b]).range([c, d])\<close>, and
  a zoom replaces it by \<open>transform.rescaleX(scale)\<close>. The library is a parameter of the
  models, \<open>lin\<close>; its documented behaviour is the hypothesis \<open>linear_scale\<close>: it maps the
  domain to the range, linearly. \<open>interpolating\<close> is a function that does, and shows that
  the hypothesis can hold.
\<close>

section \<open>Definitions\<close>

type_synonym scaling = "num \<times> num \<Rightarrow> num \<times> num \<Rightarrow> num \<Rightarrow> num"

definition linear_scale :: "scaling \<Rightarrow> bool" where
  "linear_scale lin \<longleftrightarrow>
     (\<forall>a b c d. a \<noteq> b \<longrightarrow>
        lin (a, b) (c, d) a = c \<and> lin (a, b) (c, d) b = d \<and>
        (\<exists>m n. \<forall>x. lin (a, b) (c, d) x = m * x + n))"

fun interpolating :: scaling where
  "interpolating (a, b) (c, d) x = c + (x - a) / (b - a) * (d - c)"

text \<open>
  The width of a drawing: the measured width, or the width of the container, or of the
  drawing itself, or 1200, whichever is the first that is not 0 (\<open>width || ... || 1200\<close>).
\<close>

definition svg_width :: "num \<Rightarrow> num \<Rightarrow> num \<Rightarrow> num" where
  "svg_width measured container drawing =
     (if measured \<noteq> 0 then measured else if container \<noteq> 0 then container
      else if drawing \<noteq> 0 then drawing else 1200)"

text \<open>\<open>set?.has(x)\<close> for a set that may be missing.\<close>

definition has_id :: "string set option \<Rightarrow> string \<Rightarrow> bool" where
  "has_id s x = (case s of None \<Rightarrow> False | Some m \<Rightarrow> x \<in> m)"

section \<open>Lemmas\<close>

lemma linear_scale_eq:
  assumes "linear_scale lin" and "a < b"
  shows "lin (a, b) (c, d) x = c + (x - a) * ((d - c) / (b - a))"
proof -
  obtain m n where mn: "\<And>x. lin (a, b) (c, d) x = m * x + n"
    and ends: "lin (a, b) (c, d) a = c" "lin (a, b) (c, d) b = d"
    using assms unfolding linear_scale_def by (metis order_less_irrefl)
  from ends have "m * a + n = c" "m * b + n = d" by (simp_all add: mn)
  then have m: "m * (b - a) = d - c" and n: "n = c - m * a" by (auto simp: algebra_simps)
  from m assms(2) have "m = (d - c) / (b - a)" by (simp add: field_simps)
  have "lin (a, b) (c, d) x = c + (x - a) * m" by (simp add: mn n algebra_simps)
  with \<open>m = (d - c) / (b - a)\<close> show ?thesis by simp
qed

lemma interpolating_ls: "linear_scale interpolating"
  unfolding linear_scale_def
proof (intro allI impI conjI)
  fix a b c d :: num
  assume "a \<noteq> b"
  then show "interpolating (a, b) (c, d) a = c" "interpolating (a, b) (c, d) b = d" by simp_all
  show "\<exists>m n. \<forall>x. interpolating (a, b) (c, d) x = m * x + n"
    by (rule exI [of _ "(d - c) / (b - a)"], rule exI [of _ "c - a * (d - c) / (b - a)"])
      (simp add: diff_divide_distrib algebra_simps)
qed

text \<open>Within the domain the scale stays in the range, and lengths are scaled by one factor.\<close>

lemma linear_scale_bounds:
  assumes "linear_scale lin" and "a < b" and "c \<le> d" and "a \<le> x" and "x \<le> b"
  shows "c \<le> lin (a, b) (c, d) x \<and> lin (a, b) (c, d) x \<le> d"
proof -
  have "0 \<le> (x - a) * ((d - c) / (b - a))" using assms by simp
  moreover have "(x - a) * ((d - c) / (b - a)) \<le> (b - a) * ((d - c) / (b - a))"
    using assms by (intro mult_right_mono) simp_all
  moreover have "(b - a) * ((d - c) / (b - a)) = d - c" using assms by simp
  ultimately show ?thesis by (simp add: linear_scale_eq [OF assms(1,2)])
qed

lemma linear_scale_diff:
  assumes "linear_scale lin" and "a < b"
  shows "lin (a, b) (c, d) y - lin (a, b) (c, d) x = (y - x) * ((d - c) / (b - a))"
  by (simp add: linear_scale_eq [OF assms] algebra_simps diff_divide_distrib)

lemma linear_scale_mono:
  assumes "linear_scale lin" and "a < b" and "c \<le> d" and "x \<le> y"
  shows "lin (a, b) (c, d) x \<le> lin (a, b) (c, d) y"
proof -
  have "0 \<le> (y - x) * ((d - c) / (b - a))" using assms by simp
  then show ?thesis using linear_scale_diff [OF assms(1,2), of c d y x] by linarith
qed

end
