(* ===== verification/Waterfall.thy ===== *)
theory Waterfall
  imports SpanLayout Lib Scale
begin

text \<open>
  \<open>components/waterfall/WaterfallChart.tsx\<close>: the shapes the chart draws for the rows of a
  trace, and how a zoom changes them. A shape is a record of the attributes that depend on
  the data; the D3 scale is a parameter (\<open>Scale\<close>). The colours come from the colour map,
  which the drawing extends: the labels ask for the colour of every row's service, in order,
  before any bar does.
\<close>

section \<open>Definitions\<close>

definition LABEL_WIDTH :: num where "LABEL_WIDTH = 220"
definition ROW_HEIGHT :: num where "ROW_HEIGHT = 24"
definition ROW_GAP :: num where "ROW_GAP = 4"
definition ROW_STRIDE :: num where "ROW_STRIDE = ROW_HEIGHT + ROW_GAP"
definition PADDING_TOP :: num where "PADDING_TOP = 32"
definition MINIMAP_H :: num where "MINIMAP_H = 80"

record waterfall_props =
  wp_trace :: TraceDetailDTO
  wp_criticalPathIds :: "string set"
  wp_grayedSpanIds :: "string set option"
  wp_highlightedSpanIds :: "string set option"
  wp_durationDeltas :: "(string \<rightharpoonup> num) option"

record row_label =
  rl_x :: num
  rl_fill :: string
  rl_text :: string

record span_bar =
  bar_x :: num
  bar_width :: num
  bar_fill :: string
  bar_opacity :: num
  bar_stroke :: string
  bar_title :: string

record text_label =
  tl_x :: num
  tl_fill :: string
  tl_text :: string

record waterfall_row =
  wr_class :: string
  wr_y :: num
  wr_label :: row_label
  wr_connector :: "num option"
  wr_bar :: span_bar
  wr_duration :: text_label
  wr_delta :: "text_label option"
  wr_select :: SpanDetailDTO

record minimap_bar =
  mm_x :: num
  mm_y :: num
  mm_width :: num
  mm_height :: num
  mm_fill :: string

record waterfall =
  wf_height :: num
  wf_ticks :: int
  wf_rows :: "waterfall_row list"
  wf_minimap :: "minimap_bar list"

definition totalDurationMs :: "TraceDetailDTO \<Rightarrow> num" where
  "totalDurationMs t = (if td_durationMs t = 0 then 1 else td_durationMs t)"

definition clip_text :: "nat \<Rightarrow> string \<Rightarrow> string" where
  "clip_text n s = (if length s > n then take n s @ ellipsis else s)"

definition row_label_of :: "color_state \<Rightarrow> SpanRow \<Rightarrow> row_label" where
  "row_label_of cs d =
     \<lparr>rl_x = min (LABEL_WIDTH - 8) (LABEL_WIDTH - 8 + real (row_depth d) * 10),
      rl_fill = color_of cs (row_serviceName d),
      rl_text = concat (replicate (min (row_depth d) 3) [CHR 0xA0, CHR 0xA0]) @ clip_text 22 (row_name d)\<rparr>"

definition connector_of :: "SpanRow \<Rightarrow> num option" where
  "connector_of d =
     (if row_depth d > 0 then Some (LABEL_WIDTH - 8 + (real (row_depth d) - 1) * 10 + 4) else None)"

text \<open>The colour of a bar: highlighted, else grayed out, else failed, else its service's.\<close>

definition fill_of ::
  "color_state \<Rightarrow> string set option \<Rightarrow> string set option \<Rightarrow> SpanRow \<Rightarrow> string" where
  "fill_of cs highlighted grayed d =
     (if has_id highlighted (row_spanId d) then ''#22c55e''
      else if has_id grayed (row_spanId d) then ''#94a3b8''
      else if row_hasError d then ''#dc2626'' else color_of cs (row_serviceName d))"

text \<open>Position and width of a row's bar on a scale, at least \<open>least\<close> wide.\<close>

definition bar_span :: "(num \<Rightarrow> num) \<Rightarrow> SpanRow \<Rightarrow> num" where
  "bar_span x d = x (row_startMs d + row_durationMs d) - x (row_startMs d)"

definition span_bar_of ::
  "color_state \<Rightarrow> waterfall_props \<Rightarrow> (num \<Rightarrow> num) \<Rightarrow> SpanRow \<Rightarrow> span_bar" where
  "span_bar_of cs p x d =
     \<lparr>bar_x = x (row_startMs d),
      bar_width = max 2 (bar_span x d),
      bar_fill = fill_of cs (wp_highlightedSpanIds p) (wp_grayedSpanIds p) d,
      bar_opacity = (if has_id (wp_grayedSpanIds p) (row_spanId d) then 3 / 10
                     else if row_hasError d then 9 / 10 else 7 / 10),
      bar_stroke = (if row_spanId d \<in> wp_criticalPathIds p then ''#f59e0b'' else ''none''),
      bar_title = row_serviceName d @ '': '' @ row_name d @ [CHR 0x0A] @ toFixed (row_durationMs d) 2 @ ''ms''\<rparr>"

definition duration_label_of :: "(num \<Rightarrow> num) \<Rightarrow> SpanRow \<Rightarrow> text_label" where
  "duration_label_of x d =
     \<lparr>tl_x = x (row_startMs d) + 4, tl_fill = ''white'',
      tl_text = (if bar_span x d > 60 then toFixed (row_durationMs d) 1 @ ''ms'' else [])\<rparr>"

definition delta_badge_of :: "(string \<rightharpoonup> num) \<Rightarrow> (num \<Rightarrow> num) \<Rightarrow> SpanRow \<Rightarrow> text_label" where
  "delta_badge_of deltas x d =
     (let delta = deltas (row_spanId d)
      in \<lparr>tl_x = x (row_startMs d + row_durationMs d) + 4,
          tl_fill = (case delta of None \<Rightarrow> ''transparent''
            | Some v \<Rightarrow> if v > 0 then ''#dc2626'' else ''#16a34a''),
          tl_text = (case delta of None \<Rightarrow> []
            | Some v \<Rightarrow> if \<bar>v\<bar> < 1 / 2 then []
                else if v > 0 then ''+'' @ toFixed v 1 @ ''ms'' else toFixed v 1 @ ''ms'')\<rparr>)"

definition waterfall_row_of ::
  "color_state \<Rightarrow> waterfall_props \<Rightarrow> (num \<Rightarrow> num) \<Rightarrow> nat \<Rightarrow> SpanRow \<Rightarrow> waterfall_row" where
  "waterfall_row_of cs p x i d =
     \<lparr>wr_class = ''span-row'' @ (if row_hasError d then '' has-error'' else []),
      wr_y = PADDING_TOP + real i * ROW_STRIDE,
      wr_label = row_label_of cs d,
      wr_connector = connector_of d,
      wr_bar = span_bar_of cs p x d,
      wr_duration = duration_label_of x d,
      wr_delta = map_option (\<lambda>m. delta_badge_of m x d) (wp_durationDeltas p),
      wr_select = row_span d\<rparr>"

definition minimap_bar_of ::
  "color_state \<Rightarrow> (num \<Rightarrow> num) \<Rightarrow> (num \<Rightarrow> num) \<Rightarrow> nat \<Rightarrow> nat \<Rightarrow> SpanRow \<Rightarrow> minimap_bar" where
  "minimap_bar_of cs mx my n i d =
     \<lparr>mm_x = mx (row_startMs d), mm_y = my (real i), mm_width = max 1 (bar_span mx d),
      mm_height = max 1 ((MINIMAP_H - 8) / real (max n 1) - 1),
      mm_fill = (if row_hasError d then ''#dc2626'' else color_of cs (row_serviceName d))\<rparr>"

definition map_index :: "(nat \<Rightarrow> 'a \<Rightarrow> 'b) \<Rightarrow> 'a list \<Rightarrow> 'b list" where
  "map_index f xs = map (\<lambda>(i, x). f i x) (enumerate 0 xs)"

text \<open>\<open>draw\<close>, for the rows of the trace and a drawing \<open>svgWidth\<close> wide.\<close>

definition draw_waterfall ::
  "scaling \<Rightarrow> waterfall_props \<Rightarrow> num \<Rightarrow> SpanRow list \<Rightarrow> color_state \<Rightarrow> waterfall \<times> color_state" where
  "draw_waterfall lin p svgWidth rows cs =
     (let T = totalDurationMs (wp_trace p);
          chartWidth = svgWidth - LABEL_WIDTH;
          svgHeight = PADDING_TOP + real (length rows) * ROW_STRIDE;
          x = lin (0, T) (LABEL_WIDTH, svgWidth);
          mx = lin (0, T) (0, chartWidth);
          my = lin (0, real (length rows)) (0, MINIMAP_H - 8);
          cs' = color_calls (map row_serviceName rows) cs
      in (\<lparr>wf_height = svgHeight + MINIMAP_H + 16,
           wf_ticks = max 2 \<lfloor>chartWidth / 80\<rfloor>,
           wf_rows = map_index (waterfall_row_of cs' p x) rows,
           wf_minimap = map_index (minimap_bar_of cs' mx my (length rows)) rows\<rparr>, cs'))"

text \<open>A zoom moves and resizes bars and labels; the texts of the badges, colours and rows stay.\<close>

definition zoom_row :: "(num \<Rightarrow> num) \<Rightarrow> SpanRow \<Rightarrow> waterfall_row \<Rightarrow> waterfall_row" where
  "zoom_row x d r =
     r\<lparr>wr_bar := (wr_bar r)\<lparr>bar_x := x (row_startMs d), bar_width := max 2 (bar_span x d)\<rparr>,
       wr_duration := duration_label_of x d,
       wr_delta := map_option (\<lambda>l. l\<lparr>tl_x := x (row_startMs d + row_durationMs d) + 4\<rparr>) (wr_delta r)\<rparr>"

definition zoom_waterfall :: "(num \<Rightarrow> num) \<Rightarrow> SpanRow list \<Rightarrow> waterfall \<Rightarrow> waterfall" where
  "zoom_waterfall x rows w = w\<lparr>wf_rows := map (\<lambda>(d, r). zoom_row x d r) (zip rows (wf_rows w))\<rparr>"

text \<open>
  The component: \<open>None\<close> when laying out the rows does not return.
\<close>

definition WaterfallChart ::
  "scaling \<Rightarrow> nat \<Rightarrow> waterfall_props \<Rightarrow> num \<Rightarrow> color_state \<Rightarrow> (waterfall \<times> color_state) option" where
  "WaterfallChart lin fuel p svgWidth cs =
     map_option (\<lambda>rows. draw_waterfall lin p svgWidth rows cs) (buildSpanRows fuel (wp_trace p))"

section \<open>Lemmas\<close>

lemma length_map_index [simp]: "length (map_index f xs) = length xs"
  by (simp add: map_index_def)

lemma nth_map_index [simp]: "i < length xs \<Longrightarrow> map_index f xs ! i = f i (xs ! i)"
  by (simp add: map_index_def nth_enumerate_eq)

lemma totalDurationMs_pos: "0 \<le> td_durationMs t \<Longrightarrow> 0 < totalDurationMs t"
  by (simp add: totalDurationMs_def)

lemma zoom_row_redraws:
  "zoom_row x' d (waterfall_row_of cs p x i d) = waterfall_row_of cs p x' i d"
  by (cases "wp_durationDeltas p")
    (simp_all add: zoom_row_def waterfall_row_of_def span_bar_of_def delta_badge_of_def Let_def)

lemma map_index_select: "map wr_select (map_index (waterfall_row_of cs p x) rows) = map row_span rows"
  by (rule nth_equalityI) (simp_all add: waterfall_row_of_def)

lemma waterfall_rows:
  "wf_rows (fst (draw_waterfall lin p w rows cs)) =
     map_index (waterfall_row_of (color_calls (map row_serviceName rows) cs) p
       (lin (0, totalDurationMs (wp_trace p)) (LABEL_WIDTH, w))) rows"
  by (simp add: draw_waterfall_def Let_def)

lemma geometry: "ROW_STRIDE = 28" "PADDING_TOP = 32" "MINIMAP_H = 80" "LABEL_WIDTH = 220"
  by (simp_all add: ROW_STRIDE_def ROW_HEIGHT_def ROW_GAP_def PADDING_TOP_def MINIMAP_H_def LABEL_WIDTH_def)

text \<open>Where a bar is, and how wide, for a span within the trace's duration.\<close>

lemma bar_in_chart:
  assumes "linear_scale lin" and "0 < T" and "a \<le> w"
    and "0 \<le> row_startMs d" and "0 \<le> row_durationMs d"
    and "row_startMs d + row_durationMs d \<le> T"
  shows "a \<le> lin (0, T) (a, w) (row_startMs d) \<and>
         lin (0, T) (a, w) (row_startMs d) + bar_span (lin (0, T) (a, w)) d \<le> w \<and>
         bar_span (lin (0, T) (a, w)) d = row_durationMs d * ((w - a) / T)"
proof -
  have "a \<le> lin (0, T) (a, w) (row_startMs d)"
    using linear_scale_bounds [OF assms(1,2,3), of "row_startMs d"] assms by simp
  moreover have "lin (0, T) (a, w) (row_startMs d + row_durationMs d) \<le> w"
    using linear_scale_bounds [OF assms(1,2,3), of "row_startMs d + row_durationMs d"] assms by simp
  moreover have "bar_span (lin (0, T) (a, w)) d = row_durationMs d * ((w - a) / T)"
    by (simp only: bar_span_def linear_scale_diff [OF assms(1,2)]) simp
  ultimately show ?thesis by (simp add: bar_span_def)
qed

section \<open>Properties\<close>

text \<open>
  The chart of a well-formed trace has one row for each of its spans, whatever its
  parents; row \<open>i\<close> is at \<open>32 + 28 i\<close>, above the minimap, and a click on it selects its span.
\<close>

theorem waterfall_draws_every_span:
  assumes "wf_spans (spans (wp_trace p))" and "length (spans (wp_trace p)) \<le> fuel"
  shows "\<exists>w cs'. WaterfallChart lin fuel p svgWidth cs = Some (w, cs') \<and>
           mset (map wr_select (wf_rows w)) = mset (spans (wp_trace p)) \<and>
           (\<forall>i < length (wf_rows w). wr_y (wf_rows w ! i) = 32 + 28 * real i \<and>
              wr_y (wf_rows w ! i) + 28 \<le> wf_height w - 96)"
proof -
  obtain rows where rows: "buildSpanRows fuel (wp_trace p) = Some rows"
    "mset (map row_span rows) = mset (spans (wp_trace p))"
    using rows_complete [OF assms] by blast
  let ?w = "fst (draw_waterfall lin p svgWidth rows cs)"
  have "WaterfallChart lin fuel p svgWidth cs = Some (?w, snd (draw_waterfall lin p svgWidth rows cs))"
    by (simp add: WaterfallChart_def rows)
  moreover have "mset (map wr_select (wf_rows ?w)) = mset (spans (wp_trace p))"
    by (simp only: waterfall_rows map_index_select rows(2))
  moreover have "\<forall>i < length (wf_rows ?w). wr_y (wf_rows ?w ! i) = 32 + 28 * real i \<and>
      wr_y (wf_rows ?w ! i) + 28 \<le> wf_height ?w - 96"
    by (simp add: waterfall_rows waterfall_row_of_def geometry draw_waterfall_def Let_def)
  ultimately show ?thesis by blast
qed

definition sample_props :: waterfall_props where
  "sample_props =
     \<lparr>wp_trace = sample_trace [sample_span ''r'' [] 5, sample_span ''c'' ''r'' 7],
      wp_criticalPathIds = {}, wp_grayedSpanIds = None, wp_highlightedSpanIds = None,
      wp_durationDeltas = None\<rparr>"

theorem waterfall_draws_every_span_witness:
  "\<exists>w cs'. WaterfallChart interpolating 2 sample_props 1000 initial_colors = Some (w, cs') \<and>
     mset (map wr_select (wf_rows w)) = {#sample_span ''r'' [] 5, sample_span ''c'' ''r'' 7#}"
proof -
  have "wf_spans (spans (wp_trace sample_props))" "length (spans (wp_trace sample_props)) \<le> 2"
    using wf_example by (simp_all add: sample_props_def sample_trace_def)
  from waterfall_draws_every_span [OF this, of interpolating 1000 initial_colors] show ?thesis
    by (auto simp: sample_props_def sample_trace_def)
qed

text \<open>
  C37. Bars are drawn to scale inside the chart: the bar of a span within the trace's
  duration starts right of the labels, its scaled length ends left of the border, and its
  width is the span's share of the trace's duration (but at least 2).
\<close>

theorem waterfall_bars_to_scale:
  assumes "linear_scale lin" and "0 \<le> td_durationMs (wp_trace p)" and "LABEL_WIDTH \<le> svgWidth"
    and "i < length rows" and "0 \<le> row_startMs (rows ! i)" and "0 \<le> row_durationMs (rows ! i)"
    and "row_startMs (rows ! i) + row_durationMs (rows ! i) \<le> totalDurationMs (wp_trace p)"
  shows "let b = wr_bar (wf_rows (fst (draw_waterfall lin p svgWidth rows cs)) ! i);
             scaled = row_durationMs (rows ! i) * ((svgWidth - 220) / totalDurationMs (wp_trace p))
         in 220 \<le> bar_x b \<and> bar_x b + scaled \<le> svgWidth \<and> bar_width b = max 2 scaled"
  using bar_in_chart [OF assms(1) totalDurationMs_pos [OF assms(2)] assms(3,5,6,7)] assms(4)
  by (simp add: waterfall_rows waterfall_row_of_def span_bar_of_def geometry Let_def)

theorem waterfall_bars_to_scale_witness:
  "bar_width (wr_bar (wf_rows (fst (draw_waterfall interpolating sample_props 1220
     [mk_row 0 (sample_span ''r'' [] 0) 0] initial_colors)) ! 0)) = 200"
  using waterfall_bars_to_scale [of interpolating sample_props 1220 0 "[mk_row 0 (sample_span ''r'' [] 0) 0]"
      initial_colors, OF interpolating_ls]
  by (simp add: sample_props_def sample_trace_def sample_span_def totalDurationMs_def geometry Let_def)

text \<open>
  Zooming is drawing at another scale: the rows after a zoom are those a drawing with the
  zoomed scale has, whatever was drawn and zoomed before.
\<close>

theorem zoom_is_redraw:
  "wf_rows (zoom_waterfall x rows (zoom_waterfall x' rows (fst (draw_waterfall lin p svgWidth rows cs)))) =
     map_index (waterfall_row_of (color_calls (map row_serviceName rows) cs) p x) rows"
  by (rule nth_equalityI)
    (simp_all add: zoom_waterfall_def waterfall_rows zoom_row_redraws)

text \<open>
  The indentation of a label by its depth has no effect on its position: \<open>Math.min\<close> with
  the unindented position always gives the latter.
\<close>

theorem labels_share_one_position:
  "rl_x (wr_label (waterfall_row_of cs p x i d)) = 212"
  by (simp add: waterfall_row_of_def row_label_of_def geometry)

end
