(* ===== verification/Flame.thy ===== *)
theory Flame
  imports Waterfall
begin

text \<open>
  \<open>components/waterfall/FlameGraph.tsx\<close>: the same rows as \<open>Waterfall\<close> draws, one horizontal
  band per depth. The drawing asks for a service's colour only for the bars that show one.
\<close>

section \<open>Definitions\<close>

definition FLAME_ROW_HEIGHT :: num where "FLAME_ROW_HEIGHT = 22"
definition FLAME_ROW_GAP :: num where "FLAME_ROW_GAP = 2"
definition FLAME_ROW_STRIDE :: num where "FLAME_ROW_STRIDE = FLAME_ROW_HEIGHT + FLAME_ROW_GAP"
definition FLAME_PADDING_TOP :: num where "FLAME_PADDING_TOP = 28"

record flame_props =
  fp_trace :: TraceDetailDTO
  fp_criticalPathIds :: "string set"
  fp_grayedSpanIds :: "string set option"
  fp_highlightedSpanIds :: "string set option"

record flame_span =
  fl_x :: num
  fl_y :: num
  fl_width :: num
  fl_fill :: string
  fl_opacity :: num
  fl_stroke :: string
  fl_strokeWidth :: num
  fl_title :: string
  fl_clip :: string
  fl_clipWidth :: num
  fl_text :: string
  fl_hitWidth :: num
  fl_select :: SpanDetailDTO

record flame_graph =
  fg_height :: num
  fg_ticks :: int
  fg_spans :: "flame_span list"
  fg_depths :: "(num \<times> string) list"

definition flame_y :: "nat \<Rightarrow> num" where
  "flame_y d = FLAME_PADDING_TOP + real d * FLAME_ROW_STRIDE"

definition flame_span_of ::
  "color_state \<Rightarrow> flame_props \<Rightarrow> (num \<Rightarrow> num) \<Rightarrow> SpanRow \<Rightarrow> flame_span" where
  "flame_span_of cs p x d =
     \<lparr>fl_x = x (row_startMs d),
      fl_y = flame_y (row_depth d),
      fl_width = max 1 (bar_span x d),
      fl_fill = fill_of cs (fp_highlightedSpanIds p) (fp_grayedSpanIds p) d,
      fl_opacity = (if has_id (fp_grayedSpanIds p) (row_spanId d) then 3 / 10 else 8 / 10),
      fl_stroke = (if row_spanId d \<in> fp_criticalPathIds p then ''#f59e0b'' else ''rgba(0,0,0,0.15)''),
      fl_strokeWidth = (if row_spanId d \<in> fp_criticalPathIds p then 2 else 1 / 2),
      fl_title = row_serviceName d @ '': '' @ row_name d @ [CHR 0x0A] @ toFixed (row_durationMs d) 2 @ ''ms'',
      fl_clip = ''clip-'' @ row_spanId d,
      fl_clipWidth = max 0 (bar_span x d - 4),
      fl_text = row_name d,
      fl_hitWidth = max 1 (bar_span x d),
      fl_select = row_span d\<rparr>"

text \<open>The bars whose colour is their service's.\<close>

definition shows_service :: "flame_props \<Rightarrow> SpanRow \<Rightarrow> bool" where
  "shows_service p d \<longleftrightarrow>
     \<not> has_id (fp_highlightedSpanIds p) (row_spanId d) \<and>
     \<not> has_id (fp_grayedSpanIds p) (row_spanId d) \<and> \<not> row_hasError d"

fun join_with :: "string \<Rightarrow> string list \<Rightarrow> string" where
  "join_with sep [] = []"
| "join_with sep [x] = x"
| "join_with sep (x # y # xs) = x @ sep @ join_with sep (y # xs)"

definition depth_label :: "SpanRow list \<Rightarrow> nat \<Rightarrow> num \<times> string" where
  "depth_label rows d =
     (let ss = uniq (map row_serviceName (filter (\<lambda>r. row_depth r = d) rows))
      in (flame_y d + FLAME_ROW_HEIGHT / 2,
          ''d'' @ nat_str d @ '': '' @ join_with '', '' (take 2 ss) @
            (if length ss > 2 then ellipsis else [])))"

definition draw_flame ::
  "scaling \<Rightarrow> flame_props \<Rightarrow> num \<Rightarrow> SpanRow list \<Rightarrow> color_state \<Rightarrow> flame_graph \<times> color_state" where
  "draw_flame lin p svgWidth rows cs =
     (let maxDepth = foldr max (map row_depth rows) 0;
          x = lin (0, totalDurationMs (fp_trace p)) (0, svgWidth);
          cs' = color_calls (map row_serviceName (filter (shows_service p) rows)) cs
      in (\<lparr>fg_height = flame_y (maxDepth + 1) + 8,
           fg_ticks = max 2 \<lfloor>svgWidth / 80\<rfloor>,
           fg_spans = map (flame_span_of cs' p x) rows,
           fg_depths = map (depth_label rows) (sort (uniq (map row_depth rows)))\<rparr>, cs'))"

definition zoom_flame_span :: "(num \<Rightarrow> num) \<Rightarrow> SpanRow \<Rightarrow> flame_span \<Rightarrow> flame_span" where
  "zoom_flame_span x d f =
     (let w = max 1 (bar_span x d)
      in f\<lparr>fl_x := x (row_startMs d), fl_y := flame_y (row_depth d), fl_width := w,
           fl_clipWidth := max 0 (w - 4), fl_hitWidth := w\<rparr>)"

definition zoom_flame :: "(num \<Rightarrow> num) \<Rightarrow> SpanRow list \<Rightarrow> flame_graph \<Rightarrow> flame_graph" where
  "zoom_flame x rows g = g\<lparr>fg_spans := map (\<lambda>(d, f). zoom_flame_span x d f) (zip rows (fg_spans g))\<rparr>"

definition FlameGraph ::
  "scaling \<Rightarrow> nat \<Rightarrow> flame_props \<Rightarrow> num \<Rightarrow> color_state \<Rightarrow> (flame_graph \<times> color_state) option" where
  "FlameGraph lin fuel p svgWidth cs =
     map_option (\<lambda>rows. draw_flame lin p svgWidth rows cs) (buildSpanRows fuel (fp_trace p))"

section \<open>Lemmas\<close>

lemma flame_geometry: "flame_y d = 28 + 24 * real d"
  by (simp add: flame_y_def FLAME_ROW_STRIDE_def FLAME_ROW_HEIGHT_def FLAME_ROW_GAP_def FLAME_PADDING_TOP_def)

lemma zoom_flame_redraws: "zoom_flame_span x' d (flame_span_of cs p x d) = flame_span_of cs p x' d"
  by (simp add: zoom_flame_span_def flame_span_of_def Let_def max_def)

lemma flame_spans:
  "fg_spans (fst (draw_flame lin p w rows cs)) =
     map (flame_span_of (color_calls (map row_serviceName (filter (shows_service p) rows)) cs) p
       (lin (0, totalDurationMs (fp_trace p)) (0, w))) rows"
  by (simp add: draw_flame_def Let_def)

lemma foldr_max_ge: "x \<in> set xs \<Longrightarrow> x \<le> foldr max xs (z::nat)"
  by (induction xs) auto

section \<open>Properties\<close>

text \<open>
  Nesting. A span below the top level is drawn one band (24) below an earlier span with
  its parent's id; and when its time is within that span's, it is drawn inside that span's
  bar: not left of it, and its scaled length ends no later.
\<close>

theorem flame_nests_children:
  assumes "linear_scale lin" and "0 \<le> td_durationMs (fp_trace p)" and "0 \<le> svgWidth"
    and "buildSpanRows fuel (fp_trace p) = Some rows" and "j < length rows" and "0 < row_depth (rows ! j)"
  shows "\<exists>i < j. let fs = fg_spans (fst (draw_flame lin p svgWidth rows cs));
               x = lin (0, totalDurationMs (fp_trace p)) (0, svgWidth)
           in spanId (fl_select (fs ! i)) = parentSpanId (fl_select (fs ! j)) \<and>
              fl_y (fs ! j) = fl_y (fs ! i) + 24 \<and>
              (row_startMs (rows ! i) \<le> row_startMs (rows ! j) \<and>
               row_startMs (rows ! j) + row_durationMs (rows ! j)
                 \<le> row_startMs (rows ! i) + row_durationMs (rows ! i) \<longrightarrow>
               fl_x (fs ! i) \<le> fl_x (fs ! j) \<and>
               fl_x (fs ! j) + bar_span x (rows ! j) \<le> fl_x (fs ! i) + fl_width (fs ! i))"
proof -
  obtain i where i: "i < j" "row_spanId (rows ! i) = parentSpanId (row_span (rows ! j))"
    "row_depth (rows ! j) = Suc (row_depth (rows ! i))"
    using parent_row [OF assms(4-6)] by blast
  let ?x = "lin (0, totalDurationMs (fp_trace p)) (0, svgWidth)"
  have mono: "a \<le> b \<Longrightarrow> ?x a \<le> ?x b" for a b
    by (rule linear_scale_mono [OF assms(1) totalDurationMs_pos [OF assms(2)] assms(3)])
  have len: "i < length rows" using i(1) assms(5) by simp
  have id: "row_spanId (rows ! i) = spanId (row_span (rows ! i))"
    using row_ids [OF assms(4)] len by simp
  have "?x (row_startMs (rows ! j) + row_durationMs (rows ! j))
      \<le> ?x (row_startMs (rows ! i)) + max 1 (bar_span ?x (rows ! i))"
    if "row_startMs (rows ! j) + row_durationMs (rows ! j)
        \<le> row_startMs (rows ! i) + row_durationMs (rows ! i)"
    using mono [OF that] by (simp add: bar_span_def max_def)
  then show ?thesis
    using i len id assms(5) mono
    by (intro exI [of _ i]) (simp add: flame_spans flame_span_of_def flame_geometry bar_span_def Let_def)
qed

definition sample_flame :: flame_props where
  "sample_flame =
     \<lparr>fp_trace = wp_trace sample_props, fp_criticalPathIds = {}, fp_grayedSpanIds = None,
      fp_highlightedSpanIds = None\<rparr>"

theorem flame_nests_children_witness:
  "\<exists>rows. buildSpanRows 2 (fp_trace sample_flame) = Some rows \<and>
     (\<exists>i < 1. fl_y (fg_spans (fst (draw_flame interpolating sample_flame 1000 rows initial_colors)) ! 1) =
             fl_y (fg_spans (fst (draw_flame interpolating sample_flame 1000 rows initial_colors)) ! i) + 24)"
proof -
  let ?rows = "[mk_row (5 / 10 ^ 6) (sample_span ''r'' [] 5) 0, mk_row (5 / 10 ^ 6) (sample_span ''c'' ''r'' 7) 1]"
  have rows: "buildSpanRows 2 (fp_trace sample_flame) = Some ?rows"
    by (simp add: sample_flame_def sample_props_def sample_trace_def buildSpanRows_def visited_rows_def
        is_root_def sample_span_def traceStart_def numeral_2_eq_2 children_of_eq orphan_rows_def)
  have "0 \<le> td_durationMs (fp_trace sample_flame)"
    by (simp add: sample_flame_def sample_props_def sample_trace_def)
  from flame_nests_children [OF interpolating_ls this _ rows, of 1000 1 initial_colors]
  show ?thesis using rows by (auto simp: Let_def)
qed

text \<open>
  Zooming the flame graph is drawing it at another scale, for the bars, the clipped
  labels and the click areas alike.
\<close>

theorem flame_zoom_is_redraw:
  "fg_spans (zoom_flame x rows (fst (draw_flame lin p svgWidth rows cs))) =
     map (flame_span_of (color_calls (map row_serviceName (filter (shows_service p) rows)) cs) p x) rows"
  by (rule nth_equalityI) (simp_all add: zoom_flame_def flame_spans zoom_flame_redraws)

end
