(* ===== verification/Heatmap.thy ===== *)
theory Heatmap
  imports Types
begin

text \<open>
  \<open>components/metrics/LatencyHeatmapChart.tsx\<close>: one cell per time bucket and latency band,
  the highest band at the top, with the labels of both axes. The colour ramp (D3) and the
  printing of a time of day in the local time zone are parameters.
\<close>

section \<open>Definitions\<close>

definition CELL_W :: num where "CELL_W = 48"
definition CELL_H :: num where "CELL_H = 20"
definition LABEL_W :: num where "LABEL_W = 70"
definition LABEL_H :: num where "LABEL_H = 32"

record heat_cell =
  cell_x :: num
  cell_y :: num
  cell_fill :: string
  cell_title :: string
  cell_count :: "(num \<times> num \<times> string \<times> string) option"

record heatmap =
  hm_width :: num
  hm_height :: num
  hm_cells :: "heat_cell list"
  hm_bands :: "(num \<times> string) list"
  hm_times :: "(num \<times> string) list"

text \<open>The two nested loops that start from 1.\<close>

definition maxCount :: "LatencyHeatmapData \<Rightarrow> int" where
  "maxCount data =
     fold (\<lambda>b m. fold (\<lambda>c m. if c > m then c else m) (counts b) m) (buckets data) 1"

definition numBands :: "LatencyHeatmapData \<Rightarrow> nat" where
  "numBands data = length (bounds data) + 1"

text \<open>\<open>bucket.counts[bi] ?? 0\<close>, and the text of \<open>data.bounds[i]\<close> in a template.\<close>

definition count_at :: "LatencyHeatmapBucket \<Rightarrow> nat \<Rightarrow> int" where
  "count_at b bi = (case js_at (counts b) (int bi) of None \<Rightarrow> 0 | Some c \<Rightarrow> c)"

definition bound_str :: "LatencyHeatmapData \<Rightarrow> int \<Rightarrow> string" where
  "bound_str data i = (case js_at (bounds data) i of None \<Rightarrow> ''undefined'' | Some x \<Rightarrow> num_str x)"

definition band_y :: "LatencyHeatmapData \<Rightarrow> nat \<Rightarrow> num" where
  "band_y data bi = (real (numBands data) - 1 - real bi) * CELL_H"

definition count_text :: "int \<Rightarrow> string" where
  "count_text c = (if c > 999 then toFixed (of_int c / 1000) 1 @ ''k'' else int_str c)"

definition heat_cell_of ::
  "(int \<Rightarrow> int \<Rightarrow> string) \<Rightarrow> (num \<Rightarrow> string) \<Rightarrow> LatencyHeatmapData \<Rightarrow> nat \<Rightarrow> nat \<Rightarrow> heat_cell" where
  "heat_cell_of ramp time_str data ti bi =
     (let bucket = buckets data ! ti; c = count_at bucket bi; m = maxCount data
      in \<lparr>cell_x = real ti * CELL_W,
          cell_y = band_y data bi,
          cell_fill = (if c = 0 then ''#f1f5f9'' else ramp m c),
          cell_title = time_str (bucket_ts bucket * 1000) @ '': '' @ int_str c @ '' spans ('' @
            (if bi = 0 then ''0'' else bound_str data (int bi - 1)) @ en_dash @
            (if bi < length (bounds data) then bound_str data (int bi) else infinity_sign) @ ''ms)'',
          cell_count = (if c > 0
            then Some (real ti * CELL_W + CELL_W / 2, band_y data bi + CELL_H / 2,
                       if of_int c > (of_int m :: num) * (6 / 10) then ''white'' else ''#374151'', count_text c)
            else None)\<rparr>)"

definition band_label :: "LatencyHeatmapData \<Rightarrow> nat \<Rightarrow> num \<times> string" where
  "band_label data bi =
     (LABEL_H + band_y data bi + CELL_H / 2,
      if bi = 0 then le_sign @ bound_str data 0 @ ''ms''
      else if bi < length (bounds data)
      then bound_str data (int bi - 1) @ en_dash @ bound_str data (int bi) @ ''ms''
      else ''>'' @ bound_str data (int (length (bounds data)) - 1) @ ''ms'')"

text \<open>The drawing; \<open>None\<close> stands for the notice shown instead when there are no buckets.\<close>

definition LatencyHeatmapChart ::
  "(int \<Rightarrow> int \<Rightarrow> string) \<Rightarrow> (num \<Rightarrow> string) \<Rightarrow> (num \<Rightarrow> string) \<Rightarrow> LatencyHeatmapData \<Rightarrow> heatmap option" where
  "LatencyHeatmapChart ramp time_str clock data =
     (if buckets data = [] then None
      else let n = length (buckets data); k = numBands data
      in Some
        \<lparr>hm_width = LABEL_W + real n * CELL_W,
         hm_height = LABEL_H + real k * CELL_H,
         hm_cells = concat (map (\<lambda>ti. map (heat_cell_of ramp time_str data ti) [0..<k]) [0..<n]),
         hm_bands = map (band_label data) [0..<k],
         hm_times = map (\<lambda>ti. (LABEL_W + real ti * CELL_W + CELL_W / 2,
                               clock (bucket_ts (buckets data ! ti) * 1000))) [0..<n]\<rparr>)"

section \<open>Lemmas\<close>


lemma fold_max_bounds:
  "z \<le> fold (\<lambda>c m. if c > m then c else m) xs z \<and>
   (\<forall>x \<in> set xs. x \<le> fold (\<lambda>c m. if c > m then c else m) xs z) \<and>
   fold (\<lambda>c m. if c > m then c else m) xs z \<in> insert z (set xs)" for z :: int
proof (induction xs arbitrary: z)
  case (Cons x xs)
  show ?case using Cons.IH [of x] Cons.IH [of z] by auto
qed simp

lemma fold_nested: "fold (\<lambda>b m. fold f (g b) m) bs z = fold f (concat (map g bs)) z"
  by (induction bs arbitrary: z) simp_all

lemma maxCount_bounds:
  "1 \<le> maxCount data \<and> (\<forall>b \<in> set (buckets data). \<forall>c \<in> set (counts b). c \<le> maxCount data)"
  using fold_max_bounds [of 1 "concat (map counts (buckets data))"]
  by (auto simp: maxCount_def fold_nested)

lemma length_grid:
  "length (concat (map (\<lambda>i. map (f i) [0..<k]) [0..<n])) = n * k"
  by (induction n) simp_all

lemma nth_grid:
  "i < n \<Longrightarrow> j < k \<Longrightarrow> concat (map (\<lambda>i. map (f i) [0..<k]) [0..<n]) ! (i * k + j) = f i j"
proof (induction n)
  case (Suc n)
  have small: "i * k + j < n * k" if "i < n"
  proof -
    have "i * k + j < Suc i * k" using Suc.prems by simp
    also have "\<dots> \<le> n * k" using that by (intro mult_right_mono) simp_all
    finally show ?thesis .
  qed
  show ?case
  proof (cases "i = n")
    case True
    with Suc.prems show ?thesis by (simp add: nth_append length_grid)
  next
    case False
    with Suc.prems have "i < n" by simp
    with Suc small show ?thesis by (simp add: nth_append length_grid)
  qed
qed simp

lemma heat_cell_fields:
  "cell_x (heat_cell_of ramp time_str data ti bi) = 48 * real ti"
  "cell_y (heat_cell_of ramp time_str data ti bi) = 20 * (real (length (bounds data)) - real bi)"
  "cell_fill (heat_cell_of ramp time_str data ti bi) =
     (if count_at (buckets data ! ti) bi = 0 then ''#f1f5f9''
      else ramp (maxCount data) (count_at (buckets data ! ti) bi))"
  by (simp_all add: heat_cell_of_def band_y_def numBands_def CELL_W_def CELL_H_def Let_def)

section \<open>Properties\<close>

text \<open>
  The heatmap is a full grid: one cell for every time bucket and every latency band, the
  overflow band included; bucket \<open>ti\<close> and band \<open>bi\<close> are at \<open>(48 ti, 20 (bands - 1 - bi))\<close>, inside
  the drawing, and the colour of a cell that is not empty is the ramp's at its count,
  which is at most the maximum the ramp was made for.
\<close>

theorem heatmap_is_a_grid:
  assumes "ti < length (buckets data)" and "bi \<le> length (bounds data)"
  shows "\<exists>h. LatencyHeatmapChart ramp time_str clock data = Some h \<and>
           length (hm_cells h) = length (buckets data) * (length (bounds data) + 1) \<and>
           (let cell = hm_cells h ! (ti * (length (bounds data) + 1) + bi);
                c = count_at (buckets data ! ti) bi
            in cell_x cell = 48 * real ti \<and> cell_y cell = 20 * (real (length (bounds data)) - real bi) \<and>
               70 + cell_x cell + 48 \<le> hm_width h \<and> 32 + cell_y cell + 20 \<le> hm_height h \<and>
               cell_fill cell = (if c = 0 then ''#f1f5f9'' else ramp (maxCount data) c) \<and>
               c \<le> maxCount data)"
proof -
  let ?k = "length (bounds data) + 1"
  have "LatencyHeatmapChart ramp time_str clock data \<noteq> None"
    using assms(1) by (auto simp: LatencyHeatmapChart_def Let_def)
  then obtain h where h: "LatencyHeatmapChart ramp time_str clock data = Some h" by blast
  have cells: "hm_cells h = concat (map (\<lambda>ti. map (heat_cell_of ramp time_str data ti) [0..<?k])
      [0..<length (buckets data)])"
    and dim: "hm_width h = 70 + real (length (buckets data)) * 48" "hm_height h = 32 + real ?k * 20"
    using h assms(1)
    by (auto simp: LatencyHeatmapChart_def Let_def numBands_def LABEL_W_def LABEL_H_def CELL_W_def CELL_H_def
        split: if_splits)
  have cell: "hm_cells h ! (ti * ?k + bi) = heat_cell_of ramp time_str data ti bi"
    unfolding cells by (rule nth_grid) (use assms in simp_all)
  have "count_at (buckets data ! ti) bi \<le> maxCount data"
  proof (cases "js_at (counts (buckets data ! ti)) (int bi)")
    case None
    then show ?thesis
      using maxCount_bounds [of data] by (simp add: count_at_def)
  next
    case (Some c)
    from js_at_Some [OF Some] nth_mem [OF assms(1)] have "c \<le> maxCount data"
      using maxCount_bounds [of data] by blast
    then show ?thesis using Some by (simp add: count_at_def)
  qed
  moreover have "length (hm_cells h) = length (buckets data) * ?k"
    unfolding cells by (rule length_grid)
  moreover have "48 * (real ti + 1) \<le> 48 * real (length (buckets data))"
    using assms(1) by (intro mult_left_mono) linarith+
  ultimately show ?thesis
    using h assms(2) by (intro exI [of _ h]) (unfold Let_def cell, simp add: heat_cell_fields dim)
qed

theorem heatmap_is_a_grid_witness:
  "\<exists>h. LatencyHeatmapChart (\<lambda>m c. ''red'') (\<lambda>t. ''t'') (\<lambda>t. ''t'')
        \<lparr>bounds = [10], buckets = [\<lparr>bucket_ts = 0, counts = [2, 3]\<rparr>]\<rparr> = Some h \<and>
     length (hm_cells h) = 2 \<and> cell_y (hm_cells h ! 1) = 0"
  using heatmap_is_a_grid [of 0 "\<lparr>bounds = [10], buckets = [\<lparr>bucket_ts = 0, counts = [2, 3]\<rparr>]\<rparr>" 1
      "\<lambda>m c. ''red''" "\<lambda>t. ''t''" "\<lambda>t. ''t''"]
  by (auto simp: Let_def)

end
