(* ===== verification/MetricsPage.thy ===== *)
theory MetricsPage
  imports Heatmap Latest Collector Shell Lib
begin

text \<open>
  \<open>pages/Metrics.tsx\<close>: four sources loaded together, of which only the first has to
  succeed; the selected service; the sorted table and the figures derived from it.
\<close>

section \<open>Definitions\<close>

datatype SortKey = ByOperation | ByRate | ByErrorRate | ByP50 | ByP95 | ByP99

record metrics_page =
  mt_metrics :: "MetricSnapshotDTO list"
  mt_selectedService :: string
  mt_sortKey :: SortKey
  mt_sortAsc :: bool
  mt_anomalies :: "AnomalyResult list"
  mt_slos :: "SLOResult list"
  mt_heatmap :: LatencyHeatmapData
  mt_loading :: bool
  mt_error :: "string option"
  mt_warnings :: "string list"
  mt_reqs :: requests

definition metrics_initial :: metrics_page where
  "metrics_initial =
     \<lparr>mt_metrics = [], mt_selectedService = [], mt_sortKey = ByRate, mt_sortAsc = False,
      mt_anomalies = [], mt_slos = [], mt_heatmap = \<lparr>bounds = [], buckets = []\<rparr>,
      mt_loading = True, mt_error = None, mt_warnings = [], mt_reqs = no_requests\<rparr>"

definition metric_services :: "MetricSnapshotDTO list \<Rightarrow> string list" where
  "metric_services ms = uniq (map service ms)"

text \<open>\<open>selectedService || services[0] || ''\<close>\<close>

definition effectiveSelectedService :: "metrics_page \<Rightarrow> string" where
  "effectiveSelectedService s =
     (if mt_selectedService s \<noteq> [] then mt_selectedService s
      else case metric_services (mt_metrics s) of [] \<Rightarrow> [] | x # _ \<Rightarrow> x)"

subsection \<open>Loading\<close>

text \<open>
  What \<open>Promise.allSettled\<close> gives: for each of the four calls its value or its failure.
  The lists of anomalies and objectives may be missing from their answers.
\<close>

record metrics_result =
  res_metrics :: "failure + MetricSnapshotDTO list"
  res_anomalies :: "failure + AnomalyResult list option"
  res_slos :: "failure + SLOResult list option"
  res_heatmap :: "failure + LatencyHeatmapData"

definition metrics_start :: "metrics_page \<Rightarrow> metrics_page" where
  "metrics_start s = s\<lparr>mt_reqs := begin_request (mt_reqs s), mt_error := None\<rparr>"

definition list_or_empty :: "'a list option \<Rightarrow> 'a list" where
  "list_or_empty v = (case v of None \<Rightarrow> [] | Some xs \<Rightarrow> xs)"

definition warning_of :: "string \<Rightarrow> string \<Rightarrow> failure + 'a \<Rightarrow> string list" where
  "warning_of what fallback r =
     (case r of Inl e \<Rightarrow> [what @ getErrorMessage e fallback] | Inr _ \<Rightarrow> [])"

definition next_warnings :: "metrics_result \<Rightarrow> string list" where
  "next_warnings r =
     warning_of ''Anomaly queue unavailable: '' ''Failed to load anomalies.'' (res_anomalies r) @
     warning_of ''SLO view unavailable: '' ''Failed to load SLOs.'' (res_slos r) @
     warning_of ''Latency heatmap unavailable: '' ''Failed to load latency heatmap.'' (res_heatmap r)"

text \<open>The handler of \<open>then\<close> once the metrics are there.\<close>

definition metrics_accept :: "MetricSnapshotDTO list \<Rightarrow> metrics_result \<Rightarrow> metrics_page \<Rightarrow> metrics_page" where
  "metrics_accept ms r s =
     s\<lparr>mt_metrics := ms,
       mt_anomalies := (case res_anomalies r of
          Inr a \<Rightarrow> filter isOutlier (list_or_empty a) | Inl _ \<Rightarrow> mt_anomalies s),
       mt_slos := (case res_slos r of Inr x \<Rightarrow> list_or_empty x | Inl _ \<Rightarrow> mt_slos s),
       mt_heatmap := (case res_heatmap r of Inr h \<Rightarrow> h | Inl _ \<Rightarrow> mt_heatmap s),
       mt_warnings := next_warnings r\<rparr>"

definition metrics_finally :: "nat \<Rightarrow> metrics_page \<Rightarrow> metrics_page" where
  "metrics_finally i s = (if i = requestId (mt_reqs s) then s\<lparr>mt_loading := False\<rparr> else s)"

definition metrics_failed :: "nat \<Rightarrow> failure \<Rightarrow> metrics_page \<Rightarrow> metrics_page" where
  "metrics_failed i e s =
     (if is_abort e then s
      else if i \<noteq> requestId (mt_reqs s) then s
      else s\<lparr>mt_error := Some (getErrorMessage e ''Failed to load metrics.'')\<rparr>)"

text \<open>
  \<open>then\<close>, with the failure it throws when the metrics were not loaded, \<open>catch\<close> and
  \<open>finally\<close>. \<open>Promise.allSettled\<close> itself never fails; \<open>metrics_catch\<close> is the chain for a
  failure from elsewhere.
\<close>

definition metrics_then :: "nat \<Rightarrow> metrics_result \<Rightarrow> metrics_page \<Rightarrow> metrics_page" where
  "metrics_then i r s = metrics_finally i
     (if i \<noteq> requestId (mt_reqs s) then s
      else case res_metrics r of
        Inl e \<Rightarrow> metrics_failed i e s
      | Inr ms \<Rightarrow> metrics_accept ms r s)"

definition metrics_catch :: "nat \<Rightarrow> failure \<Rightarrow> metrics_page \<Rightarrow> metrics_page" where
  "metrics_catch i e s = metrics_finally i (metrics_failed i e s)"

definition heatmap_request :: "metrics_page \<Rightarrow> string option" where
  "heatmap_request s =
     (if effectiveSelectedService s = [] then None else Some (effectiveSelectedService s))"

text \<open>
  Selecting a service: the effect depends on the effective service, so its cleanup aborts
  the request in flight when that changes.
\<close>

definition selectService :: "string \<Rightarrow> metrics_page \<Rightarrow> metrics_page" where
  "selectService v s =
     (let s' = s\<lparr>mt_selectedService := v\<rparr>
      in if effectiveSelectedService s' \<noteq> effectiveSelectedService s
         then s'\<lparr>mt_reqs := abort_current (mt_reqs s')\<rparr> else s')"

subsection \<open>The table\<close>

definition svcMetrics :: "metrics_page \<Rightarrow> MetricSnapshotDTO list" where
  "svcMetrics s = filter (\<lambda>m. service m = effectiveSelectedService s) (mt_metrics s)"

fun metric_number :: "SortKey \<Rightarrow> MetricSnapshotDTO \<Rightarrow> num" where
  "metric_number ByRate m = rate m"
| "metric_number ByErrorRate m = errorRate m"
| "metric_number ByP50 m = p50Ms m"
| "metric_number ByP95 m = p95Ms m"
| "metric_number ByP99 m = p99Ms m"
| "metric_number ByOperation m = 0"

text \<open>The comparison; \<open>localeCompare\<close>, which depends on the locale, is a parameter.\<close>

definition metric_compare ::
  "(string \<Rightarrow> string \<Rightarrow> num) \<Rightarrow> SortKey \<Rightarrow> bool \<Rightarrow> MetricSnapshotDTO \<Rightarrow> MetricSnapshotDTO \<Rightarrow> num" where
  "metric_compare localeCompare k asc a b =
     (if k = ByOperation then
        (if asc then localeCompare (operation a) (operation b)
         else localeCompare (operation b) (operation a))
      else if asc then metric_number k a - metric_number k b
      else metric_number k b - metric_number k a)"

definition sorted_metrics :: "(string \<Rightarrow> string \<Rightarrow> num) \<Rightarrow> metrics_page \<Rightarrow> MetricSnapshotDTO list" where
  "sorted_metrics localeCompare s =
     js_sort (metric_compare localeCompare (mt_sortKey s) (mt_sortAsc s)) (svcMetrics s)"

definition handleSort :: "SortKey \<Rightarrow> metrics_page \<Rightarrow> metrics_page" where
  "handleSort k s =
     (if k = mt_sortKey s then s\<lparr>mt_sortAsc := \<not> mt_sortAsc s\<rparr>
      else s\<lparr>mt_sortKey := k, mt_sortAsc := False\<rparr>)"

definition sortIndicator :: "metrics_page \<Rightarrow> SortKey \<Rightarrow> string" where
  "sortIndicator s k =
     (if mt_sortKey s = k then (if mt_sortAsc s then '' '' @ arrow_up else '' '' @ arrow_down) else [])"

record chart_point =
  cp_name :: string
  cp_rate :: num
  cp_errorRate :: num
  cp_p50 :: num
  cp_p95 :: num
  cp_p99 :: num

definition chart_point_of :: "MetricSnapshotDTO \<Rightarrow> chart_point" where
  "chart_point_of m =
     \<lparr>cp_name = (if length (operation m) > 20 then take 20 (operation m) @ ellipsis else operation m),
      cp_rate = rate m, cp_errorRate = errorRate m * 100, cp_p50 = p50Ms m, cp_p95 = p95Ms m,
      cp_p99 = p99Ms m\<rparr>"

definition totalRate :: "MetricSnapshotDTO list \<Rightarrow> num" where
  "totalRate ms = fold (\<lambda>m acc. acc + rate m) ms 0"

definition worstP99 :: "MetricSnapshotDTO list \<Rightarrow> num" where
  "worstP99 ms = fold (\<lambda>m acc. max acc (p99Ms m)) ms 0"

definition highestErrorRate :: "MetricSnapshotDTO list \<Rightarrow> num" where
  "highestErrorRate ms = fold (\<lambda>m acc. max acc (errorRate m)) ms 0"

subsection \<open>The page\<close>

record slo_card =
  slo_name :: string
  slo_text :: string
  slo_bar :: "string \<times> string"
  slo_detail :: string

definition slo_card_of :: "SLOResult \<Rightarrow> slo_card" where
  "slo_card_of x =
     \<lparr>slo_name = slo_service x,
      slo_text = (if breached x then ''Budget breached''
        else toFixed (budgetRemaining x * 100) 1 @ ''% remaining''),
      slo_bar = (if breached x then ''bg-red-500'' else ''bg-emerald-500'',
        toFixed (max 0 (budgetRemaining x * 100)) 1 @ ''%''),
      slo_detail = ''Current error rate '' @ toFixed (currentErrorRate x * 100) 2 @ ''% against a '' @
        toFixed (targetErrorRate x * 100) 2 @ ''% target''\<rparr>"

definition anomaly_card_of :: "AnomalyResult \<Rightarrow> string list" where
  "anomaly_card_of a =
     [an_service a @ ''/'' @ an_operation a,
      ''P99 '' @ toFixed (an_p99Ms a) 1 @ ''ms'',
      ''Mean '' @ toFixed (meanMs a) 1 @ ''ms'',
      toFixed (zScore a) 1 @ sigma @ '' above baseline'']"

record metric_row =
  mr_operation :: string
  mr_rate :: string
  mr_error :: "string \<times> bool"
  mr_latencies :: "string list"

definition metric_row_of :: "MetricSnapshotDTO \<Rightarrow> metric_row" where
  "metric_row_of m =
     \<lparr>mr_operation = operation m, mr_rate = toFixed (rate m) 2,
      mr_error = (toFixed (errorRate m * 100) 1 @ ''%'', errorRate m > 1 / 10),
      mr_latencies = map (\<lambda>x. toFixed x 1 @ ''ms'') [p50Ms m, p95Ms m, p99Ms m]\<rparr>"

record metrics_view =
  mv_service :: string
  mv_services :: "string list"
  mv_operations :: nat
  mv_caption :: string
  mv_totalRate :: string
  mv_worstP99 :: string
  mv_error :: "string option"
  mv_warnings :: "string option"
  mv_slos :: "slo_card list"
  mv_anomalies :: "string list list"
  mv_highestError :: string
  mv_chart :: "chart_point list"
  mv_heatmap :: LatencyHeatmapData
  mv_headings :: "string list"
  mv_rows :: "metric_row list"

fun join_space :: "string list \<Rightarrow> string" where
  "join_space [] = []"
| "join_space [x] = x"
| "join_space (x # y # xs) = x @ '' '' @ join_space (y # xs)"

definition metrics_view_of :: "(string \<Rightarrow> string \<Rightarrow> num) \<Rightarrow> metrics_page \<Rightarrow> metrics_view" where
  "metrics_view_of localeCompare s =
     (let ms = svcMetrics s; table = sorted_metrics localeCompare s;
          svc = effectiveSelectedService s
      in \<lparr>mv_service = svc,
          mv_services = metric_services (mt_metrics s),
          mv_operations = length ms,
          mv_caption = ''Active operations for '' @ (if svc \<noteq> [] then svc else ''the current service''),
          mv_totalRate = toFixed (totalRate ms) 1,
          mv_worstP99 = toFixed (worstP99 ms) 1 @ ''ms'',
          mv_error = nonempty (mt_error s),
          mv_warnings = (if mt_warnings s = [] then None else Some (join_space (mt_warnings s))),
          mv_slos = map slo_card_of (mt_slos s),
          mv_anomalies = map anomaly_card_of (mt_anomalies s),
          mv_highestError = ''Highest error rate in this service slice is '' @
            toFixed (highestErrorRate ms * 100) 2 @ ''%.'',
          mv_chart = map chart_point_of table,
          mv_heatmap = mt_heatmap s,
          mv_headings = [''Operation'' @ sortIndicator s ByOperation, ''Rate'' @ sortIndicator s ByRate,
            ''Error%'' @ sortIndicator s ByErrorRate, ''P50'' @ sortIndicator s ByP50,
            ''P95'' @ sortIndicator s ByP95, ''P99'' @ sortIndicator s ByP99],
          mv_rows = map metric_row_of table\<rparr>)"

datatype metrics_retry = FetchMetrics

datatype metrics_screen = MetricsNotice "metrics_retry notice" | MetricsView metrics_view

definition MetricsPage_view :: "(string \<Rightarrow> string \<Rightarrow> num) \<Rightarrow> metrics_page \<Rightarrow> metrics_screen" where
  "MetricsPage_view localeCompare s =
     (if mt_loading s \<and> mt_metrics s = [] \<and> \<not> present (mt_error s) then
        MetricsNotice (bare_notice ''Loading metrics''
          ''Fetching RED metrics, anomalies, SLOs, and latency heatmaps.'')
      else if present (mt_error s) \<and> mt_metrics s = [] then
        MetricsNotice (plain_notice ''Unable to load metrics''
          (case mt_error s of None \<Rightarrow> [] | Some e \<Rightarrow> e) ''Retry'' FetchMetrics)
      else if map chart_point_of (sorted_metrics localeCompare s) = [] then
        MetricsNotice (bare_notice ''No metrics yet''
          ''Ingest spans to populate request rate, error rate, and latency trends.'')
      else MetricsView (metrics_view_of localeCompare s))"

definition sample_metric :: "string \<Rightarrow> string \<Rightarrow> num \<Rightarrow> MetricSnapshotDTO" where
  "sample_metric svc op r =
     \<lparr>service = svc, operation = op, rate = r, errorRate = 0, p50Ms = 1, p95Ms = 2, p99Ms = 3\<rparr>"

definition sample_result :: "failure + MetricSnapshotDTO list \<Rightarrow> metrics_result" where
  "sample_result m =
     \<lparr>res_metrics = m, res_anomalies = Inr None, res_slos = Inl (ErrorObj ''down''),
      res_heatmap = Inr \<lparr>bounds = [], buckets = []\<rparr>\<rparr>"

section \<open>Lemmas\<close>

definition metrics_shown ::
  "metrics_page \<Rightarrow> MetricSnapshotDTO list \<times> AnomalyResult list \<times> SLOResult list \<times>
   LatencyHeatmapData \<times> string list \<times> string option" where
  "metrics_shown s = (mt_metrics s, mt_anomalies s, mt_slos s, mt_heatmap s, mt_warnings s, mt_error s)"

definition metrics_result_shown ::
  "metrics_result \<Rightarrow> MetricSnapshotDTO list \<times> AnomalyResult list \<times> SLOResult list \<times>
   LatencyHeatmapData \<times> string list \<times> string option \<Rightarrow>
   MetricSnapshotDTO list \<times> AnomalyResult list \<times> SLOResult list \<times>
   LatencyHeatmapData \<times> string list \<times> string option" where
  "metrics_result_shown r v =
     (let (ms0, as0, ss0, h0, w0, e0) = v
      in case res_metrics r of
           Inl e \<Rightarrow> (ms0, as0, ss0, h0, w0,
             if is_abort e then e0 else Some (getErrorMessage e ''Failed to load metrics.''))
         | Inr ms \<Rightarrow>
             (ms, (case res_anomalies r of Inr a \<Rightarrow> filter isOutlier (list_or_empty a) | Inl _ \<Rightarrow> as0),
              (case res_slos r of Inr x \<Rightarrow> list_or_empty x | Inl _ \<Rightarrow> ss0),
              (case res_heatmap r of Inr h \<Rightarrow> h | Inl _ \<Rightarrow> h0), next_warnings r, e0))"

lemmas metrics_defs = metrics_start_def metrics_then_def metrics_catch_def metrics_finally_def
  metrics_failed_def metrics_accept_def

interpretation metrics: latest_loading "requestId \<circ> mt_reqs" metrics_start metrics_then
  metrics_catch metrics_shown metrics_result_shown mt_loading
  by unfold_locales
    (auto simp: metrics_defs metrics_shown_def metrics_result_shown_def split: sum.splits)

lemma metrics_rest:
  "mt_selectedService (metrics_then i r s) = mt_selectedService s"
  "mt_sortKey (metrics_then i r s) = mt_sortKey s" "mt_sortAsc (metrics_then i r s) = mt_sortAsc s"
  by (auto simp: metrics_defs split: sum.splits)

lemma consistent_metric_compare:
  assumes "consistent_cmp localeCompare"
  shows "consistent_cmp (metric_compare localeCompare k asc)"
proof (cases "k = ByOperation")
  case True
  then show ?thesis
    using assms by (cases asc) (auto simp: consistent_cmp_def metric_compare_def)
next
  case False
  then have "metric_compare localeCompare k asc =
      (if asc then (\<lambda>a b. metric_number k a - metric_number k b)
       else (\<lambda>a b. metric_number k b - metric_number k a))"
    by (auto simp: metric_compare_def intro!: ext)
  then show ?thesis by (simp add: consistent_cmp_key consistent_cmp_key_desc)
qed

lemma fold_max_ge: "z \<le> fold (\<lambda>x acc. max acc (f x)) xs z \<and> (\<forall>x \<in> set xs. f x \<le> fold (\<lambda>x acc. max acc (f x)) xs z)"
  for z :: num
proof (induction xs arbitrary: z)
  case (Cons x xs)
  show ?case using Cons.IH [of "max z (f x)"] by auto
qed simp

section \<open>Properties\<close>

text \<open>
  The four sources are loaded as one: when the latest request is answered with metrics,
  the page has that answer's metrics and its warnings and is no longer loading, whatever
  superseded requests settle before and after.
\<close>

theorem latest_metrics_are_shown:
  assumes "settled_upto (requestId (mt_reqs s)) xs"
    and "settled_upto (requestId (mt_reqs s)) ys" and "res_metrics r = Inr ms"
  shows "let s' = settle_all metrics_then metrics_catch
           (metrics_then (Suc (requestId (mt_reqs s))) r
             (settle_all metrics_then metrics_catch (metrics_start s) xs)) ys
         in mt_metrics s' = ms \<and> mt_warnings s' = next_warnings r \<and> mt_error s' = None \<and> \<not> mt_loading s'"
proof -
  let ?s1 = "settle_all metrics_then metrics_catch (metrics_start s) xs"
  let ?s2 = "metrics_then (Suc (requestId (mt_reqs s))) r ?s1"
  let ?s' = "settle_all metrics_then metrics_catch ?s2 ys"
  have "metrics_shown ?s' = metrics_result_shown r (metrics_shown (metrics_start s))"
    using metrics.last_started_wins [of s xs ys r] assms(1,2) by simp
  then have shown: "mt_metrics ?s' = ms" "mt_warnings ?s' = next_warnings r" "mt_error ?s' = None"
    using assms(3)
    by (auto simp: metrics_shown_def metrics_result_shown_def metrics_start_def)
  have "requestId (mt_reqs ?s1) = Suc (requestId (mt_reqs s))"
    using metrics.cur_settle_all [of "metrics_start s" xs] by (simp add: metrics_start_def)
  then have "\<not> mt_loading ?s2" using metrics.resolve_idle [of ?s1 r] by simp
  then have "\<not> mt_loading ?s'" by (simp add: metrics.busy_settle_all)
  with shown show ?thesis by (simp add: Let_def)
qed

theorem latest_metrics_are_shown_witness:
  "mt_metrics (settle_all metrics_then metrics_catch
     (metrics_then 2 (sample_result (Inr [sample_metric ''b'' ''op'' 1]))
       (settle_all metrics_then metrics_catch (metrics_start (metrics_start metrics_initial))
          [Rejected 1 NotAnError]))
     [Resolved 1 (sample_result (Inr []))]) = [sample_metric ''b'' ''op'' 1]"
proof -
  have "requestId (mt_reqs (metrics_start metrics_initial)) = 1"
    by (simp add: metrics_start_def metrics_initial_def no_requests_def)
  then show ?thesis
    using latest_metrics_are_shown [of "metrics_start metrics_initial" "[Rejected 1 NotAnError]"
        "[Resolved 1 (sample_result (Inr []))]" "sample_result (Inr [sample_metric ''b'' ''op'' 1])"]
    by (simp add: settled_upto_def numeral_2_eq_2 Let_def sample_result_def)
qed

text \<open>
  A secondary source that fails does not take the page down: the metrics are updated,
  the panel of the failed source keeps what it had, and there is one warning for each
  failed source and no error.
\<close>

theorem partial_failure_is_isolated:
  assumes "res_metrics r = Inr ms" and "mt_error s = None"
  shows "let s' = metrics_then (requestId (mt_reqs s)) r s
         in mt_metrics s' = ms \<and> mt_error s' = None \<and>
            (isl (res_anomalies r) \<longrightarrow> mt_anomalies s' = mt_anomalies s) \<and>
            (isl (res_slos r) \<longrightarrow> mt_slos s' = mt_slos s) \<and>
            (isl (res_heatmap r) \<longrightarrow> mt_heatmap s' = mt_heatmap s) \<and>
            length (mt_warnings s') =
              length (filter id [isl (res_anomalies r), isl (res_slos r), isl (res_heatmap r)])"
  using assms
  by (auto simp: metrics_defs next_warnings_def warning_of_def Let_def split: sum.splits)

theorem partial_failure_is_isolated_witness:
  "length (mt_warnings (metrics_then 0 (sample_result (Inr [])) metrics_initial)) = 1"
  using partial_failure_is_isolated [of "sample_result (Inr [])" "[]" metrics_initial]
  by (simp add: sample_result_def metrics_initial_def no_requests_def Let_def)

text \<open>
  The table has exactly the metrics of the selected service, each as often as the
  collector sent it, and no row stands before one that the chosen comparison wants first;
  \<open>localeCompare\<close> has to be a consistent comparison.
\<close>

theorem table_is_sorted:
  assumes "consistent_cmp localeCompare"
  shows "mset (sorted_metrics localeCompare s) =
           {# m \<in># mset (mt_metrics s). service m = effectiveSelectedService s #} \<and>
         sorted_wrt (\<lambda>a b. metric_compare localeCompare (mt_sortKey s) (mt_sortAsc s) a b \<le> 0)
           (sorted_metrics localeCompare s)"
  using sorted_js_sort [OF consistent_metric_compare [OF assms]]
  by (simp add: sorted_metrics_def svcMetrics_def mset_js_sort)

theorem table_is_sorted_witness:
  "sorted_wrt (\<lambda>a b. metric_compare (\<lambda>a b. 0) ByRate False a b \<le> 0)
     (sorted_metrics (\<lambda>a b. 0)
       (metrics_initial\<lparr>mt_metrics := [sample_metric ''s'' ''a'' 1, sample_metric ''s'' ''b'' 2]\<rparr>))"
  using table_is_sorted [of "\<lambda>a b. 0"
      "metrics_initial\<lparr>mt_metrics := [sample_metric ''s'' ''a'' 1, sample_metric ''s'' ''b'' 2]\<rparr>"]
  by (simp add: consistent_cmp_def metrics_initial_def)

text \<open>
  When the selected service is no longer among the metrics, the page says that there are
  no metrics, although other services have some; and the selector that would choose one of
  them is not shown.
\<close>

theorem vanished_service_hides_metrics:
  assumes "mt_selectedService s \<noteq> []" and "mt_selectedService s \<notin> set (metric_services (mt_metrics s))"
    and "mt_metrics s \<noteq> []"
  shows "MetricsPage_view localeCompare s = MetricsNotice (bare_notice ''No metrics yet''
           ''Ingest spans to populate request rate, error rate, and latency trends.'')"
proof -
  have "service m \<noteq> mt_selectedService s" if "m \<in> set (mt_metrics s)" for m
  proof
    assume "service m = mt_selectedService s"
    with that have "mt_selectedService s \<in> service ` set (mt_metrics s)" by (metis imageI)
    with assms(2) show False by (simp add: metric_services_def set_uniq)
  qed
  then have "svcMetrics s = []"
    using assms(1) by (simp add: svcMetrics_def effectiveSelectedService_def filter_empty_conv)
  then have "sorted_metrics localeCompare s = []" by (simp add: sorted_metrics_def js_sort_def)
  with assms(3) show ?thesis by (simp add: MetricsPage_view_def)
qed

theorem vanished_service_hides_metrics_witness:
  "\<exists>n. MetricsPage_view (\<lambda>a b. 0) (metrics_initial\<lparr>mt_metrics := [sample_metric ''s'' ''a'' 1],
     mt_selectedService := ''gone'', mt_loading := False\<rparr>) = MetricsNotice n"
  using vanished_service_hides_metrics [of "metrics_initial\<lparr>mt_metrics := [sample_metric ''s'' ''a'' 1],
     mt_selectedService := ''gone'', mt_loading := False\<rparr>" "\<lambda>a b. 0"]
  by (simp add: metric_services_def uniq_def sample_metric_def)

end
