(* ===== verification/ServiceMap.thy ===== *)
theory ServiceMap
  imports Types Lib Latest Collector Shell
begin

text \<open>
  \<open>pages/ServiceMap.tsx\<close>: the dependency graph as nodes and edges, with the layout kept
  between polls while the services stay the same, and the sidebar of the selected service.
  Placing nodes (dagre) and drawing the graph (React Flow) are libraries: the layout is a
  parameter, a function from the sizes of the nodes and the pairs of the edges to positions.
\<close>

section \<open>Definitions\<close>

subsection \<open>Nodes and edges\<close>

record ServiceNodePayload =
  nd_label :: string
  nd_spanCount :: int
  nd_errorRate :: num
  nd_p99Ms :: num
  nd_reqPerSec :: num

record graph_node =
  nd_id :: string
  nd_position :: "num \<times> num"
  nd_data :: ServiceNodePayload

record graph_edge =
  ed_id :: string
  ed_source :: string
  ed_target :: string
  ed_count :: int
  ed_p99Ms :: num
  ed_high :: bool

type_synonym node_layout = "(string \<times> num) list \<Rightarrow> (string \<times> string) list \<Rightarrow> string \<Rightarrow> num \<times> num"

definition node_radius :: "int \<Rightarrow> num" where
  "node_radius n = max 24 (min 50 (20 + ln (1 + of_int n) * 5))"

definition node_hue :: "num \<Rightarrow> int" where
  "node_hue err = js_round ((1 - min err 1) * 120)"

record node_view =
  nv_diameter :: num
  nv_fill :: string
  nv_label :: string
  nv_error :: "string option"

definition ServiceNodeComponent :: "ServiceNodePayload \<Rightarrow> node_view" where
  "ServiceNodeComponent d =
     \<lparr>nv_diameter = node_radius (nd_spanCount d) * 2,
      nv_fill = ''hsl('' @ int_str (node_hue (nd_errorRate d)) @ '', 70%, 45%)'',
      nv_label = nd_label d,
      nv_error = (if nd_errorRate d > 1 / 100
        then Some (toFixed (nd_errorRate d * 100) 0 @ ''% err'') else None)\<rparr>"

record edge_view =
  ev_strokeWidth :: num
  ev_stroke :: string
  ev_animated :: bool
  ev_label :: string

definition DependencyEdgeComponent :: "graph_edge \<Rightarrow> edge_view" where
  "DependencyEdgeComponent e =
     \<lparr>ev_strokeWidth = max 1 (1 + ln (1 + of_int (ed_count e))),
      ev_stroke = (if ed_high e then ''#f59e0b'' else ''#64748b''),
      ev_animated = ed_high e,
      ev_label = ''P99 '' @ toFixed (ed_p99Ms e) 0 @ ''ms''\<rparr>"

definition applyDagreLayout ::
  "node_layout \<Rightarrow> graph_node list \<Rightarrow> graph_edge list \<Rightarrow> graph_node list" where
  "applyDagreLayout layout nodes edges =
     (let sizes = map (\<lambda>n. (nd_id n, node_radius (nd_spanCount (nd_data n)) * 2 + 20)) nodes;
          links = map (\<lambda>e. (ed_source e, ed_target e)) edges
      in map (\<lambda>n. n\<lparr>nd_position := layout sizes links (nd_id n)\<rparr>) nodes)"

definition raw_node :: "ServiceNode \<Rightarrow> graph_node" where
  "raw_node s =
     \<lparr>nd_id = sn_name s, nd_position = (0, 0),
      nd_data = \<lparr>nd_label = sn_name s, nd_spanCount = sn_spanCount s, nd_errorRate = sn_errorRate s,
                 nd_p99Ms = sn_p99Ms s, nd_reqPerSec = reqPerSec s\<rparr>\<rparr>"

text \<open>\<open>Math.max(...counts, 1)\<close> and the average count.\<close>

definition max_edge_count :: "ServiceEdge list \<Rightarrow> int" where
  "max_edge_count es = foldr max (map edge_count es) 1"

definition avg_edge_count :: "ServiceEdge list \<Rightarrow> num" where
  "avg_edge_count es =
     of_int (fold (\<lambda>e s. s + edge_count e) es 0) / of_nat (max (length es) 1)"

definition raw_edge :: "ServiceEdge list \<Rightarrow> ServiceEdge \<Rightarrow> graph_edge" where
  "raw_edge es e =
     \<lparr>ed_id = caller e @ ''-'' @ callee e, ed_source = caller e, ed_target = callee e,
      ed_count = edge_count e, ed_p99Ms = edge_p99Ms e,
      ed_high = (of_int (edge_count e) > avg_edge_count es * 2 \<or> edge_count e = max_edge_count es)\<rparr>"

text \<open>
  The update of the nodes: positions are reused when there were nodes, as many as now, and
  every new one has a previous position.
\<close>

definition position_of :: "graph_node list \<Rightarrow> string \<rightharpoonup> num \<times> num" where
  "position_of nodes = map_of (rev (map (\<lambda>n. (nd_id n, nd_position n)) nodes))"

definition can_reuse :: "graph_node list \<Rightarrow> graph_node list \<Rightarrow> bool" where
  "can_reuse prev raw \<longleftrightarrow>
     prev \<noteq> [] \<and> length prev = length raw \<and> list_all (\<lambda>n. position_of prev (nd_id n) \<noteq> None) raw"

definition next_nodes ::
  "node_layout \<Rightarrow> graph_node list \<Rightarrow> graph_node list \<Rightarrow> graph_edge list \<Rightarrow> graph_node list" where
  "next_nodes layout prev raw edges =
     (if can_reuse prev raw then
        map (\<lambda>n. n\<lparr>nd_position := (case position_of prev (nd_id n) of
               None \<Rightarrow> nd_position n | Some p \<Rightarrow> p)\<rparr>) raw
      else applyDagreLayout layout raw edges)"

subsection \<open>The page\<close>

record map_page =
  sg_graph :: "DependencyGraph option"
  sg_nodes :: "graph_node list"
  sg_edges :: "graph_edge list"
  sg_selected :: "ServiceNode option"
  sg_loading :: bool
  sg_error :: "string option"
  sg_reqs :: requests

definition map_initial :: map_page where
  "map_initial =
     \<lparr>sg_graph = None, sg_nodes = [], sg_edges = [], sg_selected = None, sg_loading = True,
      sg_error = None, sg_reqs = no_requests\<rparr>"

definition graph_start :: "map_page \<Rightarrow> map_page" where
  "graph_start s = s\<lparr>sg_reqs := begin_request (sg_reqs s), sg_error := None\<rparr>"

definition graph_finally :: "nat \<Rightarrow> map_page \<Rightarrow> map_page" where
  "graph_finally i s = (if i = requestId (sg_reqs s) then s\<lparr>sg_loading := False\<rparr> else s)"

definition find_service :: "string \<Rightarrow> DependencyGraph \<Rightarrow> ServiceNode option" where
  "find_service nm g = find (\<lambda>x. sn_name x = nm) (dg_services g)"

definition graph_then :: "node_layout \<Rightarrow> nat \<Rightarrow> DependencyGraph \<Rightarrow> map_page \<Rightarrow> map_page" where
  "graph_then layout i g s = graph_finally i
     (if i \<noteq> requestId (sg_reqs s) then s
      else let rawNodes = map raw_node (dg_services g);
               rawEdges = map (raw_edge (dg_edges g)) (dg_edges g)
           in s\<lparr>sg_graph := Some g,
                sg_nodes := next_nodes layout (sg_nodes s) rawNodes rawEdges,
                sg_edges := rawEdges,
                sg_selected := (case sg_selected s of
                   None \<Rightarrow> None | Some p \<Rightarrow> find_service (sn_name p) g)\<rparr>)"

definition graph_catch :: "nat \<Rightarrow> failure \<Rightarrow> map_page \<Rightarrow> map_page" where
  "graph_catch i e s = graph_finally i
     (if is_abort e then s
      else if i \<noteq> requestId (sg_reqs s) then s
      else s\<lparr>sg_error := Some (getErrorMessage e ''Failed to load service dependency graph.'')\<rparr>)"

definition handleNodeClick :: "string \<Rightarrow> map_page \<Rightarrow> map_page" where
  "handleNodeClick i s =
     (case sg_graph s of None \<Rightarrow> s | Some g \<Rightarrow> s\<lparr>sg_selected := find_service i g\<rparr>)"

definition closeSidebar :: "map_page \<Rightarrow> map_page" where
  "closeSidebar s = s\<lparr>sg_selected := None\<rparr>"

text \<open>Dragging a node, as React Flow's change handler applies it.\<close>

definition drag_node :: "string \<Rightarrow> num \<times> num \<Rightarrow> map_page \<Rightarrow> map_page" where
  "drag_node i pos s =
     s\<lparr>sg_nodes := map (\<lambda>n. if nd_id n = i then n\<lparr>nd_position := pos\<rparr> else n) (sg_nodes s)\<rparr>"

record sidebar =
  sb_name :: string
  sb_color :: string
  sb_spans :: string
  sb_errorRate :: "string \<times> bool"
  sb_p99 :: string
  sb_rate :: string
  sb_edges :: "(string \<times> string) list"

text \<open>\<open>toLocaleString\<close>, which depends on the locale, is a parameter.\<close>

definition sidebar_of :: "(int \<Rightarrow> string) \<Rightarrow> color_state \<Rightarrow> DependencyGraph \<Rightarrow> ServiceNode \<Rightarrow> sidebar" where
  "sidebar_of localeStr cs g n =
     \<lparr>sb_name = sn_name n,
      sb_color = color_of cs (sn_name n),
      sb_spans = localeStr (sn_spanCount n),
      sb_errorRate = (toFixed (sn_errorRate n * 100) 1 @ ''%'', sn_errorRate n > 5 / 100),
      sb_p99 = toFixed (sn_p99Ms n) 1 @ ''ms'',
      sb_rate = toFixed (reqPerSec n) 2,
      sb_edges = map (\<lambda>e. (caller e @ '' '' @ arrow_right @ '' '' @ callee e,
          int_str (edge_count e) @ '' calls '' @ [CHR 0xB7] @ '' P99 '' @ toFixed (edge_p99Ms e) 0 @ ''ms''))
        (filter (\<lambda>e. caller e = sn_name n \<or> callee e = sn_name n) (dg_edges g))\<rparr>"

record map_view =
  smap_services :: nat
  smap_edges :: nat
  smap_error :: "string option"
  smap_nodes :: "graph_node list"
  smap_links :: "graph_edge list"
  smap_sidebar :: "sidebar option"

datatype map_retry = LoadGraph

datatype map_screen = MapNotice "map_retry notice" | MapView map_view

definition ServiceMapPage_view :: "(int \<Rightarrow> string) \<Rightarrow> color_state \<Rightarrow> map_page \<Rightarrow> map_screen" where
  "ServiceMapPage_view localeStr cs s =
     (case sg_graph s of
        None \<Rightarrow>
          if sg_loading s then
            MapNotice (bare_notice ''Loading service map'' ''Fetching dependency graph and laying out services.'')
          else (case nonempty (sg_error s) of
              Some e \<Rightarrow> MapNotice (plain_notice ''Unable to load service map'' e ''Retry'' LoadGraph)
            | None \<Rightarrow> MapNotice (bare_notice ''No dependencies yet''
                ''Ingest traces with cross-service calls to populate the service map.''))
      | Some g \<Rightarrow>
          if dg_services g = [] then
            MapNotice (bare_notice ''No dependencies yet''
              ''Ingest traces with cross-service calls to populate the service map.'')
          else MapView
            \<lparr>smap_services = length (dg_services g), smap_edges = length (dg_edges g),
             smap_error = nonempty (sg_error s), smap_nodes = sg_nodes s, smap_links = sg_edges s,
             smap_sidebar = map_option (sidebar_of localeStr cs g) (sg_selected s)\<rparr>)"

definition sample_node :: "string \<Rightarrow> int \<Rightarrow> ServiceNode" where
  "sample_node nm n = \<lparr>sn_name = nm, sn_spanCount = n, sn_errorRate = 0, sn_p99Ms = 1, reqPerSec = 1\<rparr>"

definition sample_edge :: "string \<Rightarrow> string \<Rightarrow> int \<Rightarrow> ServiceEdge" where
  "sample_edge a b n = \<lparr>caller = a, callee = b, edge_count = n, edge_errorCount = 0, edge_p99Ms = 1\<rparr>"

section \<open>Lemmas\<close>

definition map_shown :: "map_page \<Rightarrow> DependencyGraph option \<times> graph_edge list \<times> string option" where
  "map_shown s = (sg_graph s, sg_edges s, sg_error s)"

definition map_accept ::
  "DependencyGraph \<Rightarrow> DependencyGraph option \<times> graph_edge list \<times> string option \<Rightarrow>
   DependencyGraph option \<times> graph_edge list \<times> string option" where
  "map_accept g v = (Some g, map (raw_edge (dg_edges g)) (dg_edges g), snd (snd v))"

lemmas graph_defs = graph_start_def graph_then_def graph_catch_def graph_finally_def

interpretation service_map: latest_loading "requestId \<circ> sg_reqs" graph_start "graph_then layout"
  graph_catch map_shown map_accept sg_loading
  for layout
  by unfold_locales (auto simp: graph_defs map_shown_def map_accept_def Let_def)

lemma map_of_rev_mem:
  "distinct (map fst xs) \<Longrightarrow> (k, v) \<in> set xs \<Longrightarrow> map_of (rev xs) k = Some v"
  by (rule map_of_is_SomeI) (simp_all add: rev_map [symmetric])

lemma position_of_node:
  "distinct (map nd_id nodes) \<Longrightarrow> n \<in> set nodes \<Longrightarrow> position_of nodes (nd_id n) = Some (nd_position n)"
  unfolding position_of_def by (rule map_of_rev_mem) (auto simp: o_def)

lemma nodes_of_services: "map nd_id (map raw_node ss) = map sn_name ss"
  by (simp add: raw_node_def)

lemma next_nodes_ids: "map nd_id (next_nodes layout prev raw edges) = map nd_id raw"
  by (simp add: next_nodes_def applyDagreLayout_def Let_def)

lemma max_edge_count_bounds:
  "e \<in> set es \<Longrightarrow> edge_count e \<le> max_edge_count es"
  "1 \<le> max_edge_count es"
  "max_edge_count es \<in> insert 1 (edge_count ` set es)"
  unfolding max_edge_count_def by (induction es) (auto simp: max_def)

section \<open>Properties\<close>

text \<open>
  Polling keeps the layout: when a poll answers with the services already on the map,
  in any order, every node stays where it is (where the operator dragged it), and gets the
  new figures.
\<close>

theorem layout_survives_polls:
  assumes "sg_nodes s \<noteq> []" and "distinct (map nd_id (sg_nodes s))"
    and "distinct (map sn_name (dg_services g))"
    and "set (map sn_name (dg_services g)) = set (map nd_id (sg_nodes s))"
  shows "list_all2 (\<lambda>n x. nd_id n = sn_name x \<and> nd_data n = nd_data (raw_node x) \<and>
             (\<exists>old \<in> set (sg_nodes s). nd_id old = sn_name x \<and> nd_position n = nd_position old))
           (sg_nodes (graph_then layout (requestId (sg_reqs s)) g s)) (dg_services g)"
proof -
  let ?raw = "map raw_node (dg_services g)" and ?prev = "sg_nodes s"
  have old: "\<exists>old \<in> set ?prev. nd_id old = sn_name x \<and> position_of ?prev (sn_name x) = Some (nd_position old)"
    if "x \<in> set (dg_services g)" for x
  proof -
    have "sn_name x \<in> set (map nd_id ?prev)" using that assms(4) by auto
    then obtain old where "old \<in> set ?prev" "nd_id old = sn_name x" by auto
    with position_of_node [OF assms(2) this(1)] show ?thesis by auto
  qed
  have "length ?prev = length (dg_services g)"
    using distinct_card [OF assms(2)] distinct_card [OF assms(3)] assms(4) by simp
  moreover have "list_all (\<lambda>n. position_of ?prev (nd_id n) \<noteq> None) ?raw"
    using old by (fastforce simp: list_all_iff raw_node_def)
  ultimately have "can_reuse ?prev ?raw" using assms(1) by (simp add: can_reuse_def)
  then have "sg_nodes (graph_then layout (requestId (sg_reqs s)) g s) =
      map (\<lambda>x. (raw_node x)\<lparr>nd_position := (case position_of ?prev (sn_name x) of
        None \<Rightarrow> nd_position (raw_node x) | Some p \<Rightarrow> p)\<rparr>) (dg_services g)"
    by (simp add: graph_defs next_nodes_def Let_def) (simp add: raw_node_def)
  then show ?thesis
    using old by (fastforce simp: list_all2_map1 list_all2_same raw_node_def)
qed

theorem layout_survives_polls_witness:
  "let s = drag_node ''a'' (7, 9) (graph_then (\<lambda>_ _ _. (0, 0)) 1
        \<lparr>dg_services = [sample_node ''a'' 1], dg_edges = []\<rparr> (graph_start map_initial))
   in map nd_position (sg_nodes (graph_then (\<lambda>_ _ _. (0, 0)) 1
        \<lparr>dg_services = [sample_node ''a'' 2], dg_edges = []\<rparr> s)) = [(7, 9)]"
proof -
  let ?l = "\<lambda>_ _ _. (0, 0)"
  let ?s = "drag_node ''a'' (7, 9) (graph_then ?l 1
        \<lparr>dg_services = [sample_node ''a'' 1], dg_edges = []\<rparr> (graph_start map_initial))"
  let ?g = "\<lparr>dg_services = [sample_node ''a'' 2], dg_edges = []\<rparr>"
  have nodes: "map nd_id (sg_nodes ?s) = [''a'']" "map nd_position (sg_nodes ?s) = [(7, 9)]"
    and req: "requestId (sg_reqs ?s) = 1"
    by (simp_all add: drag_node_def graph_defs map_initial_def next_nodes_def can_reuse_def
        applyDagreLayout_def raw_node_def sample_node_def no_requests_def)
  obtain n0 where n0: "sg_nodes ?s = [n0]" "nd_id n0 = ''a''" "nd_position n0 = (7, 9)"
    using nodes by auto
  then have "list_all2 (\<lambda>n x. nd_id n = sn_name x \<and> nd_data n = nd_data (raw_node x) \<and>
             (\<exists>old \<in> set (sg_nodes ?s). nd_id old = sn_name x \<and> nd_position n = nd_position old))
           (sg_nodes (graph_then ?l (requestId (sg_reqs ?s)) ?g ?s)) (dg_services ?g)"
    by (intro layout_survives_polls) (simp_all add: sample_node_def)
  then show ?thesis
    unfolding Let_def req using n0 by (auto simp: list_all2_Cons2)
qed

text \<open>
  The nodes are the services: after a poll there is one node per service, with its name
  as id, and the selected service is the one of the same name in the new graph, or none if
  it is gone.
\<close>

theorem nodes_follow_services:
  "let s' = graph_then layout (requestId (sg_reqs s)) g s
   in map nd_id (sg_nodes s') = map sn_name (dg_services g) \<and>
      sg_selected s' = (case sg_selected s of None \<Rightarrow> None
        | Some p \<Rightarrow> find (\<lambda>x. sn_name x = sn_name p) (dg_services g)) \<and>
      \<not> sg_loading s'"
  by (simp add: graph_defs next_nodes_ids nodes_of_services find_service_def Let_def
      del: map_map split: option.splits)

text \<open>
  A busiest edge is highlighted: an edge with at least one call that no other edge
  exceeds is drawn as high, and so is every edge with more than twice the average.
\<close>

theorem busiest_edge_is_high:
  assumes "e \<in> set es" and "1 \<le> edge_count e"
    and "(\<forall>e' \<in> set es. edge_count e' \<le> edge_count e) \<or> of_int (edge_count e) > 2 * avg_edge_count es"
  shows "ed_high (raw_edge es e) \<and> ev_stroke (DependencyEdgeComponent (raw_edge es e)) = ''#f59e0b''"
proof -
  have "edge_count e = max_edge_count es" if "\<forall>e' \<in> set es. edge_count e' \<le> edge_count e"
    using max_edge_count_bounds(1) [OF assms(1)] max_edge_count_bounds(3) [of es] assms(2) that
    by fastforce
  with assms(3) have "ed_high (raw_edge es e)" by (auto simp: raw_edge_def)
  then show ?thesis by (simp add: DependencyEdgeComponent_def)
qed

theorem busiest_edge_is_high_witness:
  "ed_high (raw_edge [sample_edge ''a'' ''b'' 2, sample_edge ''b'' ''c'' 5] (sample_edge ''b'' ''c'' 5))"
  using busiest_edge_is_high [of "sample_edge ''b'' ''c'' 5"
      "[sample_edge ''a'' ''b'' 2, sample_edge ''b'' ''c'' 5]"]
  by (simp add: sample_edge_def)

text \<open>
  Node sizes and colours: the diameter is between 48 and 100 and does not shrink with the
  span count, and the hue is between 0 (red) and 120 (green), for an error rate that is not
  negative, and does not rise with it.
\<close>

theorem node_size_and_hue:
  assumes "0 \<le> m" and "m \<le> n" and "0 \<le> a" and "a \<le> b"
  shows "48 \<le> node_radius n * 2 \<and> node_radius n * 2 \<le> 100 \<and> node_radius m \<le> node_radius n \<and>
         0 \<le> node_hue b \<and> node_hue a \<le> 120 \<and> node_hue b \<le> node_hue a"
proof -
  have "ln (1 + real_of_int m) \<le> ln (1 + of_int n)" using assms(1,2) by simp
  then have "node_radius m \<le> node_radius n" by (simp add: node_radius_def)
  moreover have "48 \<le> node_radius n * 2 \<and> node_radius n * 2 \<le> 100" by (simp add: node_radius_def)
  moreover have "(1 - min b 1) * 120 \<le> (1 - min a 1) * 120" using assms(4) by simp
  then have "node_hue b \<le> node_hue a" unfolding node_hue_def by (rule js_round_mono)
  moreover have "js_round 0 \<le> node_hue b"
    unfolding node_hue_def by (rule js_round_mono) simp
  moreover have "node_hue a \<le> js_round 120"
    unfolding node_hue_def using assms(3) by (intro js_round_mono) simp
  ultimately show ?thesis
    using js_round_of_int [of 0] js_round_of_int [of 120] by simp
qed

theorem node_size_and_hue_witness: "node_hue (1 / 2) \<le> node_hue 0 \<and> node_hue 0 \<le> 120"
  using node_size_and_hue [of 0 10 0 "1 / 2"] node_size_and_hue [of 0 10 0 0] by simp

text \<open>
  Edge ids are not unique: the separator of the two names also occurs in names, so that
  two different dependencies get one id.
\<close>

theorem edge_ids_collide:
  "let a = sample_edge ''auth'' ''user-db'' 1; b = sample_edge ''auth-user'' ''db'' 1
   in ed_source (raw_edge es a) \<noteq> ed_source (raw_edge es b) \<and>
      ed_id (raw_edge es a) = ed_id (raw_edge es b)"
  by (simp add: raw_edge_def sample_edge_def)

end
