(* ===== verification/ComparePage.thy ===== *)
theory ComparePage
  imports Waterfall Latest Collector Shell
begin

text \<open>
  \<open>pages/Compare.tsx\<close>: two traces and their difference, loaded together and drawn on one
  time scale, over the chart of \<open>Waterfall\<close>.
\<close>

section \<open>Definitions\<close>

definition findRootSpan :: "TraceDetailDTO \<Rightarrow> string" where
  "findRootSpan t =
     (case find (\<lambda>s. parentSpanId s = []) (spans t) of
        Some s \<Rightarrow> name s
      | None \<Rightarrow> (case spans t of s # _ \<Rightarrow> name s | [] \<Rightarrow> ''Unknown root''))"

record compare_page =
  cmp_base :: "TraceDetailDTO option"
  cmp_compare :: "TraceDetailDTO option"
  cmp_diff :: "TraceComparisonDTO option"
  cmp_loading :: bool
  cmp_error :: "string option"
  cmp_reqs :: requests

definition compare_initial :: "string \<Rightarrow> string \<Rightarrow> compare_page" where
  "compare_initial baseId compareId =
     \<lparr>cmp_base = None, cmp_compare = None, cmp_diff = None,
      cmp_loading = (baseId \<noteq> [] \<and> compareId \<noteq> []), cmp_error = None, cmp_reqs = no_requests\<rparr>"

definition compare_start :: "compare_page \<Rightarrow> compare_page" where
  "compare_start s =
     s\<lparr>cmp_reqs := begin_request (cmp_reqs s), cmp_loading := True, cmp_error := None,
       cmp_base := None, cmp_compare := None, cmp_diff := None\<rparr>"

definition compare_finally :: "nat \<Rightarrow> compare_page \<Rightarrow> compare_page" where
  "compare_finally i s = (if i = requestId (cmp_reqs s) then s\<lparr>cmp_loading := False\<rparr> else s)"

text \<open>The answer of \<open>Promise.all\<close>: both traces and their difference.\<close>

definition compare_then ::
  "nat \<Rightarrow> TraceDetailDTO \<times> TraceDetailDTO \<times> TraceComparisonDTO \<Rightarrow> compare_page \<Rightarrow> compare_page" where
  "compare_then i r s = compare_finally i
     (if i \<noteq> requestId (cmp_reqs s) then s
      else s\<lparr>cmp_base := Some (fst r), cmp_compare := Some (fst (snd r)), cmp_diff := Some (snd (snd r))\<rparr>)"

definition compare_catch :: "nat \<Rightarrow> failure \<Rightarrow> compare_page \<Rightarrow> compare_page" where
  "compare_catch i e s = compare_finally i
     (if is_abort e then s
      else if i \<noteq> requestId (cmp_reqs s) then s
      else s\<lparr>cmp_error := Some (getErrorMessage e ''Failed to load trace comparison.'')\<rparr>)"

definition compare_cleanup :: "compare_page \<Rightarrow> compare_page" where
  "compare_cleanup s = s\<lparr>cmp_reqs := abort_current (cmp_reqs s)\<rparr>"

subsection \<open>Summary\<close>

record summary_card =
  sum_label :: string
  sum_value :: string
  sum_tone :: string
  sum_note :: string

definition signed :: "num \<Rightarrow> string \<Rightarrow> string" where
  "signed x text = (if x > 0 then ''+'' else []) @ text"

definition comparisonSummary :: "TraceComparisonDTO \<Rightarrow> summary_card list" where
  "comparisonSummary d =
     [\<lparr>sum_label = ''Duration delta'',
       sum_value = signed (durationDeltaMs d) (toFixed (durationDeltaMs d) 1 @ ''ms''),
       sum_tone = (if durationDeltaMs d > 0 then ''text-red-600 dark:text-red-300''
         else ''text-emerald-600 dark:text-emerald-300''),
       sum_note = (if durationDeltaMs d > 0 then ''Compare trace is slower'' else ''Compare trace is faster'')\<rparr>,
      \<lparr>sum_label = ''Span delta'',
       sum_value = signed (of_int (spanCountDelta d)) (int_str (spanCountDelta d)),
       sum_tone = ''text-foreground'',
       sum_note = nat_str (length (onlyInBase d)) @ '' base-only, '' @
         nat_str (length (onlyInCompare d)) @ '' compare-only spans''\<rparr>,
      \<lparr>sum_label = ''Error delta'',
       sum_value = signed (of_int (errorDelta d)) (int_str (errorDelta d)),
       sum_tone = (if errorDelta d > 0 then ''text-red-600 dark:text-red-300'' else ''text-foreground''),
       sum_note = (if errorDelta d = 0 then ''Error count is unchanged''
         else ''Difference in failing spans between traces'')\<rparr>]"

subsection \<open>Panels\<close>

record compare_panel =
  pn_title :: string
  pn_accent :: string
  pn_subtitle :: string
  pn_extra :: string
  pn_services :: nat
  pn_chart :: waterfall_props

definition panel_extra :: "TraceDetailDTO \<Rightarrow> string" where
  "panel_extra t =
     toFixed (td_durationMs t) 1 @ ''ms '' @ [CHR 0xB7, CHR '' ''] @ int_str (td_spanCount t) @
     '' spans '' @ [CHR 0xB7, CHR '' ''] @ int_str (errorCount t) @ '' errors''"

definition baseDeltaMap :: "TraceComparisonDTO \<Rightarrow> string \<rightharpoonup> num" where
  "baseDeltaMap d = map_of (rev (map (\<lambda>m. (baseSpanId m, ms_durationDeltaMs m)) (matched d)))"

definition compare_panels ::
  "TraceDetailDTO \<Rightarrow> TraceDetailDTO \<Rightarrow> TraceComparisonDTO \<Rightarrow> compare_panel \<times> compare_panel" where
  "compare_panels b c d =
     (let m = max (td_durationMs b) (td_durationMs c)
      in (\<lparr>pn_title = ''Base trace'', pn_accent = ''Only in base'',
           pn_subtitle = ''Root span: '' @ findRootSpan b, pn_extra = panel_extra b,
           pn_services = length (td_services b),
           pn_chart = \<lparr>wp_trace = b\<lparr>td_durationMs := m\<rparr>, wp_criticalPathIds = {},
             wp_grayedSpanIds = Some (set (onlyInBase d)), wp_highlightedSpanIds = None,
             wp_durationDeltas = Some (baseDeltaMap d)\<rparr>\<rparr>,
          \<lparr>pn_title = ''Compare trace'', pn_accent = ''Only in compare'',
           pn_subtitle = ''Root span: '' @ findRootSpan c, pn_extra = panel_extra c,
           pn_services = length (td_services c),
           pn_chart = \<lparr>wp_trace = c\<lparr>td_durationMs := m\<rparr>, wp_criticalPathIds = {},
             wp_grayedSpanIds = None, wp_highlightedSpanIds = Some (set (onlyInCompare d)),
             wp_durationDeltas = None\<rparr>\<rparr>))"

record compare_view =
  cv_ids :: "string \<times> string"
  cv_summary :: "summary_card list"
  cv_panels :: "compare_panel \<times> compare_panel"
  cv_notes :: "string \<times> string"

datatype compare_retry = LoadComparison

datatype compare_screen = CompareNotice "compare_retry notice" | CompareView compare_view

definition ComparePage_view :: "string \<Rightarrow> string \<Rightarrow> compare_page \<Rightarrow> compare_screen" where
  "ComparePage_view baseId compareId s =
     (if baseId = [] \<or> compareId = [] then
        CompareNotice (bare_notice ''Select two traces to compare''
          ''Open this page with both ?base=TRACE_ID and ?compare=TRACE_ID in the URL.'')
      else if cmp_loading s \<and> (cmp_base s = None \<or> cmp_compare s = None) then
        CompareNotice (bare_notice ''Loading trace comparison''
          ''Fetching both traces and their structural diff.'')
      else case nonempty (cmp_error s) of
        Some e \<Rightarrow> CompareNotice (plain_notice ''Unable to compare traces'' e ''Retry'' LoadComparison)
      | None \<Rightarrow>
          (case (cmp_base s, cmp_compare s, cmp_diff s) of
             (Some b, Some c, Some d) \<Rightarrow> CompareView
               \<lparr>cv_ids = (''Base: '' @ baseId, ''Compare: '' @ compareId),
                cv_summary = comparisonSummary d,
                cv_panels = compare_panels b c d,
                cv_notes =
                  (nat_str (length (onlyInBase d)) @
                     '' spans are unique to the base execution and rendered dimmed on the left.'',
                   nat_str (length (onlyInCompare d)) @
                     '' spans are unique to the compare execution and highlighted on the right.'')\<rparr>
           | _ \<Rightarrow> CompareNotice (bare_notice ''Comparison unavailable''
               ''The requested traces could not be resolved.'')))"

text \<open>A run of the page: starts of comparisons, and settlements in any order.\<close>

datatype compare_event =
    StartComparison
  | SettleComparison "(TraceDetailDTO \<times> TraceDetailDTO \<times> TraceComparisonDTO) settlement"

fun compare_run :: "compare_event list \<Rightarrow> compare_page \<Rightarrow> compare_page" where
  "compare_run [] s = s"
| "compare_run (StartComparison # es) s = compare_run es (compare_start s)"
| "compare_run (SettleComparison x # es) s = compare_run es (settle compare_then compare_catch s x)"

definition sample_diff :: "num \<Rightarrow> TraceComparisonDTO" where
  "sample_diff x =
     \<lparr>durationDeltaMs = x, spanCountDelta = 0, errorDelta = 0, matched = [], onlyInBase = [],
      onlyInCompare = []\<rparr>"

section \<open>Lemmas\<close>

type_synonym compared = "TraceDetailDTO option \<times> TraceDetailDTO option \<times> TraceComparisonDTO option"

definition compare_shown :: "compare_page \<Rightarrow> compared \<times> string option" where
  "compare_shown s = ((cmp_base s, cmp_compare s, cmp_diff s), cmp_error s)"

definition compare_accept ::
  "TraceDetailDTO \<times> TraceDetailDTO \<times> TraceComparisonDTO \<Rightarrow> compared \<times> string option \<Rightarrow>
   compared \<times> string option" where
  "compare_accept r v = ((Some (fst r), Some (fst (snd r)), Some (snd (snd r))), snd v)"

lemmas compare_defs = compare_start_def compare_then_def compare_catch_def compare_finally_def

interpretation comparison: latest_loading "requestId \<circ> cmp_reqs" compare_start compare_then
  compare_catch compare_shown compare_accept cmp_loading
  by unfold_locales (auto simp: compare_defs compare_shown_def compare_accept_def)

text \<open>What is shown comes from one answer: the one to the latest request.\<close>

definition one_answer :: "(nat \<times> TraceDetailDTO \<times> TraceDetailDTO \<times> TraceComparisonDTO) set \<Rightarrow> compare_page \<Rightarrow> bool" where
  "one_answer A s \<longleftrightarrow>
     (cmp_base s = None \<and> cmp_compare s = None \<and> cmp_diff s = None) \<or>
     (\<exists>b c d. (requestId (cmp_reqs s), b, c, d) \<in> A \<and>
        cmp_base s = Some b \<and> cmp_compare s = Some c \<and> cmp_diff s = Some d)"

fun answers :: "compare_event list \<Rightarrow> (nat \<times> TraceDetailDTO \<times> TraceDetailDTO \<times> TraceComparisonDTO) list" where
  "answers [] = []"
| "answers (SettleComparison (Resolved i r) # es) = (i, r) # answers es"
| "answers (e # es) = answers es"

lemma one_answer_mono: "one_answer A s \<Longrightarrow> A \<subseteq> B \<Longrightarrow> one_answer B s"
  by (auto simp: one_answer_def)

lemma one_answer_run:
  "one_answer A s \<Longrightarrow> one_answer (A \<union> set (answers es)) (compare_run es s)"
proof (induction es arbitrary: A s)
  case (Cons e es)
  show ?case
  proof (cases e)
    case StartComparison
    have "one_answer A (compare_start s)" by (simp add: one_answer_def compare_defs)
    from Cons.IH [OF this] show ?thesis by (simp add: StartComparison)
  next
    case (SettleComparison x)
    show ?thesis
    proof (cases x)
      case (Resolved i r)
      have "one_answer (insert (i, r) A) (compare_then i r s)"
        using Cons.prems by (cases r) (auto simp: one_answer_def compare_defs)
      from Cons.IH [OF this] show ?thesis by (simp add: SettleComparison Resolved)
    next
      case (Rejected i f)
      have "one_answer A (compare_catch i f s)"
        using Cons.prems by (auto simp: one_answer_def compare_defs)
      from Cons.IH [OF this] show ?thesis by (simp add: SettleComparison Rejected)
    qed
  qed
qed simp

text \<open>The two panels have one scale, and where a span is on it depends on its times only.\<close>

lemma panel_scales:
  "totalDurationMs (wp_trace (pn_chart (fst (compare_panels b c d)))) =
     totalDurationMs (wp_trace (pn_chart (snd (compare_panels b c d))))"
  by (simp add: compare_panels_def Let_def totalDurationMs_def)

lemma drawn_bar:
  "i < length rows \<Longrightarrow>
     wr_bar (wf_rows (fst (draw_waterfall lin p w rows cs)) ! i) =
       span_bar_of (color_calls (map row_serviceName rows) cs) p
         (lin (0, totalDurationMs (wp_trace p)) (LABEL_WIDTH, w)) (rows ! i)"
  by (simp add: waterfall_rows waterfall_row_of_def)

lemmas bar_of_panel = drawn_bar span_bar_of_def bar_span_def

section \<open>Properties\<close>

text \<open>
  The page never mixes two comparisons: after any run of starts and settlements, in any
  order, either no part of a comparison is held, or both traces and the difference are those
  of one answer, the answer to the latest request.
\<close>

theorem comparison_is_one_answer:
  "let s = compare_run es (compare_initial baseId compareId)
   in (cmp_base s = None \<and> cmp_compare s = None \<and> cmp_diff s = None) \<or>
      (\<exists>b c d. (requestId (cmp_reqs s), b, c, d) \<in> set (answers es) \<and>
         cmp_base s = Some b \<and> cmp_compare s = Some c \<and> cmp_diff s = Some d)"
proof -
  have "one_answer {} (compare_initial baseId compareId)"
    by (simp add: one_answer_def compare_initial_def)
  from one_answer_run [OF this, of es] show ?thesis by (simp add: one_answer_def Let_def)
qed

text \<open>
  One time scale for both panels: a row of the base panel and a row of the compare panel
  with the same start and duration have bars of the same position and width, whatever the
  durations of the two traces are; a base-only span is drawn gray and dimmed on the left, a
  compare-only span green on the right.
\<close>

theorem panels_share_one_scale:
  assumes "panels = compare_panels b c d" and "i < length rows" and "j < length rows'"
    and "row_startMs (rows ! i) = row_startMs (rows' ! j)"
    and "row_durationMs (rows ! i) = row_durationMs (rows' ! j)"
  shows "let base_bar = wr_bar (wf_rows (fst (draw_waterfall lin (pn_chart (fst panels)) w rows cs)) ! i);
             compare_bar = wr_bar (wf_rows (fst (draw_waterfall lin (pn_chart (snd panels)) w rows' cs')) ! j)
         in bar_x base_bar = bar_x compare_bar \<and> bar_width base_bar = bar_width compare_bar \<and>
            (row_spanId (rows ! i) \<in> set (onlyInBase d) \<longrightarrow>
               bar_fill base_bar = ''#94a3b8'' \<and> bar_opacity base_bar = 3 / 10) \<and>
            (row_spanId (rows' ! j) \<in> set (onlyInCompare d) \<longrightarrow> bar_fill compare_bar = ''#22c55e'')"
proof -
  have "wp_highlightedSpanIds (pn_chart (fst panels)) = None"
    "wp_grayedSpanIds (pn_chart (fst panels)) = Some (set (onlyInBase d))"
    "wp_highlightedSpanIds (pn_chart (snd panels)) = Some (set (onlyInCompare d))"
    by (simp_all add: assms(1) compare_panels_def Let_def)
  with assms(2-5) show ?thesis
    by (simp add: bar_of_panel panel_scales [of b c d, folded assms(1)] fill_of_def has_id_def Let_def)
qed

theorem panels_share_one_scale_witness:
  "let t = sample_trace [sample_span ''r'' [] 5];
       panels = compare_panels (t\<lparr>td_durationMs := 40\<rparr>) t ((sample_diff 1)\<lparr>onlyInCompare := [''r'']\<rparr>);
       bar = (\<lambda>p. wr_bar (wf_rows (fst (draw_waterfall interpolating (pn_chart p) 1220
                [mk_row 0 (sample_span ''r'' [] 5) 0] initial_colors)) ! 0))
   in bar_x (bar (fst panels)) = bar_x (bar (snd panels)) \<and> bar_fill (bar (snd panels)) = ''#22c55e''"
  using panels_share_one_scale [OF refl, where i = 0 and j = 0 and rows = "[mk_row 0 (sample_span ''r'' [] 5) 0]"
      and rows' = "[mk_row 0 (sample_span ''r'' [] 5) 0]"
      and b = "(sample_trace [sample_span ''r'' [] 5])\<lparr>td_durationMs := 40\<rparr>"
      and c = "sample_trace [sample_span ''r'' [] 5]" and d = "(sample_diff 1)\<lparr>onlyInCompare := [''r'']\<rparr>"
      and lin = interpolating and w = 1220 and cs = initial_colors and cs' = initial_colors]
  by (simp add: Let_def sample_span_def)

text \<open>
  Two traces of the same duration are reported as ``Compare trace is faster'', in the
  colour of an improvement, with a delta of 0.0ms.
\<close>

theorem equal_durations_read_faster:
  "let card = hd (comparisonSummary (sample_diff 0))
   in sum_value card = ''0.0ms'' \<and> sum_note card = ''Compare trace is faster'' \<and>
      sum_tone card = ''text-emerald-600 dark:text-emerald-300''"
  by code_simp

end
