(* ===== verification/Timeline.thy ===== *)
theory Timeline
  imports Latest Collector Shell Scale Waterfall TraceQuery "HOL-Library.Char_ord" "HOL-Library.List_Lexorder"
begin

text \<open>
  \<open>pages/Timeline.tsx\<close>: the traces of the window as bars in one lane per root service. The
  page reloads when the live stream reports a trace, at most once per 400 ms. The instant
  \<open>new Date(receivedAt).getTime()\<close> of a trace is a parameter, \<open>instant\<close>, in milliseconds, and so is
  the printing of an instant, \<open>toISO\<close>.
\<close>

section \<open>Definitions\<close>

definition TIMELINE_LANE_HEIGHT :: num where "TIMELINE_LANE_HEIGHT = 28"
definition TIMELINE_LANE_GAP :: num where "TIMELINE_LANE_GAP = 6"
definition LANE_STRIDE :: num where "LANE_STRIDE = TIMELINE_LANE_HEIGHT + TIMELINE_LANE_GAP"
definition TIMELINE_LABEL_WIDTH :: num where "TIMELINE_LABEL_WIDTH = 160"
definition TIMELINE_PADDING_TOP :: num where "TIMELINE_PADDING_TOP = 32"

subsection \<open>Loading\<close>

text \<open>
  \<open>tl_mountTimer\<close> is the timer of the effect, \<open>tl_refreshTimer\<close> the time when the timer of
  \<open>scheduleReload\<close> that the browser holds is due, in milliseconds, and \<open>tl_refreshRef\<close> whether
  \<open>refreshTimerRef\<close> holds a timer's number, which it does until it is set to null.
\<close>

record timeline_page =
  tl_traces :: "TraceSummaryDTO list"
  tl_loading :: bool
  tl_error :: "string option"
  tl_reqs :: requests
  tl_mountTimer :: bool
  tl_refreshTimer :: "num option"
  tl_refreshRef :: bool
  tl_mounted :: bool

definition timeline_initial :: timeline_page where
  "timeline_initial =
     \<lparr>tl_traces = [], tl_loading = True, tl_error = None, tl_reqs = no_requests,
      tl_mountTimer = True, tl_refreshTimer = None, tl_refreshRef = False, tl_mounted = True\<rparr>"

definition timeline_params :: "(string \<times> param option) list" where
  "timeline_params =
     [(''limit'', Some (PNum 200)), (''sortBy'', Some (PStr ''receivedAt'')),
      (''sortDesc'', Some (PStr ''false''))]"

definition loadTraces :: "timeline_page \<Rightarrow> timeline_page" where
  "loadTraces s = s\<lparr>tl_reqs := begin_request (tl_reqs s), tl_error := None\<rparr>"

definition timeline_finally :: "nat \<Rightarrow> timeline_page \<Rightarrow> timeline_page" where
  "timeline_finally i s = (if i = requestId (tl_reqs s) then s\<lparr>tl_loading := False\<rparr> else s)"

definition timeline_then :: "nat \<Rightarrow> TraceListResponse \<Rightarrow> timeline_page \<Rightarrow> timeline_page" where
  "timeline_then i r s = timeline_finally i
     (if i \<noteq> requestId (tl_reqs s) then s else s\<lparr>tl_traces := traces r\<rparr>)"

definition timeline_catch :: "nat \<Rightarrow> failure \<Rightarrow> timeline_page \<Rightarrow> timeline_page" where
  "timeline_catch i e s = timeline_finally i
     (if is_abort e then s
      else if i \<noteq> requestId (tl_reqs s) then s
      else s\<lparr>tl_error := Some (getErrorMessage e ''Failed to load timeline traces.'')\<rparr>)"

definition scheduleReload :: "num \<Rightarrow> timeline_page \<Rightarrow> timeline_page" where
  "scheduleReload now s =
     (if tl_refreshRef s then s else s\<lparr>tl_refreshRef := True, tl_refreshTimer := Some (now + 400)\<rparr>)"

text \<open>The browser fires the timer, which is then no longer pending, and the callback runs.\<close>

definition refresh_fires :: "timeline_page \<Rightarrow> timeline_page" where
  "refresh_fires s = loadTraces (s\<lparr>tl_refreshTimer := None, tl_refreshRef := False\<rparr>)"

definition mount_fires :: "timeline_page \<Rightarrow> timeline_page" where
  "mount_fires s = loadTraces (s\<lparr>tl_mountTimer := False\<rparr>)"

text \<open>The cleanup clears both timers; the variable keeps its number.\<close>

definition timeline_unmount :: "timeline_page \<Rightarrow> timeline_page" where
  "timeline_unmount s =
     s\<lparr>tl_mountTimer := False, tl_mounted := False,
       tl_refreshTimer := (if tl_refreshRef s then None else tl_refreshTimer s),
       tl_reqs := abort_current (tl_reqs s)\<rparr>"

text \<open>An event of the stream: only those of type \<open>trace\<close> count.\<close>

definition timeline_on_event :: "num \<Rightarrow> string option \<Rightarrow> timeline_page \<Rightarrow> timeline_page" where
  "timeline_on_event now type s = (if type = Some ''trace'' then scheduleReload now s else s)"

datatype timeline_event =
    MountTimer
  | StreamEvent "string option"
  | RefreshTimer
  | TracesSettle "TraceListResponse settlement"
  | RetryTraces
  | LeaveTimeline

fun timeline_step :: "num \<Rightarrow> timeline_event \<Rightarrow> timeline_page \<Rightarrow> timeline_page" where
  "timeline_step now MountTimer s = mount_fires s"
| "timeline_step now (StreamEvent t) s = timeline_on_event now t s"
| "timeline_step now RefreshTimer s = refresh_fires s"
| "timeline_step now (TracesSettle x) s = settle timeline_then timeline_catch s x"
| "timeline_step now RetryTraces s = loadTraces s"
| "timeline_step now LeaveTimeline s = timeline_unmount s"

text \<open>
  What the browser can do at a time: fire a timer that is pending and, for the refresh, due;
  deliver events and clicks while the page is mounted; settle a request at any time.
\<close>

fun timeline_allows :: "num \<Rightarrow> timeline_event \<Rightarrow> timeline_page \<Rightarrow> bool" where
  "timeline_allows now MountTimer s = tl_mountTimer s"
| "timeline_allows now RefreshTimer s =
     (case tl_refreshTimer s of None \<Rightarrow> False | Some due \<Rightarrow> due \<le> now)"
| "timeline_allows now (TracesSettle x) s = True"
| "timeline_allows now e s = tl_mounted s"

text \<open>A history of the page, latest event first, with the time of every event.\<close>

inductive timeline_history :: "(num \<times> timeline_event) list \<Rightarrow> timeline_page \<Rightarrow> bool" where
  timeline_mounted: "timeline_history [] timeline_initial"
| timeline_next: "timeline_history h s \<Longrightarrow> \<forall>p \<in> set h. fst p \<le> t \<Longrightarrow> timeline_allows t e s \<Longrightarrow>
    timeline_history ((t, e) # h) (timeline_step t e s)"

definition reload_times :: "(num \<times> timeline_event) list \<Rightarrow> num list" where
  "reload_times h = map fst (filter (\<lambda>p. snd p = RefreshTimer) h)"

subsection \<open>The drawing\<close>

definition lane_service :: "TraceSummaryDTO \<Rightarrow> string" where
  "lane_service t = (if rootService t = [] then ''unknown'' else rootService t)"

definition timeline_services :: "TraceSummaryDTO list \<Rightarrow> string list" where
  "timeline_services ts = sort (uniq (map lane_service ts))"

fun index_of :: "'a \<Rightarrow> 'a list \<Rightarrow> nat option" where
  "index_of x [] = None"
| "index_of x (y # ys) = (if x = y then Some 0 else map_option Suc (index_of x ys))"

definition lane_of :: "string list \<Rightarrow> TraceSummaryDTO \<Rightarrow> num" where
  "lane_of svcs t = (case index_of (lane_service t) svcs of Some i \<Rightarrow> real i | None \<Rightarrow> 0)"

definition minTime :: "(TraceSummaryDTO \<Rightarrow> num) \<Rightarrow> TraceSummaryDTO list \<Rightarrow> num" where
  "minTime instant ts = foldr min (map instant (tl ts)) (instant (hd ts))"

definition maxTime :: "(TraceSummaryDTO \<Rightarrow> num) \<Rightarrow> TraceSummaryDTO list \<Rightarrow> num" where
  "maxTime instant ts = js_max (map (\<lambda>t. instant t + ts_durationMs t) (tl ts)) (instant (hd ts) + ts_durationMs (hd ts))"

record lane =
  ln_y :: num
  ln_width :: num
  ln_striped :: bool
  ln_fill :: string
  ln_text :: string

record trace_bar =
  tb_x :: num
  tb_y :: num
  tb_width :: num
  tb_fill :: string
  tb_title :: string
  tb_link :: string
  tb_text_x :: num
  tb_text_y :: num
  tb_text :: string
  hit_x :: num
  hit_y :: num
  hit_width :: num

record timeline =
  tlv_height :: num
  tlv_ticks :: int
  tlv_lanes :: "lane list"
  tlv_bars :: "trace_bar list"

definition lane_for :: "color_state \<Rightarrow> num \<Rightarrow> nat \<Rightarrow> string \<Rightarrow> lane" where
  "lane_for cs svgWidth i svc =
     \<lparr>ln_y = TIMELINE_PADDING_TOP + real i * LANE_STRIDE, ln_width = svgWidth, ln_striped = even i,
      ln_fill = color_of cs svc, ln_text = clip_text 18 svc\<rparr>"

definition trace_span :: "(TraceSummaryDTO \<Rightarrow> num) \<Rightarrow> (num \<Rightarrow> num) \<Rightarrow> TraceSummaryDTO \<Rightarrow> num" where
  "trace_span instant x t = x (instant t + ts_durationMs t) - x (instant t)"

definition bar_text :: "num \<Rightarrow> TraceSummaryDTO \<Rightarrow> string" where
  "bar_text barW t = (if barW < 50 then [] else clip_text 20 (rootOp t))"

definition trace_bar_of ::
  "(num \<Rightarrow> string) \<Rightarrow> (TraceSummaryDTO \<Rightarrow> num) \<Rightarrow> color_state \<Rightarrow> string list \<Rightarrow> (num \<Rightarrow> num) \<Rightarrow>
   TraceSummaryDTO \<Rightarrow> trace_bar" where
  "trace_bar_of toISO instant cs svcs x t =
     (let y = TIMELINE_PADDING_TOP + lane_of svcs t * LANE_STRIDE
      in \<lparr>tb_x = x (instant t), tb_y = y + 3, tb_width = max 3 (trace_span instant x t),
          tb_fill = (if ts_hasError t then ''#dc2626'' else color_of cs (lane_service t)),
          tb_title = rootService t @ '': '' @ rootOp t @ [CHR 0x0A] @ toFixed (ts_durationMs t) 1 @
            ''ms '' @ em_dash @ '' '' @ int_str (spanCount t) @ '' spans'' @ [CHR 0x0A] @ toISO (instant t),
          tb_link = ''/trace/'' @ traceId t,
          tb_text_x = x (instant t) + 4, tb_text_y = y + TIMELINE_LANE_HEIGHT / 2,
          tb_text = bar_text (trace_span instant x t) t,
          hit_x = x (instant t) - 1, hit_y = y, hit_width = max 5 (trace_span instant x t + 2)\<rparr>)"

text \<open>\<open>draw\<close>: nothing is drawn for no traces.\<close>

definition timeline_domain :: "(TraceSummaryDTO \<Rightarrow> num) \<Rightarrow> TraceSummaryDTO list \<Rightarrow> num \<times> num" where
  "timeline_domain instant ts = (minTime instant ts, max (maxTime instant ts) (minTime instant ts + 1))"

definition draw_timeline ::
  "scaling \<Rightarrow> (num \<Rightarrow> string) \<Rightarrow> (TraceSummaryDTO \<Rightarrow> num) \<Rightarrow> num \<Rightarrow> TraceSummaryDTO list \<Rightarrow>
   color_state \<Rightarrow> (timeline \<times> color_state) option" where
  "draw_timeline lin toISO instant svgWidth ts cs =
     (if ts = [] then None
      else let svcs = timeline_services ts;
               cs' = color_calls svcs cs;
               x = lin (timeline_domain instant ts) (TIMELINE_LABEL_WIDTH, svgWidth)
           in Some (\<lparr>tlv_height = TIMELINE_PADDING_TOP + real (length svcs) * LANE_STRIDE + 16,
                     tlv_ticks = max 2 \<lfloor>(svgWidth - TIMELINE_LABEL_WIDTH) / 120\<rfloor>,
                     tlv_lanes = map_index (lane_for cs' svgWidth) svcs,
                     tlv_bars = map (trace_bar_of toISO instant cs' svcs x) ts\<rparr>, cs'))"

text \<open>A zoom takes the width it resizes to from the bar, which is at least 3 wide.\<close>

definition zoom_bar :: "(TraceSummaryDTO \<Rightarrow> num) \<Rightarrow> (num \<Rightarrow> num) \<Rightarrow> TraceSummaryDTO \<Rightarrow> trace_bar \<Rightarrow> trace_bar" where
  "zoom_bar instant x t b =
     (let w = max 3 (trace_span instant x t)
      in b\<lparr>tb_x := x (instant t), tb_width := w, tb_text_x := x (instant t) + 4, tb_text := bar_text w t,
           hit_x := x (instant t) - 1, hit_width := max 5 (w + 2)\<rparr>)"

definition zoom_timeline ::
  "(TraceSummaryDTO \<Rightarrow> num) \<Rightarrow> (num \<Rightarrow> num) \<Rightarrow> TraceSummaryDTO list \<Rightarrow> timeline \<Rightarrow> timeline" where
  "zoom_timeline instant x ts v = v\<lparr>tlv_bars := map (\<lambda>(t, b). zoom_bar instant x t b) (zip ts (tlv_bars v))\<rparr>"

subsection \<open>The page\<close>

datatype timeline_action = LoadTraces

record timeline_view =
  tv_lanes :: nat
  tv_traces :: nat

datatype timeline_body =
    TimelineNotice "timeline_action notice"
  | TimelineCanvas string "string option"

definition timeline_head :: "timeline_page \<Rightarrow> timeline_view" where
  "timeline_head s =
     \<lparr>tv_lanes = length (uniq (map lane_service (tl_traces s))), tv_traces = length (tl_traces s)\<rparr>"

definition TimelinePage_view :: "timeline_page \<Rightarrow> timeline_body" where
  "TimelinePage_view s =
     (let n = length (tl_traces s); k = length (uniq (map lane_service (tl_traces s)))
      in if tl_loading s \<and> n = 0 then
           TimelineNotice (bare_notice ''Loading timeline'' ''Fetching recent traces for the timeline view.'')
         else if nonempty (tl_error s) \<noteq> None \<and> n = 0 then
           TimelineNotice (plain_notice ''Unable to load timeline'' (the (tl_error s)) ''Retry'' LoadTraces)
         else if n = 0 then
           TimelineNotice (bare_notice ''No traces yet''
             ''Ingest spans or run demo traffic to populate the timeline.'')
         else TimelineCanvas
           (nat_str n @ '' traces across '' @ nat_str k @ '' service lane'' @ (if k \<noteq> 1 then ''s'' else []))
           (nonempty (tl_error s)))"

section \<open>Lemmas\<close>

definition timeline_shown :: "timeline_page \<Rightarrow> TraceSummaryDTO list \<times> string option" where
  "timeline_shown s = (tl_traces s, tl_error s)"

definition timeline_accept ::
  "TraceListResponse \<Rightarrow> TraceSummaryDTO list \<times> string option \<Rightarrow> TraceSummaryDTO list \<times> string option" where
  "timeline_accept r v = (traces r, snd v)"

lemmas timeline_defs = loadTraces_def timeline_then_def timeline_catch_def timeline_finally_def
  timeline_shown_def timeline_accept_def

interpretation window: latest_loading "requestId \<circ> tl_reqs" loadTraces timeline_then timeline_catch
  timeline_shown timeline_accept tl_loading
  by unfold_locales (auto simp: timeline_defs)

subsection \<open>Reloads\<close>

lemma settle_keeps_timer [simp]:
  "tl_refreshTimer (settle timeline_then timeline_catch s x) = tl_refreshTimer s"
  "tl_refreshRef (settle timeline_then timeline_catch s x) = tl_refreshRef s"
  "tl_reqs (settle timeline_then timeline_catch s x) = tl_reqs s"
  "tl_mounted (settle timeline_then timeline_catch s x) = tl_mounted s"
  by (cases x; simp add: timeline_defs)+

lemma loadTraces_keeps_timer [simp]:
  "tl_refreshTimer (loadTraces s) = tl_refreshTimer s" "tl_refreshRef (loadTraces s) = tl_refreshRef s"
  "tl_reqs (loadTraces s) = begin_request (tl_reqs s)" "tl_mounted (loadTraces s) = tl_mounted s"
  by (simp_all add: loadTraces_def)

lemmas timeline_step_defs = refresh_fires_def mount_fires_def timeline_unmount_def
  timeline_on_event_def scheduleReload_def

text \<open>The timer was set by an event of the history, and not before the last reload.\<close>

definition refresh_ok :: "(num \<times> timeline_event) list \<Rightarrow> timeline_page \<Rightarrow> bool" where
  "refresh_ok h s \<longleftrightarrow>
     sorted_wrt (\<lambda>t t'. t' + 400 \<le> t) (reload_times h) \<and>
     (\<forall>due. tl_refreshTimer s = Some due \<longrightarrow>
        (\<exists>p \<in> set h. due = fst p + 400) \<and> (\<forall>r \<in> set (reload_times h). r + 400 \<le> due))"

lemma reload_times_Cons:
  "reload_times ((t, e) # h) = (if e = RefreshTimer then [t] else []) @ reload_times h"
  by (simp add: reload_times_def)

lemma reload_times_hist: "r \<in> set (reload_times h) \<Longrightarrow> \<exists>p \<in> set h. r = fst p"
  by (auto simp: reload_times_def)

lemma refresh_ok_same:
  "refresh_ok h s \<Longrightarrow> e \<noteq> RefreshTimer \<Longrightarrow>
   tl_refreshTimer s' = tl_refreshTimer s \<or> tl_refreshTimer s' = None \<Longrightarrow>
   refresh_ok ((t, e) # h) s'"
  by (auto simp: refresh_ok_def reload_times_Cons)

lemma refresh_ok_step:
  assumes "refresh_ok h s" and "\<forall>p \<in> set h. fst p \<le> t" and "timeline_allows t e s"
  shows "refresh_ok ((t, e) # h) (timeline_step t e s)"
proof (cases e)
  case (StreamEvent ty)
  show ?thesis
  proof (cases "ty = Some ''trace'' \<and> \<not> tl_refreshRef s")
    case True
    then have "tl_refreshTimer (timeline_step t e s) = Some (t + 400)"
      by (simp add: StreamEvent timeline_step_defs)
    moreover have "\<forall>r \<in> set (reload_times h). r \<le> t"
      using assms(2) by (auto dest: reload_times_hist)
    ultimately show ?thesis
      using assms(1) by (simp add: StreamEvent refresh_ok_def reload_times_Cons)
  next
    case False
    then have "tl_refreshTimer (timeline_step t e s) = tl_refreshTimer s"
      by (auto simp: StreamEvent timeline_step_defs)
    then show ?thesis
      by (intro refresh_ok_same [OF assms(1)]) (simp_all add: StreamEvent)
  qed
next
  case RefreshTimer
  then obtain due where due: "tl_refreshTimer s = Some due" "due \<le> t"
    using assms(3) by (auto split: option.splits)
  then have "\<forall>r \<in> set (reload_times h). r + 400 \<le> t"
    using assms(1) by (fastforce simp: refresh_ok_def)
  then show ?thesis
    using assms(1) by (simp add: RefreshTimer refresh_ok_def reload_times_Cons timeline_step_defs)
qed (use refresh_ok_same [OF assms(1)] in \<open>simp_all add: timeline_step_defs\<close>)

lemma refresh_ok_history: "timeline_history h s \<Longrightarrow> refresh_ok h s"
proof (induction rule: timeline_history.induct)
  case timeline_mounted
  show ?case by (simp add: refresh_ok_def reload_times_def timeline_initial_def)
next
  case (timeline_next h s t e)
  then show ?case by (intro refresh_ok_step)
qed

inductive_cases history_Cons: "timeline_history (p # h) s"

fun replay :: "(num \<times> timeline_event) list \<Rightarrow> timeline_page" where
  "replay [] = timeline_initial"
| "replay ((t, e) # h) = timeline_step t e (replay h)"

lemma history_replay: "timeline_history h s \<Longrightarrow> s = replay h"
  by (induction rule: timeline_history.induct) simp_all

text \<open>
  The variable and the browser agree on the timer as long as the page is there, and then the latest
  request is not aborted.
\<close>

definition timeline_ok :: "timeline_page \<Rightarrow> bool" where
  "timeline_ok s \<longleftrightarrow> requests_ok (tl_reqs s) \<and>
     (tl_mounted s \<longrightarrow> (tl_refreshRef s \<longleftrightarrow> tl_refreshTimer s \<noteq> None) \<and>
        (\<forall>k \<in> set (aborted (tl_reqs s)). k < requestId (tl_reqs s)))"

lemma aborted_begin:
  assumes "requests_ok q" and "\<forall>k \<in> set (aborted q). k < requestId q"
  shows "\<forall>k \<in> set (aborted (begin_request q)). k < requestId (begin_request q)"
proof -
  have "abortRef q = Some k \<Longrightarrow> k = requestId q" for k using assms(1) by (simp add: requests_ok_def split: if_splits)
  with assms(2) show ?thesis
    by (auto simp: begin_request_def abort_current_def Let_def less_Suc_eq split: option.splits)
qed

lemma timeline_ok_step:
  assumes "timeline_ok s" and "timeline_allows t e s"
  shows "timeline_ok (timeline_step t e s)"
proof -
  have "requests_ok (begin_request (tl_reqs s))" "requests_ok (abort_current (tl_reqs s))"
    using assms(1) by (simp_all add: timeline_ok_def requests_ok_begin requests_ok_abort)
  moreover have "tl_mounted s \<Longrightarrow> \<forall>k \<in> set (aborted (begin_request (tl_reqs s))). k < requestId (begin_request (tl_reqs s))"
    using assms(1) aborted_begin [of "tl_reqs s"] by (simp add: timeline_ok_def)
  ultimately show ?thesis using assms
    by (cases e) (auto simp: timeline_ok_def timeline_step_defs)
qed

lemma timeline_ok_history: "timeline_history h s \<Longrightarrow> timeline_ok s"
proof (induction rule: timeline_history.induct)
  case timeline_mounted
  show ?case by (simp add: timeline_ok_def timeline_initial_def requests_ok_none) (simp add: no_requests_def)
next
  case (timeline_next h s t e)
  then show ?case by (intro timeline_ok_step)
qed

lemma requests_grow: "requestId (tl_reqs s) \<le> requestId (tl_reqs (timeline_step t e s))"
  by (cases e) (simp_all add: timeline_step_defs)

lemma pending_or_reloaded:
  assumes s1: "s1 = replay ((t, StreamEvent (Some ''trace'')) # h1)"
  shows "timeline_history (h2 @ (t, StreamEvent (Some ''trace'')) # h1) s \<Longrightarrow> tl_mounted s \<Longrightarrow>
   requestId (tl_reqs s1) \<le> requestId (tl_reqs s) \<and>
   ((\<exists>due. tl_refreshTimer s = Some due \<and> due \<le> t + 400) \<or> requestId (tl_reqs s1) < requestId (tl_reqs s))"
proof (induction h2 arbitrary: s)
  case Nil
  then obtain s0 where s0: "timeline_history h1 s0" "\<forall>p \<in> set h1. fst p \<le> t"
    "s = timeline_step t (StreamEvent (Some ''trace'')) s0"
    by (auto elim: history_Cons)
  have m: "tl_mounted s0" using Nil.prems(2) by (simp add: s0(3) timeline_step_defs split: if_splits)
  have "s1 = s" using Nil.prems(1) history_replay s1 by fastforce
  moreover have "\<exists>due. tl_refreshTimer s = Some due \<and> due \<le> t + 400"
  proof (cases "tl_refreshTimer s0")
    case None
    then have "\<not> tl_refreshRef s0" using timeline_ok_history [OF s0(1)] m by (simp add: timeline_ok_def)
    then show ?thesis by (simp add: s0(3) timeline_step_defs)
  next
    case (Some due)
    then have "\<exists>p \<in> set h1. due = fst p + 400"
      using refresh_ok_history [OF s0(1)] by (simp add: refresh_ok_def)
    with s0(2) Some show ?thesis by (auto simp: s0(3) timeline_step_defs)
  qed
  ultimately show ?case by simp
next
  case (Cons p h2)
  obtain u e where p: "p = (u, e)" by (cases p)
  from Cons.prems obtain s0 where s0:
    "timeline_history (h2 @ (t, StreamEvent (Some ''trace'')) # h1) s0" "s = timeline_step u e s0"
    "timeline_allows u e s0"
    by (auto simp: p elim: history_Cons)
  have m: "tl_mounted s0" using Cons.prems(2) by (cases e) (auto simp: s0(2) timeline_step_defs split: if_splits)
  have ref: "tl_refreshRef s0 \<longleftrightarrow> tl_refreshTimer s0 \<noteq> None"
    using timeline_ok_history [OF s0(1)] m by (simp add: timeline_ok_def)
  note IH = Cons.IH [OF s0(1) m]
  have "requestId (tl_reqs s0) < requestId (tl_reqs s) \<or> tl_refreshTimer s = tl_refreshTimer s0 \<or> tl_refreshTimer s0 = None"
    using Cons.prems(2) ref by (cases e) (auto simp: s0(2) timeline_step_defs)
  with IH requests_grow [of s0 u e] show ?case by (auto simp: s0(2))
qed

subsection \<open>Geometry\<close>

lemma index_of_Some: "x \<in> set xs \<Longrightarrow> \<exists>i. index_of x xs = Some i \<and> i < length xs \<and> xs ! i = x"
  by (induction xs) auto

lemma set_timeline_services [simp]: "set (timeline_services ts) = lane_service ` set ts"
  by (simp add: timeline_services_def uniq_simps)

lemma sorted_timeline_services: "sorted_wrt (<) (timeline_services ts)"
  by (simp add: strict_sorted_iff timeline_services_def uniq_simps)

lemma foldr_min_le: "x \<in> insert z (set xs) \<Longrightarrow> foldr min xs z \<le> (x :: num)"
  by (induction xs) (auto simp: min.coboundedI1 min.coboundedI2)

lemma minTime_le: "t \<in> set ts \<Longrightarrow> minTime instant ts \<le> instant t"
  unfolding minTime_def by (cases ts) (auto intro!: foldr_min_le)

lemma maxTime_ge: "t \<in> set ts \<Longrightarrow> instant t + ts_durationMs t \<le> maxTime instant ts"
  unfolding maxTime_def by (cases ts) (auto intro: js_max_ge js_max_ge_init)

lemma timeline_geometry: "LANE_STRIDE = 34" "TIMELINE_PADDING_TOP = 32" "TIMELINE_LABEL_WIDTH = 160"
  by (simp_all add: LANE_STRIDE_def TIMELINE_LANE_HEIGHT_def TIMELINE_LANE_GAP_def
      TIMELINE_PADDING_TOP_def TIMELINE_LABEL_WIDTH_def)

lemma trace_in_chart:
  assumes "linear_scale lin" and "160 \<le> w" and "t \<in> set ts" and "0 \<le> ts_durationMs t"
  shows "let x = lin (timeline_domain instant ts) (160, w)
         in 160 \<le> x (instant t) \<and> x (instant t + ts_durationMs t) \<le> w"
proof -
  let ?a = "minTime instant ts" and ?b = "max (maxTime instant ts) (minTime instant ts + 1)"
  have "?a < ?b" by simp
  note bounds = linear_scale_bounds [OF assms(1) this assms(2)]
  note le = minTime_le [OF assms(3), of instant] maxTime_ge [OF assms(3), of instant]
  have "160 \<le> lin (?a, ?b) (160, w) (instant t)"
    using bounds [of "instant t"] le assms(4) by linarith
  moreover have "lin (?a, ?b) (160, w) (instant t + ts_durationMs t) \<le> w"
    using bounds [of "instant t + ts_durationMs t"] le assms(4) by linarith
  ultimately show ?thesis by (simp add: timeline_domain_def Let_def)
qed

lemma zoom_bar_redraws:
  "zoom_bar instant x' t (trace_bar_of toISO instant cs svcs x t) = trace_bar_of toISO instant cs svcs x' t"
  by (simp add: zoom_bar_def trace_bar_of_def bar_text_def Let_def max_def)

lemma url_params: "set_params timeline_params [] = [(''limit'', ''200''), (''sortBy'', ''receivedAt''), (''sortDesc'', ''false'')]"
  by code_simp

section \<open>Properties\<close>

text \<open>
  The live stream cannot flood the collector with reloads: whatever arrives and whenever,
  two reloads by the refresh timer are at least 400 ms apart.
\<close>

theorem reloads_are_throttled:
  assumes "timeline_history h s"
  shows "sorted_wrt (\<lambda>t t'. t' + 400 \<le> t) (reload_times h)"
  using refresh_ok_history [OF assms] by (simp add: refresh_ok_def)

definition sample_history :: "(num \<times> timeline_event) list" where
  "sample_history =
     [(900, RefreshTimer), (450, StreamEvent (Some ''trace'')), (400, RefreshTimer),
      (7, StreamEvent (Some ''trace'')), (0, StreamEvent (Some ''trace''))]"

lemma sample_history_ok: "timeline_history sample_history (replay sample_history)"
  unfolding sample_history_def replay.simps
  by (intro timeline_next timeline_mounted)
    (simp_all add: timeline_step_defs timeline_initial_def loadTraces_def)

theorem reloads_are_throttled_witness:
  "reload_times sample_history = [900, 400] \<and> sorted_wrt (\<lambda>t t'. t' + 400 \<le> t) (reload_times sample_history)"
  using reloads_are_throttled [OF sample_history_ok] by (simp add: sample_history_def reload_times_def)

text \<open>
  C38. No reported trace is forgotten: after a \<open>trace\<close> event at time \<open>t\<close>, as long as the page is
  mounted, the browser holds a timer that is due by \<open>t + 400\<close>, or a request for the traces has been
  sent since the event and the latest one is not aborted; and when that timer fires, such a request is sent.
\<close>

theorem trace_event_is_followed_by_reload:
  assumes "timeline_history (h2 @ (t, StreamEvent (Some ''trace'')) # h1) s" and "tl_mounted s"
  shows "let sent_since = (\<lambda>s'. requestId (tl_reqs (replay ((t, StreamEvent (Some ''trace'')) # h1))) < requestId (tl_reqs s') \<and>
           abortRef (tl_reqs s') = Some (requestId (tl_reqs s')) \<and> requestId (tl_reqs s') \<notin> set (aborted (tl_reqs s')))
    in ((\<exists>due. tl_refreshTimer s = Some due \<and> due \<le> t + 400) \<or> sent_since s) \<and> sent_since (timeline_step u RefreshTimer s)"
proof -
  let ?s1 = "replay ((t, StreamEvent (Some ''trace'')) # h1)" and ?r = "timeline_step u RefreshTimer s"
  let ?current = "\<lambda>q. abortRef q = Some (requestId q) \<and> requestId q \<notin> set (aborted q)"
  have ok: "requests_ok (tl_reqs s)" "\<forall>k \<in> set (aborted (tl_reqs s)). k < requestId (tl_reqs s)"
    using timeline_ok_history [OF assms(1)] assms(2) by (simp_all add: timeline_ok_def)
  have current: "?current q" if "requests_ok q" "\<forall>k \<in> set (aborted q). k < requestId q" "n < requestId q" for q n
    using that by (auto simp: requests_ok_def)
  have r: "tl_reqs ?r = begin_request (tl_reqs s)" by (simp add: timeline_step_defs)
  note p = pending_or_reloaded [OF refl assms]
  have "requestId (tl_reqs ?s1) < requestId (tl_reqs ?r)"
    using p unfolding r by (simp del: replay.simps)
  moreover from current [OF _ _ this] have "?current (tl_reqs ?r)"
    using requests_ok_begin [OF ok(1)] aborted_begin [OF ok] unfolding r by blast
  ultimately show ?thesis using p current [OF ok] unfolding Let_def by blast
qed

theorem trace_event_is_followed_by_reload_witness:
  "requestId (tl_reqs (replay (drop 1 sample_history))) < requestId (tl_reqs (replay sample_history))"
proof -
  have "timeline_history ([(900, RefreshTimer)] @ (450, StreamEvent (Some ''trace'')) # drop 2 sample_history)
      (replay sample_history)"
    using sample_history_ok by (simp add: sample_history_def)
  moreover have "tl_mounted (replay sample_history)" "tl_refreshTimer (replay sample_history) = None"
    "drop 1 sample_history = (450, StreamEvent (Some ''trace'')) # drop 2 sample_history"
    by (simp_all add: sample_history_def timeline_step_defs timeline_initial_def)
  ultimately show ?thesis using trace_event_is_followed_by_reload [of "[(900, RefreshTimer)]" 450 "drop 2 sample_history"]
    unfolding Let_def by fastforce
qed

text \<open>
  Every trace is drawn once, in the lane of its root service and inside the chart: the
  lanes are the distinct services in order, the bar lies in the lane of its service, starts
  right of the labels at its arrival, and its scaled length ends left of the border.
\<close>

theorem timeline_lanes_hold_their_traces:
  assumes "linear_scale lin" and "160 \<le> w" and "i < length ts" and "0 \<le> ts_durationMs (ts ! i)"
  shows "\<exists>v cs'. draw_timeline lin toISO instant w ts cs = Some (v, cs') \<and>
           length (tlv_bars v) = length ts \<and> length (tlv_lanes v) = card (lane_service ` set ts) \<and>
           (\<exists>k < length (tlv_lanes v).
              ln_text (tlv_lanes v ! k) = clip_text 18 (lane_service (ts ! i)) \<and>
              hit_y (tlv_bars v ! i) = ln_y (tlv_lanes v ! k) \<and>
              tb_y (tlv_bars v ! i) = ln_y (tlv_lanes v ! k) + 3) \<and>
           160 \<le> tb_x (tlv_bars v ! i) \<and>
           (tb_width (tlv_bars v ! i) = 3 \<or> tb_x (tlv_bars v ! i) + tb_width (tlv_bars v ! i) \<le> w)"
proof -
  let ?svcs = "timeline_services ts" and ?t = "ts ! i"
  let ?cs = "color_calls ?svcs cs"
  let ?x = "lin (timeline_domain instant ts) (160, w)"
  have ne: "ts \<noteq> []" and t: "?t \<in> set ts" using assms(3) by auto
  obtain v where v: "draw_timeline lin toISO instant w ts cs = Some (v, ?cs)"
    "tlv_lanes v = map_index (lane_for ?cs w) ?svcs" "tlv_bars v = map (trace_bar_of toISO instant ?cs ?svcs ?x) ts"
    using ne by (simp add: draw_timeline_def timeline_geometry Let_def)
  obtain k where k: "index_of (lane_service ?t) ?svcs = Some k" "k < length ?svcs" "?svcs ! k = lane_service ?t"
    using index_of_Some [of "lane_service ?t" ?svcs] t by auto
  have "length ?svcs = card (lane_service ` set ts)"
    using distinct_card [of ?svcs] sorted_timeline_services [of ts] by (simp add: strict_sorted_iff)
  moreover have "\<exists>k < length (tlv_lanes v).
      ln_text (tlv_lanes v ! k) = clip_text 18 (lane_service ?t) \<and>
      hit_y (tlv_bars v ! i) = ln_y (tlv_lanes v ! k) \<and> tb_y (tlv_bars v ! i) = ln_y (tlv_lanes v ! k) + 3"
    using k assms(3)
    by (intro exI [of _ k]) (simp add: v lane_for_def trace_bar_of_def lane_of_def Let_def)
  moreover have "160 \<le> tb_x (tlv_bars v ! i) \<and>
      (tb_width (tlv_bars v ! i) = 3 \<or> tb_x (tlv_bars v ! i) + tb_width (tlv_bars v ! i) \<le> w)"
    using trace_in_chart [OF assms(1,2) t assms(4), of instant] assms(3)
    by (auto simp: v trace_bar_of_def trace_span_def Let_def max_def)
  ultimately show ?thesis using v by auto
qed

theorem timeline_lanes_hold_their_traces_witness:
  "\<exists>v cs'. draw_timeline interpolating (\<lambda>t. []) (\<lambda>t. 1000) 1160 [sample_summary ''a''] initial_colors = Some (v, cs') \<and>
     length (tlv_lanes v) = 1"
  using timeline_lanes_hold_their_traces [OF interpolating_ls, of 1160 0 "[sample_summary ''a'']"
      "\<lambda>t. []" "\<lambda>t. 1000" initial_colors]
  by (auto simp: sample_summary_def)

text \<open>
  Zooming the timeline is drawing it at another scale, although the zoom derives texts and
  hit boxes from the bar's clipped width and the drawing from the exact one.
\<close>

theorem timeline_zoom_is_redraw:
  "zoom_timeline instant x' ts (v\<lparr>tlv_bars := map (trace_bar_of toISO instant cs svcs x) ts\<rparr>) =
     v\<lparr>tlv_bars := map (trace_bar_of toISO instant cs svcs x') ts\<rparr>"
  by (simp add: zoom_timeline_def zip_map2 zip_same_conv_map zoom_bar_redraws)

text \<open>
  The timeline shows the oldest traces: the answer to its request holds 200 traces, or all
  there are, and every trace it leaves out was received no earlier than each of those, although
  the page announces recent arrivals.
\<close>

theorem timeline_window_is_oldest:
  assumes "go_sort sort_slice"
  shows "let q = buildTraceQuery tenant (set_params timeline_params []);
             page = qr_traces (sort_and_page sort_slice q held)
         in \<exists>rest. mset held = mset page + mset rest \<and> length page = min 200 (length held) \<and>
              list_all (\<lambda>a. list_all (\<lambda>b. gt_receivedAt a \<le> gt_receivedAt b) rest) page"
proof -
  let ?q = "buildTraceQuery tenant (set_params timeline_params [])"
  have q: "q_offset ?q = 0" "q_limit ?q = 200" "q_sortBy ?q = ''receivedAt''" "\<not> q_sortDesc ?q"
    unfolding url_params buildTraceQuery_def Let_def trace_query.simps by code_simp+
  show ?thesis
    using first_page [OF assms, of ?q held] q by (simp add: query_less_def not_less Let_def)
qed

theorem timeline_window_is_oldest_witness:
  "let page = qr_traces (sort_and_page insertion_sort
         (buildTraceQuery [] (set_params timeline_params [])) (map sample_stored [30, 10]))
   in length page = 2"
  using timeline_window_is_oldest [OF go_sort_insertion, of "[]" "map sample_stored [30, 10]"]
  by (auto simp: Let_def)

end
