(* ===== verification/MetricsCharts.thy ===== *)
theory MetricsCharts
  imports MetricsPage Hooks
begin

text \<open>
  The charts of \<open>pages/Metrics.tsx\<close> and the heading of its table. Drawing is Recharts' part: what the page hands it is the size of the frame, the
  points and, for every series, the mark, the key of the value and the colours.
\<close>

section \<open>Definitions\<close>

subsection \<open>Charts\<close>

datatype chart_mark = LineMark | AreaMark | BarMark

text \<open>
  A series with the attributes it is given: \<open>dataKey\<close>, \<open>stroke\<close> (\<open>fill\<close> for bars), the fill
  of an area with its opacity, and the name of the legend.
\<close>

record chart_series =
  cs_mark :: chart_mark
  cs_key :: string
  cs_colour :: string
  cs_area :: "(string \<times> num) option"
  cs_name :: "string option"

record chart_spec =
  ch_title :: string
  ch_caption :: string
  ch_height :: nat
  ch_legend :: bool
  ch_percent :: bool
  ch_series :: "chart_series list"

definition line_series :: "string \<Rightarrow> string \<Rightarrow> string option \<Rightarrow> chart_series" where
  "line_series k c n = \<lparr>cs_mark = LineMark, cs_key = k, cs_colour = c, cs_area = None, cs_name = n\<rparr>"

definition bar_series :: "string \<Rightarrow> string \<Rightarrow> string option \<Rightarrow> chart_series" where
  "bar_series k c n = \<lparr>cs_mark = BarMark, cs_key = k, cs_colour = c, cs_area = None, cs_name = n\<rparr>"

definition rate_chart :: chart_spec where
  "rate_chart =
     \<lparr>ch_title = ''Request rate'',
      ch_caption = ''See which operations are carrying the service volume right now.'',
      ch_height = 210, ch_legend = False, ch_percent = False,
      ch_series = [line_series ''rate'' ''#0f766e'' None]\<rparr>"

definition error_chart :: chart_spec where
  "error_chart =
     \<lparr>ch_title = ''Error rate'',
      ch_caption = ''Highlight the operations where reliability is degrading before latency spikes dominate.'',
      ch_height = 210, ch_legend = False, ch_percent = True,
      ch_series = [\<lparr>cs_mark = AreaMark, cs_key = ''errorRate'', cs_colour = ''#dc2626'',
        cs_area = Some (''#fca5a5'', 4 / 10), cs_name = Some ''Error %''\<rparr>]\<rparr>"

definition latency_chart :: chart_spec where
  "latency_chart =
     \<lparr>ch_title = ''Tail latency'',
      ch_caption = ''Track median behavior against the p95 and p99 edge where users begin to feel the incident.'',
      ch_height = 210, ch_legend = True, ch_percent = False,
      ch_series = [line_series ''p50'' ''#059669'' (Some ''P50''), line_series ''p95'' ''#d97706'' (Some ''P95''),
        line_series ''p99'' ''#dc2626'' (Some ''P99'')]\<rparr>"

definition percentile_chart :: chart_spec where
  "percentile_chart =
     \<lparr>ch_title = ''Percentile mix'',
      ch_caption = ''Compare operation-level percentile stacks to spot where long-tail behavior dominates total service time.'',
      ch_height = 220, ch_legend = True, ch_percent = False,
      ch_series = [bar_series ''p50'' ''#059669'' (Some ''P50ms''), bar_series ''p95'' ''#d97706'' (Some ''P95ms''),
        bar_series ''p99'' ''#dc2626'' (Some ''P99ms'')]\<rparr>"

definition metrics_charts :: "chart_spec list" where
  "metrics_charts = [rate_chart, error_chart, latency_chart, percentile_chart]"

text \<open>The value of a point under a key; \<open>None\<close> for a key the points do not have.\<close>

definition chart_value :: "string \<Rightarrow> chart_point \<Rightarrow> num option" where
  "chart_value k p =
     map_of [(''rate'', cp_rate p), (''errorRate'', cp_errorRate p), (''p50'', cp_p50 p),
       (''p95'', cp_p95 p), (''p99'', cp_p99 p)] k"

text \<open>The formatter of the tooltip of the error chart.\<close>

definition percent_tooltip :: "num option \<Rightarrow> string" where
  "percent_tooltip v = (case v of None \<Rightarrow> [] | Some x \<Rightarrow> toFixed x 1 @ ''%'')"

record drawn_chart =
  dc_size :: "int \<times> int"
  dc_labels :: "string list"
  dc_series :: "(chart_series \<times> num option list) list"

text \<open>A chart in its frame: nothing until the frame has been measured.\<close>

definition draw_chart :: "chart_spec \<Rightarrow> ElementSize \<Rightarrow> chart_point list \<Rightarrow> drawn_chart option" where
  "draw_chart c fr pts =
     (if frame_shows fr
      then Some \<lparr>dc_size = (el_width fr, el_height fr), dc_labels = map cp_name pts,
             dc_series = map (\<lambda>x. (x, map (chart_value (cs_key x)) pts)) (ch_series c)\<rparr>
      else None)"

subsection \<open>The heading of the table\<close>

record table_heading =
  th_key :: SortKey
  th_text :: string
  th_strong :: bool
  th_right :: bool

text \<open>
  The buttons of the heading: the key \<open>handleSort\<close> gets, the text with the arrow, whether
  it is set in bold, and whether it carries the class of the right-aligned ones (\<open>thClass\<close>).
\<close>

definition metric_headings :: "metrics_page \<Rightarrow> table_heading list" where
  "metric_headings s =
     map (\<lambda>(k, l, r). \<lparr>th_key = k, th_text = l @ sortIndicator s k, th_strong = (mt_sortKey s = k), th_right = r\<rparr>)
       [(ByOperation, ''Operation'', False), (ByRate, ''Rate'', True), (ByErrorRate, ''Error%'', True),
        (ByP50, ''P50'', True), (ByP95, ''P95'', True), (ByP99, ''P99'', True)]"

section \<open>Lemmas\<close>

lemmas chart_defs = rate_chart_def error_chart_def latency_chart_def percentile_chart_def
  line_series_def bar_series_def

lemma draw_chart_Some:
  "draw_chart c fr pts = Some d \<longleftrightarrow> frame_shows fr \<and>
     d = \<lparr>dc_size = (el_width fr, el_height fr), dc_labels = map cp_name pts,
          dc_series = map (\<lambda>x. (x, map (chart_value (cs_key x)) pts)) (ch_series c)\<rparr>"
  by (auto simp: draw_chart_def)

lemma metrics_keys:
  "c \<in> set metrics_charts \<Longrightarrow> x \<in> set (ch_series c) \<Longrightarrow>
   cs_key x \<in> {''rate'', ''errorRate'', ''p50'', ''p95'', ''p99''}"
  by (auto simp: metrics_charts_def chart_defs)

lemma chart_value_of:
  "chart_value ''rate'' p = Some (cp_rate p)" "chart_value ''errorRate'' p = Some (cp_errorRate p)"
  "chart_value ''p50'' p = Some (cp_p50 p)" "chart_value ''p95'' p = Some (cp_p95 p)"
  "chart_value ''p99'' p = Some (cp_p99 p)"
  by (simp_all add: chart_value_def)

lemma metrics_view_parts:
  "mv_chart (metrics_view_of lc s) = map chart_point_of (sorted_metrics lc s)"
  "mv_rows (metrics_view_of lc s) = map metric_row_of (sorted_metrics lc s)"
  by (simp_all add: metrics_view_of_def Let_def)

section \<open>Properties\<close>

text \<open>
  The charts show what the table shows: every series of every chart has one value for each row
  of the table, in the order of the rows, and it is the figure of that row's operation; no
  series refers to a value the points do not have.
\<close>

theorem charts_plot_the_table:
  assumes "c \<in> set metrics_charts" and "draw_chart c fr (mv_chart (metrics_view_of lc s)) = Some d"
    and "(x, vs) \<in> set (dc_series d)" and "i < length (mv_rows (metrics_view_of lc s))"
  shows "length vs = length (mv_rows (metrics_view_of lc s)) \<and> vs ! i \<noteq> None \<and>
    (\<exists>m \<in> set (svcMetrics s). mv_rows (metrics_view_of lc s) ! i = metric_row_of m \<and>
       vs ! i = chart_value (cs_key x) (chart_point_of m))"
proof -
  let ?ms = "sorted_metrics lc s"
  from assms(2,3) have x: "x \<in> set (ch_series c)" and vs: "vs = map (chart_value (cs_key x)) (map chart_point_of ?ms)"
    by (auto simp: draw_chart_Some metrics_view_parts)
  have i: "i < length ?ms" using assms(4) by (simp add: metrics_view_parts)
  moreover have "chart_value (cs_key x) (chart_point_of (?ms ! i)) \<noteq> None"
    using metrics_keys [OF assms(1) x] by (auto simp: chart_value_of)
  moreover have "?ms ! i \<in> set (svcMetrics s)"
    using nth_mem [OF i] by (simp add: sorted_metrics_def set_js_sort)
  ultimately show ?thesis by (auto simp: vs metrics_view_parts)
qed

definition sample_metrics_page :: metrics_page where
  "sample_metrics_page = metrics_initial\<lparr>mt_metrics := [sample_metric ''api'' ''get'' 2, sample_metric ''api'' ''put'' 5]\<rparr>"

theorem charts_plot_the_table_witness:
  "snd (hd (dc_series (the (draw_chart rate_chart \<lparr>el_width = 600, el_height = 210\<rparr>
     (mv_chart (metrics_view_of (\<lambda>a b. 0) sample_metrics_page)))))) ! 1 \<noteq> None"
proof -
  let ?v = "metrics_view_of (\<lambda>a b. 0) sample_metrics_page"
  let ?d = "the (draw_chart rate_chart \<lparr>el_width = 600, el_height = 210\<rparr> (mv_chart ?v))"
  have d: "draw_chart rate_chart \<lparr>el_width = 600, el_height = 210\<rparr> (mv_chart ?v) = Some ?d"
    by (simp add: draw_chart_def frame_shows_def)
  have "(fst (hd (dc_series ?d)), snd (hd (dc_series ?d))) \<in> set (dc_series ?d)"
    by (simp add: draw_chart_def frame_shows_def rate_chart_def)
  moreover have "1 < length (mv_rows ?v)"
    by (simp add: metrics_view_parts sorted_metrics_def length_js_sort svcMetrics_def sample_metrics_page_def
        metrics_initial_def sample_metric_def effectiveSelectedService_def metric_services_def uniq_def)
  moreover have "rate_chart \<in> set metrics_charts" by (simp add: metrics_charts_def)
  ultimately show ?thesis using charts_plot_the_table [OF _ d] by blast
qed

end
