(* ===== verification/Polling.thy ===== *)
theory Polling
  imports Latest
begin

text \<open>
  The effect with which the pages keep their data up to date: on mounting it arms a timeout of
  zero milliseconds and, on the pages that poll, an interval; both start a request. The cleanup
  stops the timers and aborts the request in flight. The locale \<open>polling\<close> extends the contract
  of \<open>Latest\<close> by the parts the effect uses.
\<close>

section \<open>Definitions\<close>

record 's polled =
  pl_timer :: "nat option"
  pl_interval :: "nat option"
  pl_state :: 's

definition effect_runs :: "nat option \<Rightarrow> nat \<Rightarrow> 's polled \<Rightarrow> 's polled" where
  "effect_runs period now s =
     s\<lparr>pl_timer := Some now, pl_interval := map_option (\<lambda>p. now + p) period\<rparr>"

definition effect_cleanup :: "('s \<Rightarrow> 's) \<Rightarrow> 's polled \<Rightarrow> 's polled" where
  "effect_cleanup abort s =
     s\<lparr>pl_timer := None, pl_interval := None, pl_state := abort (pl_state s)\<rparr>"

text \<open>The event loop at one instant: a timer that is due fires, the interval is armed again.\<close>

definition timeout_fires :: "('s \<Rightarrow> 's) \<Rightarrow> nat \<Rightarrow> 's polled \<Rightarrow> 's polled" where
  "timeout_fires fetch now s =
     (case pl_timer s of
        None \<Rightarrow> s
      | Some d \<Rightarrow> if d \<le> now then s\<lparr>pl_timer := None, pl_state := fetch (pl_state s)\<rparr> else s)"

definition interval_fires :: "('s \<Rightarrow> 's) \<Rightarrow> nat option \<Rightarrow> nat \<Rightarrow> 's polled \<Rightarrow> 's polled" where
  "interval_fires fetch period now s =
     (case (pl_interval s, period) of
        (Some d, Some p) \<Rightarrow>
          if d \<le> now then s\<lparr>pl_interval := Some (d + p), pl_state := fetch (pl_state s)\<rparr> else s
      | _ \<Rightarrow> s)"

definition timers_fire :: "('s \<Rightarrow> 's) \<Rightarrow> nat option \<Rightarrow> nat \<Rightarrow> 's polled \<Rightarrow> 's polled" where
  "timers_fire fetch period now s = interval_fires fetch period now (timeout_fires fetch now s)"

definition timers_off :: "'s polled \<Rightarrow> bool" where
  "timers_off s \<longleftrightarrow> pl_timer s = None \<and> pl_interval s = None"

text \<open>Rounds of polling: a request is started, then the settlements of the round arrive.\<close>

fun polling_rounds ::
  "('s \<Rightarrow> 's) \<Rightarrow> (nat \<Rightarrow> 'r \<Rightarrow> 's \<Rightarrow> 's) \<Rightarrow> (nat \<Rightarrow> failure \<Rightarrow> 's \<Rightarrow> 's) \<Rightarrow>
   'r settlement list list \<Rightarrow> 's \<Rightarrow> 's" where
  "polling_rounds fetch res rej [] s = s"
| "polling_rounds fetch res rej (xs # xss) s =
     polling_rounds fetch res rej xss (settle_all res rej (fetch s) xs)"

text \<open>
  Every answer comes after the next request was started: in the round of request \<open>n + 1\<close> only
  requests up to \<open>n\<close> settle. This is the case when answers take longer than the period.
\<close>

fun answers_late :: "nat \<Rightarrow> 'r settlement list list \<Rightarrow> bool" where
  "answers_late n [] \<longleftrightarrow> True"
| "answers_late n (xs # xss) \<longleftrightarrow> settled_upto n xs \<and> answers_late (Suc n) xss"

section \<open>Lemmas\<close>

lemmas polled_defs = effect_runs_def effect_cleanup_def timeout_fires_def interval_fires_def
  timers_fire_def timers_off_def

lemma timers_off_idle: "timers_off s \<Longrightarrow> fold (timers_fire fetch period) ts s = s"
  by (induction ts) (simp_all add: polled_defs)

lemma cleanup_off: "timers_off (effect_cleanup abort s)"
  by (simp add: polled_defs)

lemma one_shot:
  "fold (timers_fire fetch None) (t # ts) (effect_runs None t s) =
   s\<lparr>pl_timer := None, pl_interval := None, pl_state := fetch (pl_state s)\<rparr>"
proof -
  have "timers_fire fetch None t (effect_runs None t s) =
      s\<lparr>pl_timer := None, pl_interval := None, pl_state := fetch (pl_state s)\<rparr>"
    by (simp add: polled_defs)
  moreover have "fold (timers_fire fetch None) ts (s\<lparr>pl_timer := None, pl_interval := None, pl_state := v\<rparr>) =
      s\<lparr>pl_timer := None, pl_interval := None, pl_state := v\<rparr>" for v
    by (rule timers_off_idle) (simp add: timers_off_def)
  ultimately show ?thesis by simp
qed

lemma first_fire:
  "0 < p \<Longrightarrow> timers_fire fetch (Some p) t (effect_runs (Some p) t s) =
   s\<lparr>pl_timer := None, pl_interval := Some (t + p), pl_state := fetch (pl_state s)\<rparr>"
  by (simp add: polled_defs)

lemma interval_fire:
  "timers_fire fetch (Some p) d (s\<lparr>pl_timer := None, pl_interval := Some d\<rparr>) =
   s\<lparr>pl_timer := None, pl_interval := Some (d + p), pl_state := fetch (pl_state s)\<rparr>"
  by (simp add: polled_defs)

text \<open>A period of polling: one request at once and one more after each period.\<close>

lemma polls_on_time:
  assumes "0 < p"
  shows "fold (timers_fire fetch (Some p)) (map (\<lambda>k. t + k * p) [0..<Suc n]) (effect_runs (Some p) t s) =
    s\<lparr>pl_timer := None, pl_interval := Some (t + Suc n * p), pl_state := (fetch ^^ Suc n) (pl_state s)\<rparr>"
proof (induction n)
  case 0
  then show ?case using first_fire [OF assms] by simp
next
  case (Suc n)
  let ?s = "s\<lparr>pl_timer := None, pl_interval := Some (t + Suc n * p), pl_state := (fetch ^^ Suc n) (pl_state s)\<rparr>"
  have "fold (timers_fire fetch (Some p)) (map (\<lambda>k. t + k * p) [0..<Suc (Suc n)]) (effect_runs (Some p) t s) =
      timers_fire fetch (Some p) (t + Suc n * p) ?s"
    using Suc.IH by simp
  also have "?s = ?s\<lparr>pl_timer := None, pl_interval := Some (t + Suc n * p)\<rparr>" by simp
  also have "timers_fire fetch (Some p) (t + Suc n * p) \<dots> =
      ?s\<lparr>pl_timer := None, pl_interval := Some (t + Suc n * p + p), pl_state := fetch (pl_state ?s)\<rparr>"
    by (rule interval_fire)
  finally show ?case by (simp add: algebra_simps)
qed

section \<open>The interface\<close>

locale polling = latest_loading +
  fixes abort :: "'a \<Rightarrow> 'a"
    and reset :: "'c \<Rightarrow> 'c"
  assumes cur_abort: "cur (abort s) = cur s"
    and view_start: "view (start s) = reset (view s)"
    and reset_twice: "reset (reset v) = reset v"
    and busy_start: "busy s \<Longrightarrow> busy (start s)"
begin

lemma cur_starts: "cur ((start ^^ n) s) = cur s + n"
  by (induction n) (simp_all add: cur_start)

text \<open>The requests of a mounted page: one at once and one for each period that has passed.\<close>

lemma requests_on_time:
  assumes "0 < p"
  shows "cur (pl_state (fold (timers_fire start (Some p)) (map (\<lambda>k. t + k * p) [0..<Suc n])
    (effect_runs (Some p) t s))) = cur (pl_state s) + Suc n"
  by (simp add: polls_on_time [OF assms] cur_start cur_starts del: fold_simps upt_Suc)

text \<open>After the cleanup no timer starts a request, and an answer in flight is not the current one's concern.\<close>

lemma stopped_after_cleanup:
  "cur (pl_state (fold (timers_fire start period) ts (effect_cleanup abort s))) = cur (pl_state s)"
  by (simp add: timers_off_idle [OF cleanup_off]) (simp add: effect_cleanup_def cur_abort)

text \<open>
  When every answer comes after the next request was started, none of them is used: the page
  shows what it showed at the start, and its loading indicator stays.
\<close>

lemma late_answers_unused:
  assumes "answers_late (cur s) xss" and "xss \<noteq> []"
  shows "view (polling_rounds start resolve reject xss s) = reset (view s) \<and>
    (busy s \<longrightarrow> busy (polling_rounds start resolve reject xss s))"
  using assms
proof (induction xss arbitrary: s)
  case (Cons xs xss)
  let ?s = "settle_all resolve reject (start s) xs"
  have late: "\<And>x. x \<in> set xs \<Longrightarrow> settled_id x \<noteq> cur (start s)"
    using Cons.prems(1) by (auto simp: cur_start dest: settled_uptoD)
  have "view ?s = reset (view s)" "busy ?s = busy (start s)" "cur ?s = Suc (cur s)"
    using stale_settle_all [OF late] stale_settle_all_busy [OF late]
    by (simp_all add: view_start cur_settle_all cur_start)
  then show ?case
    using Cons.prems(1) Cons.IH [of ?s] by (cases "xss = []") (auto simp: reset_twice busy_start)
qed simp

end

end
