(* ===== verification/PageEffects.thy ===== *)
theory PageEffects
  imports Polling MetricsPage ServiceMap SamplerPage ComparePage TraceDetail
begin

text \<open>
  The loading effects of the pages as instances of \<open>Polling\<close>: \<open>Metrics.tsx\<close> polls every 5
  seconds, \<open>ServiceMap.tsx\<close> every 30, \<open>Sampler.tsx\<close> every 3, \<open>useCollectorStatus.ts\<close> every 15;
  \<open>TraceDetail.tsx\<close> and \<open>Compare.tsx\<close> load once. A request may take up to the 15 seconds
  of \<open>DEFAULT_TIMEOUT_MS\<close>, which is longer than two of these periods.
\<close>

section \<open>Definitions\<close>

definition metrics_mount :: "nat \<Rightarrow> metrics_page polled \<Rightarrow> metrics_page polled" where
  "metrics_mount = effect_runs (Some 5000)"

definition metrics_timers :: "nat \<Rightarrow> metrics_page polled \<Rightarrow> metrics_page polled" where
  "metrics_timers = timers_fire metrics_start (Some 5000)"

definition metrics_abort :: "metrics_page \<Rightarrow> metrics_page" where
  "metrics_abort s = s\<lparr>mt_reqs := abort_current (mt_reqs s)\<rparr>"

definition metrics_unmount :: "metrics_page polled \<Rightarrow> metrics_page polled" where
  "metrics_unmount = effect_cleanup metrics_abort"

definition graph_mount :: "nat \<Rightarrow> map_page polled \<Rightarrow> map_page polled" where
  "graph_mount = effect_runs (Some 30000)"

definition graph_timers :: "nat \<Rightarrow> map_page polled \<Rightarrow> map_page polled" where
  "graph_timers = timers_fire graph_start (Some 30000)"

definition graph_abort :: "map_page \<Rightarrow> map_page" where
  "graph_abort s = s\<lparr>sg_reqs := abort_current (sg_reqs s)\<rparr>"

definition graph_unmount :: "map_page polled \<Rightarrow> map_page polled" where
  "graph_unmount = effect_cleanup graph_abort"

definition sampler_mount :: "nat \<Rightarrow> sampler_page polled \<Rightarrow> sampler_page polled" where
  "sampler_mount = effect_runs (Some 3000)"

definition sampler_timers :: "nat \<Rightarrow> sampler_page polled \<Rightarrow> sampler_page polled" where
  "sampler_timers = timers_fire sampler_poll (Some 3000)"

definition sampler_abort :: "sampler_page \<Rightarrow> sampler_page" where
  "sampler_abort s = s\<lparr>sm_reqs := abort_current (sm_reqs s)\<rparr>"

definition sampler_unmount :: "sampler_page polled \<Rightarrow> sampler_page polled" where
  "sampler_unmount = effect_cleanup sampler_abort"

definition collector_mount :: "nat \<Rightarrow> collector_state polled \<Rightarrow> collector_state polled" where
  "collector_mount = effect_runs (Some 15000)"

definition collector_timers :: "nat \<Rightarrow> collector_state polled \<Rightarrow> collector_state polled" where
  "collector_timers = timers_fire collector_refresh (Some 15000)"

text \<open>The pages that load once do so when both ids, or the id of the route, are there.\<close>

definition compare_mount :: "nat \<Rightarrow> string option \<times> string option \<Rightarrow> compare_page polled \<Rightarrow> compare_page polled" where
  "compare_mount now ids s =
     (if nonempty (fst ids) = None \<or> nonempty (snd ids) = None then s else effect_runs None now s)"

definition compare_timers :: "nat \<Rightarrow> compare_page polled \<Rightarrow> compare_page polled" where
  "compare_timers = timers_fire compare_start None"

definition compare_unmount :: "compare_page polled \<Rightarrow> compare_page polled" where
  "compare_unmount = effect_cleanup compare_cleanup"

definition trace_mount :: "nat \<Rightarrow> string option \<Rightarrow> trace_page polled \<Rightarrow> trace_page polled" where
  "trace_mount now i s = (if nonempty i = None then s else effect_runs None now s)"

definition trace_timers :: "string option \<Rightarrow> nat \<Rightarrow> trace_page polled \<Rightarrow> trace_page polled" where
  "trace_timers i = timers_fire (reloadTrace i) None"

definition trace_unmount :: "trace_page polled \<Rightarrow> trace_page polled" where
  "trace_unmount = effect_cleanup trace_cleanup"

section \<open>Lemmas\<close>

lemmas page_effect_defs = metrics_mount_def metrics_timers_def metrics_unmount_def graph_mount_def
  graph_timers_def graph_unmount_def sampler_mount_def sampler_timers_def sampler_unmount_def
  collector_mount_def collector_timers_def compare_timers_def compare_unmount_def
  trace_timers_def trace_unmount_def

interpretation metrics_polling: polling "requestId \<circ> mt_reqs" metrics_start metrics_then metrics_catch
  metrics_shown metrics_result_shown mt_loading metrics_abort "\<lambda>(a, b, c, d, w, e). (a, b, c, d, w, None)"
  by unfold_locales (auto simp: metrics_start_def metrics_abort_def metrics_shown_def)

interpretation graph_polling: polling "requestId \<circ> sg_reqs" graph_start "graph_then layout" graph_catch
  map_shown map_accept sg_loading graph_abort "\<lambda>(g, es, e). (g, es, None)"
  for layout
  by unfold_locales (auto simp: graph_start_def graph_abort_def map_shown_def)

interpretation sampler_polling: polling "requestId \<circ> sm_reqs" sampler_poll sampler_then sampler_catch
  sm_config "\<lambda>r v. Some (snd r)" sm_loading sampler_abort "\<lambda>v. v"
  by unfold_locales (auto simp: sampler_defs sampler_poll_def sampler_abort_def)

interpretation collector_polling: polling "requestId \<circ> col_reqs" collector_refresh collector_then
  collector_catch col_view col_accept "\<lambda>s. False" collector_unmount "\<lambda>v. v"
  by unfold_locales (auto simp: collector_defs)

lemma metrics_loading_view:
  assumes "mt_metrics s = []" and "mt_error s = None" and "mt_loading s"
  shows "MetricsPage_view lc s = MetricsNotice (bare_notice ''Loading metrics''
    ''Fetching RED metrics, anomalies, SLOs, and latency heatmaps.'')"
  using assms by (simp add: MetricsPage_view_def present_def)

lemma sampler_loading_view:
  assumes "sm_config s = None" and "sm_loading s"
  shows "SamplerPage_view s = SamplerNotice (bare_notice ''Loading sampler''
    ''Fetching current sampler configuration and throughput history.'')"
  using assms by (simp add: SamplerPage_view_def)

section \<open>Properties\<close>

text \<open>
  A collector that answers more slowly than the page polls is never seen: when every settlement
  comes after the next request was started, the metrics page shows its loading notice for
  ever, without data and without an error. The period is 5 seconds, a request may take 15.
\<close>

theorem slow_answers_starve_metrics:
  assumes "answers_late 0 xss" and "xss \<noteq> []"
  shows "MetricsPage_view lc (polling_rounds metrics_start metrics_then metrics_catch xss metrics_initial) =
    MetricsNotice (bare_notice ''Loading metrics''
      ''Fetching RED metrics, anomalies, SLOs, and latency heatmaps.'')"
proof (rule metrics_loading_view)
  have "answers_late ((requestId \<circ> mt_reqs) metrics_initial) xss"
    using assms(1) by (simp add: metrics_initial_def no_requests_def)
  note late = metrics_polling.late_answers_unused [OF this assms(2)]
  from late show "mt_metrics (polling_rounds metrics_start metrics_then metrics_catch xss metrics_initial) = []"
    and "mt_error (polling_rounds metrics_start metrics_then metrics_catch xss metrics_initial) = None"
    and "mt_loading (polling_rounds metrics_start metrics_then metrics_catch xss metrics_initial)"
    by (simp_all add: metrics_shown_def metrics_initial_def)
qed

theorem slow_answers_starve_metrics_witness:
  "MetricsPage_view (\<lambda>a b. 0) (polling_rounds metrics_start metrics_then metrics_catch
     [[], [Resolved 1 (sample_result (Inr [sample_metric ''api'' ''get'' 2]))],
      [Resolved 2 (sample_result (Inr [sample_metric ''api'' ''get'' 3]))]] metrics_initial) =
    MetricsNotice (bare_notice ''Loading metrics''
      ''Fetching RED metrics, anomalies, SLOs, and latency heatmaps.'')"
  by (rule slow_answers_starve_metrics) (simp_all add: settled_upto_def)

text \<open>The same on the sampler page, which polls every 3 seconds.\<close>

theorem slow_answers_starve_sampler:
  assumes "answers_late 0 xss" and "xss \<noteq> []"
  shows "SamplerPage_view (polling_rounds sampler_poll sampler_then sampler_catch xss (sampler_initial ids)) =
    SamplerNotice (bare_notice ''Loading sampler''
      ''Fetching current sampler configuration and throughput history.'')"
proof (rule sampler_loading_view)
  have "answers_late ((requestId \<circ> sm_reqs) (sampler_initial ids)) xss"
    using assms(1) by (simp add: sampler_initial_def no_requests_def)
  note late = sampler_polling.late_answers_unused [OF this assms(2)]
  from late show "sm_config (polling_rounds sampler_poll sampler_then sampler_catch xss (sampler_initial ids)) = None"
    and "sm_loading (polling_rounds sampler_poll sampler_then sampler_catch xss (sampler_initial ids))"
    by (simp_all add: sampler_initial_def)
qed

theorem slow_answers_starve_sampler_witness:
  "SamplerPage_view (polling_rounds sampler_poll sampler_then sampler_catch
     [[], [Rejected 1 (ErrorObj ''late'')]] (sampler_initial initial_ids)) =
    SamplerNotice (bare_notice ''Loading sampler''
      ''Fetching current sampler configuration and throughput history.'')"
  by (rule slow_answers_starve_sampler) (simp_all add: settled_upto_def)

text \<open>
  A mounted metrics page starts a request at once and one more after every 5 seconds, as long as
  it stays mounted; after it is unmounted its timers start none.
\<close>

theorem metrics_page_polls_while_mounted:
  "requestId (mt_reqs (pl_state (fold metrics_timers (map (\<lambda>k. t + k * 5000) [0..<Suc n]) (metrics_mount t s)))) =
     requestId (mt_reqs (pl_state s)) + Suc n \<and>
   requestId (mt_reqs (pl_state (fold metrics_timers ts (metrics_unmount s)))) = requestId (mt_reqs (pl_state s))"
  using metrics_polling.requests_on_time [of 5000 t n s] metrics_polling.stopped_after_cleanup [of "Some 5000" ts s]
  by (simp only: page_effect_defs o_apply)

end
