(* ===== verification/AppFrame.thy ===== *)
theory AppFrame
  imports Shell
begin

text \<open>
  \<open>App.tsx\<close>: the frame around every page, with the pages that are loaded on first use, and the
  handlers of \<open>AppErrorBoundary.tsx\<close>. Which route a path matches is decided by the
  router, a library: it is a parameter that picks one of the declared routes.
\<close>

section \<open>Definitions\<close>

text \<open>The pages imported with \<open>lazy\<close>; the others are part of the first bundle.\<close>

definition lazy_page :: "page \<Rightarrow> bool" where
  "lazy_page p \<longleftrightarrow>
     p \<in> {TraceDetailPage, ServiceMapPage, MetricsPage, SamplerPage, ComparePage, TimelinePage}"

datatype main_area = RouteFallback string string | ShownPage page

definition fallback :: main_area where
  "fallback = RouteFallback ''Preparing View'' (''Loading the next investigation surface'' @ ellipsis)"

record app_frame =
  af_nav :: nav_bar
  af_badges :: "string list"
  af_main :: main_area

text \<open>One rendering below the boundary: the frame, or the error a component throws.\<close>

definition render_routes ::
  "((string \<times> page) list \<Rightarrow> string \<Rightarrow> page) \<Rightarrow> bool \<Rightarrow> page set \<Rightarrow> string \<Rightarrow> bool \<Rightarrow> string + app_frame" where
  "render_routes rt showE2ERoute loaded pathname dark =
     (let p = rt (routes showE2ERoute) pathname
      in if p = E2ECrashRoute then Inl ''Synthetic e2e route crash''
         else Inr \<lparr>af_nav = Nav pathname dark,
           af_badges = [''Live trace investigation'', ''Search, compare, map, and latency views''],
           af_main = (if lazy_page p \<and> p \<notin> loaded then fallback else ShownPage p)\<rparr>)"

definition App ::
  "((string \<times> page) list \<Rightarrow> string \<Rightarrow> page) \<Rightarrow> bool \<Rightarrow> page set \<Rightarrow> string \<Rightarrow> bool \<Rightarrow> boundary \<Rightarrow>
   boundary \<times> app_frame screen" where
  "App rt showE2ERoute loaded pathname dark b =
     boundary_render b (render_routes rt showE2ERoute loaded pathname dark)"

text \<open>What the router promises: the page it picks is declared.\<close>

definition router :: "((string \<times> page) list \<Rightarrow> string \<Rightarrow> page) \<Rightarrow> bool" where
  "router rt \<longleftrightarrow> (\<forall>rs p. rs \<noteq> [] \<longrightarrow> rt rs p \<in> snd ` set rs)"

text \<open>The buttons of the crash screen, by what they call on \<open>window.location\<close>.\<close>

datatype location_call = Reload | Assign string

definition handleReload :: "location_call list \<Rightarrow> location_call list" where
  "handleReload calls = calls @ [Reload]"

definition handleReturnHome :: "location_call list \<Rightarrow> location_call list" where
  "handleReturnHome calls = calls @ [Assign ''/'']"

text \<open>Exact paths, the route with a parameter, and the last route for everything else.\<close>

definition simple_router :: "(string \<times> page) list \<Rightarrow> string \<Rightarrow> page" where
  "simple_router rs p =
     (case map_of rs p of Some pg \<Rightarrow> pg
      | None \<Rightarrow> (case map_of rs ''/trace/:id'' of
            Some pg \<Rightarrow> if take 7 p = ''/trace/'' \<and> length p > 7 then pg else snd (last rs)
          | None \<Rightarrow> snd (last rs)))"

section \<open>Lemmas\<close>

lemma routed_page: "map_of rs p = Some pg \<Longrightarrow> pg \<in> snd ` set rs"
  by (force dest: map_of_SomeD)

lemma simple_router_ok: "router simple_router"
  by (simp add: router_def simple_router_def routed_page split: option.split)

lemma routes_not_Nil: "routes e \<noteq> []"
  by (simp add: routes_def)

lemma routes_pages: "snd ` set (routes False) = UNIV - {E2ECrashRoute}"
proof -
  have "pg \<in> snd ` set (routes False)" if "pg \<noteq> E2ECrashRoute" for pg
    using that by (cases pg) (auto simp: routes_def)
  then show ?thesis by (auto simp: routes_def)
qed

section \<open>Properties\<close>

text \<open>
  Without the route for the end-to-end tests no path crashes the frame: whatever path is
  entered, the navigation and one page, or the notice that it is loading, are shown; the page
  itself as soon as its code is loaded.
\<close>

theorem every_path_has_a_page:
  assumes "router rt" and "\<not> eb_hasError b"
  shows "\<exists>pg. snd (App rt False loaded path dark b) =
    Children \<lparr>af_nav = Nav path dark,
      af_badges = [''Live trace investigation'', ''Search, compare, map, and latency views''],
      af_main = (if lazy_page pg \<and> pg \<notin> loaded then fallback else ShownPage pg)\<rparr> \<and> pg \<noteq> E2ECrashRoute"
proof -
  have "rt (routes False) path \<in> snd ` set (routes False)"
    using assms(1) routes_not_Nil unfolding router_def by blast
  then have "rt (routes False) path \<noteq> E2ECrashRoute" by (simp add: routes_pages)
  then show ?thesis using assms(2) by (auto simp: App_def render_routes_def Let_def)
qed

theorem every_path_has_a_page_witness:
  "\<exists>pg. af_main (case snd (App simple_router False {} ''/trace/7f'' True boundary_initial) of Children v \<Rightarrow> v) =
     (if lazy_page pg \<and> pg \<notin> {} then fallback else ShownPage pg)"
proof -
  have "\<not> eb_hasError boundary_initial" by (simp add: boundary_initial_def)
  from every_path_has_a_page [OF simple_router_ok this, of "{}" "''/trace/7f''" True] show ?thesis
    by force
qed

end
