(* ===== verification/LoadTest.thy ===== *)
theory LoadTest
  imports TraceView
begin

text \<open>
  The load generators of \<open>loadtests/k6\<close> (\<open>ingest-native-spans.js\<close>, \<open>mixed-ingest-and-query.js\<close> and
  \<open>collector-soak.js\<close>): the spans they post, and what the collector makes of them. The
  environment variables are optional strings, \<open>Math.random\<close> is a stream of bytes \<open>rnd\<close> read in
  the order of the draws, and the counters of k6 (\<open>__VU\<close>, \<open>__ITER\<close>) are arguments. A time in
  nanoseconds is a multiple of a million below the range where the shortest decimal text of the
  number would differ from it, so it reaches the collector as the integer it stands for. The
  options of the runs (stages, thresholds) are configuration of k6 and are left out.
\<close>

section \<open>Definitions\<close>

subsection \<open>Requests\<close>

definition env_or :: "string \<Rightarrow> string option \<Rightarrow> string" where
  "env_or d v = (case v of None \<Rightarrow> d | Some s \<Rightarrow> if s = [] then d else s)"

record load_env =
  le_base :: "string option"
  le_batch :: "nat option"
  le_service :: "string option"
  le_apiKey :: "string option"
  le_tenant :: "string option"

definition load_headers :: "load_env \<Rightarrow> (string \<times> string) list" where
  "load_headers e =
     [(''Content-Type'', ''application/json'')] @
     (if env_or [] (le_apiKey e) \<noteq> [] then [(''Authorization'', ''Bearer '' @ env_or [] (le_apiKey e))] else []) @
     (if env_or [] (le_tenant e) \<noteq> [] then [(''X-Tenant-ID'', env_or [] (le_tenant e))] else [])"

definition load_base :: "load_env \<Rightarrow> string" where
  "load_base e = env_or ''http://localhost:4318'' (le_base e)"

text \<open>\<open>Number(__ENV.BATCH_SIZE || n)\<close>, for a value that is a number.\<close>

definition load_batch :: "nat \<Rightarrow> load_env \<Rightarrow> nat" where
  "load_batch n e = (case le_batch e of None \<Rightarrow> n | Some b \<Rightarrow> b)"

definition byte_text :: "nat \<Rightarrow> string" where
  "byte_text n = [''0123456789abcdef'' ! (n div 16), ''0123456789abcdef'' ! (n mod 16)]"

text \<open>\<open>hex(bytes)\<close> at position \<open>k\<close> of the stream.\<close>

definition hex_id :: "(nat \<Rightarrow> nat) \<Rightarrow> nat \<Rightarrow> nat \<Rightarrow> string" where
  "hex_id rnd k bytes = concat (map (\<lambda>j. byte_text (rnd (k + j))) [0..<bytes])"

subsection \<open>Spans\<close>

definition text_attribute :: "string \<Rightarrow> string \<Rightarrow> attribute_in" where
  "text_attribute k v = \<lparr>ai_key = k, ai_string = Some v, ai_int = None, ai_bool = None, ai_double = None\<rparr>"

definition load_span ::
  "attribute_in list \<Rightarrow> string \<Rightarrow> string \<Rightarrow> string \<Rightarrow> string \<Rightarrow> string \<Rightarrow> string \<Rightarrow> int \<Rightarrow> int \<Rightarrow> bool \<Rightarrow> span_in" where
  "load_span attrs failure_text tid sid parent nm svc start_ms duration_ms err =
     \<lparr>si_traceId = tid, si_spanId = sid, si_parentSpanId = parent, si_name = nm,
      si_kind = (if parent \<noteq> [] then 3 else 2), si_service = svc, si_serviceAttributes = [],
      si_start = start_ms * 1000000, si_end = (start_ms + duration_ms) * 1000000,
      si_attributes = attrs, si_events = [], si_links = [],
      si_code = (if err then 2 else 1), si_message = (if err then failure_text else [])\<rparr>"

definition native_span :: "string \<Rightarrow> string \<Rightarrow> string \<Rightarrow> string \<Rightarrow> string \<Rightarrow> int \<Rightarrow> int \<Rightarrow> bool \<Rightarrow> span_in" where
  "native_span tid sid parent =
     load_span [text_attribute ''http.method'' (if parent \<noteq> [] then ''POST'' else ''GET''),
       text_attribute ''deployment.environment'' ''loadtest''] ''synthetic loadtest failure'' tid sid parent"

definition mixed_span :: "string \<Rightarrow> string \<Rightarrow> string \<Rightarrow> string \<Rightarrow> string \<Rightarrow> int \<Rightarrow> int \<Rightarrow> bool \<Rightarrow> span_in" where
  "mixed_span =
     load_span [text_attribute ''deployment.environment'' ''loadtest'', text_attribute ''workflow.mode'' ''mixed'']
       ''synthetic mixed-load failure''"

definition soak_span :: "nat \<Rightarrow> string \<Rightarrow> string \<Rightarrow> string \<Rightarrow> string \<Rightarrow> string \<Rightarrow> int \<Rightarrow> int \<Rightarrow> bool \<Rightarrow> span_in" where
  "soak_span vu =
     load_span [text_attribute ''deployment.environment'' ''soak'', text_attribute ''test.window'' (nat_str vu)]
       ''synthetic soak failure''"

subsection \<open>Batches\<close>

text \<open>The spans of the \<open>i\<close>-th trace of a batch, and the batch.\<close>

definition native_trace :: "string \<Rightarrow> (nat \<Rightarrow> nat) \<Rightarrow> int \<Rightarrow> nat \<Rightarrow> nat \<Rightarrow> nat \<Rightarrow> span_in list" where
  "native_trace svc rnd startedAt vu iter i =
     (let k = 32 * i; tid = hex_id rnd k 16; r = hex_id rnd (k + 16) 8; c = hex_id rnd (k + 24) 8;
          offset = int i * 3; hasErr = ((vu + iter + i) mod 17 = 0)
      in [native_span tid r [] ''GET /checkout'' (svc @ ''-gateway'') (startedAt + offset) 120 hasErr,
          native_span tid c r ''POST /payments/authorize'' (svc @ ''-payments'') (startedAt + offset + 8) 70 hasErr])"

definition native_batch :: "load_env \<Rightarrow> (nat \<Rightarrow> nat) \<Rightarrow> int \<Rightarrow> nat \<Rightarrow> nat \<Rightarrow> span_in list" where
  "native_batch e rnd startedAt vu iter =
     concat (map (native_trace (env_or ''loadgen'' (le_service e)) rnd startedAt vu iter) [0..<load_batch 20 e])"

definition mixed_trace :: "string \<Rightarrow> (nat \<Rightarrow> nat) \<Rightarrow> int \<Rightarrow> nat \<Rightarrow> nat \<Rightarrow> nat \<Rightarrow> span_in list" where
  "mixed_trace svc rnd startedAt vu iter i =
     (let k = 40 * i; tid = hex_id rnd k 16; r = hex_id rnd (k + 16) 8; c = hex_id rnd (k + 24) 8;
          d = hex_id rnd (k + 32) 8; offset = int i * 4; hasErr = ((vu + iter + i) mod 19 = 0)
      in [mixed_span tid r [] ''POST /checkout'' (svc @ ''-gateway'') (startedAt + offset) 140 hasErr,
          mixed_span tid c r ''POST /payments/authorize'' (svc @ ''-payments'') (startedAt + offset + 10) 88 hasErr,
          mixed_span tid d c ''INSERT orders'' (svc @ ''-postgres'') (startedAt + offset + 18) 42 hasErr])"

definition mixed_batch :: "load_env \<Rightarrow> (nat \<Rightarrow> nat) \<Rightarrow> int \<Rightarrow> nat \<Rightarrow> nat \<Rightarrow> span_in list" where
  "mixed_batch e rnd startedAt vu iter =
     concat (map (mixed_trace (env_or ''mixed-load'' (le_service e)) rnd startedAt vu iter) [0..<load_batch 16 e])"

definition soak_trace :: "string \<Rightarrow> (nat \<Rightarrow> nat) \<Rightarrow> int \<Rightarrow> nat \<Rightarrow> nat \<Rightarrow> span_in list" where
  "soak_trace svc rnd now vu iter =
     (let tid = hex_id rnd 0 16; r = hex_id rnd 16 8; c = hex_id rnd 24 8; d = hex_id rnd 32 8;
          hasErr = ((iter + vu) mod 29 = 0)
      in [soak_span vu tid r [] ''GET /orders'' (svc @ ''-gateway'') now 160 hasErr,
          soak_span vu tid c r ''POST /payments/capture'' (svc @ ''-payments'') (now + 12) 96 hasErr,
          soak_span vu tid d c ''SELECT orders'' (svc @ ''-postgres'') (now + 24) 56 False])"

definition soak_batch :: "load_env \<Rightarrow> (nat \<Rightarrow> nat) \<Rightarrow> int \<Rightarrow> nat \<Rightarrow> nat \<Rightarrow> span_in list" where
  "soak_batch e rnd now vu iter = soak_trace (env_or ''soak'' (le_service e)) rnd now vu iter"

subsection \<open>Reads\<close>

definition mixed_endpoints :: "load_env \<Rightarrow> string list" where
  "mixed_endpoints e =
     map (\<lambda>p. load_base e @ p)
       [''/api/v1/traces?limit=25&sortBy=receivedAt&sortDesc=true'', ''/api/v1/metrics/red'',
        ''/api/v1/dependencies'', ''/api/v1/services'']"

definition mixed_query :: "load_env \<Rightarrow> nat \<Rightarrow> string" where
  "mixed_query e iter = mixed_endpoints e ! (iter mod length (mixed_endpoints e))"

text \<open>The reads of a soak iteration, after the post.\<close>

definition soak_reads :: "load_env \<Rightarrow> nat \<Rightarrow> string list" where
  "soak_reads e iter =
     (if iter mod 3 = 0 then [load_base e @ ''/readyz''] else []) @
     (if iter mod 4 = 0 then [load_base e @ ''/api/v1/traces?limit=10&sortBy=receivedAt&sortDesc=true''] else [])"

definition ingest_ok :: "int \<Rightarrow> bool" where "ingest_ok st \<longleftrightarrow> st = 200 \<or> st = 202"
definition readyz_ok :: "int \<Rightarrow> bool" where "readyz_ok st \<longleftrightarrow> st = 200 \<or> st = 503"
definition query_ok :: "int \<Rightarrow> bool" where "query_ok st \<longleftrightarrow> 200 \<le> st \<and> st < 300"

section \<open>Lemmas\<close>

subsection \<open>Ids\<close>

lemma small_hex: "n < 16 \<Longrightarrow> ''0123456789abcdef'' ! n \<in> set ''0123456789abcdef''"
  by (rule nth_mem) simp

lemma hex_digits_lower:
  "c \<in> set ''0123456789abcdef'' \<Longrightarrow> TraceApi.hex_digit c \<and> lower_char c = c"
proof -
  have "list_all (\<lambda>c. TraceApi.hex_digit c \<and> lower_char c = c) ''0123456789abcdef''" by code_simp
  then show "c \<in> set ''0123456789abcdef'' \<Longrightarrow> TraceApi.hex_digit c \<and> lower_char c = c"
    by (simp only: list_all_iff)
qed

lemma set_byte_text: "n < 256 \<Longrightarrow> set (byte_text n) \<subseteq> set ''0123456789abcdef''"
  using small_hex [of "n div 16"] small_hex [of "n mod 16"] by (simp add: byte_text_def)

lemma length_hex_id: "length (hex_id rnd k n) = 2 * n"
  by (induction n) (simp_all add: hex_id_def byte_text_def)

lemma set_hex_id:
  assumes "\<And>j. rnd j < 256" and "c \<in> set (hex_id rnd k n)"
  shows "c \<in> set ''0123456789abcdef''"
proof -
  from assms(2) obtain j where "c \<in> set (byte_text (rnd (k + j)))" by (auto simp: hex_id_def)
  then show ?thesis by (rule subsetD [OF set_byte_text [OF assms(1)]])
qed

lemma parse_hex_id:
  assumes "\<And>j. rnd j < 256"
  shows "ParseID (2 * n) (hex_id rnd k n) = Inr (hex_id rnd k n)"
proof -
  have chars: "TraceApi.hex_digit c \<and> lower_char c = c" if "c \<in> set (hex_id rnd k n)" for c
    by (rule hex_digits_lower [OF set_hex_id [OF assms that]])
  then have "list_all TraceApi.hex_digit (hex_id rnd k n)" by (simp add: list_all_iff)
  moreover have "to_lower (hex_id rnd k n) = hex_id rnd k n"
    unfolding to_lower_def using chars by (intro map_idI) blast
  ultimately show ?thesis by (simp add: ParseID_def length_hex_id)
qed

lemma parse_ids:
  assumes "\<And>j. rnd j < 256"
  shows "ParseTraceID (hex_id rnd k 16) = Inr (hex_id rnd k 16)"
    and "ParseSpanID (hex_id rnd k 8) = Inr (hex_id rnd k 8)"
  using parse_hex_id [OF assms, where n = 16] parse_hex_id [OF assms, where n = 8]
  by (simp_all add: ParseTraceID_def ParseSpanID_def)

lemma hex_id_not_Nil: "0 < n \<Longrightarrow> hex_id rnd k n \<noteq> []"
  using length_hex_id [of rnd k n] by auto

subsection \<open>Acceptance\<close>

lemma accepted_spans:
  assumes "list_all (\<lambda>d. \<exists>sp. dtoToSpan d = Inr sp) ds"
  shows "snd (native_spans tenant ds) = 0 \<and> length (fst (native_spans tenant ds)) = length ds"
  using assms by (induction ds) (auto simp: native_spans_def List.map_filter_simps)

lemma load_span_accepted:
  assumes "ParseTraceID tid = Inr tid" and "ParseSpanID sid = Inr sid" and "parent = [] \<or> ParseSpanID parent = Inr parent"
    and "0 < t" and "0 \<le> d" and "length svc \<le> 256" and "length nm \<le> 256"
    and "length attrs \<le> 64" and "check_attributes attrs = None"
  shows "dtoToSpan (load_span attrs msg tid sid parent nm svc t d err) =
    Inr \<lparr>gs_traceID = tid, gs_spanID = sid, gs_parentSpanID = (if parent \<noteq> [] then parent else ZeroSpanID),
      gs_traceState = [], gs_tenantID = [], gs_name = nm, gs_kind = (if parent \<noteq> [] then 3 else 2),
      gs_service = svc, gs_serviceAttrs = [],
      gs_start = to_int64 (t * 1000000), gs_end = to_int64 ((t + d) * 1000000),
      gs_attributes = dtoToAttributes attrs, gs_events = [], gs_links = [],
      gs_code = (if err then 2 else 1), gs_message = (if err then msg else []),
      gs_depth = 0, gs_hasError = False, gs_children = []\<rparr>"
proof -
  have "check_span (load_span attrs msg tid sid parent nm svc t d err) = None"
    using assms by (simp add: check_span_def load_span_def)
  then show ?thesis
    using assms by (auto simp: dtoToSpan_def load_span_def nanoToTime_def List.map_filter_simps split: sum.splits)
qed

lemmas load_span_defs = native_span_def mixed_span_def soak_span_def

lemma attributes_fit:
  "length v \<le> 1024 \<Longrightarrow> check_attributes [text_attribute ''http.method'' v,
     text_attribute ''deployment.environment'' ''loadtest''] = None"
  "check_attributes [text_attribute ''deployment.environment'' ''loadtest'', text_attribute ''workflow.mode'' ''mixed''] = None"
  "length (nat_str vu) \<le> 1024 \<Longrightarrow>
   check_attributes [text_attribute ''deployment.environment'' ''soak'', text_attribute ''test.window'' (nat_str vu)] = None"
  by (simp_all add: text_attribute_def)

text \<open>The spans of one trace, accepted: the stream gives bytes, the time is positive, the name short.\<close>

lemma traces_accepted:
  assumes "\<And>j. rnd j < 256" and "0 < t" and "length svc \<le> 247"
  shows "list_all (\<lambda>d. \<exists>sp. dtoToSpan d = Inr sp) (native_trace svc rnd t vu iter i)"
    and "list_all (\<lambda>d. \<exists>sp. dtoToSpan d = Inr sp) (mixed_trace svc rnd t vu iter i)"
    and "length (nat_str vu) \<le> 1024 \<Longrightarrow>
      list_all (\<lambda>d. \<exists>sp. dtoToSpan d = Inr sp) (soak_trace svc rnd t vu iter)"
proof -
  note ids = parse_ids [OF assms(1)]
  note fits = attributes_fit and [simp del] = check_attributes.simps
  have ok: "\<exists>sp. dtoToSpan (load_span attrs msg (hex_id rnd a 16) (hex_id rnd b 8) parent nm (svc @ sfx) u d err) = Inr sp"
    if "parent = [] \<or> ParseSpanID parent = Inr parent" "0 < u" "0 \<le> d" "length sfx \<le> 9" "length nm \<le> 256"
      "length attrs \<le> 64" "check_attributes attrs = None" for attrs msg a b parent nm sfx u d err
    using load_span_accepted [OF ids, of parent u d "svc @ sfx" nm attrs] that assms(3) by simp
  show "list_all (\<lambda>d. \<exists>sp. dtoToSpan d = Inr sp) (native_trace svc rnd t vu iter i)"
    using assms(2) by (simp add: native_trace_def native_span_def Let_def hex_id_not_Nil) (intro conjI ok; simp add: fits ids)
  show "list_all (\<lambda>d. \<exists>sp. dtoToSpan d = Inr sp) (mixed_trace svc rnd t vu iter i)"
    using assms(2) by (simp add: mixed_trace_def mixed_span_def Let_def hex_id_not_Nil) (intro conjI ok; simp add: fits ids)
  show "list_all (\<lambda>d. \<exists>sp. dtoToSpan d = Inr sp) (soak_trace svc rnd t vu iter)"
    if "length (nat_str vu) \<le> 1024"
    using assms(2) that by (simp add: soak_trace_def soak_span_def Let_def hex_id_not_Nil) (intro conjI ok; simp add: fits ids)
qed

lemma accepted_concat:
  "(\<And>i. i < n \<Longrightarrow> list_all P (f i) \<and> length (f i) = m) \<Longrightarrow>
   list_all P (concat (map f [0..<n])) \<and> length (concat (map f [0..<n])) = m * n"
  by (induction n) simp_all

subsection \<open>Chains of spans\<close>

text \<open>Every span but the first, which is a root, names the one before it as its parent.\<close>

definition span_chain :: "go_span list \<Rightarrow> bool" where
  "span_chain ss \<longleftrightarrow> valid_ids ss \<and>
     (\<forall>i < length ss. gs_parentSpanID (ss ! i) = (if i = 0 then ZeroSpanID else gs_spanID (ss ! (i - 1))))"

lemma span_chainD:
  assumes "span_chain ss"
  shows "distinct (map gs_spanID ss)" and "i < length ss \<Longrightarrow> gs_spanID (ss ! i) \<noteq> ZeroSpanID"
    and "0 < length ss \<Longrightarrow> gs_parentSpanID (ss ! 0) = ZeroSpanID"
    and "Suc i < length ss \<Longrightarrow> gs_parentSpanID (ss ! Suc i) = gs_spanID (ss ! i)"
proof -
  have chain: "valid_ids ss" "\<And>i. i < length ss \<Longrightarrow>
      gs_parentSpanID (ss ! i) = (if i = 0 then ZeroSpanID else gs_spanID (ss ! (i - 1)))"
    using assms unfolding span_chain_def by blast+
  show "distinct (map gs_spanID ss)" "i < length ss \<Longrightarrow> gs_spanID (ss ! i) \<noteq> ZeroSpanID"
    using chain(1) unfolding valid_ids_def list_all_length by blast+
  show "0 < length ss \<Longrightarrow> gs_parentSpanID (ss ! 0) = ZeroSpanID"
    using chain(2) [of 0] by simp
  show "Suc i < length ss \<Longrightarrow> gs_parentSpanID (ss ! Suc i) = gs_spanID (ss ! i)"
    using chain(2) [of "Suc i"] by simp
qed

lemma chain_parent:
  assumes "span_chain ss" and "i < length ss"
  shows "parent_index ss i = (if i = 0 then None else Some (i - 1))"
proof (cases i)
  case 0
  then show ?thesis using assms(2) span_chainD(3) [OF assms(1)] by (simp add: parent_index_def gs_isRoot_def)
next
  case (Suc j)
  then have j: "Suc j < length ss" "j < length ss" using assms(2) by simp_all
  show ?thesis
    using span_chainD(2) [OF assms(1) j(2)] span_chainD(4) [OF assms(1) j(1)]
      span_map_distinct [OF span_chainD(1) [OF assms(1)] j(2)]
    by (simp add: Suc parent_index_def gs_isRoot_def)
qed

lemma chain_attached:
  assumes "span_chain ss" and "i < length ss"
  shows "attached ss i"
  using assms(2)
proof (induction i)
  case 0
  show ?case using 0 chain_parent [OF assms(1) 0] by (intro attached_top) simp_all
next
  case (Suc i)
  have up: "attached ss i" using Suc by simp
  have "parent_index ss (Suc i) = Some i" using chain_parent [OF assms(1) Suc.prems] by simp
  then show ?case by (rule attached_child [OF up Suc.prems])
qed

lemma chain_depth:
  assumes "go_sort srt" and "buildTree srt now ss = Some t" and "span_chain ss" and "i < length ss"
  shows "gs_depth (gt_spans t ! i) = int i"
  using assms(4)
proof (induction i)
  case 0
  then show ?case
    using buildTree_spans(3) [OF assms(1,2) chain_attached [OF assms(3) 0]] by (simp add: chain_parent [OF assms(3)])
next
  case (Suc i)
  then show ?case
    using buildTree_spans(3) [OF assms(1,2) chain_attached [OF assms(3) Suc.prems]]
    by (simp add: chain_parent [OF assms(3)])
qed

lemma chain_root:
  assumes "buildTree srt now ss = Some t" and "span_chain ss" and "ss \<noteq> []"
  shows "gt_root t = Some 0" and "gt_duration t = gs_duration (ss ! 0)"
    and "gt_errorCount t = int (length (filter (\<lambda>s. gs_code s = go_StatusError) ss))"
proof -
  have isroot: "gs_isRoot (ss ! j) \<longleftrightarrow> j = 0" if "j < length ss" for j
  proof (cases j)
    case 0
    then show ?thesis using span_chainD(3) [OF assms(2)] assms(3) by (simp add: gs_isRoot_def)
  next
    case (Suc k)
    then show ?thesis
      using span_chainD(4) [OF assms(2), of k] span_chainD(2) [OF assms(2), of k] that by (simp add: gs_isRoot_def)
  qed
  have split: "[0..<length ss] = 0 # [1..<length ss]" using assms(3) by (simp add: upt_conv_Cons)
  have rest: "filter (\<lambda>j. gs_isRoot (ss ! j)) [1..<length ss] = []" by (auto simp: filter_empty_conv isroot)
  have first: "gs_isRoot (ss ! 0)" using isroot assms(3) by simp
  have "filter (\<lambda>j. gs_isRoot (ss ! j)) [0..<length ss] = [0]"
    unfolding split filter.simps rest using first by simp
  then have "fst (pick_root srt ss (link_spans ss)) = Some 0"
    by (simp add: pick_root_def link_spans_eq)
  with assms(1,3) show "gt_root t = Some 0" "gt_duration t = gs_duration (ss ! 0)"
    "gt_errorCount t = int (length (filter (\<lambda>s. gs_code s = go_StatusError) ss))"
    by (auto simp: buildTree_def Let_def split: option.splits)
qed

text \<open>The spans of a soak iteration as they reach the assembler.\<close>

definition soak_arrivals :: "string \<Rightarrow> load_env \<Rightarrow> (nat \<Rightarrow> nat) \<Rightarrow> int \<Rightarrow> nat \<Rightarrow> nat \<Rightarrow> go_span list" where
  "soak_arrivals tenant e rnd now vu iter = map Enrich (fst (native_spans tenant (soak_batch e rnd now vu iter)))"

lemma Enrich_fields [simp]:
  "gs_spanID (Enrich sp) = gs_spanID sp" "gs_parentSpanID (Enrich sp) = gs_parentSpanID sp"
  "gs_code (Enrich sp) = gs_code sp" "gs_start (Enrich sp) = gs_start sp" "gs_end (Enrich sp) = gs_end sp"
  "gs_hasError (Enrich sp) \<longleftrightarrow> gs_code sp = go_StatusError"
  by (simp_all add: Enrich_def)

lemma soak_fields:
  fixes tenant :: string and iter :: nat
  assumes "\<And>j. rnd j < 256" and "0 < now" and "length (env_or ''soak'' (le_service e)) \<le> 247"
    and "length (nat_str vu) \<le> 1024"
  defines "ss \<equiv> soak_arrivals tenant e rnd now vu iter" and "err \<equiv> (iter + vu) mod 29 = 0"
  shows "map gs_spanID ss = [hex_id rnd 16 8, hex_id rnd 24 8, hex_id rnd 32 8]"
    and "map gs_parentSpanID ss = [ZeroSpanID, hex_id rnd 16 8, hex_id rnd 24 8]"
    and "map gs_code ss = [if err then 2 else 1, if err then 2 else 1, 1]"
    and "gs_start (hd ss) = to_int64 (now * 1000000)" and "gs_end (hd ss) = to_int64 ((now + 160) * 1000000)"
proof -
  note [simp del] = check_attributes.simps
  note acc = load_span_accepted [OF parse_ids [OF assms(1)]]
  have "map gs_spanID ss = [hex_id rnd 16 8, hex_id rnd 24 8, hex_id rnd 32 8] \<and>
    map gs_parentSpanID ss = [ZeroSpanID, hex_id rnd 16 8, hex_id rnd 24 8] \<and>
    map gs_code ss = [if err then 2 else 1, if err then 2 else 1, 1] \<and>
    gs_start (hd ss) = to_int64 (now * 1000000) \<and> gs_end (hd ss) = to_int64 ((now + 160) * 1000000)"
    using assms(2,3) attributes_fit(3) [OF assms(4)]
    by (simp add: ss_def err_def soak_arrivals_def soak_batch_def soak_trace_def soak_span_def Let_def
        native_spans_def List.map_filter_simps acc parse_ids [OF assms(1)] hex_id_not_Nil)
  then show "map gs_spanID ss = [hex_id rnd 16 8, hex_id rnd 24 8, hex_id rnd 32 8]"
    "map gs_parentSpanID ss = [ZeroSpanID, hex_id rnd 16 8, hex_id rnd 24 8]"
    "map gs_code ss = [if err then 2 else 1, if err then 2 else 1, 1]"
    "gs_start (hd ss) = to_int64 (now * 1000000)" "gs_end (hd ss) = to_int64 ((now + 160) * 1000000)"
    by blast+
qed

section \<open>Properties\<close>

text \<open>
  The collector accepts everything the generators post: no span of a batch is dropped. A batch
  has \<open>BATCH_SIZE\<close> traces, that is two or three times as many spans (the README calls it the
  number of spans per POST).
\<close>

theorem load_batches_are_accepted:
  assumes "\<And>j. rnd j < 256" and "0 < t" and "length (nat_str vu) \<le> 1024"
    and "length (env_or [] (le_service e)) \<le> 247"
  shows "snd (native_spans tenant (native_batch e rnd t vu iter)) = 0 \<and>
      length (fst (native_spans tenant (native_batch e rnd t vu iter))) = 2 * load_batch 20 e \<and>
    snd (native_spans tenant (mixed_batch e rnd t vu iter)) = 0 \<and>
      length (fst (native_spans tenant (mixed_batch e rnd t vu iter))) = 3 * load_batch 16 e \<and>
    snd (native_spans tenant (soak_batch e rnd t vu iter)) = 0 \<and>
      length (fst (native_spans tenant (soak_batch e rnd t vu iter))) = 3"
proof -
  have svc: "length (env_or d (le_service e)) \<le> 247" if "length d \<le> 247" for d
    using assms(4) that by (auto simp: env_or_def split: option.splits)
  let ?ok = "list_all (\<lambda>d. \<exists>sp. dtoToSpan d = Inr sp)"
  have "?ok (native_batch e rnd t vu iter) \<and> length (native_batch e rnd t vu iter) = 2 * load_batch 20 e"
    unfolding native_batch_def
    by (intro accepted_concat conjI traces_accepted(1) [OF assms(1,2)] svc) (simp_all add: native_trace_def Let_def)
  moreover have "?ok (mixed_batch e rnd t vu iter) \<and> length (mixed_batch e rnd t vu iter) = 3 * load_batch 16 e"
    unfolding mixed_batch_def
    by (intro accepted_concat conjI traces_accepted(2) [OF assms(1,2)] svc) (simp_all add: mixed_trace_def Let_def)
  moreover have "?ok (soak_batch e rnd t vu iter) \<and> length (soak_batch e rnd t vu iter) = 3"
    unfolding soak_batch_def
    by (intro conjI traces_accepted(3) [OF assms(1,2)] svc assms(3)) (simp_all add: soak_trace_def Let_def)
  ultimately show ?thesis using accepted_spans by metis
qed

definition no_env :: load_env where
  "no_env = \<lparr>le_base = None, le_batch = None, le_service = None, le_apiKey = None, le_tenant = None\<rparr>"

theorem load_batches_are_accepted_witness:
  "length (fst (native_spans [] (native_batch no_env (\<lambda>j. j mod 251) 1700000000000 1 0))) = 40"
proof -
  have "length (nat_str 1) \<le> 1024" by code_simp
  with load_batches_are_accepted [of "\<lambda>j. j mod 251" 1700000000000 1 no_env "[]" 0] show ?thesis
    by (simp add: no_env_def env_or_def load_batch_def less_trans [OF mod_less_divisor])
qed

text \<open>
  A soak iteration becomes one trace: the three spans, in their order, at the depths 0, 1 and 2
  below the gateway, with the duration of 160 milliseconds, and with two failed spans in every
  twenty-ninth iteration and none in the others.
\<close>

theorem soak_iteration_is_one_trace:
  assumes "\<And>j. rnd j < 256" and "0 < now" and "now < 9 * 10 ^ 12" and "length (nat_str vu) \<le> 1024"
    and "length (env_or ''soak'' (le_service e)) \<le> 247"
    and "distinct [hex_id rnd 16 8, hex_id rnd 24 8, hex_id rnd 32 8, ZeroSpanID]"
    and "go_sort srt" and "complete_trace srt at_ns (soak_arrivals tenant e rnd now vu iter) = Some t"
  shows "map gs_depth (gt_spans t) = [0, 1, 2] \<and> gt_root t = Some 0 \<and> gt_duration t = 160 * 10 ^ 6 \<and>
    gt_errorCount t = (if (iter + vu) mod 29 = 0 then 2 else 0)"
proof -
  let ?ss = "soak_arrivals tenant e rnd now vu iter"
  note f = soak_fields [where rnd = rnd and tenant = tenant and iter = iter, OF assms(1,2,5,4)]
  have len: "length ?ss = 3" using arg_cong [OF f(1), of length] by simp
  then obtain a b c where ss: "?ss = [a, b, c]" by (auto simp: length_Suc_conv numeral_3_eq_3)
  have chain: "span_chain ?ss"
    using f(1) [unfolded ss] f(2) [unfolded ss] assms(6) length_hex_id [of rnd _ 8]
    by (auto simp: ss span_chain_def valid_ids_def less_Suc_eq numeral_3_eq_3)
  from assms(8) obtain t0 where t0: "buildTree srt at_ns ?ss = Some t0" "gt_spans t = gt_spans t0"
    "gt_root t = gt_root t0" "gt_duration t = gt_duration t0" "gt_errorCount t = gt_errorCount t0"
    by (auto simp: complete_trace_def analyse_def bind_eq_Some_conv)
  have n: "length (gt_spans t) = 3" using buildTree_spans(1) [OF assms(7) t0(1)] by (simp add: t0 len)
  have "gs_depth (gt_spans t ! i) = int i" if "i < 3" for i
    using chain_depth [OF assms(7) t0(1) chain] that by (simp add: t0 len)
  then have "map gs_depth (gt_spans t) = map int [0..<3]"
    by (intro nth_equalityI) (simp_all add: n)
  moreover have "gs_duration (?ss ! 0) = 160 * 10 ^ 6"
    using f(4,5) assms(2,3) by (simp add: ss gs_duration_def go_sub_def int64_low)
  moreover have "length (filter (\<lambda>s. gs_code s = go_StatusError) ?ss) = (if (iter + vu) mod 29 = 0 then 2 else 0)"
    using f(3) by (auto simp: ss go_StatusError_def split: if_splits)
  ultimately show ?thesis
    using chain_root [OF t0(1) chain] by (simp add: t0 ss upt_rec numeral_3_eq_3)
qed

theorem soak_iteration_is_one_trace_witness:
  "map gs_depth (gt_spans (the (complete_trace insertion_sort 0
     (soak_arrivals [] no_env (\<lambda>j. j mod 251) 1700000000000 1 0)))) = [0, 1, 2]"
proof -
  let ?ss = "soak_arrivals [] no_env (\<lambda>j. j mod 251) 1700000000000 1 0"
  have t: "complete_trace insertion_sort 0 ?ss = Some (the (complete_trace insertion_sort 0 ?ss))"
    using complete_trace_returns [OF go_sort_insertion] by (metis option.sel)
  have "distinct [hex_id (\<lambda>j. j mod 251) 16 8, hex_id (\<lambda>j. j mod 251) 24 8, hex_id (\<lambda>j. j mod 251) 32 8, ZeroSpanID]"
    and "length (nat_str 1) \<le> 1024" by code_simp+
  with soak_iteration_is_one_trace [OF _ _ _ _ _ _ go_sort_insertion t] show ?thesis
    by (simp add: no_env_def env_or_def less_trans [OF mod_less_divisor])
qed

end
