(* ===== verification/Windows.thy ===== *)
theory Windows
  imports Prelude
begin

text \<open>
  The sliding windows of the collector: 60 counters, one for each second, of which the one of a
  second is reused a minute later. There are two copies of the code, \<open>internal/metrics/window.go\<close>
  and \<open>internal/sampler/window.go\<close>; they differ in what the first call does. The current
  time (\<open>time.Now().Unix()\<close>) is an argument. The locale \<open>minute_window\<close> says what they share, and
  proves that a window sums up what was added in the last minute.
\<close>

section \<open>Definitions\<close>

record sliding =
  sw_buckets :: "int list"
  sw_lastIdx :: nat
  sw_lastSec :: int

definition empty_window :: sliding where
  "empty_window = \<lparr>sw_buckets = replicate 60 0, sw_lastIdx = 0, sw_lastSec = 0\<rparr>"

text \<open>The loop that clears the counters of the seconds passed over.\<close>

definition clear_passed :: "int \<Rightarrow> int \<Rightarrow> int list \<Rightarrow> int list" where
  "clear_passed l diff bs = fold (\<lambda>i b. b[nat ((l + i) mod 60) := 0]) [1..diff] bs"

text \<open>\<open>advance\<close> after its first call; the first call remembers the second.\<close>

definition advance_known :: "int \<Rightarrow> sliding \<Rightarrow> sliding" where
  "advance_known now w =
     (let diff = now - sw_lastSec w
      in if diff \<le> 0 then w
         else if diff \<ge> 60
         then \<lparr>sw_buckets = map (\<lambda>_. 0) (sw_buckets w), sw_lastIdx = nat (now mod 60), sw_lastSec = now\<rparr>
         else \<lparr>sw_buckets = clear_passed (sw_lastSec w) diff (sw_buckets w),
               sw_lastIdx = nat (now mod 60), sw_lastSec = now\<rparr>)"

definition metrics_advance :: "int \<Rightarrow> sliding \<Rightarrow> sliding" where
  "metrics_advance now w =
     (if sw_lastSec w = 0 then w\<lparr>sw_lastIdx := nat (now mod 60), sw_lastSec := now\<rparr>
      else advance_known now w)"

definition sampler_advance :: "int \<Rightarrow> sliding \<Rightarrow> sliding" where
  "sampler_advance now w =
     (if sw_lastSec w = 0 then w\<lparr>sw_lastSec := now\<rparr> else advance_known now w)"

definition bump :: "int \<Rightarrow> sliding \<Rightarrow> sliding" where
  "bump n w = w\<lparr>sw_buckets := (sw_buckets w)[sw_lastIdx w := sw_buckets w ! sw_lastIdx w + n]\<rparr>"

text \<open>\<open>Add\<close> and \<open>Rate\<close> of either window; \<open>Rate\<close> also moves the window on.\<close>

definition metrics_Add :: "int \<Rightarrow> int \<Rightarrow> sliding \<Rightarrow> sliding" where
  "metrics_Add now n w = bump n (metrics_advance now w)"

definition metrics_Rate :: "int \<Rightarrow> sliding \<Rightarrow> num \<times> sliding" where
  "metrics_Rate now w =
     (let w' = metrics_advance now w in (of_int (sum_list (sw_buckets w')) / 60, w'))"

text \<open>\<open>RawBuckets\<close>: a copy of the counters and the newest second.\<close>

definition RawBuckets :: "int \<Rightarrow> sliding \<Rightarrow> (int list \<times> int) \<times> sliding" where
  "RawBuckets now w = (let w' = metrics_advance now w in ((sw_buckets w', sw_lastSec w'), w'))"

definition sampler_Add :: "int \<Rightarrow> int \<Rightarrow> sliding \<Rightarrow> sliding" where
  "sampler_Add now n w = bump n (sampler_advance now w)"

definition sampler_Rate :: "int \<Rightarrow> sliding \<Rightarrow> num \<times> sliding" where
  "sampler_Rate now w =
     (let w' = sampler_advance now w in (of_int (sum_list (sw_buckets w')) / 60, w'))"

section \<open>Lemmas\<close>

text \<open>The sum of what is booked under the seconds of the minute up to \<open>last\<close>, by counter.\<close>

definition bucket_sum :: "(int \<times> int) list \<Rightarrow> int \<Rightarrow> int \<Rightarrow> int" where
  "bucket_sum es l i =
     sum_list (map (\<lambda>(s, n). if l - 60 < s \<and> s \<le> l \<and> s mod 60 = i then n else 0) es)"

definition minute_sum :: "(int \<times> int) list \<Rightarrow> int \<Rightarrow> int" where
  "minute_sum es now = sum_list (map snd (filter (\<lambda>e. now - 60 < fst e) es))"

definition books :: "(int \<times> int) list \<Rightarrow> sliding \<Rightarrow> bool" where
  "books es w \<longleftrightarrow> 0 < sw_lastSec w \<and> length (sw_buckets w) = 60 \<and>
     (\<forall>e \<in> set es. fst e \<le> sw_lastSec w) \<and>
     (\<forall>i < 60. sw_buckets w ! i = bucket_sum es (sw_lastSec w) (int i))"

lemma length_clear_passed [simp]: "length (clear_passed l d bs) = length bs"
proof -
  have "length (fold (\<lambda>i b. b[nat ((l + i) mod 60) := 0]) js bs) = length bs" for js and bs :: "int list"
    by (induction js arbitrary: bs) simp_all
  then show ?thesis by (simp add: clear_passed_def)
qed

lemma nth_clear_passed:
  assumes "length bs = 60" and "j < 60"
  shows "clear_passed l d bs ! j = (if \<exists>i. 1 \<le> i \<and> i \<le> d \<and> (l + i) mod 60 = int j then 0 else bs ! j)"
proof -
  have "fold (\<lambda>i b. b[nat ((l + i) mod 60) := 0]) js bs ! j =
      (if \<exists>i \<in> set js. (l + i) mod 60 = int j then 0 else bs ! j)" if "length bs = 60" for js and bs :: "int list"
    using that
  proof (induction js arbitrary: bs)
    case (Cons i js)
    have "nat ((l + i) mod 60) < 60" by (simp add: nat_less_iff)
    then have "bs[nat ((l + i) mod 60) := 0] ! j = (if (l + i) mod 60 = int j then 0 else bs ! j)"
      using Cons.prems assms(2) by (auto simp: nth_list_update)
    then show ?case using Cons by auto
  qed simp
  from this [OF assms(1), of "[1..d]"] show ?thesis by (auto simp: clear_passed_def)
qed

lemma bucket_sum_eq:
  assumes "\<And>s n. (s, n) \<in> set es \<Longrightarrow> (l - 60 < s \<and> s \<le> l \<and> s mod 60 = i) = (l' - 60 < s \<and> s \<le> l' \<and> s mod 60 = i)"
  shows "bucket_sum es l i = bucket_sum es l' i"
  unfolding bucket_sum_def using assms by (intro arg_cong [where f = sum_list] map_cong) auto

lemma bucket_sum_0:
  assumes "\<And>s n. (s, n) \<in> set es \<Longrightarrow> \<not> (l - 60 < s \<and> s \<le> l \<and> s mod 60 = i)"
  shows "bucket_sum es l i = 0"
  unfolding bucket_sum_def using assms by (induction es) force+

lemma same_residue:
  assumes "(a :: int) mod 60 = b mod 60" and "a < b"
  shows "a + 60 \<le> b"
proof -
  have "60 dvd b - a" using assms(1) by (metis mod_eq_dvd_iff)
  then obtain k where k: "b - a = 60 * k" by (rule dvdE)
  with assms(2) have "0 < k" by linarith
  with k show ?thesis by linarith
qed

lemma books_advance:
  assumes "books es w" and "sw_lastSec w \<le> now"
  shows "books es (advance_known now w)" and "sw_lastSec (advance_known now w) = now"
    and "now \<noteq> sw_lastSec w \<Longrightarrow> sw_lastIdx (advance_known now w) = nat (now mod 60)"
    and "now = sw_lastSec w \<Longrightarrow> advance_known now w = w"
proof -
  let ?l = "sw_lastSec w"
  have old: "s \<le> ?l" if "(s, n) \<in> set es" for s n using assms(1) that by (force simp: books_def)
  have len: "length (sw_buckets w) = 60" "0 < ?l" and nth: "\<And>i. i < 60 \<Longrightarrow> sw_buckets w ! i = bucket_sum es ?l (int i)"
    using assms(1) by (simp_all add: books_def)
  show "sw_lastSec (advance_known now w) = now"
    "now \<noteq> ?l \<Longrightarrow> sw_lastIdx (advance_known now w) = nat (now mod 60)"
    "now = ?l \<Longrightarrow> advance_known now w = w"
    using assms(2) by (simp_all add: advance_known_def Let_def)
  consider "now = ?l" | "now - ?l \<ge> 60" | "0 < now - ?l" "now - ?l < 60" using assms(2) by linarith
  then show "books es (advance_known now w)"
  proof cases
    case 1
    then show ?thesis using assms(1) by (simp add: advance_known_def)
  next
    case 2
    have "bucket_sum es now i = 0" for i
      using 2 by (intro bucket_sum_0) (auto dest: old)
    then show ?thesis using 2 len old by (fastforce simp: books_def advance_known_def)
  next
    case 3
    have "clear_passed ?l (now - ?l) (sw_buckets w) ! i = bucket_sum es now (int i)" if i: "i < 60" for i
    proof (cases "\<exists>k. 1 \<le> k \<and> k \<le> now - ?l \<and> (?l + k) mod 60 = int i")
      case True
      then obtain k where k: "1 \<le> k" "k \<le> now - ?l" "(?l + k) mod 60 = int i" by blast
      have "bucket_sum es now (int i) = 0"
      proof (rule bucket_sum_0)
        fix s n assume e: "(s, n) \<in> set es"
        show "\<not> (now - 60 < s \<and> s \<le> now \<and> s mod 60 = int i)"
          using same_residue [of s "?l + k"] k old [OF e] by auto
      qed
      with True show ?thesis by (simp add: nth_clear_passed [OF len(1) i])
    next
      case False
      have "bucket_sum es ?l (int i) = bucket_sum es now (int i)"
      proof (rule bucket_sum_eq)
        fix s n assume e: "(s, n) \<in> set es"
        have "\<not> (?l - 60 < s \<and> s \<le> now - 60 \<and> s mod 60 = int i)"
        proof
          assume s: "?l - 60 < s \<and> s \<le> now - 60 \<and> s mod 60 = int i"
          then have "(?l + (s + 60 - ?l)) mod 60 = int i" by simp
          moreover have "1 \<le> s + 60 - ?l" "s + 60 - ?l \<le> now - ?l" using s by simp_all
          ultimately show False using False by blast
        qed
        then show "(?l - 60 < s \<and> s \<le> ?l \<and> s mod 60 = int i) = (now - 60 < s \<and> s \<le> now \<and> s mod 60 = int i)"
          using 3 old [OF e] by auto
      qed
      then show ?thesis unfolding nth_clear_passed [OF len(1) i] nth [OF i] if_not_P [OF False] .
    qed
    with 3 len old show ?thesis by (fastforce simp: books_def advance_known_def)
  qed
qed

lemma books_bump:
  assumes "books es w" and "sw_lastIdx w = nat (b mod 60)" and "sw_lastSec w - 60 < b" and "b \<le> sw_lastSec w"
  shows "books (es @ [(b, n)]) (bump n w)"
proof -
  have idx: "nat (b mod 60) < 60" by (simp add: nat_less_iff)
  have "(sw_buckets w)[nat (b mod 60) := sw_buckets w ! nat (b mod 60) + n] ! i =
      bucket_sum (es @ [(b, n)]) (sw_lastSec w) (int i)" if "i < 60" for i
    using assms that idx by (cases "b mod 60 = int i") (auto simp: books_def bucket_sum_def)
  then show ?thesis using assms by (auto simp: books_def bump_def)
qed

lemma sum_bucket_sums:
  assumes "\<And>e. e \<in> set es \<Longrightarrow> fst e \<le> l"
  shows "(\<Sum>i<60. bucket_sum es l (int i)) = minute_sum es l"
  using assms
proof (induction es)
  case (Cons e es)
  obtain s n where e: "e = (s, n)" by (cases e)
  have s: "nat (s mod 60) < 60" by (simp add: nat_less_iff)
  have "(\<Sum>i<60. if l - 60 < s \<and> s \<le> l \<and> s mod 60 = int i then n else 0) =
      (\<Sum>i<60. if i = nat (s mod 60) then (if l - 60 < s then n else 0) else 0)"
    using Cons.prems [of e] by (intro sum.cong) (auto simp: e)
  also have "\<dots> = (if l - 60 < s then n else 0)" using s by (simp add: sum.delta)
  finally show ?case
    using Cons by (simp add: bucket_sum_def minute_sum_def sum.distrib e)
qed (simp add: bucket_sum_def minute_sum_def)

lemma books_total:
  assumes "books es w"
  shows "sum_list (sw_buckets w) = minute_sum es (sw_lastSec w)"
proof -
  have "sum_list (sw_buckets w) = (\<Sum>i<60. sw_buckets w ! i)"
    using assms by (simp add: books_def sum_list_sum_nth atLeast0LessThan)
  also have "\<dots> = (\<Sum>i<60. bucket_sum es (sw_lastSec w) (int i))"
    using assms by (intro sum.cong) (auto simp: books_def)
  also have "\<dots> = minute_sum es (sw_lastSec w)"
    using assms by (intro sum_bucket_sums) (simp add: books_def)
  finally show ?thesis .
qed

section \<open>The interface\<close>

text \<open>
  A window by its \<open>advance\<close>: the calls come at times that do not decrease, and every number is
  booked under its second, except in the second of the first call, \<open>f\<close>, where the window
  decides (\<open>book\<close>).
\<close>

fun add_all :: "(int \<Rightarrow> sliding \<Rightarrow> sliding) \<Rightarrow> (int \<times> int) list \<Rightarrow> sliding \<Rightarrow> sliding" where
  "add_all adv [] w = w"
| "add_all adv ((t, n) # es) w = add_all adv es (bump n (adv t w))"

definition booked :: "(int \<Rightarrow> int \<Rightarrow> int) \<Rightarrow> (int \<times> int) list \<Rightarrow> (int \<times> int) list" where
  "booked book es = map (\<lambda>(t, n). (book (fst (hd es)) t, n)) es"

locale minute_window =
  fixes adv :: "int \<Rightarrow> sliding \<Rightarrow> sliding"
    and book :: "int \<Rightarrow> int \<Rightarrow> int"
  assumes first_call: "0 < now \<Longrightarrow>
      adv now empty_window = \<lparr>sw_buckets = replicate 60 0, sw_lastIdx = nat (book now now mod 60), sw_lastSec = now\<rparr>"
    and later_call: "sw_lastSec w \<noteq> 0 \<Longrightarrow> adv now w = advance_known now w"
    and book_first: "0 < f \<Longrightarrow> f - 60 < book f f \<and> book f f \<le> f"
    and book_later: "s \<noteq> f \<Longrightarrow> book f s = s"
begin

lemma book_le: "0 < f \<Longrightarrow> s - 60 < book f s \<and> book f s \<le> s"
  using book_first book_later by (cases "s = f") auto

definition window_ok :: "int \<Rightarrow> (int \<times> int) list \<Rightarrow> sliding \<Rightarrow> bool" where
  "window_ok f es w \<longleftrightarrow> 0 < f \<and> f \<le> sw_lastSec w \<and>
     books (map (\<lambda>(t, n). (book f t, n)) es) w \<and> sw_lastIdx w = nat (book f (sw_lastSec w) mod 60)"

lemma window_ok_advance:
  assumes "window_ok f es w" and "sw_lastSec w \<le> now"
  shows "window_ok f es (adv now w)" and "sw_lastSec (adv now w) = now"
proof -
  have "books (map (\<lambda>(t, n). (book f t, n)) es) w" "sw_lastSec w \<noteq> 0"
    using assms(1) by (auto simp: window_ok_def)
  note adv = books_advance [OF this(1) assms(2)] later_call [OF this(2), of now]
  show "sw_lastSec (adv now w) = now" using adv by simp
  show "window_ok f es (adv now w)"
  proof (cases "now = sw_lastSec w")
    case True
    then show ?thesis using assms adv by simp
  next
    case False
    with assms have "book f now = now" by (intro book_later) (auto simp: window_ok_def)
    with False assms adv show ?thesis by (simp add: window_ok_def)
  qed
qed

lemma window_ok_bump:
  assumes "window_ok f es w"
  shows "window_ok f (es @ [(sw_lastSec w, n)]) (bump n w)"
proof -
  have "books (map (\<lambda>(t, n). (book f t, n)) es @ [(book f (sw_lastSec w), n)]) (bump n w)"
    using assms book_le [of f "sw_lastSec w"] by (intro books_bump) (auto simp: window_ok_def)
  then show ?thesis using assms by (simp add: window_ok_def bump_def)
qed

lemma window_ok_first:
  assumes "0 < t"
  shows "window_ok t [(t, n)] (bump n (adv t empty_window))"
proof -
  have "window_ok t [] (adv t empty_window)"
    using assms by (simp add: window_ok_def first_call books_def bucket_sum_def)
  from window_ok_bump [OF this, of n] show ?thesis by (simp add: first_call [OF assms])
qed

lemma window_ok_adds:
  assumes "window_ok f es w" and "sorted (sw_lastSec w # map fst hs)"
  shows "window_ok f (es @ hs) (add_all adv hs w) \<and>
    sw_lastSec (add_all adv hs w) = last (sw_lastSec w # map fst hs)"
  using assms
proof (induction hs arbitrary: es w)
  case (Cons h hs)
  obtain t n where h: "h = (t, n)" by (cases h)
  have le: "sw_lastSec w \<le> t" using Cons.prems(2) by (simp add: h)
  note ok = window_ok_advance [OF Cons.prems(1) le]
  have "window_ok f (es @ [(t, n)]) (bump n (adv t w))" using window_ok_bump [OF ok(1), of n] by (simp add: ok(2))
  moreover have "sw_lastSec (bump n (adv t w)) = t" by (simp add: bump_def ok(2))
  ultimately show ?case using Cons.IH [of "es @ [(t, n)]" "bump n (adv t w)"] Cons.prems(2) by (simp add: h)
qed simp

text \<open>The counters hold what is booked under the last 60 seconds, and the window sums it up.\<close>

lemma window_books:
  assumes "hs \<noteq> []" and "0 < fst (hd hs)" and "sorted (map fst hs)" and "fst (last hs) \<le> now"
  shows "books (booked book hs) (adv now (add_all adv hs empty_window))"
    and "sw_lastSec (adv now (add_all adv hs empty_window)) = now"
proof -
  obtain t n es where hs: "hs = (t, n) # es" using assms(1) by (cases hs) auto
  let ?w = "add_all adv es (bump n (adv t empty_window))"
  have first: "window_ok t [(t, n)] (bump n (adv t empty_window))" using assms(2) by (intro window_ok_first) (simp add: hs)
  have "sw_lastSec (bump n (adv t empty_window)) = t" using assms(2) by (simp add: bump_def first_call hs)
  with window_ok_adds [OF first, of es] assms(3) have ok: "window_ok t hs ?w" and l: "sw_lastSec ?w = last (t # map fst es)"
    by (simp_all add: hs)
  have "last (t # map fst es) = fst (last hs)" by (simp add: hs last_map)
  with l assms(4) have "sw_lastSec ?w \<le> now" by simp
  from window_ok_advance [OF ok this] have "window_ok t hs (adv now ?w)" "sw_lastSec (adv now ?w) = now" by simp_all
  then show "books (booked book hs) (adv now (add_all adv hs empty_window))"
    "sw_lastSec (adv now (add_all adv hs empty_window)) = now"
    by (simp_all add: window_ok_def booked_def hs)
qed

lemma window_total:
  assumes "hs \<noteq> []" and "0 < fst (hd hs)" and "sorted (map fst hs)" and "fst (last hs) \<le> now"
  shows "sum_list (sw_buckets (adv now (add_all adv hs empty_window))) = minute_sum (booked book hs) now"
  using books_total [OF window_books(1) [OF assms]] window_books(2) [OF assms] by simp

end

interpretation metrics_window: minute_window metrics_advance "\<lambda>f s. s"
  by unfold_locales (simp_all add: metrics_advance_def empty_window_def)

text \<open>The sampler's window leaves the index at 0 in the first call.\<close>

definition first_minute :: "int \<Rightarrow> int \<Rightarrow> int" where
  "first_minute f s = (if s = f then 60 * (f div 60) else s)"

interpretation sampler_window: minute_window sampler_advance first_minute
proof unfold_locales
  show "f - 60 < first_minute f f \<and> first_minute f f \<le> f" for f
    using mult_div_mod_eq [of 60 f] pos_mod_bound [of 60 f] pos_mod_sign [of 60 f]
    unfolding first_minute_def by (simp only: if_True refl) linarith
qed (simp_all add: sampler_advance_def empty_window_def first_minute_def)

section \<open>Properties\<close>

lemma add_all_fold:
  "(\<And>t n w. add t n w = bump n (adv t w)) \<Longrightarrow> add_all adv es w = fold (\<lambda>(t, n). add t n) es w"
  by (induction es arbitrary: w) auto

text \<open>The rate of a metrics window is the sum of what was added in the last 60 seconds,
  divided by 60, whatever the pauses between the calls.\<close>

theorem metrics_window_is_exact:
  assumes "hs \<noteq> []" and "0 < fst (hd hs)" and "sorted (map fst hs)" and "fst (last hs) \<le> now"
  shows "fst (metrics_Rate now (fold (\<lambda>(t, n). metrics_Add t n) hs empty_window)) = of_int (minute_sum hs now) / 60"
proof -
  have "fold (\<lambda>(t, n). metrics_Add t n) hs empty_window = add_all metrics_advance hs empty_window"
    by (rule add_all_fold [symmetric]) (simp add: metrics_Add_def)
  moreover have "booked (\<lambda>f s. s) hs = hs" by (simp add: booked_def)
  ultimately show ?thesis using metrics_window.window_total [OF assms] by (simp add: metrics_Rate_def Let_def)
qed

theorem metrics_window_is_exact_witness:
  "fst (metrics_Rate 130 (fold (\<lambda>(t, n). metrics_Add t n) [(65, 7), (75, 2), (129, 4)] empty_window)) = 6 / 60"
  by (subst metrics_window_is_exact) (simp_all add: minute_sum_def)

text \<open>The rate of a sampler window is the same sum with the first second booked at the start of
  its minute: it counts less when the minute of the first call has passed.\<close>

theorem sampler_window_books_first_second:
  assumes "hs \<noteq> []" and "0 < fst (hd hs)" and "sorted (map fst hs)" and "fst (last hs) \<le> now"
  shows "fst (sampler_Rate now (fold (\<lambda>(t, n). sampler_Add t n) hs empty_window)) =
    of_int (minute_sum (map (\<lambda>(t, n). (first_minute (fst (hd hs)) t, n)) hs) now) / 60"
proof -
  have "fold (\<lambda>(t, n). sampler_Add t n) hs empty_window = add_all sampler_advance hs empty_window"
    by (rule add_all_fold [symmetric]) (simp add: sampler_Add_def)
  then show ?thesis using sampler_window.window_total [OF assms] by (simp add: sampler_Rate_def booked_def Let_def)
qed

theorem sampler_window_books_first_second_witness:
  "fst (sampler_Rate 120 (fold (\<lambda>(t, n). sampler_Add t n) [(119, 60)] empty_window)) = 0"
  by (subst sampler_window_books_first_second) (simp_all add: minute_sum_def first_minute_def)

text \<open>A number added one second ago is forgotten, which the metrics window keeps.\<close>

lemma sampler_window_forgets:
  "fst (sampler_Rate 120 (sampler_Add 119 60 empty_window)) = 0 \<and>
   fst (metrics_Rate 120 (metrics_Add 119 60 empty_window)) = 1"
  by code_simp

end
