(* ===== verification/Samplers.thy ===== *)
theory Samplers
  imports SamplerApi GoModel TraceQuery Windows "HOL-Library.Word"
begin

text \<open>
  The head samplers of the collector, \<open>internal/sampler\<close>: what they decide on a span, with the
  state each keeps, and the sampler \<open>buildSampler\<close> of \<open>api/handler_sampler.go\<close> makes from a
  configuration. The tail sampler, which decides on whole traces, is in \<open>TailSampler\<close>.

  A call gets the time, a number of nanoseconds since the epoch. The lock of a sampler makes each
  call atomic. Thresholds and the numbers read from trace ids are 64-bit words.
\<close>

section \<open>Definitions\<close>

subsection \<open>The interface\<close>

datatype decision = Drop | RecordOnly | Sample

record sampling_parameters =
  sp_traceID :: string
  sp_spanID :: string
  sp_parentSpanID :: string
  sp_operation :: string
  sp_service :: string
  sp_kind :: int
  sp_attributes :: "key_value list"
  sp_parentSampled :: "bool option"

record sampling_result =
  res_decision :: decision
  res_attributes :: "key_value list"
  res_reason :: string

definition result_of :: "decision \<Rightarrow> string \<Rightarrow> sampling_result" where
  "result_of d r = \<lparr>res_decision = d, res_attributes = [], res_reason = r\<rparr>"

subsection \<open>By the trace id\<close>

definition hex_value :: "char \<Rightarrow> nat" where
  "hex_value c =
     (let n = of_char c in if 48 \<le> n \<and> n \<le> 57 then n - 48 else if 97 \<le> n \<and> n \<le> 102 then n - 87 else 0)"

text \<open>\<open>binary.BigEndian.Uint64(id[:8])\<close>, on the text of the id.\<close>

definition id_number :: "string \<Rightarrow> 64 word" where
  "id_number s = foldl (\<lambda>n c. 16 * n + of_nat (hex_value c)) 0 (take 16 s)"

record prob_sampler =
  pr_rate :: num
  pr_threshold :: "64 word"

text \<open>The float of the largest 64-bit number is \<open>2^64\<close>.\<close>

definition rateToThreshold :: "num \<Rightarrow> 64 word" where
  "rateToThreshold r = (if r \<ge> 1 then - 1 else word_of_int \<lfloor>r * 2 ^ 64\<rfloor>)"

definition NewProbabilistic :: "num \<Rightarrow> prob_sampler" where
  "NewProbabilistic r =
     (let rate = max 0 (min 1 r) in \<lparr>pr_rate = rate, pr_threshold = rateToThreshold rate\<rparr>)"

definition prob_ShouldSample :: "prob_sampler \<Rightarrow> sampling_parameters \<Rightarrow> sampling_result" where
  "prob_ShouldSample s p =
     (if id_number (sp_traceID p) < pr_threshold s then result_of Sample ''probabilistic sampled''
      else result_of Drop ''probabilistic dropped'')"

definition SetRate :: "num \<Rightarrow> prob_sampler \<Rightarrow> prob_sampler" where
  "SetRate r s = (let rate = max 0 (min 1 r) in s\<lparr>pr_rate := rate, pr_threshold := rateToThreshold rate\<rparr>)"

subsection \<open>By a token bucket\<close>

record rate_limit =
  rl_perSec :: num
  rl_tokens :: num
  rl_max :: num
  rl_last :: int

definition NewRateLimit :: "int \<Rightarrow> num \<Rightarrow> rate_limit" where
  "NewRateLimit now r = \<lparr>rl_perSec = r, rl_tokens = r * 2, rl_max = r * 2, rl_last = now\<rparr>"

definition seconds :: "int \<Rightarrow> num" where
  "seconds d = of_int d / 10 ^ 9"

definition limit_ShouldSample :: "int \<Rightarrow> rate_limit \<Rightarrow> sampling_result \<times> rate_limit" where
  "limit_ShouldSample now s =
     (let elapsed = seconds (go_sub now (rl_last s));
          tokens = min (rl_max s) (rl_tokens s + elapsed * rl_perSec s);
          s' = s\<lparr>rl_tokens := tokens, rl_last := now\<rparr>
      in if tokens \<ge> 1 then (result_of Sample ''rate-limit granted'', s'\<lparr>rl_tokens := tokens - 1\<rparr>)
         else (result_of Drop ''rate-limit exceeded'', s'))"

subsection \<open>By a target throughput\<close>

record adaptive =
  ad_target :: num
  ad_min :: num
  ad_max :: num
  ad_period :: int
  ad_inner :: prob_sampler
  ad_attempts :: sliding
  ad_sampled :: sliding
  ad_deviations :: nat

definition NewAdaptive :: "num \<Rightarrow> num \<Rightarrow> num \<Rightarrow> int \<Rightarrow> adaptive" where
  "NewAdaptive target mn mx period =
     (let mn = (if mn \<le> 0 then 1 / 1000 else mn);
          mx = (if mx \<le> 0 \<or> mx > 1 then 1 else mx);
          period = (if period \<le> 0 then 5 * 10 ^ 9 else period)
      in \<lparr>ad_target = target, ad_min = mn, ad_max = mx, ad_period = period,
          ad_inner = NewProbabilistic (min mx (max mn (1 / 10))),
          ad_attempts = empty_window, ad_sampled = empty_window, ad_deviations = 0\<rparr>)"

definition unix :: "int \<Rightarrow> int" where "unix now = now div 10 ^ 9"

text \<open>What the ticker calls every period.\<close>

definition adjust :: "int \<Rightarrow> adaptive \<Rightarrow> adaptive" where
  "adjust now a =
     (let (attempted, aw) = sampler_Rate (unix now) (ad_attempts a);
          a = a\<lparr>ad_attempts := aw\<rparr>
      in if attempted = 0 then a
         else
           (let (sampled, sw) = sampler_Rate (unix now) (ad_sampled a);
                a = a\<lparr>ad_sampled := sw\<rparr>
            in if sampled = 0 then
                 (if ad_deviations a + 1 < 3 then a\<lparr>ad_deviations := ad_deviations a + 1\<rparr>
                  else a\<lparr>ad_inner := SetRate (ad_max a) (ad_inner a), ad_deviations := 0\<rparr>)
               else
                 (let ratio = ad_target a / sampled
                  in if \<bar>ratio - 1\<bar> < 1 / 10 then a\<lparr>ad_deviations := 0\<rparr>
                     else if ad_deviations a + 1 < 3 then a\<lparr>ad_deviations := ad_deviations a + 1\<rparr>
                     else a\<lparr>ad_inner := SetRate (max (ad_min a) (min (ad_max a) (pr_rate (ad_inner a) * ratio)))
                              (ad_inner a), ad_deviations := 0\<rparr>)))"

definition adaptive_ShouldSample :: "int \<Rightarrow> sampling_parameters \<Rightarrow> adaptive \<Rightarrow> sampling_result \<times> adaptive" where
  "adaptive_ShouldSample now p a =
     (let a = a\<lparr>ad_attempts := sampler_Add (unix now) 1 (ad_attempts a)\<rparr>;
          res = prob_ShouldSample (ad_inner a) p
      in (res, if res_decision res \<noteq> Drop
               then a\<lparr>ad_sampled := sampler_Add (unix now) 1 (ad_sampled a)\<rparr> else a))"

subsection \<open>By rules\<close>

text \<open>\<open>strings.Index\<close>\<close>

fun go_index :: "string \<Rightarrow> string \<Rightarrow> nat option" where
  "go_index [] pat = (if pat = [] then Some 0 else None)"
| "go_index (c # cs) pat = (if prefix pat (c # cs) then Some 0 else map_option Suc (go_index cs pat))"

text \<open>The loop over the parts between the first and the last one; \<open>None\<close> when one is not found.\<close>

fun glob_inner :: "string list \<Rightarrow> string \<Rightarrow> string option" where
  "glob_inner [] s = Some s"
| "glob_inner (p # ps) s =
     (case go_index s p of None \<Rightarrow> None | Some i \<Rightarrow> glob_inner ps (drop (i + length p) s))"

definition globMatch :: "string \<Rightarrow> string \<Rightarrow> bool" where
  "globMatch pattern s =
     (let parts = split_on (CHR ''*'') pattern
      in if length parts = 1 then pattern = s
         else if \<not> prefix (hd parts) s then False
         else (case glob_inner (butlast (tl parts)) (drop (length (hd parts)) s) of
                 None \<Rightarrow> False | Some rest \<Rightarrow> suffix (last parts) rest))"

record rule_condition =
  rc_service :: string
  rc_glob :: string
  rc_minDuration :: int
  rc_status :: "int option"
  rc_tags :: "(string \<times> string) list"
  rc_priority :: int

definition rule_matches :: "rule_condition \<Rightarrow> sampling_parameters \<Rightarrow> bool" where
  "rule_matches r p \<longleftrightarrow>
     (rc_service r = [] \<or> rc_service r = sp_service p) \<and>
     (rc_glob r = [] \<or> globMatch (rc_glob r) (sp_operation p)) \<and>
     list_all (\<lambda>(k, v). list_ex (\<lambda>a. kv_key a = k \<and> kv_sval a = v) (sp_attributes p)) (rc_tags r)"

subsection \<open>All head samplers\<close>

datatype sampler =
    AlwaysSampler
  | NeverSampler
  | ProbabilisticSampler prob_sampler
  | RateLimitSampler rate_limit
  | AdaptiveSampler adaptive
  | ParentBasedSampler sampler sampler sampler
  | RuleBasedSampler "rule list" sampler
  and rule = Rule rule_condition decision "sampler option"

fun rule_condition_of :: "rule \<Rightarrow> rule_condition" where
  "rule_condition_of (Rule c d s) = c"

definition higher_priority :: "rule \<Rightarrow> rule \<Rightarrow> bool" where
  "higher_priority a b \<longleftrightarrow> rc_priority (rule_condition_of a) > rc_priority (rule_condition_of b)"

definition NewRuleBased :: "rule go_sorter \<Rightarrow> rule list \<Rightarrow> sampler \<Rightarrow> sampler" where
  "NewRuleBased sort_slice rs fallback = RuleBasedSampler (sort_slice higher_priority rs) fallback"

text \<open>
  \<open>ShouldSample\<close> of each sampler; \<open>first_rule\<close> is the loop over the rules, with the result of the
  first rule that matches and the rules as they are left, \<open>None\<close> when none matches.
\<close>

fun ShouldSample :: "int \<Rightarrow> sampling_parameters \<Rightarrow> sampler \<Rightarrow> sampling_result \<times> sampler"
  and first_rule :: "int \<Rightarrow> sampling_parameters \<Rightarrow> rule list \<Rightarrow> (sampling_result \<times> rule list) option" where
  "ShouldSample now p AlwaysSampler = (result_of Sample ''always'', AlwaysSampler)"
| "ShouldSample now p NeverSampler = (result_of Drop ''never'', NeverSampler)"
| "ShouldSample now p (ProbabilisticSampler s) = (prob_ShouldSample s p, ProbabilisticSampler s)"
| "ShouldSample now p (RateLimitSampler s) =
     (case limit_ShouldSample now s of (r, s') \<Rightarrow> (r, RateLimitSampler s'))"
| "ShouldSample now p (AdaptiveSampler a) =
     (case adaptive_ShouldSample now p a of (r, a') \<Rightarrow> (r, AdaptiveSampler a'))"
| "ShouldSample now p (ParentBasedSampler rt yes no) =
     (if sp_parentSpanID p = ZeroSpanID \<or> sp_parentSampled p = None
      then (case ShouldSample now p rt of (r, s) \<Rightarrow> (r, ParentBasedSampler s yes no))
      else if sp_parentSampled p = Some True
      then (case ShouldSample now p yes of (r, s) \<Rightarrow> (r, ParentBasedSampler rt s no))
      else (case ShouldSample now p no of (r, s) \<Rightarrow> (r, ParentBasedSampler rt yes s)))"
| "ShouldSample now p (RuleBasedSampler rs fallback) =
     (case first_rule now p rs of
        Some (r, rs') \<Rightarrow> (r, RuleBasedSampler rs' fallback)
      | None \<Rightarrow> (case ShouldSample now p fallback of (r, s) \<Rightarrow> (r, RuleBasedSampler rs s)))"
| "first_rule now p [] = None"
| "first_rule now p (Rule c d sub # rs) =
     (if rule_matches c p then
        (case sub of
           None \<Rightarrow> Some (result_of d ''rule matched'', Rule c d sub # rs)
         | Some s \<Rightarrow> (case ShouldSample now p s of (r, s') \<Rightarrow> Some (r, Rule c d (Some s') # rs)))
      else map_option (\<lambda>(r, rs'). (r, Rule c d sub # rs')) (first_rule now p rs))"

text \<open>\<open>Name\<close>\<close>

fun sampler_Name :: "sampler \<Rightarrow> string" where
  "sampler_Name AlwaysSampler = ''always''"
| "sampler_Name NeverSampler = ''never''"
| "sampler_Name (ProbabilisticSampler _) = ''probabilistic''"
| "sampler_Name (RateLimitSampler _) = ''ratelimit''"
| "sampler_Name (AdaptiveSampler _) = ''adaptive''"
| "sampler_Name (ParentBasedSampler _ _ _) = ''parent_based''"
| "sampler_Name (RuleBasedSampler _ _) = ''rules''"

subsection \<open>The sampler of a configuration\<close>

fun head_sampler_of :: "head_sampler \<Rightarrow> sampler" where
  "head_sampler_of Always = AlwaysSampler"
| "head_sampler_of Never = NeverSampler"
| "head_sampler_of (Probabilistic r) = ProbabilisticSampler (NewProbabilistic r)"

text \<open>A rule of the configuration that names no sampler samples; the duration, the status and the tags
  of a rule are never set.\<close>

definition rule_of :: "rule_spec \<Rightarrow> rule" where
  "rule_of r =
     Rule \<lparr>rc_service = rs_service r, rc_glob = rs_operationGlob r, rc_minDuration = 0, rc_status = None,
           rc_tags = [], rc_priority = rs_priority r\<rparr>
       (if rs_sampler r = None then Sample else Drop) (map_option head_sampler_of (rs_sampler r))"

fun sampler_of :: "rule go_sorter \<Rightarrow> int \<Rightarrow> sampler_spec \<Rightarrow> sampler option" where
  "sampler_of sort_slice now (HeadSampler h) = Some (head_sampler_of h)"
| "sampler_of sort_slice now (RateLimit r) = Some (RateLimitSampler (NewRateLimit now r))"
| "sampler_of sort_slice now (Adaptive t mn mx) = Some (AdaptiveSampler (NewAdaptive t mn mx (5 * 10 ^ 9)))"
| "sampler_of sort_slice now (RuleBased rs) = Some (NewRuleBased sort_slice (map rule_of rs) AlwaysSampler)"
| "sampler_of sort_slice now (TailBased t ps) = None"


section \<open>Lemmas\<close>

subsection \<open>Thresholds\<close>

lemma threshold_uint: "0 \<le> r \<Longrightarrow> r < 1 \<Longrightarrow> uint (rateToThreshold r) = \<lfloor>r * 2 ^ 64\<rfloor>"
  by (simp add: rateToThreshold_def uint_word_of_int floor_less_iff take_bit_int_eq_self)

lemma max_uint: "uint (- 1 :: 64 word) = 2 ^ 64 - 1"
  by (simp add: unsigned_minus_1_eq_mask mask_eq_exp_minus_1)

lemma threshold_mono:
  assumes "0 \<le> r" and "r \<le> r'"
  shows "rateToThreshold r \<le> rateToThreshold r'"
proof (cases "r' < 1")
  case True
  with assms have "\<lfloor>r * 2 ^ 64\<rfloor> \<le> \<lfloor>r' * 2 ^ 64\<rfloor>" by (intro floor_mono) simp
  with True assms show ?thesis by (simp add: word_le_def threshold_uint)
next
  case False
  then show ?thesis by (simp add: rateToThreshold_def)
qed

lemma card_below: "card {i :: 64 word. i < t} = unat t"
proof -
  have "unat ` {i :: 64 word. i < t} = {..<unat t}"
  proof
    show "{..<unat t} \<subseteq> unat ` {i :: 64 word. i < t}"
    proof
      fix n assume "n \<in> {..<unat t}"
      then have n: "n < unat t" by simp
      moreover have "unat t < 2 ^ LENGTH(64)" by (rule unsigned_less)
      ultimately have "n < 2 ^ 64" by simp
      then have "unat (of_nat n :: 64 word) = n" by (simp add: unat_of_nat take_bit_nat_eq_self)
      with n show "n \<in> unat ` {i :: 64 word. i < t}"
        by (intro image_eqI [of _ _ "of_nat n"]) (simp_all add: word_less_nat_alt)
    qed
  qed (auto simp: word_less_nat_alt)
  moreover have "inj_on unat {i :: 64 word. i < t}" by (rule inj_onI) (simp add: word_unat_eq_iff)
  ultimately show ?thesis by (metis card_image card_lessThan)
qed

lemma prob_decision:
  "res_decision (prob_ShouldSample s p) = (if id_number (sp_traceID p) < pr_threshold s then Sample else Drop)"
  by (simp add: prob_ShouldSample_def result_of_def)

lemma threshold_share:
  assumes "0 \<le> r" and "r \<le> 1"
  shows "r * 2 ^ 64 - 1 \<le> real (unat (rateToThreshold r))" and "real (unat (rateToThreshold r)) \<le> r * 2 ^ 64"
proof -
  have u: "real (unat (rateToThreshold r)) = of_int (uint (rateToThreshold r))" by simp
  show "r * 2 ^ 64 - 1 \<le> real (unat (rateToThreshold r))" "real (unat (rateToThreshold r)) \<le> r * 2 ^ 64"
  proof (atomize(full), cases "r < 1")
    case True
    then show "r * 2 ^ 64 - 1 \<le> real (unat (rateToThreshold r)) \<and> real (unat (rateToThreshold r)) \<le> r * 2 ^ 64"
      using threshold_uint [OF assms(1) True] unfolding u by linarith
  next
    case False
    with assms have "r = 1" by simp
    then show "r * 2 ^ 64 - 1 \<le> real (unat (rateToThreshold r)) \<and> real (unat (rateToThreshold r)) \<le> r * 2 ^ 64"
      unfolding u by (simp add: rateToThreshold_def max_uint)
  qed
qed

subsection \<open>The token bucket\<close>

fun limit_run :: "int list \<Rightarrow> rate_limit \<Rightarrow> sampling_result list \<times> rate_limit" where
  "limit_run [] s = ([], s)"
| "limit_run (t # ts) s =
     (case limit_ShouldSample t s of (r, s') \<Rightarrow> (case limit_run ts s' of (rs, s'') \<Rightarrow> (r # rs, s'')))"

definition grants :: "sampling_result list \<Rightarrow> nat" where
  "grants rs = length (filter (\<lambda>r. res_decision r = Sample) rs)"

definition limit_ok :: "num \<Rightarrow> rate_limit \<Rightarrow> bool" where
  "limit_ok r s \<longleftrightarrow> 0 \<le> r \<and> rl_perSec s = r \<and> rl_max s = 2 * r \<and> 0 \<le> rl_tokens s \<and> rl_tokens s \<le> 2 * r"

lemma limit_step:
  assumes "limit_ok r s" and "limit_ShouldSample t s = (res, s')" and "rl_last s \<le> t"
  shows "limit_ok r s'" and "rl_last s' = t" and "rl_tokens s' + grants [res] \<le> 2 * r"
    and "t - rl_last s < 2 ^ 63 \<Longrightarrow> rl_tokens s' + grants [res] \<le> rl_tokens s + r * seconds (t - rl_last s)"
  using assms
  by (auto simp: limit_ShouldSample_def limit_ok_def grants_def result_of_def Let_def go_sub_def
      mult.commute [of r] seconds_def split: if_splits)

lemma limit_bound:
  assumes "limit_ok r s" and "sorted (rl_last s # ts)" and "last (rl_last s # ts) - rl_last s < 2 ^ 63"
    and "limit_run ts s = (rs, s')"
  shows "limit_ok r s'" and "rl_last s' = last (rl_last s # ts)"
    and "rl_tokens s' + grants rs \<le> rl_tokens s + r * seconds (last (rl_last s # ts) - rl_last s)"
proof -
  have "limit_ok r s' \<and> rl_last s' = last (rl_last s # ts) \<and>
      rl_tokens s' + grants rs \<le> rl_tokens s + r * seconds (last (rl_last s # ts) - rl_last s)"
    using assms
  proof (induction ts arbitrary: s rs)
    case Nil
    then show ?case by (simp add: grants_def seconds_def)
  next
    case (Cons t ts)
    obtain res s1 where step: "limit_ShouldSample t s = (res, s1)" by (cases "limit_ShouldSample t s")
    obtain rs1 where rest: "limit_run ts s1 = (rs1, s')" "rs = res # rs1"
      using Cons.prems(4) step by (auto split: prod.splits)
    have le: "rl_last s \<le> t" "t \<le> last (t # ts)"
      using Cons.prems(2) by (auto intro: last_in_set)
    then have lt: "t - rl_last s < 2 ^ 63" "last (t # ts) - t < 2 ^ 63" using Cons.prems(3) by auto
    note s1 = limit_step [OF Cons.prems(1) step le(1)]
    have IH: "limit_ok r s' \<and> rl_last s' = last (t # ts) \<and>
        rl_tokens s' + grants rs1 \<le> rl_tokens s1 + r * seconds (last (t # ts) - t)"
      using Cons.IH [OF s1(1) _ _ rest(1)] Cons.prems(2) lt s1(2) by simp
    have "r * seconds (last (t # ts) - rl_last s) = r * seconds (last (t # ts) - t) + r * seconds (t - rl_last s)"
      by (simp add: seconds_def field_simps)
    moreover have "grants rs = grants [res] + grants rs1" by (simp add: rest(2) grants_def)
    ultimately show ?case using IH s1(4) [OF lt(1)] by simp
  qed
  then show "limit_ok r s'" "rl_last s' = last (rl_last s # ts)"
    "rl_tokens s' + grants rs \<le> rl_tokens s + r * seconds (last (rl_last s # ts) - rl_last s)" by simp_all
qed

text \<open>From any state of the bucket, a stretch of calls is granted no more than the burst and the
  tokens that come in meanwhile.\<close>

lemma limit_stretch:
  assumes "limit_ok r s" and "sorted (rl_last s # t # ts)" and "last (t # ts) - t < 2 ^ 63"
  shows "grants (fst (limit_run (t # ts) s)) \<le> 2 * r + r * seconds (last (t # ts) - t)"
proof -
  obtain res s1 where step: "limit_ShouldSample t s = (res, s1)" by (cases "limit_ShouldSample t s")
  obtain rs s2 where rest: "limit_run ts s1 = (rs, s2)" by (cases "limit_run ts s1")
  have "rl_last s \<le> t" using assms(2) by simp
  note s1 = limit_step [OF assms(1) step this]
  have "limit_ok r s2 \<and> rl_tokens s2 + grants rs \<le> rl_tokens s1 + r * seconds (last (t # ts) - t)"
    using limit_bound [OF s1(1) _ _ rest] assms(2,3) s1(2) by auto
  moreover have "0 \<le> rl_tokens s2" using calculation by (simp add: limit_ok_def)
  moreover have "grants (fst (limit_run (t # ts) s)) = grants [res] + grants rs" by (simp add: step rest grants_def)
  ultimately show ?thesis using s1(3) by simp
qed

subsection \<open>The adaptive rate\<close>

text \<open>The bounds that the sampler works with; the minimum can be the larger one.\<close>

definition adaptive_ok :: "num \<Rightarrow> num \<Rightarrow> adaptive \<Rightarrow> bool" where
  "adaptive_ok lo hi a \<longleftrightarrow> 0 < lo \<and> 0 < hi \<and> hi \<le> 1 \<and> ad_min a = lo \<and> ad_max a = hi \<and> ad_deviations a < 3 \<and>
     min lo hi \<le> pr_rate (ad_inner a) \<and> pr_rate (ad_inner a) \<le> max lo hi \<and> pr_rate (ad_inner a) \<le> 1 \<and>
     pr_threshold (ad_inner a) = rateToThreshold (pr_rate (ad_inner a))"

lemma adaptive_new:
  "adaptive_ok (if mn \<le> 0 then 1 / 1000 else mn) (if mx \<le> 0 \<or> mx > 1 then 1 else mx) (NewAdaptive t mn mx d)"
  by (auto simp: adaptive_ok_def NewAdaptive_def NewProbabilistic_def Let_def)

lemma SetRate_pos: "0 < r \<Longrightarrow> pr_rate (SetRate r s) = min 1 r \<and> pr_threshold (SetRate r s) = rateToThreshold (min 1 r)"
  by (simp add: SetRate_def Let_def max_def min_def)

lemma adaptive_adjust:
  assumes "adaptive_ok lo hi a"
  shows "adaptive_ok lo hi (adjust now a)"
proof -
  have b: "0 < lo" "0 < hi" "hi \<le> 1" using assms by (simp_all add: adaptive_ok_def)
  have pos: "0 < max lo (min hi x)" for x using b by simp
  have in_bounds: "min lo hi \<le> min 1 (max lo (min hi x))" "min 1 (max lo (min hi x)) \<le> max lo hi" for x
    using b by (auto simp: min_def max_def)
  note SetRate_pos [OF pos] SetRate_pos [OF b(2)] in_bounds
  with assms b show ?thesis unfolding adaptive_ok_def adjust_def
    by (simp add: Let_def min_absorb2 split: prod.split)
qed

lemma adaptive_call:
  "adaptive_ok mn mx a \<Longrightarrow> adaptive_ok mn mx (snd (adaptive_ShouldSample now p a))"
  by (simp add: adaptive_ok_def adaptive_ShouldSample_def Let_def)

datatype adaptive_event = Called int sampling_parameters | Ticked int

fun adaptive_step :: "adaptive_event \<Rightarrow> adaptive \<Rightarrow> adaptive" where
  "adaptive_step (Called now p) a = snd (adaptive_ShouldSample now p a)"
| "adaptive_step (Ticked now) a = adjust now a"

lemma adaptive_run:
  "adaptive_ok mn mx a \<Longrightarrow> adaptive_ok mn mx (fold adaptive_step es a)"
proof (induction es arbitrary: a)
  case (Cons e es)
  then show ?case by (cases e) (simp_all add: adaptive_adjust adaptive_call)
qed simp


subsection \<open>Glob patterns\<close>

lemma index_prefix: "go_index s p = Some i \<Longrightarrow> i \<le> length s \<and> prefix p (drop i s)"
  by (induction s p arbitrary: i rule: go_index.induct) (auto split: if_splits)

lemma index_least: "prefix p (drop k s) \<Longrightarrow> k \<le> length s \<Longrightarrow> \<exists>i\<le>k. go_index s p = Some i"
proof (induction s p arbitrary: k rule: go_index.induct)
  case (2 c cs pat)
  show ?case
  proof (cases k)
    case (Suc k')
    then have "\<exists>i\<le>k'. go_index cs pat = Some i" if "\<not> prefix pat (c # cs)" using 2 that by simp
    with Suc show ?thesis by auto
  qed (use 2 in auto)
qed simp

text \<open>The parts of a pattern, each after the one before it, the last one at the end.\<close>

fun parts_match :: "string list \<Rightarrow> string \<Rightarrow> bool" where
  "parts_match [] s = False"
| "parts_match [p] s = suffix p s"
| "parts_match (p # q # ps) s = (\<exists>a b. s = a @ p @ b \<and> parts_match (q # ps) b)"

lemma parts_match_longer: "parts_match ps b \<Longrightarrow> parts_match ps (c @ b)"
  by (induction ps b arbitrary: c rule: parts_match.induct) (auto simp: suffix_def, metis append_assoc)

lemma glob_inner_matches:
  assumes "ps \<noteq> []"
  shows "(case glob_inner (butlast ps) s of None \<Rightarrow> False | Some rest \<Rightarrow> suffix (last ps) rest) = parts_match ps s"
  using assms
proof (induction ps s rule: parts_match.induct)
  case (3 p q ps s)
  have IH: "(case glob_inner (butlast (q # ps)) b of None \<Rightarrow> False | Some rest \<Rightarrow> suffix (last (q # ps)) rest) =
      parts_match (q # ps) b" for b by (rule 3) simp
  show ?case
  proof (cases "go_index s p")
    case None
    have "s \<noteq> a @ p @ b" for a b using index_least [of p "length a" s] None by auto
    with None show ?thesis by auto
  next
    case (Some i)
    then obtain b where b: "drop i s = p @ b" using index_prefix [OF Some] by (auto simp: prefix_def)
    then have s: "s = take i s @ p @ b" "drop (i + length p) s = b"
      by (metis append_take_drop_id) (metis add.commute append_eq_conv_conj b drop_drop)
    have "parts_match (q # ps) b" if "s = a @ p @ b'" "parts_match (q # ps) b'" for a b'
    proof -
      have "i \<le> length a" using index_least [of p "length a" s] that(1) Some by auto
      then have "drop (i + length p) s = drop (i + length p) (a @ p) @ b'" unfolding that(1) by simp
      with s(2) that(2) show ?thesis using parts_match_longer by metis
    qed
    then have e1: "parts_match (p # q # ps) s = parts_match (q # ps) b" using s(1) by auto
    have e2: "glob_inner (butlast (p # q # ps)) s = glob_inner (butlast (q # ps)) b" using Some s(2) by simp
    have e3: "last (p # q # ps) = last (q # ps)" by simp
    show ?thesis unfolding e1 e2 e3 by (rule IH)
  qed
qed simp_all

lemma split_on_one: "split_on c p = [w] \<Longrightarrow> w = p"
  by (induction c p arbitrary: w rule: split_on.induct) (auto simp: split_on_not_Nil split: if_splits list.splits)

text \<open>The meaning of a pattern: a star stands for any sequence of characters.\<close>

fun glob :: "string \<Rightarrow> string \<Rightarrow> bool" where
  "glob [] s = (s = [])"
| "glob (c # cs) s =
     (if c = CHR ''*'' then list_ex (\<lambda>k. glob cs (drop k s)) [0..<Suc (length s)]
      else (case s of [] \<Rightarrow> False | x # xs \<Rightarrow> x = c \<and> glob cs xs))"

definition parts_at_start :: "string list \<Rightarrow> string \<Rightarrow> bool" where
  "parts_at_start ps s =
     (case ps of [] \<Rightarrow> False | [p] \<Rightarrow> s = p | p # q # qs \<Rightarrow> (\<exists>b. s = p @ b \<and> parts_match (q # qs) b))"

lemma ex_drop: "(\<exists>k \<le> length s. drop k s = b) = (\<exists>a. s = a @ b)"
  by (metis append_eq_conv_conj append_take_drop_id le_add1 length_append)

lemma parts_match_some: "ps \<noteq> [] \<Longrightarrow> parts_match ps s = (\<exists>k \<le> length s. parts_at_start ps (drop k s))"
proof (induction ps s rule: parts_match.induct)
  case (2 p s)
  show ?case using ex_drop [of s p] by (auto simp: parts_at_start_def suffix_def)
next
  case (3 p q ps s)
  have "(\<exists>k \<le> length s. drop k s = p @ b \<and> parts_match (q # ps) b) = (\<exists>a. s = a @ p @ b \<and> parts_match (q # ps) b)" for b
    using ex_drop [of s "p @ b"] by blast
  then show ?case unfolding parts_at_start_def parts_match.simps list.case by blast
qed simp

lemma glob_parts: "glob p s = parts_at_start (split_on (CHR ''*'') p) s"
proof (induction p s rule: glob.induct)
  case (2 c cs s)
  obtain w ws where w: "split_on (CHR ''*'') cs = w # ws" using split_on_not_Nil by (meson list.exhaust)
  show ?case
  proof (cases "c = CHR ''*''")
    case True
    have "glob (c # cs) s = (\<exists>k \<le> length s. parts_at_start (w # ws) (drop k s))"
      using 2(1) [OF True] True w by (auto simp: list_ex_iff less_Suc_eq_le simp del: upt_Suc)
    with True w show ?thesis using parts_match_some [of "w # ws" s] by (simp add: parts_at_start_def)
  next
    case False
    then show ?thesis using 2(2) [OF False] w by (auto simp: parts_at_start_def split: list.splits)
  qed
qed (simp add: parts_at_start_def)

lemma globMatch_eq: "globMatch p s = glob p s"
proof -
  obtain w ws where w: "split_on (CHR ''*'') p = w # ws" using split_on_not_Nil by (meson list.exhaust)
  show ?thesis
  proof (cases ws)
    case Nil
    with w have "w = p" by (simp add: split_on_one)
    with Nil w show ?thesis by (auto simp: glob_parts globMatch_def parts_at_start_def)
  next
    case (Cons q qs)
    then have "globMatch p s = (prefix w s \<and> (case glob_inner (butlast ws) (drop (length w) s) of
        None \<Rightarrow> False | Some rest \<Rightarrow> suffix (last ws) rest))"
      unfolding globMatch_def Let_def w by (simp split: option.split)
    also have "\<dots> = (prefix w s \<and> parts_match ws (drop (length w) s))"
      using glob_inner_matches [of ws "drop (length w) s"] Cons by simp
    also have "\<dots> = parts_at_start (w # ws) s" using Cons by (auto simp: parts_at_start_def prefix_def)
    finally show ?thesis by (simp add: glob_parts w)
  qed
qed


subsection \<open>Rules\<close>

fun rule_result :: "int \<Rightarrow> sampling_parameters \<Rightarrow> rule \<Rightarrow> sampling_result" where
  "rule_result now p (Rule c d sub) =
     (case sub of None \<Rightarrow> result_of d ''rule matched'' | Some s \<Rightarrow> fst (ShouldSample now p s))"

lemma first_rule_find:
  "map_option fst (first_rule now p rs) =
   map_option (rule_result now p) (find (\<lambda>r. rule_matches (rule_condition_of r) p) rs)"
proof (induction rs)
  case (Cons r rs)
  then show ?case by (cases r) (auto simp: option.map_comp o_def case_prod_unfold split: option.splits)
qed simp

lemma rules_result:
  "fst (ShouldSample now p (RuleBasedSampler rs fallback)) =
     (case find (\<lambda>r. rule_matches (rule_condition_of r) p) rs of
        None \<Rightarrow> fst (ShouldSample now p fallback) | Some r \<Rightarrow> rule_result now p r)"
  using first_rule_find [of now p rs] by (auto split: option.splits prod.splits)

lemma strict_weak_priority: "strict_weak higher_priority"
  by (auto simp: strict_weak_def higher_priority_def)

lemma find_first:
  "find P xs = Some x \<Longrightarrow> sorted_wrt R xs \<Longrightarrow> x \<in> set xs \<and> P x \<and> (\<forall>y \<in> set xs. P y \<longrightarrow> y = x \<or> R x y)"
  by (induction xs) (auto split: if_splits)


section \<open>The consistency contract\<close>

text \<open>
  What makes a sampler usable by several services at once: its decision depends on the trace id
  alone, and a call changes nothing. Any two runs of such samplers then agree on every trace,
  whenever and on whatever span they are asked.
\<close>

fun ask_all :: "(int \<Rightarrow> sampling_parameters \<Rightarrow> 's \<Rightarrow> sampling_result \<times> 's) \<Rightarrow>
    (int \<times> sampling_parameters) list \<Rightarrow> 's \<Rightarrow> (string \<times> sampling_result) list" where
  "ask_all should [] s = []"
| "ask_all should ((t, p) # qs) s = (case should t p s of (r, s') \<Rightarrow> (sp_traceID p, r) # ask_all should qs s')"

locale consistent_sampler =
  fixes should :: "int \<Rightarrow> sampling_parameters \<Rightarrow> 's \<Rightarrow> sampling_result \<times> 's"
  assumes by_trace: "sp_traceID p = sp_traceID q \<Longrightarrow> fst (should t p s) = fst (should u q s)"
    and unchanged: "snd (should t p s) = s"
begin

lemma should_eq: "should t p s = (fst (should u p s), s)"
  by (metis by_trace unchanged prod.collapse)

lemma ask_all_eq: "ask_all should qs s = map (\<lambda>(t, p). (sp_traceID p, fst (should u p s))) qs"
proof (induction qs)
  case (Cons q qs)
  obtain t p where q: "q = (t, p)" by (cases q)
  show ?case using Cons by (simp add: q should_eq [of t p s u])
qed simp

lemma runs_agree:
  assumes "(i, r) \<in> set (ask_all should qs s)" and "(i, r') \<in> set (ask_all should qs' s)"
  shows "r = r'"
  using assms unfolding ask_all_eq [of _ s 0] by (auto intro: by_trace)

end

definition head_ShouldSample :: "int \<Rightarrow> sampling_parameters \<Rightarrow> head_sampler \<Rightarrow> sampling_result \<times> head_sampler" where
  "head_ShouldSample now p h = (fst (ShouldSample now p (head_sampler_of h)), h)"

lemma head_unchanged: "ShouldSample now p (head_sampler_of h) = (fst (ShouldSample now p (head_sampler_of h)), head_sampler_of h)"
  by (cases h) simp_all

interpretation head: consistent_sampler head_ShouldSample
proof
  show "fst (head_ShouldSample t p h) = fst (head_ShouldSample u q h)" if "sp_traceID p = sp_traceID q" for p q t h u
    using that by (cases h) (simp_all add: head_ShouldSample_def prob_ShouldSample_def)
qed (simp add: head_ShouldSample_def)

lemma ask_all_head: "ask_all ShouldSample qs (head_sampler_of h) = ask_all head_ShouldSample qs h"
proof (induction qs)
  case (Cons q qs)
  obtain t p where q: "q = (t, p)" by (cases q)
  have "ShouldSample t p (head_sampler_of h) = (fst (head_ShouldSample t p h), head_sampler_of h)"
    unfolding head_ShouldSample_def fst_conv by (rule head_unchanged)
  moreover have "snd (head_ShouldSample t p h) = h" by (simp add: head_ShouldSample_def)
  ultimately show ?case using Cons by (simp add: q case_prod_unfold)
qed simp

section \<open>Properties\<close>

text \<open>C32. A probabilistic sampler keeps a trace exactly if the number of its id is below the threshold,
  and of the \<open>2^64\<close> numbers the threshold keeps the rate's share, less at most one.\<close>

theorem probabilistic_keeps_share:
  "(res_decision (fst (ShouldSample now p (ProbabilisticSampler (NewProbabilistic r)))) = Sample \<longleftrightarrow>
      id_number (sp_traceID p) \<in> {i. i < pr_threshold (NewProbabilistic r)}) \<and>
   real (card {i. i < pr_threshold (NewProbabilistic r)}) \<in> {max 0 (min 1 r) * 2 ^ 64 - 1 .. max 0 (min 1 r) * 2 ^ 64}"
  using threshold_share [of "max 0 (min 1 r)"]
  by (auto simp: prob_decision NewProbabilistic_def Let_def card_below)

text \<open>Always, never and probabilistic samplers are consistent: whatever calls two services make,
  each with its own copy, they decide alike on every trace.\<close>

theorem services_agree:
  assumes "(i, r) \<in> set (ask_all ShouldSample qs (head_sampler_of h))"
    and "(i, r') \<in> set (ask_all ShouldSample qs' (head_sampler_of h))"
  shows "r = r'"
  using assms unfolding ask_all_head by (rule head.runs_agree)

definition sample_params :: "string \<Rightarrow> string \<Rightarrow> sampling_parameters" where
  "sample_params i nm = \<lparr>sp_traceID = i, sp_spanID = ''1'', sp_parentSpanID = ZeroSpanID, sp_operation = nm,
     sp_service = ''api'', sp_kind = 1, sp_attributes = [], sp_parentSampled = None\<rparr>"

theorem services_agree_witness:
  "fst (ShouldSample 5 (sample_params ''4bf92f3577b34da6'' ''get'') (head_sampler_of (Probabilistic (1 / 2)))) =
   fst (ShouldSample 7 (sample_params ''4bf92f3577b34da6'' ''put'') (head_sampler_of (Probabilistic (1 / 2))))"
  by (rule services_agree [where i = "''4bf92f3577b34da6''" and h = "Probabilistic (1 / 2)"
        and qs = "[(5, sample_params ''4bf92f3577b34da6'' ''get'')]"
        and qs' = "[(7, sample_params ''4bf92f3577b34da6'' ''put'')]"])
    (simp_all add: sample_params_def)

text \<open>A trace that is kept at some rate is kept at every higher rate.\<close>

theorem kept_at_higher_rates:
  assumes "r \<le> r'" and "res_decision (prob_ShouldSample (NewProbabilistic r) p) = Sample"
  shows "res_decision (prob_ShouldSample (NewProbabilistic r') p) = Sample"
proof -
  have "pr_threshold (NewProbabilistic r) \<le> pr_threshold (NewProbabilistic r')"
    using assms(1) by (simp add: NewProbabilistic_def Let_def threshold_mono)
  with assms(2) show ?thesis by (auto simp: prob_decision split: if_splits)
qed

theorem kept_at_higher_rates_witness:
  "res_decision (prob_ShouldSample (NewProbabilistic (3 / 4)) (sample_params ''4bf92f3577b34da6'' [])) = Sample"
proof (rule kept_at_higher_rates [of "1 / 2"])
  show "res_decision (prob_ShouldSample (NewProbabilistic (1 / 2)) (sample_params ''4bf92f3577b34da6'' [])) = Sample"
    by code_simp
qed simp

text \<open>C12. The token bucket limits every stretch of time: whatever calls came before, the calls from one
  moment to another are granted at most two seconds' worth of traces and the rate times the time
  between them.\<close>

theorem rate_limit_holds:
  assumes "0 < r" and "sorted (start # before @ t # ts)" and "last (t # ts) - start < 2 ^ 63"
  shows "grants (fst (limit_run (t # ts) (snd (limit_run before (NewRateLimit start r))))) \<le>
    2 * r + r * seconds (last (t # ts) - t)"
proof -
  have new: "limit_ok r (NewRateLimit start r)" "rl_last (NewRateLimit start r) = start"
    using assms(1) by (simp_all add: limit_ok_def NewRateLimit_def)
  have le: "last (start # before) \<le> t" "start \<le> t" "t \<le> last (t # ts)" "sorted (start # before)" "sorted (t # ts)"
    using assms(2) by (auto simp: sorted_append split: if_splits)
  obtain rs s where run: "limit_run before (NewRateLimit start r) = (rs, s)"
    by (cases "limit_run before (NewRateLimit start r)")
  note s = limit_bound [OF new(1) _ _ run, unfolded new(2), OF le(4)]
  have "limit_ok r s" "rl_last s = last (start # before)" using s le assms(3) by simp_all
  moreover from this(2) have "sorted (rl_last s # t # ts)" using assms(2) by (auto simp: sorted_append)
  moreover have "last (t # ts) - t < 2 ^ 63" using le(2) assms(3) by simp
  ultimately show ?thesis unfolding run snd_conv by (intro limit_stretch)
qed

theorem rate_limit_holds_witness:
  "grants (fst (limit_run [10 ^ 9, 10 ^ 9, 10 ^ 9, 2 * 10 ^ 9] (snd (limit_run [0] (NewRateLimit 0 1))))) \<le> 3"
  using rate_limit_holds [of 1 0 "[0]" "10 ^ 9" "[10 ^ 9, 10 ^ 9, 2 * 10 ^ 9]"] by (simp add: seconds_def)

text \<open>A limit below one trace in two seconds, which the collector accepts, grants nothing at all: the
  bucket never holds a token.\<close>

theorem slow_limit_grants_nothing:
  assumes "0 < r" and "r < 1 / 2" and "sorted (start # ts)"
  shows "grants (fst (limit_run ts (NewRateLimit start r))) = 0"
proof -
  have "grants (fst (limit_run ts s)) = 0" if "rl_max s < 1" for s
    using that
  proof (induction ts arbitrary: s)
    case (Cons t ts)
    obtain res s1 where step: "limit_ShouldSample t s = (res, s1)" by (cases "limit_ShouldSample t s")
    then have "res_decision res = Drop" "rl_max s1 = rl_max s"
      using Cons.prems by (auto simp: limit_ShouldSample_def result_of_def Let_def split: if_splits)
    with Cons step show ?case by (simp add: grants_def case_prod_unfold)
  qed (simp add: grants_def)
  then show ?thesis using assms(2) by (simp add: NewRateLimit_def)
qed

theorem slow_limit_grants_nothing_witness:
  "buildSampler \<lparr>req_type = ''ratelimit'', req_rate = None, req_tracesPerSec = Some (1 / 3), req_targetRate = None,
     req_minRate = None, req_maxRate = None, req_bufferTimeoutSec = None, req_policies = [], req_rules = []\<rparr> =
   Inr (RateLimit (1 / 3)) \<and>
   grants (fst (limit_run [10 ^ 10, 10 ^ 12] (NewRateLimit 0 (1 / 3)))) = 0"
  using slow_limit_grants_nothing [of "1 / 3" 0 "[10 ^ 10, 10 ^ 12]"]
  by (simp add: buildSampler_def default_def)

text \<open>C33. The rate of an adaptive sampler stays between its bounds, whatever it is asked and whenever
  its ticker adjusts it; and its threshold is that of its rate. The bounds are those configured,
  where a minimum that is not positive counts as 0.001 and a maximum that is not positive, or above 1, as
  1; with a minimum above the maximum (as these replacements can make it) the rate is between the
  two the other way round. In any case it is positive and at most 1.\<close>

theorem adaptive_rate_in_bounds:
  "let lo = (if mn \<le> 0 then 1 / 1000 else mn);
       hi = (if mx \<le> 0 \<or> mx > 1 then 1 else mx);
       a = fold adaptive_step es (NewAdaptive target mn mx d)
   in min lo hi \<le> pr_rate (ad_inner a) \<and> pr_rate (ad_inner a) \<le> max lo hi \<and>
      0 < pr_rate (ad_inner a) \<and> pr_rate (ad_inner a) \<le> 1 \<and>
      pr_threshold (ad_inner a) = rateToThreshold (pr_rate (ad_inner a))"
  using adaptive_run [OF adaptive_new [of mn mx target d], of es]
  unfolding Let_def adaptive_ok_def by (auto simp: min_def split: if_splits)

theorem adaptive_rate_in_bounds_witness:
  "pr_rate (ad_inner (fold adaptive_step [Called 0 (sample_params ''00ff'' []), Ticked (5 * 10 ^ 9)]
     (NewAdaptive 100 (1 / 1000) (1 / 2) 0))) \<le> 1 / 2"
  using adaptive_rate_in_bounds [of "1 / 1000" "1 / 2" "[Called 0 (sample_params ''00ff'' []), Ticked (5 * 10 ^ 9)]" 100 0]
  unfolding Let_def by simp

text \<open>Bounds that the collector accepts but the sampler replaces: with a minimum of 0 it takes 0.001, also
  when the maximum is below that, and three adjustments later samples at a rate above the maximum.
  A maximum of 0 becomes 1.\<close>

theorem adaptive_exceeds_maximum:
  "build_adaptive 100 0 (1 / 2000) = Inr (Adaptive 100 0 (1 / 2000)) \<and>
   (let a = NewAdaptive 100 0 (1 / 2000) 0;
        busy = a\<lparr>ad_attempts := sampler_Add 60 60 empty_window, ad_sampled := sampler_Add 60 60 empty_window\<rparr>
    in pr_rate (ad_inner a) = 1 / 2000 \<and>
       pr_rate (ad_inner (fold adaptive_step (replicate 3 (Ticked (60 * 10 ^ 9))) busy)) = 1 / 1000) \<and>
   ad_max (NewAdaptive 100 0 0 0) = 1"
  by code_simp

text \<open>C11. The pattern of a rule matches an operation exactly if the operation is the pattern with each star
  replaced by some sequence of characters.\<close>

theorem glob_match_is_glob: "globMatch pattern s = glob pattern s"
  by (rule globMatch_eq)

text \<open>A rule-based sampler answers as a matching rule of the highest priority among the matching ones
  does, and as its fallback when no rule matches.\<close>

theorem highest_matching_rule_decides:
  assumes "go_sort sort_slice"
  shows "if \<exists>r \<in> set rs. rule_matches (rule_condition_of r) p
    then \<exists>r \<in> set rs. rule_matches (rule_condition_of r) p \<and>
      (\<forall>r' \<in> set rs. rule_matches (rule_condition_of r') p \<longrightarrow>
         rc_priority (rule_condition_of r') \<le> rc_priority (rule_condition_of r)) \<and>
      fst (ShouldSample now p (NewRuleBased sort_slice rs fallback)) = rule_result now p r
    else fst (ShouldSample now p (NewRuleBased sort_slice rs fallback)) = fst (ShouldSample now p fallback)"
proof -
  let ?m = "\<lambda>r. rule_matches (rule_condition_of r) p" and ?s = "sort_slice higher_priority rs"
  have "mset ?s = mset rs" "sorted_wrt (\<lambda>a b. \<not> higher_priority b a) ?s"
    using assms strict_weak_priority by (auto simp: go_sort_def)
  then have set: "set ?s = set rs" and sorted: "sorted_wrt (\<lambda>a b. \<not> higher_priority b a) ?s"
    by (auto dest: mset_eq_setD)
  show ?thesis
  proof (cases "find ?m ?s")
    case None
    then have "\<not> (\<exists>r \<in> set rs. ?m r)" by (auto simp: find_None_iff set)
    with None show ?thesis by (simp add: NewRuleBased_def rules_result del: ShouldSample.simps)
  next
    case (Some r)
    have "fst (ShouldSample now p (NewRuleBased sort_slice rs fallback)) = rule_result now p r"
      by (simp add: NewRuleBased_def rules_result Some del: ShouldSample.simps)
    with find_first [OF Some sorted] set show ?thesis
      by (simp add: higher_priority_def not_less) (metis order_refl)
  qed
qed

definition health_rules :: "rule list" where
  "health_rules = map rule_of
     [\<lparr>rs_operationGlob = ''*'', rs_service = [], rs_priority = 1, rs_sampler = Some Always\<rparr>,
      \<lparr>rs_operationGlob = ''GET /health*'', rs_service = [], rs_priority = 9, rs_sampler = Some Never\<rparr>]"

theorem highest_matching_rule_decides_witness:
  "fst (ShouldSample 0 (sample_params [] ''GET /healthz'') (NewRuleBased insertion_sort health_rules AlwaysSampler)) =
   result_of Drop ''never''"
proof -
  let ?p = "sample_params [] ''GET /healthz''"
  have m: "list_all (\<lambda>r. rule_matches (rule_condition_of r) ?p) health_rules"
    and v: "rule_result 0 ?p (health_rules ! 1) = result_of Drop ''never''"
    and prio: "rc_priority (rule_condition_of (health_rules ! 0)) = 1"
      "rc_priority (rule_condition_of (health_rules ! 1)) = 9" by code_simp+
  have two: "set health_rules = {health_rules ! 0, health_rules ! 1}" by (auto simp: health_rules_def)
  with m have "\<exists>r \<in> set health_rules. rule_matches (rule_condition_of r) ?p" by (simp add: list_all_iff)
  note highest_matching_rule_decides [OF go_sort_insertion, of health_rules ?p 0 AlwaysSampler, unfolded if_P [OF this]]
  then obtain r where r: "r \<in> set health_rules"
      "\<forall>r' \<in> set health_rules. rule_matches (rule_condition_of r') ?p \<longrightarrow>
        rc_priority (rule_condition_of r') \<le> rc_priority (rule_condition_of r)"
      "fst (ShouldSample 0 ?p (NewRuleBased insertion_sort health_rules AlwaysSampler)) = rule_result 0 ?p r"
    by (elim bexE conjE)
  have "rc_priority (rule_condition_of (health_rules ! 1)) \<le> rc_priority (rule_condition_of r)"
    using m two r(2) by (simp add: list_all_iff)
  with r(1) two prio have "r = health_rules ! 1" by auto
  with r(3) v show ?thesis by simp
qed

text \<open>What the reference of the samplers says and the code does not do: the service \<open>*\<close> is not a wildcard.\<close>

theorem star_service_matches_nothing:
  "let r = rule_of \<lparr>rs_operationGlob = ''*'', rs_service = ''*'', rs_priority = 0, rs_sampler = Some Never\<rparr>
   in \<not> rule_matches (rule_condition_of r) (sample_params [] ''get'')"
  by code_simp

end
