(* ===== verification/TailSampler.thy ===== *)
theory TailSampler
  imports Samplers MemoryStore
begin

text \<open>
  The tail sampler, \<open>internal/sampler/tail.go\<close>: spans are buffered by trace until none arrives for a
  while; then its policies decide on the whole trace. The calls of \<open>accept\<close> and \<open>reject\<close>, which
  the collector always provides, are the effects an operation returns. The order of a \<open>range\<close> over
  the buffer is a parameter.

  \<open>evaluateTrace\<close> takes the spans out under the lock, decides without it and takes the lock again to
  record the decision. The model has two operations, \<open>tail_take\<close> and \<open>tail_decide\<close>, between which
  other calls may come; \<open>evaluateTrace\<close> is the two in a row.
\<close>

section \<open>Definitions\<close>

subsection \<open>Policies\<close>

text \<open>Whether the policy keeps the trace, and its reason; the empty reason is an abstention.\<close>

fun evaluate_policy :: "tail_policy \<Rightarrow> go_span list \<Rightarrow> int \<Rightarrow> bool \<times> string" where
  "evaluate_policy ErrorPolicy ss d =
     (if list_ex (\<lambda>sp. gs_code sp = go_StatusError) ss then (True, ''has_error'') else (False, []))"
| "evaluate_policy (LatencyPolicy ms) ss d =
     (if d \<ge> \<lfloor>ms * 10 ^ 6\<rfloor> then (True, ''high_latency'') else (False, []))"
| "evaluate_policy (ProbabilisticPolicy r) ss d =
     (case ss of [] \<Rightarrow> (False, ''no_spans'')
      | sp # _ \<Rightarrow>
          if res_decision (prob_ShouldSample (NewProbabilistic r)
               \<lparr>sp_traceID = gs_traceID sp, sp_spanID = ZeroSpanID, sp_parentSpanID = ZeroSpanID, sp_operation = [],
                sp_service = [], sp_kind = 0, sp_attributes = [], sp_parentSampled = None\<rparr>) = Sample
          then (True, ''probabilistic_sample'') else (False, ''probabilistic_drop''))"

text \<open>The loop over the policies; no policy that decides means to drop.\<close>

fun keep_trace :: "tail_policy list \<Rightarrow> go_span list \<Rightarrow> int \<Rightarrow> bool" where
  "keep_trace [] ss d = False"
| "keep_trace (p # ps) ss d =
     (case evaluate_policy p ss d of (keep, reason) \<Rightarrow> if reason = [] then keep_trace ps ss d else keep)"

text \<open>The approximate duration, from the first start to the last end.\<close>

definition tail_duration :: "go_span list \<Rightarrow> int" where
  "tail_duration ss =
     (let minStart = fold (\<lambda>sp m. if m = zero_time \<or> gs_start sp < m then gs_start sp else m) ss zero_time;
          maxEnd = fold (\<lambda>sp m. if m = zero_time \<or> gs_end sp > m then gs_end sp else m) ss zero_time
      in if minStart \<noteq> zero_time \<and> maxEnd \<noteq> zero_time then go_sub maxEnd minStart else 0)"

subsection \<open>State\<close>

record tail_buffer =
  tb_spans :: "go_span list"
  tb_firstAt :: int

record tail_sampler =
  ts_buffer :: "(string, tail_buffer) mapping"
  ts_decided :: "(string, bool) mapping"
  ts_timeout :: num
  ts_maxSize :: nat
  ts_policies :: "tail_policy list"

datatype tail_effect = Accept "go_span list" | Reject string

definition NewTailSampler :: "num \<Rightarrow> nat \<Rightarrow> tail_policy list \<Rightarrow> tail_sampler" where
  "NewTailSampler timeout maxSize policies =
     \<lparr>ts_buffer = Mapping.empty, ts_decided = Mapping.empty, ts_timeout = timeout, ts_maxSize = maxSize,
      ts_policies = policies\<rparr>"

definition ZeroTraceID :: string where
  "ZeroTraceID = replicate 32 (CHR ''0'')"

subsection \<open>Operations\<close>

text \<open>The loop of \<open>evictOldestLocked\<close>: the oldest id so far and its time.\<close>

definition oldest_of :: "(string, tail_buffer) mapping \<Rightarrow> string list \<Rightarrow> string" where
  "oldest_of m is =
     fst (fold (\<lambda>i (o1, t). case Mapping.lookup m i of
            None \<Rightarrow> (o1, t)
          | Some b \<Rightarrow> if t = zero_time \<or> tb_firstAt b < t then (i, tb_firstAt b) else (o1, t)) is (ZeroTraceID, zero_time))"

definition evictOldest :: "(string set \<Rightarrow> string list) \<Rightarrow> tail_sampler \<Rightarrow> tail_effect list \<times> tail_sampler" where
  "evictOldest rng s =
     (let i = oldest_of (ts_buffer s) (rng (Mapping.keys (ts_buffer s)))
      in case Mapping.lookup (ts_buffer s) i of
           None \<Rightarrow> ([], s)
         | Some b \<Rightarrow> ([Reject i], s\<lparr>ts_buffer := Mapping.delete i (ts_buffer s),
                                    ts_decided := Mapping.update i False (ts_decided s)\<rparr>))"

definition make_room :: "(string set \<Rightarrow> string list) \<Rightarrow> tail_sampler \<Rightarrow> tail_effect list \<times> tail_sampler" where
  "make_room rng s = (if Mapping.size (ts_buffer s) \<ge> ts_maxSize s then evictOldest rng s else ([], s))"

definition tail_AddSpan ::
  "(string set \<Rightarrow> string list) \<Rightarrow> int \<Rightarrow> go_span \<Rightarrow> tail_sampler \<Rightarrow> tail_effect list \<times> tail_sampler" where
  "tail_AddSpan rng now sp s =
     (case Mapping.lookup (ts_decided s) (gs_traceID sp) of
        Some keep \<Rightarrow> (if keep then [Accept [sp]] else [], s)
      | None \<Rightarrow>
          (case Mapping.lookup (ts_buffer s) (gs_traceID sp) of
             Some b \<Rightarrow> ([], s\<lparr>ts_buffer := Mapping.update (gs_traceID sp) (b\<lparr>tb_spans := tb_spans b @ [sp]\<rparr>) (ts_buffer s)\<rparr>)
           | None \<Rightarrow>
               (case make_room rng s of (es, s') \<Rightarrow>
                  (es, s'\<lparr>ts_buffer := Mapping.update (gs_traceID sp) \<lparr>tb_spans = [sp], tb_firstAt = now\<rparr> (ts_buffer s')\<rparr>))))"

definition recordDecision :: "string \<Rightarrow> bool \<Rightarrow> tail_sampler \<Rightarrow> tail_sampler" where
  "recordDecision i keep s =
     (let d = Mapping.update i keep (ts_decided s)
      in s\<lparr>ts_decided := if Mapping.size d > ts_maxSize s * 2 then Mapping.update i keep Mapping.empty else d\<rparr>)"

definition tail_take :: "string \<Rightarrow> tail_sampler \<Rightarrow> go_span list option \<times> tail_sampler" where
  "tail_take i s =
     (case Mapping.lookup (ts_buffer s) i of
        None \<Rightarrow> (None, s)
      | Some b \<Rightarrow> (Some (tb_spans b), s\<lparr>ts_buffer := Mapping.delete i (ts_buffer s)\<rparr>))"

definition tail_decide :: "string \<Rightarrow> go_span list \<Rightarrow> tail_sampler \<Rightarrow> tail_effect \<times> tail_sampler" where
  "tail_decide i ss s =
     (let keep = keep_trace (ts_policies s) ss (tail_duration ss)
      in (if keep then Accept ss else Reject i, recordDecision i keep s))"

definition evaluateTrace :: "string \<Rightarrow> tail_sampler \<Rightarrow> tail_effect list \<times> tail_sampler" where
  "evaluateTrace i s =
     (case tail_take i s of
        (None, s') \<Rightarrow> ([], s')
      | (Some ss, s') \<Rightarrow> (case tail_decide i ss s' of (e, s'') \<Rightarrow> ([e], s'')))"

fun evaluate_all :: "string list \<Rightarrow> tail_sampler \<Rightarrow> tail_effect list \<times> tail_sampler" where
  "evaluate_all [] s = ([], s)"
| "evaluate_all (i # is) s =
     (case evaluateTrace i s of (es, s') \<Rightarrow> (case evaluate_all is s' of (es', s'') \<Rightarrow> (es @ es', s'')))"

definition tail_Stop :: "(string set \<Rightarrow> string list) \<Rightarrow> tail_sampler \<Rightarrow> tail_effect list \<times> tail_sampler" where
  "tail_Stop rng s = evaluate_all (rng (Mapping.keys (ts_buffer s))) s"

definition BufferedCount :: "tail_sampler \<Rightarrow> nat" where
  "BufferedCount s = Mapping.size (ts_buffer s)"

text \<open>The head-based answer, which the pipeline does not ask for.\<close>

definition tail_ShouldSample :: "sampling_parameters \<Rightarrow> sampling_result" where
  "tail_ShouldSample p = result_of Sample ''tail: buffering''"

subsection \<open>The life of a tail sampler\<close>

text \<open>Arrivals, timers that take a trace, and decisions on traces taken before, in any order.\<close>

datatype tail_event = TailSpan int go_span | TailTimer string | TailDecision nat

record tail_run =
  tr_sampler :: tail_sampler
  tr_taken :: "(string \<times> go_span list) list"
  tr_effects :: "tail_effect list"

definition remove_nth :: "nat \<Rightarrow> 'a list \<Rightarrow> 'a list" where
  "remove_nth n xs = take n xs @ drop (Suc n) xs"

fun tail_step :: "(string set \<Rightarrow> string list) \<Rightarrow> tail_event \<Rightarrow> tail_run \<Rightarrow> tail_run" where
  "tail_step rng (TailSpan now sp) r =
     (case tail_AddSpan rng now sp (tr_sampler r) of (es, s) \<Rightarrow> r\<lparr>tr_sampler := s, tr_effects := tr_effects r @ es\<rparr>)"
| "tail_step rng (TailTimer i) r =
     (case tail_take i (tr_sampler r) of
        (None, s) \<Rightarrow> r
      | (Some ss, s) \<Rightarrow> r\<lparr>tr_sampler := s, tr_taken := tr_taken r @ [(i, ss)]\<rparr>)"
| "tail_step rng (TailDecision n) r =
     (if n < length (tr_taken r)
      then (case tr_taken r ! n of (i, ss) \<Rightarrow> (case tail_decide i ss (tr_sampler r) of
              (e, s) \<Rightarrow> r\<lparr>tr_sampler := s, tr_taken := remove_nth n (tr_taken r), tr_effects := tr_effects r @ [e]\<rparr>))
      else r)"

definition tail_start :: "tail_sampler \<Rightarrow> tail_run" where
  "tail_start s = \<lparr>tr_sampler = s, tr_taken = [], tr_effects = []\<rparr>"

definition accepted_of :: "tail_effect list \<Rightarrow> go_span list" where
  "accepted_of es = concat (map (\<lambda>e. case e of Accept ss \<Rightarrow> ss | Reject i \<Rightarrow> []) es)"

definition tail_arrivals :: "tail_event list \<Rightarrow> go_span list" where
  "tail_arrivals es = concat (map (\<lambda>e. case e of TailSpan now sp \<Rightarrow> [sp] | _ \<Rightarrow> []) es)"

section \<open>Lemmas\<close>

subsection \<open>Policies\<close>

lemma keeps_or_abstains: "\<not> (\<exists>r. p = ProbabilisticPolicy r) \<Longrightarrow> snd (evaluate_policy p ss d) \<noteq> [] \<Longrightarrow> fst (evaluate_policy p ss d)"
  by (cases p) (auto split: if_splits)

lemma keep_trace_keeps:
  assumes "list_all (\<lambda>p. \<not> (\<exists>r. p = ProbabilisticPolicy r)) before"
    and "evaluate_policy p ss d = (True, reason)" and "reason \<noteq> []"
  shows "keep_trace (before @ p # after) ss d"
  using assms
proof (induction before)
  case (Cons q before)
  then show ?case using keeps_or_abstains [of q ss d] by (cases "evaluate_policy q ss d") auto
qed simp

subsection \<open>The oldest buffer\<close>

lemma oldest_of_fold:
  assumes "\<And>i b. i \<in> set is \<Longrightarrow> Mapping.lookup m i = Some b \<Longrightarrow> tb_firstAt b \<noteq> zero_time"
    and "set is \<subseteq> Mapping.keys m"
    and "t0 \<noteq> zero_time \<Longrightarrow> \<exists>b. Mapping.lookup m o0 = Some b \<and> tb_firstAt b = t0"
    and "is \<noteq> [] \<or> t0 \<noteq> zero_time"
  shows "\<exists>b. Mapping.lookup m (fst (fold (\<lambda>i (o1, t). case Mapping.lookup m i of
            None \<Rightarrow> (o1, t)
          | Some b \<Rightarrow> if t = zero_time \<or> tb_firstAt b < t then (i, tb_firstAt b) else (o1, t)) is (o0, t0))) = Some b \<and>
      (t0 \<noteq> zero_time \<longrightarrow> tb_firstAt b \<le> t0) \<and>
      (\<forall>i \<in> set is. \<forall>b'. Mapping.lookup m i = Some b' \<longrightarrow> tb_firstAt b \<le> tb_firstAt b')"
  using assms
proof (induction "is" arbitrary: o0 t0)
  case (Cons i "is")
  obtain c where c: "Mapping.lookup m i = Some c" using Cons.prems(2) by (auto simp: keys_dom_lookup)
  then have nz: "tb_firstAt c \<noteq> zero_time" using Cons.prems(1) [OF _ c] by simp
  let ?take = "t0 = zero_time \<or> tb_firstAt c < t0"
  have "\<exists>b. Mapping.lookup m (fst (fold (\<lambda>i (o1, t). case Mapping.lookup m i of
            None \<Rightarrow> (o1, t)
          | Some b \<Rightarrow> if t = zero_time \<or> tb_firstAt b < t then (i, tb_firstAt b) else (o1, t)) is
          (if ?take then i else o0, if ?take then tb_firstAt c else t0))) = Some b \<and>
      ((if ?take then tb_firstAt c else t0) \<noteq> zero_time \<longrightarrow> tb_firstAt b \<le> (if ?take then tb_firstAt c else t0)) \<and>
      (\<forall>i \<in> set is. \<forall>b'. Mapping.lookup m i = Some b' \<longrightarrow> tb_firstAt b \<le> tb_firstAt b')"
    by (rule Cons.IH) (use Cons.prems c nz in auto)
  then show ?case using c nz by (cases ?take) fastforce+
qed auto


subsection \<open>The invariant\<close>

definition tail_ok :: "tail_sampler \<Rightarrow> bool" where
  "tail_ok s \<longleftrightarrow> buffers_ok tb_spans (ts_buffer s) \<and> 0 < ts_maxSize s \<and> Mapping.size (ts_buffer s) \<le> ts_maxSize s \<and>
     (\<forall>i b. Mapping.lookup (ts_buffer s) i = Some b \<longrightarrow> tb_firstAt b \<noteq> zero_time)"

lemma tail_ok_new: "0 < n \<Longrightarrow> tail_ok (NewTailSampler t n ps)"
  by (simp add: tail_ok_def NewTailSampler_def Mapping.size_def)

lemma tail_ok_finite: "tail_ok s \<Longrightarrow> finite (Mapping.keys (ts_buffer s))"
  by (simp add: tail_ok_def buffers_ok_def)

lemma size_delete:
  assumes "finite (Mapping.keys m)" and "Mapping.lookup m i = Some b"
  shows "Mapping.size m = Suc (Mapping.size (Mapping.delete i m))"
proof -
  have "i \<in> Mapping.keys m" using assms(2) by (auto simp: keys_dom_lookup)
  from card.remove [OF assms(1) this] show ?thesis using assms(1) by (simp add: Mapping.size_def)
qed

text \<open>A full buffer has an oldest trace, which is evicted.\<close>

lemma evicts_oldest:
  assumes "tail_ok s" and "go_range rng" and "ts_maxSize s \<le> Mapping.size (ts_buffer s)"
  shows "\<exists>i b. Mapping.lookup (ts_buffer s) i = Some b \<and>
    (\<forall>j b'. Mapping.lookup (ts_buffer s) j = Some b' \<longrightarrow> tb_firstAt b \<le> tb_firstAt b') \<and>
    evictOldest rng s = ([Reject i], s\<lparr>ts_buffer := Mapping.delete i (ts_buffer s),
                                       ts_decided := Mapping.update i False (ts_decided s)\<rparr>)"
proof -
  let ?m = "ts_buffer s" and ?is = "rng (Mapping.keys (ts_buffer s))"
  have r: "set ?is = Mapping.keys ?m" using assms(2) tail_ok_finite [OF assms(1)] by (simp add: go_range_def)
  have "0 < Mapping.size ?m" using assms(1,3) by (simp add: tail_ok_def)
  then have "?is \<noteq> []" using r by (auto simp: Mapping.size_def)
  then obtain b where "Mapping.lookup ?m (oldest_of ?m ?is) = Some b"
      "\<forall>i \<in> set ?is. \<forall>b'. Mapping.lookup ?m i = Some b' \<longrightarrow> tb_firstAt b \<le> tb_firstAt b'"
    using oldest_of_fold [of ?is ?m zero_time ZeroTraceID] r assms(1) unfolding oldest_of_def tail_ok_def by auto
  moreover have "j \<in> set ?is" if "Mapping.lookup ?m j = Some b'" for j b'
    unfolding r using that by (auto simp: keys_dom_lookup)
  ultimately show ?thesis unfolding evictOldest_def Let_def by (intro exI [of _ "oldest_of ?m ?is"] exI [of _ b]) auto
qed

lemma make_room_ok:
  assumes "tail_ok s" and "go_range rng" and "make_room rng s = (es, s')"
  shows "tail_ok s'" and "Mapping.size (ts_buffer s') < ts_maxSize s'"
    and "held tb_spans (ts_buffer s') \<subseteq># held tb_spans (ts_buffer s)" and "accepted_of es = []"
    and "Mapping.lookup (ts_buffer s') i = Some b \<Longrightarrow> Mapping.lookup (ts_buffer s) i = Some b"
proof -
  note fin = tail_ok_finite [OF assms(1)]
  have "tail_ok s' \<and> Mapping.size (ts_buffer s') < ts_maxSize s' \<and>
      held tb_spans (ts_buffer s') \<subseteq># held tb_spans (ts_buffer s) \<and> accepted_of es = [] \<and>
      (Mapping.lookup (ts_buffer s') i = Some b \<longrightarrow> Mapping.lookup (ts_buffer s) i = Some b)"
  proof (cases "ts_maxSize s \<le> Mapping.size (ts_buffer s)")
    case True
    from evicts_oldest [OF assms(1,2) this] obtain o1 c where
      "Mapping.lookup (ts_buffer s) o1 = Some c" "(es, s') = ([Reject o1], s\<lparr>ts_buffer := Mapping.delete o1 (ts_buffer s),
          ts_decided := Mapping.update o1 False (ts_decided s)\<rparr>)"
      using assms(3) True by (auto simp: make_room_def)
    with size_delete [OF fin this(1)] held_delete [OF fin this(1), of tb_spans] assms(1) show ?thesis
      by (auto simp: tail_ok_def buffers_delete lookup_delete_if accepted_of_def split: if_splits)
  next
    case False
    with assms show ?thesis by (auto simp: make_room_def accepted_of_def)
  qed
  then show "tail_ok s'" "Mapping.size (ts_buffer s') < ts_maxSize s'"
    "held tb_spans (ts_buffer s') \<subseteq># held tb_spans (ts_buffer s)" "accepted_of es = []"
    "Mapping.lookup (ts_buffer s') i = Some b \<Longrightarrow> Mapping.lookup (ts_buffer s) i = Some b" by blast+
qed

lemma AddSpan_ok:
  assumes "tail_ok s" and "go_range rng" and "now \<noteq> zero_time" and "tail_AddSpan rng now sp s = (es, s')"
  shows "tail_ok s'" and "mset (accepted_of es) + held tb_spans (ts_buffer s') \<subseteq># add_mset sp (held tb_spans (ts_buffer s))"
proof -
  let ?i = "gs_traceID sp"
  have "tail_ok s' \<and> mset (accepted_of es) + held tb_spans (ts_buffer s') \<subseteq># add_mset sp (held tb_spans (ts_buffer s))"
  proof (cases "Mapping.lookup (ts_decided s) ?i")
    case (Some keep)
    with assms show ?thesis by (cases keep) (auto simp: tail_AddSpan_def accepted_of_def intro: subset_mset.order_trans)
  next
    case None
    note undecided = this
    show ?thesis
    proof (cases "Mapping.lookup (ts_buffer s) ?i")
      case (Some b)
      then have s': "es = []" "s' = s\<lparr>ts_buffer := Mapping.update ?i (b\<lparr>tb_spans := tb_spans b @ [sp]\<rparr>) (ts_buffer s)\<rparr>"
        using assms(4) undecided by (simp_all add: tail_AddSpan_def)
      have "?i \<in> Mapping.keys (ts_buffer s)" using Some by (auto simp: keys_dom_lookup)
      then have "Mapping.size (ts_buffer s') = Mapping.size (ts_buffer s)"
        by (simp add: s' Mapping.size_def keys_update insert_absorb)
      moreover have "buffers_ok tb_spans (ts_buffer s')"
        using assms(1) Some unfolding s' tail_ok_def by (auto intro: buffers_grow)
      moreover have "held tb_spans (ts_buffer s') = add_mset sp (held tb_spans (ts_buffer s))"
        using held_grow [OF tail_ok_finite [OF assms(1)] Some, of tb_spans "b\<lparr>tb_spans := tb_spans b @ [sp]\<rparr>" "[sp]"] by (simp add: s')
      ultimately show ?thesis using assms(1) Some by (auto simp: tail_ok_def s' accepted_of_def lookup_update_if)
    next
      case None
      obtain es1 s1 where room: "make_room rng s = (es1, s1)" by (cases "make_room rng s")
      note r = make_room_ok [OF assms(1,2) room]
      have s': "es = es1" "s' = s1\<lparr>ts_buffer := Mapping.update ?i \<lparr>tb_spans = [sp], tb_firstAt = now\<rparr> (ts_buffer s1)\<rparr>"
        using assms(4) undecided None room by (simp_all add: tail_AddSpan_def)
      have new: "Mapping.lookup (ts_buffer s1) ?i = None" using r(5) None by (metis not_None_eq)
      have "Mapping.size (ts_buffer s') \<le> ts_maxSize s'"
        using r(2) tail_ok_finite [OF r(1)] by (simp add: s' Mapping.size_def keys_update card_insert_if)
      moreover have "buffers_ok tb_spans (ts_buffer s')"
        using r(1) by (auto simp: tail_ok_def s' intro: buffers_new)
      ultimately show ?thesis
        using r(1,3,4) assms(3) held_new [OF tail_ok_finite [OF r(1)] new, of tb_spans]
        by (auto simp: tail_ok_def s' lookup_update_if)
    qed
  qed
  then show "tail_ok s'" "mset (accepted_of es) + held tb_spans (ts_buffer s') \<subseteq># add_mset sp (held tb_spans (ts_buffer s))"
    by blast+
qed

lemma take_ok:
  assumes "tail_ok s" and "tail_take i s = (r, s')"
  shows "tail_ok s'" and "held tb_spans (ts_buffer s) = mset (case r of None \<Rightarrow> [] | Some ss \<Rightarrow> ss) + held tb_spans (ts_buffer s')"
    and "r = Some ss \<Longrightarrow> one_trace ss \<and> gs_traceID (hd ss) = i"
proof -
  note fin = tail_ok_finite [OF assms(1)]
  show "tail_ok s'" using assms size_delete [OF fin, of i]
    by (auto simp: tail_take_def tail_ok_def buffers_delete lookup_delete_if split: option.splits if_splits)
  show "held tb_spans (ts_buffer s) = mset (case r of None \<Rightarrow> [] | Some ss \<Rightarrow> ss) + held tb_spans (ts_buffer s')"
    using assms(2) held_delete [OF fin, of i _ tb_spans] by (auto simp: tail_take_def split: option.splits)
  show "r = Some ss \<Longrightarrow> one_trace ss \<and> gs_traceID (hd ss) = i"
    using assms by (auto simp: tail_take_def tail_ok_def dest: buffers_batch split: option.splits)
qed

lemma decide_ok: "tail_ok s \<Longrightarrow> tail_decide i ss s = (e, s') \<Longrightarrow> tail_ok s' \<and> ts_buffer s' = ts_buffer s"
  by (auto simp: tail_decide_def recordDecision_def tail_ok_def Let_def)

definition run_ok :: "go_span multiset \<Rightarrow> tail_run \<Rightarrow> bool" where
  "run_ok M r \<longleftrightarrow> tail_ok (tr_sampler r) \<and>
     mset (accepted_of (tr_effects r)) + held tb_spans (ts_buffer (tr_sampler r)) + mset (concat (map snd (tr_taken r))) \<subseteq># M"

lemma mset_remove_nth: "n < length xs \<Longrightarrow> mset (concat (map f xs)) = mset (f (xs ! n)) + mset (concat (map f (remove_nth n xs)))"
  by (subst (1) id_take_nth_drop [of n xs]) (simp_all add: remove_nth_def)

text \<open>The clock does not show the zero time.\<close>

fun timed :: "tail_event \<Rightarrow> bool" where
  "timed (TailSpan now sp) = (now \<noteq> zero_time)"
| "timed e = True"

lemma run_ok_step:
  assumes "run_ok M r" and "go_range rng" and "timed e"
  shows "run_ok (M + mset (tail_arrivals [e])) (tail_step rng e r)"
proof (cases e)
  case (TailSpan now sp)
  obtain es s where add: "tail_AddSpan rng now sp (tr_sampler r) = (es, s)" by (cases "tail_AddSpan rng now sp (tr_sampler r)")
  have "now \<noteq> zero_time" using TailSpan assms(3) by simp
  note a = AddSpan_ok [OF _ assms(2) this add]
  have "tail_ok (tr_sampler r)" using assms(1) by (simp add: run_ok_def)
  then have t: "tail_ok s" and sub: "mset (accepted_of es) + held tb_spans (ts_buffer s) \<subseteq># add_mset sp (held tb_spans (ts_buffer (tr_sampler r)))"
    using a by blast+
  let ?A = "mset (accepted_of (tr_effects r))" and ?T = "mset (concat (map snd (tr_taken r)))"
  have "?A + (mset (accepted_of es) + held tb_spans (ts_buffer s)) + ?T \<subseteq># ?A + add_mset sp (held tb_spans (ts_buffer (tr_sampler r))) + ?T"
    using sub by (intro subset_mset.add_mono) simp_all
  also have "\<dots> \<subseteq># add_mset sp M" using assms(1) by (simp add: run_ok_def add.assoc)
  finally show ?thesis using t by (simp add: TailSpan add run_ok_def tail_arrivals_def accepted_of_def add.assoc)
next
  case (TailTimer i)
  obtain q s where q: "tail_take i (tr_sampler r) = (q, s)" by (cases "tail_take i (tr_sampler r)")
  have "tail_ok (tr_sampler r)" using assms(1) by (simp add: run_ok_def)
  from take_ok(1,2) [OF this q] show ?thesis
    using assms(1) by (cases q) (auto simp: TailTimer q run_ok_def tail_arrivals_def ac_simps)
next
  case (TailDecision n)
  show ?thesis
  proof (cases "n < length (tr_taken r)")
    case True
    obtain i ss where i: "tr_taken r ! n = (i, ss)" by (cases "tr_taken r ! n")
    obtain f s where d: "tail_decide i ss (tr_sampler r) = (f, s)" by (cases "tail_decide i ss (tr_sampler r)")
    have "tail_ok s \<and> ts_buffer s = ts_buffer (tr_sampler r)" using decide_ok [OF _ d] assms(1) by (simp add: run_ok_def)
    moreover have "mset (accepted_of [f]) \<subseteq># mset ss"
      using d by (auto simp: tail_decide_def accepted_of_def Let_def split: if_splits)
    moreover have "mset (concat (map snd (tr_taken r))) = mset ss + mset (concat (map snd (remove_nth n (tr_taken r))))"
      using mset_remove_nth [OF True, of snd] i by simp
    ultimately show ?thesis
      using assms(1) True i d
      by (auto simp: TailDecision run_ok_def tail_arrivals_def accepted_of_def subset_mset.order_trans add.assoc
          intro: subset_mset.order_trans [rotated] elim!: subset_mset.order_trans [rotated])
  next
    case False
    with assms(1) show ?thesis by (simp add: TailDecision tail_arrivals_def)
  qed
qed


lemma run_ok_steps:
  "run_ok M r \<Longrightarrow> go_range rng \<Longrightarrow> list_all timed es \<Longrightarrow>
   run_ok (M + mset (tail_arrivals es)) (fold (tail_step rng) es r)"
proof (induction es arbitrary: M r)
  case (Cons e es)
  have "run_ok (M + mset (tail_arrivals [e])) (tail_step rng e r)"
    using Cons.prems by (intro run_ok_step) auto
  from Cons.IH [OF this Cons.prems(2)] Cons.prems(3) show ?case by (simp add: tail_arrivals_def add.assoc)
qed (simp add: tail_arrivals_def)

lemma run_ok_start: "0 < n \<Longrightarrow> run_ok {#} (tail_start (NewTailSampler t n ps))"
  by (simp add: run_ok_def tail_start_def tail_ok_new accepted_of_def) (simp add: NewTailSampler_def)

lemma step_maxSize: "ts_maxSize (tr_sampler (tail_step rng e r)) = ts_maxSize (tr_sampler r)"
  by (cases e) (auto simp: tail_AddSpan_def make_room_def evictOldest_def tail_take_def tail_decide_def recordDecision_def
      Let_def split: option.splits prod.splits if_splits)

lemma steps_maxSize: "ts_maxSize (tr_sampler (fold (tail_step rng) es r)) = ts_maxSize (tr_sampler r)"
  by (induction es arbitrary: r) (simp_all add: step_maxSize)

lemma evaluate_all_clears:
  "Mapping.keys (ts_buffer (snd (evaluate_all is s))) = Mapping.keys (ts_buffer s) - set is"
proof (induction "is" arbitrary: s)
  case (Cons i "is")
  obtain es s' where e: "evaluateTrace i s = (es, s')" by (cases "evaluateTrace i s")
  have "Mapping.keys (ts_buffer s') = Mapping.keys (ts_buffer s) - {i}"
    using e by (cases "Mapping.lookup (ts_buffer s) i")
      (auto simp: evaluateTrace_def tail_take_def tail_decide_def recordDecision_def Let_def keys_dom_lookup
        lookup_delete_if split: if_splits)
  then show ?case using Cons [of s'] e by (auto simp: case_prod_unfold)
qed simp

subsection \<open>A trace that is kept\<close>

definition of_trace :: "string \<Rightarrow> go_span list \<Rightarrow> go_span list" where
  "of_trace i ss = filter (\<lambda>sp. gs_traceID sp = i) ss"

lemma of_trace_Nil [simp]: "of_trace i [] = []"
  by (simp add: of_trace_def)

lemma of_trace_append [simp]: "of_trace i (xs @ ys) = of_trace i xs @ of_trace i ys"
  by (simp add: of_trace_def)

lemma of_trace_other: "\<forall>sp \<in> set ss. gs_traceID sp = j \<Longrightarrow> j \<noteq> i \<Longrightarrow> of_trace i ss = []"
  by (auto simp: of_trace_def filter_empty_conv)

lemma of_trace_own: "\<forall>sp \<in> set ss. gs_traceID sp = i \<Longrightarrow> of_trace i ss = ss"
  by (simp add: of_trace_def filter_id_conv)

lemma accepted_of_append [simp]: "accepted_of (xs @ ys) = accepted_of xs @ accepted_of ys"
  by (simp add: accepted_of_def)

lemma tail_arrivals_append [simp]: "tail_arrivals (xs @ ys) = tail_arrivals xs @ tail_arrivals ys"
  by (simp add: tail_arrivals_def)

lemma tail_arrivals_Cons: "tail_arrivals (e # es) = tail_arrivals [e] @ tail_arrivals es"
  by (simp add: tail_arrivals_def)

text \<open>
  With no more traces (the ids \<open>ids\<close>) than the buffer has room for, no trace is evicted and no
  decision forgotten.
\<close>

lemma enough_room:
  assumes "finite ids" and "card ids \<le> ts_maxSize s" and "Mapping.keys (ts_buffer s) \<subseteq> ids"
    and "i \<in> ids" and "Mapping.lookup (ts_buffer s) i = None"
  shows "make_room rng s = ([], s)"
proof -
  have "Mapping.keys (ts_buffer s) \<subset> ids" using assms(3-5) by (auto simp: keys_dom_lookup)
  from psubset_card_mono [OF assms(1) this] assms(2) show ?thesis by (simp add: make_room_def Mapping.size_def)
qed

lemma decision_remembered:
  assumes "finite ids" and "card ids \<le> ts_maxSize s" and "Mapping.keys (ts_decided s) \<subseteq> ids" and "i \<in> ids"
  shows "recordDecision i keep s = s\<lparr>ts_decided := Mapping.update i keep (ts_decided s)\<rparr>"
proof -
  have "Mapping.keys (Mapping.update i keep (ts_decided s)) \<subseteq> ids" using assms(3,4) by (auto simp: keys_update)
  from card_mono [OF assms(1) this] assms(2) have "Mapping.size (Mapping.update i keep (ts_decided s)) \<le> 2 * ts_maxSize s"
    by (simp add: Mapping.size_def)
  then show ?thesis by (simp add: recordDecision_def Let_def)
qed

definition sorted_run :: "string \<Rightarrow> tail_policy list \<Rightarrow> string set \<Rightarrow> tail_run \<Rightarrow> bool" where
  "sorted_run i ps ids r \<longleftrightarrow> finite ids \<and> card ids \<le> ts_maxSize (tr_sampler r) \<and> ts_policies (tr_sampler r) = ps \<and>
     Mapping.keys (ts_buffer (tr_sampler r)) \<subseteq> ids \<and> Mapping.keys (ts_decided (tr_sampler r)) \<subseteq> ids \<and>
     (\<forall>j b. Mapping.lookup (ts_buffer (tr_sampler r)) j = Some b \<longrightarrow> (\<forall>sp \<in> set (tb_spans b). gs_traceID sp = j)) \<and>
     (\<forall>x \<in> set (tr_taken r). fst x \<in> ids \<and> fst x \<noteq> i \<and> (\<forall>sp \<in> set (snd x). gs_traceID sp = fst x))"

text \<open>The spans \<open>ss\<close> of a trace that came in: all buffered as long as it is undecided, then all accepted.\<close>

definition undecided :: "string \<Rightarrow> go_span list \<Rightarrow> tail_run \<Rightarrow> bool" where
  "undecided i ss r \<longleftrightarrow> Mapping.lookup (ts_decided (tr_sampler r)) i = None \<and>
     (case Mapping.lookup (ts_buffer (tr_sampler r)) i of None \<Rightarrow> [] | Some b \<Rightarrow> tb_spans b) = ss \<and>
     of_trace i (accepted_of (tr_effects r)) = []"

definition decided_kept :: "string \<Rightarrow> go_span list \<Rightarrow> tail_run \<Rightarrow> bool" where
  "decided_kept i ss r \<longleftrightarrow> Mapping.lookup (ts_decided (tr_sampler r)) i = Some True \<and>
     Mapping.lookup (ts_buffer (tr_sampler r)) i = None \<and> of_trace i (accepted_of (tr_effects r)) = ss"

lemma span_step:
  assumes "sorted_run i ps ids r" and "gs_traceID sp \<in> ids"
  shows "sorted_run i ps ids (tail_step rng (TailSpan now sp) r) \<and>
    (undecided i ss r \<longrightarrow> undecided i (ss @ of_trace i [sp]) (tail_step rng (TailSpan now sp) r)) \<and>
    (decided_kept i ss r \<longrightarrow> decided_kept i (ss @ of_trace i [sp]) (tail_step rng (TailSpan now sp) r))"
proof (cases "Mapping.lookup (ts_decided (tr_sampler r)) (gs_traceID sp)")
  case (Some keep)
  then show ?thesis using assms
    by (auto simp: tail_AddSpan_def sorted_run_def undecided_def decided_kept_def accepted_of_def of_trace_def)
next
  case None
  let ?b = "case Mapping.lookup (ts_buffer (tr_sampler r)) (gs_traceID sp) of
      Some b \<Rightarrow> b\<lparr>tb_spans := tb_spans b @ [sp]\<rparr> | None \<Rightarrow> \<lparr>tb_spans = [sp], tb_firstAt = now\<rparr>"
  let ?s = "(tr_sampler r)\<lparr>ts_buffer := Mapping.update (gs_traceID sp) ?b (ts_buffer (tr_sampler r))\<rparr>"
  have "make_room rng (tr_sampler r) = ([], tr_sampler r)" if "Mapping.lookup (ts_buffer (tr_sampler r)) (gs_traceID sp) = None"
    using enough_room [OF _ _ _ assms(2) that] assms(1) by (simp add: sorted_run_def)
  then have step: "tail_step rng (TailSpan now sp) r = r\<lparr>tr_sampler := ?s\<rparr>"
    using None by (simp add: tail_AddSpan_def split: option.split)
  have "sorted_run i ps ids (r\<lparr>tr_sampler := ?s\<rparr>)"
    using assms by (auto simp: sorted_run_def lookup_update_if keys_update split: option.splits if_splits)
  moreover have "undecided i (ss @ of_trace i [sp]) (r\<lparr>tr_sampler := ?s\<rparr>)" if "undecided i ss r"
    using that by (auto simp: undecided_def of_trace_def lookup_update_if split: option.splits)
  moreover have "decided_kept i (ss @ of_trace i [sp]) (r\<lparr>tr_sampler := ?s\<rparr>)" if "decided_kept i ss r"
    using that None by (auto simp: decided_kept_def of_trace_def lookup_update_if)
  ultimately show ?thesis unfolding step by blast
qed

lemma timer_step:
  assumes "sorted_run i ps ids r"
  shows "j \<noteq> i \<or> decided_kept i ss r \<Longrightarrow> sorted_run i ps ids (tail_step rng (TailTimer j) r)"
    and "undecided i ss r \<Longrightarrow> j \<noteq> i \<Longrightarrow> undecided i ss (tail_step rng (TailTimer j) r)"
    and "decided_kept i ss r \<Longrightarrow> decided_kept i ss (tail_step rng (TailTimer j) r)"
  using assms
  by (auto simp: tail_take_def sorted_run_def undecided_def decided_kept_def lookup_delete_if keys_dom_lookup
      split: option.splits if_splits)

lemma set_remove_nth: "set (remove_nth n xs) \<subseteq> set xs"
  by (auto simp: remove_nth_def dest: in_set_takeD in_set_dropD)

lemma decision_step:
  assumes "sorted_run i ps ids r"
  shows "sorted_run i ps ids (tail_step rng (TailDecision n) r) \<and>
    (undecided i ss r \<longrightarrow> undecided i ss (tail_step rng (TailDecision n) r)) \<and>
    (decided_kept i ss r \<longrightarrow> decided_kept i ss (tail_step rng (TailDecision n) r))"
proof (cases "n < length (tr_taken r)")
  case True
  obtain j tt where x: "tr_taken r ! n = (j, tt)" by (cases "tr_taken r ! n")
  then have "(j, tt) \<in> set (tr_taken r)" using nth_mem [OF True] by simp
  then have j: "j \<in> ids" "j \<noteq> i" "\<forall>sp \<in> set tt. gs_traceID sp = j" using assms by (auto simp: sorted_run_def)
  have rec: "recordDecision j keep (tr_sampler r) =
      (tr_sampler r)\<lparr>ts_decided := Mapping.update j keep (ts_decided (tr_sampler r))\<rparr>" for keep
    using decision_remembered [OF _ _ _ j(1)] assms by (simp add: sorted_run_def)
  have acc: "of_trace i (accepted_of [Accept tt]) = []" using of_trace_other [OF j(3,2)] by (simp add: accepted_of_def)
  show ?thesis using assms j(1,2) acc True set_remove_nth [of n "tr_taken r"]
    by (auto simp: x tail_decide_def Let_def rec sorted_run_def undecided_def decided_kept_def lookup_update_if keys_update
        accepted_of_def subset_iff)
qed (use assms in simp)

definition evaluated :: "string \<Rightarrow> tail_run \<Rightarrow> tail_run" where
  "evaluated i r =
     (case evaluateTrace i (tr_sampler r) of (es, s) \<Rightarrow> r\<lparr>tr_sampler := s, tr_effects := tr_effects r @ es\<rparr>)"

lemma evaluated_kept:
  assumes "sorted_run i ps ids r" and "undecided i ss r" and "ss \<noteq> []" and "keep_trace ps ss (tail_duration ss)"
  shows "sorted_run i ps ids (evaluated i r) \<and> decided_kept i ss (evaluated i r)"
proof -
  obtain b where b: "Mapping.lookup (ts_buffer (tr_sampler r)) i = Some b" "tb_spans b = ss"
    using assms(2,3) by (cases "Mapping.lookup (ts_buffer (tr_sampler r)) i") (auto simp: undecided_def)
  let ?s = "(tr_sampler r)\<lparr>ts_buffer := Mapping.delete i (ts_buffer (tr_sampler r))\<rparr>"
  have i: "i \<in> ids" "\<forall>sp \<in> set ss. gs_traceID sp = i" using assms(1) b by (auto simp: sorted_run_def keys_dom_lookup)
  have rec: "recordDecision i True ?s = ?s\<lparr>ts_decided := Mapping.update i True (ts_decided ?s)\<rparr>"
    by (rule decision_remembered [OF _ _ _ i(1)]) (use assms(1) in \<open>simp_all add: sorted_run_def\<close>)
  have "ts_policies (tr_sampler r) = ps" using assms(1) by (simp add: sorted_run_def)
  then have ev: "evaluated i r = r\<lparr>tr_sampler := ?s\<lparr>ts_decided := Mapping.update i True (ts_decided ?s)\<rparr>,
      tr_effects := tr_effects r @ [Accept ss]\<rparr>"
    using b assms(4) rec by (simp add: evaluated_def evaluateTrace_def tail_take_def tail_decide_def Let_def)
  have "of_trace i (accepted_of (tr_effects r)) = []" using assms(2) by (simp add: undecided_def)
  moreover have "of_trace i (accepted_of [Accept ss]) = ss" using of_trace_own [OF i(2)] by (simp add: accepted_of_def)
  ultimately have "decided_kept i ss (evaluated i r)"
    unfolding ev by (simp add: decided_kept_def lookup_update_if lookup_delete_if)
  moreover have "sorted_run i ps ids (evaluated i r)"
    unfolding ev using assms(1) i(1) by (auto simp: sorted_run_def lookup_delete_if keys_update split: if_splits)
  ultimately show ?thesis by blast
qed

lemma undecided_steps:
  "sorted_run i ps ids r \<Longrightarrow> undecided i ss r \<Longrightarrow> TailTimer i \<notin> set es \<Longrightarrow> gs_traceID ` set (tail_arrivals es) \<subseteq> ids \<Longrightarrow>
   sorted_run i ps ids (fold (tail_step rng) es r) \<and> undecided i (ss @ of_trace i (tail_arrivals es)) (fold (tail_step rng) es r)"
proof (induction es arbitrary: r ss)
  case (Cons e es)
  have "sorted_run i ps ids (tail_step rng e r) \<and> undecided i (ss @ of_trace i (tail_arrivals [e])) (tail_step rng e r)"
  proof (cases e)
    case (TailSpan now sp)
    then show ?thesis using span_step [OF Cons.prems(1), of sp rng now ss] Cons.prems(2,4) by (simp add: tail_arrivals_def)
  next
    case (TailTimer j)
    then show ?thesis using timer_step(1,2) [OF Cons.prems(1)] Cons.prems(2,3)
      by (auto simp: tail_arrivals_def of_trace_def simp del: tail_step.simps)
  next
    case (TailDecision n)
    then show ?thesis using decision_step [OF Cons.prems(1), of rng n ss] Cons.prems(2)
      by (simp add: tail_arrivals_def of_trace_def del: tail_step.simps)
  qed
  with Cons.IH [of "tail_step rng e r" "ss @ of_trace i (tail_arrivals [e])"] Cons.prems(3,4)
  show ?case unfolding tail_arrivals_Cons [of e es] by (simp add: image_Un)
qed (simp add: tail_arrivals_def of_trace_def)

lemma kept_steps:
  "sorted_run i ps ids r \<Longrightarrow> decided_kept i ss r \<Longrightarrow> gs_traceID ` set (tail_arrivals es) \<subseteq> ids \<Longrightarrow>
   decided_kept i (ss @ of_trace i (tail_arrivals es)) (fold (tail_step rng) es r)"
proof (induction es arbitrary: r ss)
  case (Cons e es)
  have "sorted_run i ps ids (tail_step rng e r) \<and> decided_kept i (ss @ of_trace i (tail_arrivals [e])) (tail_step rng e r)"
  proof (cases e)
    case (TailSpan now sp)
    then show ?thesis using span_step [OF Cons.prems(1), of sp rng now ss] Cons.prems(2,3) by (simp add: tail_arrivals_def)
  next
    case (TailTimer j)
    then show ?thesis using timer_step(1,3) [OF Cons.prems(1)] Cons.prems(2)
      by (auto simp: tail_arrivals_def of_trace_def simp del: tail_step.simps)
  next
    case (TailDecision n)
    then show ?thesis using decision_step [OF Cons.prems(1), of rng n ss] Cons.prems(2)
      by (simp add: tail_arrivals_def of_trace_def del: tail_step.simps)
  qed
  with Cons.IH [of "tail_step rng e r" "ss @ of_trace i (tail_arrivals [e])"] Cons.prems(3)
  show ?case unfolding tail_arrivals_Cons [of e es] by (simp add: image_Un)
qed (simp add: tail_arrivals_def of_trace_def)

section \<open>Properties\<close>

text \<open>C10. The buffer never holds more traces than its limit, and no span is accepted twice or made up:
  what was accepted, what is buffered and what waits for its decision together came in once each.
  This holds for every interleaving of arrivals, timers and decisions.\<close>

theorem tail_sampler_is_bounded:
  assumes "0 < maxSize" and "go_range rng" and "list_all timed es"
  shows "let r = fold (tail_step rng) es (tail_start (NewTailSampler timeout maxSize policies))
         in BufferedCount (tr_sampler r) \<le> maxSize \<and>
            mset (accepted_of (tr_effects r)) + held tb_spans (ts_buffer (tr_sampler r)) +
              mset (concat (map snd (tr_taken r))) \<subseteq># mset (tail_arrivals es)"
proof -
  let ?r = "fold (tail_step rng) es (tail_start (NewTailSampler timeout maxSize policies))"
  have "run_ok ({#} + mset (tail_arrivals es)) ?r"
    by (intro run_ok_steps run_ok_start assms)
  moreover have "ts_maxSize (tr_sampler ?r) = maxSize"
    by (simp add: steps_maxSize) (simp add: tail_start_def NewTailSampler_def)
  ultimately show ?thesis unfolding run_ok_def tail_ok_def BufferedCount_def Let_def by simp
qed

definition tail_span :: "string \<Rightarrow> string \<Rightarrow> int \<Rightarrow> go_span" where
  "tail_span i j c = (sample_go_span j ZeroSpanID ''web'' 1)\<lparr>gs_traceID := i, gs_code := c\<rparr>"

theorem tail_sampler_is_bounded_witness:
  "BufferedCount (tr_sampler (fold (tail_step sorted_list_of_set)
     [TailSpan 1 (tail_span ''t'' ''a'' 0), TailSpan 2 (tail_span ''u'' ''b'' 0), TailTimer ''u'']
     (tail_start (NewTailSampler 10 1 [ErrorPolicy])))) \<le> 1"
proof -
  have "go_range sorted_list_of_set" by (simp add: go_range_def)
  from tail_sampler_is_bounded [OF _ this, of 1 "[TailSpan 1 (tail_span ''t'' ''a'' 0), TailSpan 2 (tail_span ''u'' ''b'' 0), TailTimer ''u'']"]
  show ?thesis by (simp add: Let_def zero_time_def del: fold.simps)
qed

text \<open>C31. A trace with an error is kept whole, whatever its duration and id, if the error policy stands
  before every probabilistic one: in every run with no more traces than the buffer has room for, when one of
  a trace's spans has failed before it is evaluated for the first time, and no span of any trace
  arrives in the middle of that evaluation, exactly the spans of the trace that came in are accepted,
  those that came before it and those that come after it, each once and in their order.\<close>

theorem error_traces_are_kept:
  assumes "list_all (\<lambda>p. \<not> (\<exists>r. p = ProbabilisticPolicy r)) before"
    and "TailTimer i \<notin> set early"
    and "list_ex (\<lambda>sp. gs_traceID sp = i \<and> gs_code sp = go_StatusError) (tail_arrivals early)"
    and "card (gs_traceID ` set (tail_arrivals (early @ late))) \<le> maxSize"
  shows "let r = fold (tail_step rng) early (tail_start (NewTailSampler timeout maxSize (before @ ErrorPolicy # after)));
             r' = fold (tail_step rng) late (evaluated i r)
         in of_trace i (accepted_of (tr_effects r')) = of_trace i (tail_arrivals (early @ late))"
proof -
  let ?ps = "before @ ErrorPolicy # after" and ?ids = "gs_traceID ` set (tail_arrivals (early @ late))"
  let ?r0 = "tail_start (NewTailSampler timeout maxSize ?ps)" and ?ss = "of_trace i (tail_arrivals early)"
  have "sorted_run i ?ps ?ids ?r0" "undecided i [] ?r0"
    using assms(4) by (simp_all add: sorted_run_def undecided_def tail_start_def NewTailSampler_def accepted_of_def of_trace_def)
  from undecided_steps [OF this assms(2), of rng]
  have r: "sorted_run i ?ps ?ids (fold (tail_step rng) early ?r0)" "undecided i ?ss (fold (tail_step rng) early ?r0)" by auto
  have err: "list_ex (\<lambda>sp. gs_code sp = go_StatusError) ?ss" using assms(3) by (auto simp: list_ex_iff of_trace_def)
  then have "?ss \<noteq> []" by auto
  moreover have "keep_trace ?ps ?ss (tail_duration ?ss)"
    using assms(1) err by (intro keep_trace_keeps [where reason = "''has_error''"]) simp_all
  ultimately have "sorted_run i ?ps ?ids (evaluated i (fold (tail_step rng) early ?r0))"
    "decided_kept i ?ss (evaluated i (fold (tail_step rng) early ?r0))" using evaluated_kept [OF r] by simp_all
  from kept_steps [OF this, of late rng] show ?thesis by (auto simp: Let_def decided_kept_def)
qed

theorem error_traces_are_kept_witness:
  "let early = [TailSpan 1 (tail_span ''t'' ''a'' 0), TailSpan 2 (tail_span ''u'' ''x'' 0), TailSpan 3 (tail_span ''t'' ''b'' 2)];
       late = [TailTimer ''u'', TailDecision 0, TailSpan 9 (tail_span ''t'' ''c'' 0)];
       r = fold (tail_step sorted_list_of_set) early
             (tail_start (NewTailSampler 10 5 ([LatencyPolicy 500] @ ErrorPolicy # [ProbabilisticPolicy 0])));
       r' = fold (tail_step sorted_list_of_set) late (evaluated ''t'' r)
   in map gs_spanID (of_trace ''t'' (accepted_of (tr_effects r'))) = [''a'', ''b'', ''c'']"
proof -
  let ?early = "[TailSpan 1 (tail_span ''t'' ''a'' 0), TailSpan 2 (tail_span ''u'' ''x'' 0), TailSpan 3 (tail_span ''t'' ''b'' 2)]"
  let ?late = "[TailTimer ''u'', TailDecision 0, TailSpan 9 (tail_span ''t'' ''c'' 0)]"
  have a: "TailTimer ''t'' \<notin> set ?early" "list_all (\<lambda>p. \<not> (\<exists>r. p = ProbabilisticPolicy r)) [LatencyPolicy 500]" by simp_all
  have e: "list_ex (\<lambda>sp. gs_traceID sp = ''t'' \<and> gs_code sp = go_StatusError) (tail_arrivals ?early)"
    and c: "card (gs_traceID ` set (tail_arrivals (?early @ ?late))) \<le> 5"
    and m: "map gs_spanID (of_trace ''t'' (tail_arrivals (?early @ ?late))) = [''a'', ''b'', ''c'']" by code_simp+
  show ?thesis using error_traces_are_kept [OF a(2,1) e c] m by (simp only: Let_def)
qed

text \<open>Stopping decides on every buffered trace and leaves none.\<close>

theorem tail_stop_decides_all:
  assumes "go_range rng" and "tail_ok s"
  shows "BufferedCount (snd (tail_Stop rng s)) = 0"
proof -
  have "set (rng (Mapping.keys (ts_buffer s))) = Mapping.keys (ts_buffer s)"
    using assms(1) tail_ok_finite [OF assms(2)] by (simp add: go_range_def)
  then have "Mapping.keys (ts_buffer (snd (tail_Stop rng s))) = {}" by (simp add: tail_Stop_def evaluate_all_clears)
  then show ?thesis by (simp add: BufferedCount_def Mapping.size_def)
qed

theorem tail_stop_decides_all_witness:
  "BufferedCount (snd (tail_Stop sorted_list_of_set (snd (tail_AddSpan sorted_list_of_set 1 (tail_span ''t'' ''a'' 2)
     (NewTailSampler 10 5 [ErrorPolicy]))))) = 0"
proof (rule tail_stop_decides_all)
  show rng: "go_range sorted_list_of_set" by (simp add: go_range_def)
  show "tail_ok (snd (tail_AddSpan sorted_list_of_set 1 (tail_span ''t'' ''a'' 2) (NewTailSampler 10 5 [ErrorPolicy])))"
    by (rule AddSpan_ok(1) [OF tail_ok_new rng _ prod.collapse [symmetric]]) (simp_all add: zero_time_def)
qed

text \<open>
  What the decided set promises and does not keep: its size is meant to be limited to twice the
  buffer's, but evictions enter it without the check. With room for one trace, each new trace
  evicts the last one, before any timer, and all of them are remembered.
\<close>

theorem evictions_are_not_limited:
  "let s = tr_sampler (fold (tail_step sorted_list_of_set)
             (map (\<lambda>i. TailSpan 1 (tail_span i ''a'' 2)) [''t'', ''u'', ''v'', ''w''])
             (tail_start (NewTailSampler 10 1 [ErrorPolicy])))
   in Mapping.size (ts_decided s) = 3 \<and> Mapping.size (ts_decided s) > 2 * ts_maxSize s"
  by code_simp

text \<open>
  A span that arrives while the decision on its trace is being made starts a buffer of its own and is
  decided alone: one trace is kept in part.
\<close>

theorem late_span_is_decided_alone:
  "let es = [TailSpan 1 (tail_span ''t'' ''a'' 2), TailTimer ''t'', TailSpan 2 (tail_span ''t'' ''b'' 0),
             TailDecision 0, TailTimer ''t'', TailDecision 0];
       r = fold (tail_step sorted_list_of_set) es (tail_start (NewTailSampler 10 5 [ErrorPolicy]))
   in tr_effects r = [Accept [tail_span ''t'' ''a'' 2], Reject ''t'']"
  by code_simp

end
