(* ===== verification/Pipeline.thy ===== *)
theory Pipeline
  imports Analysis TraceApi TailSampler
begin

text \<open>
  The ingestion pipeline of the collector, \<open>api/pipeline.go\<close>: every span of a batch is checked, sampled,
  queued for one of four workers, enriched and handed to the assembler, whose finished traces go to
  the store. It composes the models of the samplers, the assembler, the analysis and the store.

  One operation of the model is what happens under a lock or between two points where goroutines can
  meet: a span of a batch, a worker that takes a span, a worker that is done with it, a timer. The
  calls of \<open>Record\<close> and \<open>Broadcast\<close> are a log of the spans they get. The clock is an argument, each span
  of a batch with the time at which it is looked at and with what other goroutines do before it. Two
  orders within one span are left out: a swap between its look at the sampler and the decision, and a
  worker that enriches the root of its trace in place while the batch goes on.
\<close>

section \<open>Definitions\<close>

subsection \<open>The decisions remembered\<close>

record trace_decision =
  td_result :: sampling_result
  td_expires :: int

record decision_cache =
  dc_entries :: "(string, trace_decision) mapping"
  dc_ttl :: int
  dc_sweepEvery :: int
  dc_lastSweep :: int

definition maxDuration :: "int \<Rightarrow> int \<Rightarrow> int" where
  "maxDuration l r = (if l > r then l else r)"

definition new_cache :: "int \<Rightarrow> decision_cache" where
  "new_cache timeout =
     \<lparr>dc_entries = Mapping.empty, dc_ttl = maxDuration (30 * 10 ^ 9) (timeout * 4),
      dc_sweepEvery = maxDuration (5 * 10 ^ 9) (timeout * 2), dc_lastSweep = zero_time\<rparr>"

definition sweepExpired :: "int \<Rightarrow> decision_cache \<Rightarrow> decision_cache" where
  "sweepExpired now c =
     (if dc_lastSweep c \<noteq> zero_time \<and> go_sub now (dc_lastSweep c) < dc_sweepEvery c then c
      else c\<lparr>dc_entries := Mapping.filter (\<lambda>i d. \<not> now > td_expires d) (dc_entries c), dc_lastSweep := now\<rparr>)"

text \<open>
  \<open>traceSamplingDecisionForSpan\<close>, for a sampler by its \<open>ShouldSample\<close>: a decision that is remembered and
  not expired is used again and kept for longer; otherwise the sampler is asked.
\<close>

definition cached_decision ::
  "(int \<Rightarrow> sampling_parameters \<Rightarrow> 's \<Rightarrow> sampling_result \<times> 's) \<Rightarrow> int \<Rightarrow> string \<Rightarrow> sampling_parameters \<Rightarrow>
   's \<Rightarrow> decision_cache \<Rightarrow> sampling_result \<times> 's \<times> decision_cache" where
  "cached_decision should now i p s c =
     (let c = sweepExpired now c;
          remember = (\<lambda>r. c\<lparr>dc_entries := Mapping.update i \<lparr>td_result = r, td_expires = now + dc_ttl c\<rparr> (dc_entries c)\<rparr>);
          ask = (case should now p s of (r, s') \<Rightarrow> (r, s', remember r))
      in case Mapping.lookup (dc_entries c) i of
           None \<Rightarrow> ask
         | Some d \<Rightarrow> if now < td_expires d then (td_result d, s, remember (td_result d)) else ask)"

definition clearTraceDecision :: "string \<Rightarrow> decision_cache \<Rightarrow> decision_cache" where
  "clearTraceDecision i c = c\<lparr>dc_entries := Mapping.delete i (dc_entries c)\<rparr>"

definition clearAllTraceDecisions :: "decision_cache \<Rightarrow> decision_cache" where
  "clearAllTraceDecisions c = c\<lparr>dc_entries := Mapping.empty, dc_lastSweep := zero_time\<rparr>"

definition samplingParametersFromSpan :: "go_span \<Rightarrow> sampling_parameters" where
  "samplingParametersFromSpan sp =
     \<lparr>sp_traceID = gs_traceID sp, sp_spanID = gs_spanID sp, sp_parentSpanID = gs_parentSpanID sp,
      sp_operation = gs_name sp, sp_service = gs_service sp, sp_kind = gs_kind sp,
      sp_attributes = gs_attributes sp, sp_parentSampled = None\<rparr>"

subsection \<open>State\<close>

datatype active_sampler = Head sampler | Tail tail_sampler

record pipeline =
  pl_sampler :: active_sampler
  pl_cache :: decision_cache
  pl_queue :: "go_span list"
  pl_busy :: "go_span list"
  pl_assembler :: assembler
  pl_timeout :: int
  pl_processed :: "go_span list"
  pl_store :: memory_store
  pl_broadcast :: "go_trace list"
  pl_sampled :: int
  pl_dropped :: int

definition workerCount :: nat where "workerCount = 4"
definition workerQueueDepth :: nat where "workerQueueDepth = 1024"

definition NewPipeline :: "memory_store \<Rightarrow> active_sampler \<Rightarrow> int option \<Rightarrow> pipeline" where
  "NewPipeline store s assemblerTimeout =
     (let timeout = (case assemblerTimeout of Some t \<Rightarrow> if t > 0 then t else 2 * 10 ^ 9 | None \<Rightarrow> 2 * 10 ^ 9)
      in \<lparr>pl_sampler = s, pl_cache = new_cache timeout, pl_queue = [], pl_busy = [], pl_assembler = Mapping.empty,
          pl_timeout = timeout, pl_processed = [], pl_store = store, pl_broadcast = [], pl_sampled = 0, pl_dropped = 0\<rparr>)"

definition NewPipelineWithDefaults :: "memory_store \<Rightarrow> pipeline" where
  "NewPipelineWithDefaults store = NewPipeline store (Head AlwaysSampler) None"

subsection \<open>A span\<close>

definition processSpan :: "int \<Rightarrow> go_span \<Rightarrow> pipeline \<Rightarrow> pipeline" where
  "processSpan now sp st =
     (let sp = Enrich sp
      in st\<lparr>pl_processed := pl_processed st @ [sp], pl_assembler := AddSpan (pl_timeout st) now sp (pl_assembler st),
           pl_sampled := pl_sampled st + 1\<rparr>)"

text \<open>The \<open>accept\<close> and \<open>reject\<close> that \<open>buildSampler\<close> gives a tail sampler.\<close>

fun tail_effects :: "int \<Rightarrow> tail_effect list \<Rightarrow> pipeline \<Rightarrow> pipeline" where
  "tail_effects now [] st = st"
| "tail_effects now (Accept ss # es) st = tail_effects now es (fold (processSpan now) ss st)"
| "tail_effects now (Reject i # es) st = tail_effects now es (st\<lparr>pl_dropped := pl_dropped st + 1\<rparr>)"

text \<open>A full queue makes the caller process the span itself.\<close>

definition submit :: "int \<Rightarrow> go_span \<Rightarrow> pipeline \<Rightarrow> pipeline" where
  "submit now sp st =
     (if length (pl_queue st) < workerQueueDepth then st\<lparr>pl_queue := pl_queue st @ [sp]\<rparr> else processSpan now sp st)"

text \<open>The root of a trace in the batch: the first one to start, the first in the batch of several.\<close>

definition better_root :: "string \<Rightarrow> go_span \<Rightarrow> go_span option \<Rightarrow> go_span option" where
  "better_root i sp rt =
     (if gs_isRoot sp \<and> gs_traceID sp = i
      then (case rt of None \<Rightarrow> Some sp
            | Some r \<Rightarrow> if gs_start sp \<noteq> zero_time \<and> (gs_start r = zero_time \<or> gs_start sp < gs_start r)
                       then Some sp else Some r)
      else rt)"

definition root_of :: "go_span list \<Rightarrow> string \<Rightarrow> go_span option" where
  "root_of ss i = fold (better_root i) ss None"

definition has_ids :: "go_span \<Rightarrow> bool" where
  "has_ids sp \<longleftrightarrow> gs_traceID sp \<noteq> ZeroTraceID \<and> gs_spanID sp \<noteq> ZeroSpanID"

text \<open>The loop's body, with whether the span counts as accepted.\<close>

definition ingest_span ::
  "(string set \<Rightarrow> string list) \<Rightarrow> go_span list \<Rightarrow> int \<Rightarrow> go_span \<Rightarrow> pipeline \<Rightarrow> bool \<times> pipeline" where
  "ingest_span rng batch now sp st =
     (if \<not> has_ids sp then (False, st)
      else case pl_sampler st of
        Tail ts \<Rightarrow>
          (case tail_AddSpan rng now sp ts of (es, ts') \<Rightarrow> (True, tail_effects now es (st\<lparr>pl_sampler := Tail ts'\<rparr>)))
      | Head s \<Rightarrow>
          (let decisionSpan = (case root_of batch (gs_traceID sp) of Some r \<Rightarrow> r | None \<Rightarrow> sp)
           in case cached_decision ShouldSample now (gs_traceID sp) (samplingParametersFromSpan decisionSpan) s (pl_cache st) of
                (r, s', c) \<Rightarrow>
                  (let st' = st\<lparr>pl_sampler := Head s', pl_cache := c\<rparr>
                   in if res_decision r = Drop then (False, st'\<lparr>pl_dropped := pl_dropped st' + 1\<rparr>)
                      else (True, submit now sp st'))))"

subsection \<open>Workers, timers and the sampler\<close>

definition worker_takes :: "pipeline \<Rightarrow> pipeline" where
  "worker_takes st =
     (if length (pl_busy st) < workerCount
      then (case pl_queue st of [] \<Rightarrow> st | sp # q \<Rightarrow> st\<lparr>pl_queue := q, pl_busy := pl_busy st @ [sp]\<rparr>)
      else st)"

definition worker_done :: "int \<Rightarrow> nat \<Rightarrow> pipeline \<Rightarrow> pipeline" where
  "worker_done now n st =
     (if n < length (pl_busy st)
      then processSpan now (pl_busy st ! n) (st\<lparr>pl_busy := remove_nth n (pl_busy st)\<rparr>)
      else st)"

text \<open>The assembler's callback for a finished batch; \<open>Upsert\<close> need not return.\<close>

definition trace_done :: "nat go_sorter \<Rightarrow> int \<Rightarrow> go_span list \<Rightarrow> pipeline \<Rightarrow> pipeline option" where
  "trace_done srt now ss st =
     Option.bind (complete_trace srt now ss) (\<lambda>t.
       map_option (\<lambda>store. st\<lparr>pl_store := store, pl_broadcast := pl_broadcast st @ [t],
                             pl_cache := clearTraceDecision (gt_traceID t) (pl_cache st)\<rparr>)
         (Upsert t (pl_store st)))"

definition assembler_timer :: "nat go_sorter \<Rightarrow> int \<Rightarrow> string \<Rightarrow> pipeline \<Rightarrow> pipeline option" where
  "assembler_timer srt now i st =
     (case finalize i (pl_assembler st) of
        (None, a) \<Rightarrow> Some (st\<lparr>pl_assembler := a\<rparr>)
      | (Some ss, a) \<Rightarrow> trace_done srt now ss (st\<lparr>pl_assembler := a\<rparr>))"

definition tail_timer :: "int \<Rightarrow> string \<Rightarrow> pipeline \<Rightarrow> pipeline" where
  "tail_timer now i st =
     (case pl_sampler st of
        Head s \<Rightarrow> st
      | Tail ts \<Rightarrow> (case evaluateTrace i ts of (es, ts') \<Rightarrow> tail_effects now es (st\<lparr>pl_sampler := Tail ts'\<rparr>)))"

text \<open>
  \<open>Stop\<close> of the sampler that is replaced or left: a tail sampler decides on all it has buffered; an
  adaptive one stops its ticker, the others have none.
\<close>

definition stop_sampler :: "(string set \<Rightarrow> string list) \<Rightarrow> int \<Rightarrow> active_sampler \<Rightarrow> pipeline \<Rightarrow> pipeline" where
  "stop_sampler rng now s st =
     (case s of Head _ \<Rightarrow> st | Tail ts \<Rightarrow> tail_effects now (fst (tail_Stop rng ts)) st)"

definition SwapSampler :: "(string set \<Rightarrow> string list) \<Rightarrow> int \<Rightarrow> active_sampler \<Rightarrow> pipeline \<Rightarrow> pipeline" where
  "SwapSampler rng now s st =
     stop_sampler rng now (pl_sampler st) (st\<lparr>pl_sampler := s, pl_cache := clearAllTraceDecisions (pl_cache st)\<rparr>)"

definition Stats :: "pipeline \<Rightarrow> int \<times> int" where
  "Stats st = (pl_sampled st, pl_dropped st)"

definition QueueDepth :: "pipeline \<Rightarrow> nat" where "QueueDepth st = length (pl_queue st)"
definition QueueCapacity :: "pipeline \<Rightarrow> nat" where "QueueCapacity st = workerQueueDepth"

text \<open>
  \<open>Shutdown\<close>, when its context does not end before: the sampler stops, the workers finish what they
  have and what is queued, and the assembler finalizes what is pending.
\<close>

fun finish_all :: "nat go_sorter \<Rightarrow> int \<Rightarrow> string list \<Rightarrow> pipeline \<Rightarrow> pipeline option" where
  "finish_all srt now [] st = Some st"
| "finish_all srt now (i # is) st = Option.bind (assembler_timer srt now i st) (finish_all srt now is)"

definition drain :: "int \<Rightarrow> pipeline \<Rightarrow> pipeline" where
  "drain now st = fold (processSpan now) (pl_busy st @ pl_queue st) (st\<lparr>pl_busy := [], pl_queue := []\<rparr>)"

definition Shutdown :: "(string set \<Rightarrow> string list) \<Rightarrow> nat go_sorter \<Rightarrow> int \<Rightarrow> pipeline \<Rightarrow> pipeline option" where
  "Shutdown rng srt now st =
     (let st = (case pl_sampler st of
                  Head _ \<Rightarrow> st
                | Tail ts \<Rightarrow> (case tail_Stop rng ts of (es, ts') \<Rightarrow> tail_effects now es (st\<lparr>pl_sampler := Tail ts'\<rparr>)));
          st = drain now st
      in finish_all srt now (rng (Mapping.keys (pl_assembler st))) st)"

subsection \<open>Everything that can happen\<close>

datatype pipeline_event =
    SpanIn "go_span list" int go_span
  | WorkerTakes
  | WorkerDone int nat
  | AssemblerTimer int string
  | TailTimerFires int string
  | Swap int active_sampler

text \<open>A step, with the spans accepted in it; spans of other batches may come between those of one.\<close>

fun pipeline_step ::
  "(string set \<Rightarrow> string list) \<Rightarrow> nat go_sorter \<Rightarrow> pipeline_event \<Rightarrow> pipeline \<Rightarrow> (go_span list \<times> pipeline) option" where
  "pipeline_step rng srt (SpanIn batch now sp) st =
     (case ingest_span rng batch now sp st of (b, st') \<Rightarrow> Some (if b then [sp] else [], st'))"
| "pipeline_step rng srt WorkerTakes st = Some ([], worker_takes st)"
| "pipeline_step rng srt (WorkerDone now n) st = Some ([], worker_done now n st)"
| "pipeline_step rng srt (AssemblerTimer now i) st = map_option (\<lambda>st'. ([], st')) (assembler_timer srt now i st)"
| "pipeline_step rng srt (TailTimerFires now i) st = Some ([], tail_timer now i st)"
| "pipeline_step rng srt (Swap now s) st = Some ([], SwapSampler rng now s st)"

fun pipeline_run ::
  "(string set \<Rightarrow> string list) \<Rightarrow> nat go_sorter \<Rightarrow> pipeline_event list \<Rightarrow> pipeline \<Rightarrow> (go_span list \<times> pipeline) option" where
  "pipeline_run rng srt [] st = Some ([], st)"
| "pipeline_run rng srt (e # es) st =
     (case pipeline_step rng srt e st of
        None \<Rightarrow> None
      | Some (as, st') \<Rightarrow> map_option (\<lambda>(bs, st''). (as @ bs, st'')) (pipeline_run rng srt es st'))"

subsection \<open>A batch\<close>

text \<open>
  The loop over a batch holds no lock between two spans, so each span comes with the events of the other
  goroutines that fall between the span before it and itself: spans of other batches, workers, timers,
  a swap of the sampler. The result is None only if one of these events does not return.
\<close>

fun ingest_loop ::
  "(string set \<Rightarrow> string list) \<Rightarrow> nat go_sorter \<Rightarrow> go_span list \<Rightarrow> (pipeline_event list \<times> int \<times> go_span) list \<Rightarrow>
   pipeline \<Rightarrow> (bool list \<times> pipeline) option" where
  "ingest_loop rng srt batch [] st = Some ([], st)"
| "ingest_loop rng srt batch ((es, now, sp) # xs) st =
     (case pipeline_run rng srt es st of
        None \<Rightarrow> None
      | Some (_, st1) \<Rightarrow>
          (case ingest_span rng batch now sp st1 of (b, st2) \<Rightarrow>
            map_option (\<lambda>(bs, st3). (b # bs, st3)) (ingest_loop rng srt batch xs st2)))"

definition batch_of :: "(pipeline_event list \<times> int \<times> go_span) list \<Rightarrow> go_span list" where
  "batch_of xs = map (\<lambda>(es, now, sp). sp) xs"

definition IngestSpans ::
  "(string set \<Rightarrow> string list) \<Rightarrow> nat go_sorter \<Rightarrow> (pipeline_event list \<times> int \<times> go_span) list \<Rightarrow> pipeline \<Rightarrow>
   ((nat \<times> nat) \<times> pipeline) option" where
  "IngestSpans rng srt xs st =
     map_option (\<lambda>(bs, st'). ((length (filter (\<lambda>b. b) bs), length (filter Not bs)), st'))
       (ingest_loop rng srt (batch_of xs) xs st)"

section \<open>Lemmas\<close>

subsection \<open>The cache\<close>

lemma sweep_lookup: "Mapping.lookup (dc_entries (sweepExpired now c)) i = Some d \<Longrightarrow> Mapping.lookup (dc_entries c) i = Some d"
  by (auto simp: sweepExpired_def lookup_filter split: if_splits option.splits)

lemma sweep_keeps:
  "Mapping.lookup (dc_entries c) i = Some d \<Longrightarrow> now \<le> td_expires d \<Longrightarrow> Mapping.lookup (dc_entries (sweepExpired now c)) i = Some d"
  by (simp add: sweepExpired_def lookup_filter)

lemma sweep_ttl [simp]: "dc_ttl (sweepExpired now c) = dc_ttl c"
  by (simp add: sweepExpired_def)

text \<open>The decision on a trace is remembered until after the given time.\<close>

definition remembered :: "decision_cache \<Rightarrow> string \<Rightarrow> sampling_result \<Rightarrow> int \<Rightarrow> bool" where
  "remembered c i r t \<longleftrightarrow> (\<exists>d. Mapping.lookup (dc_entries c) i = Some d \<and> td_result d = r \<and> t < td_expires d)"

lemma cached_decision_remembers:
  assumes "cached_decision should now i p s c = (r, s', c')" and "t < now + dc_ttl c" and "now \<le> t"
  shows "remembered c' i r t" and "dc_ttl c' = dc_ttl c"
    and "remembered c j rj t \<Longrightarrow> remembered c' j rj t" and "remembered c i ri t \<Longrightarrow> r = ri"
proof -
  have "remembered c' i r t \<and> dc_ttl c' = dc_ttl c \<and> (remembered c i ri t \<longrightarrow> r = ri)"
    using assms sweep_keeps [of c i _ now]
    by (auto simp: cached_decision_def remembered_def Let_def lookup_update_if split: option.splits prod.splits if_splits)
  then show "remembered c' i r t" "dc_ttl c' = dc_ttl c" "remembered c i ri t \<Longrightarrow> r = ri" by blast+
  show "remembered c j rj t \<Longrightarrow> remembered c' j rj t"
    using assms sweep_keeps [of c _ _ now]
    by (cases "j = i") (fastforce simp: cached_decision_def remembered_def Let_def lookup_update_if
        split: option.splits prod.splits if_splits)+
qed


lemma processSpan_frame [simp]:
  "pl_cache (processSpan now sp st) = pl_cache st" "pl_sampler (processSpan now sp st) = pl_sampler st"
  "pl_queue (processSpan now sp st) = pl_queue st" "pl_busy (processSpan now sp st) = pl_busy st"
  "pl_store (processSpan now sp st) = pl_store st" "pl_broadcast (processSpan now sp st) = pl_broadcast st"
  "pl_dropped (processSpan now sp st) = pl_dropped st" "pl_timeout (processSpan now sp st) = pl_timeout st"
  "pl_processed (processSpan now sp st) = pl_processed st @ [Enrich sp]"
  "pl_sampled (processSpan now sp st) = pl_sampled st + 1"
  by (simp_all add: processSpan_def Let_def)

lemma submit_frame [simp]:
  "pl_cache (submit now sp st) = pl_cache st" "pl_sampler (submit now sp st) = pl_sampler st"
  "pl_store (submit now sp st) = pl_store st" "pl_broadcast (submit now sp st) = pl_broadcast st"
  "pl_dropped (submit now sp st) = pl_dropped st"
  by (simp_all add: submit_def)

text \<open>What the loop's body does under a head sampler.\<close>

lemma ingest_head:
  assumes "pl_sampler st = Head s" and "ingest_span rng batch now sp st = (b, st')"
  obtains "\<not> has_ids sp" and "\<not> b" and "st' = st"
  | p r s' c where "has_ids sp" and "p = samplingParametersFromSpan (case root_of batch (gs_traceID sp) of Some r \<Rightarrow> r | None \<Rightarrow> sp)"
    and "cached_decision ShouldSample now (gs_traceID sp) p s (pl_cache st) = (r, s', c)"
    and "b = (res_decision r \<noteq> Drop)"
    and "st' = (if b then submit now sp (st\<lparr>pl_sampler := Head s', pl_cache := c\<rparr>)
                else st\<lparr>pl_sampler := Head s', pl_cache := c, pl_dropped := pl_dropped st + 1\<rparr>)"
proof (cases "has_ids sp")
  case False
  with assms that(1) show thesis by (simp add: ingest_span_def)
next
  case True
  let ?p = "samplingParametersFromSpan (case root_of batch (gs_traceID sp) of Some r \<Rightarrow> r | None \<Rightarrow> sp)"
  obtain r s' c where d: "cached_decision ShouldSample now (gs_traceID sp) ?p s (pl_cache st) = (r, s', c)"
    by (cases "cached_decision ShouldSample now (gs_traceID sp) ?p s (pl_cache st)")
  show thesis by (rule that(2) [OF True refl d]) (use assms True d in \<open>auto simp: ingest_span_def Let_def split: if_splits\<close>)
qed

subsection \<open>Consistent samplers\<close>

context consistent_sampler
begin

definition agreeing :: "(string \<Rightarrow> sampling_result) \<Rightarrow> 's \<Rightarrow> bool" where
  "agreeing v s \<longleftrightarrow> (\<forall>t p. fst (should t p s) = v (sp_traceID p))"

lemma agreeing_exists: "\<exists>v. agreeing v s"
proof
  show "agreeing (\<lambda>i. fst (should 0 (undefined\<lparr>sp_traceID := i\<rparr>) s)) s"
    by (simp add: agreeing_def by_trace)
qed

text \<open>The cache is transparent: its entries are the sampler's own decisions.\<close>

lemma cache_transparent:
  assumes "agreeing v s" and "\<forall>i d. Mapping.lookup (dc_entries c) i = Some d \<longrightarrow> td_result d = v i"
    and "cached_decision should now i p s c = (r, s', c')" and "sp_traceID p = i"
  shows "r = v i" and "s' = s" and "\<forall>i d. Mapping.lookup (dc_entries c') i = Some d \<longrightarrow> td_result d = v i"
proof -
  have ask: "should now p s = (v i, s)" using assms(1,4) should_eq [of now p s now] by (simp add: agreeing_def)
  have old: "td_result d = v j" if "Mapping.lookup (dc_entries (sweepExpired now c)) j = Some d" for j d
    using sweep_lookup [OF that] assms(2) by blast
  have "r = v i \<and> s' = s \<and> (\<forall>i d. Mapping.lookup (dc_entries c') i = Some d \<longrightarrow> td_result d = v i)"
    using assms(3) old
    by (auto simp: cached_decision_def Let_def ask lookup_update_if split: option.splits if_splits)
  then show "r = v i" "s' = s" "\<forall>i d. Mapping.lookup (dc_entries c') i = Some d \<longrightarrow> td_result d = v i" by blast+
qed

end

definition verdict :: "head_sampler \<Rightarrow> string \<Rightarrow> sampling_result" where
  "verdict h i = fst (ShouldSample 0 (sample_params i []) (head_sampler_of h))"

lemma verdict_agrees: "head.agreeing (verdict h) h"
  unfolding head.agreeing_def verdict_def head_ShouldSample_def fst_conv
  by (cases h) (simp_all add: prob_ShouldSample_def sample_params_def)

lemma cached_head:
  "cached_decision ShouldSample now i p (head_sampler_of h) c =
     (case cached_decision head_ShouldSample now i p h c of (r, h', c') \<Rightarrow> (r, head_sampler_of h', c'))"
proof -
  have "ShouldSample now p (head_sampler_of h) = (fst (head_ShouldSample now p h), head_sampler_of h)"
    unfolding head_ShouldSample_def fst_conv by (rule head_unchanged)
  moreover have "snd (head_ShouldSample now p h) = h" by (simp add: head_ShouldSample_def)
  ultimately show ?thesis
    by (simp add: cached_decision_def Let_def case_prod_unfold split: option.splits)
qed

text \<open>The state in which the pipeline decides by the trace id.\<close>

definition decides_by_id :: "head_sampler \<Rightarrow> pipeline \<Rightarrow> bool" where
  "decides_by_id h st \<longleftrightarrow> pl_sampler st = Head (head_sampler_of h) \<and>
     (\<forall>i d. Mapping.lookup (dc_entries (pl_cache st)) i = Some d \<longrightarrow> td_result d = verdict h i)"

lemma root_of_trace: "root_of ss i = Some r \<Longrightarrow> gs_traceID r = i"
proof -
  have step: "pred_option (\<lambda>r. gs_traceID r = i) rt \<Longrightarrow> pred_option (\<lambda>r. gs_traceID r = i) (better_root i sp rt)" for sp rt
    by (auto simp: better_root_def split: option.split)
  have "pred_option (\<lambda>r. gs_traceID r = i) (fold (better_root i) ss rt)" if "pred_option (\<lambda>r. gs_traceID r = i) rt" for rt
    using that by (induction ss arbitrary: rt) (simp_all add: step)
  from this [of None] show "root_of ss i = Some r \<Longrightarrow> gs_traceID r = i" by (simp add: root_of_def)
qed

lemma ingest_by_id:
  assumes "decides_by_id h st" and "ingest_span rng batch now sp st = (b, st')"
  shows "b = (has_ids sp \<and> res_decision (verdict h (gs_traceID sp)) \<noteq> Drop)" and "decides_by_id h st'"
proof -
  have hd: "pl_sampler st = Head (head_sampler_of h)" using assms(1) by (simp add: decides_by_id_def)
  from hd assms(2) have "b = (has_ids sp \<and> res_decision (verdict h (gs_traceID sp)) \<noteq> Drop) \<and> decides_by_id h st'"
  proof (cases rule: ingest_head)
    case 1
    with assms(1) show ?thesis by simp
  next
    case (2 p r s' c)
    have p: "sp_traceID p = gs_traceID sp"
      by (cases "root_of batch (gs_traceID sp)") (auto simp: 2(2) samplingParametersFromSpan_def dest: root_of_trace)
    obtain h' where d: "cached_decision head_ShouldSample now (gs_traceID sp) p h (pl_cache st) = (r, h', c)" "s' = head_sampler_of h'"
      using 2(3) unfolding cached_head by (auto split: prod.splits)
    have old: "\<forall>i d. Mapping.lookup (dc_entries (pl_cache st)) i = Some d \<longrightarrow> td_result d = verdict h i"
      using assms(1) by (simp add: decides_by_id_def)
    note t = head.cache_transparent [OF verdict_agrees old d(1) p]
    have "pl_sampler st' = Head s'" "pl_cache st' = c" using 2(5) by simp_all
    with t d(2) 2(1,4) show ?thesis unfolding decides_by_id_def by simp
  qed
  then show "b = (has_ids sp \<and> res_decision (verdict h (gs_traceID sp)) \<noteq> Drop)" "decides_by_id h st'" by blast+
qed


text \<open>What the other steps leave alone.\<close>

lemma clear_lookup: "Mapping.lookup (dc_entries (clearTraceDecision i c)) j = Some d \<Longrightarrow> Mapping.lookup (dc_entries c) j = Some d"
  by (auto simp: clearTraceDecision_def lookup_delete_if split: if_splits)

lemma trace_done_frame:
  "trace_done srt now ss st = Some st' \<Longrightarrow> pl_sampler st' = pl_sampler st \<and> pl_queue st' = pl_queue st \<and>
     pl_busy st' = pl_busy st \<and> pl_processed st' = pl_processed st \<and> pl_assembler st' = pl_assembler st \<and>
     pl_sampled st' = pl_sampled st \<and> pl_dropped st' = pl_dropped st \<and> pl_timeout st' = pl_timeout st \<and>
     (\<exists>i. pl_cache st' = clearTraceDecision i (pl_cache st))"
  by (auto simp: trace_done_def bind_eq_Some_conv)

lemma assembler_timer_frame:
  assumes "assembler_timer srt now i st = Some st'"
  shows "pl_sampler st' = pl_sampler st \<and> pl_queue st' = pl_queue st \<and> pl_busy st' = pl_busy st \<and>
    pl_processed st' = pl_processed st \<and> pl_assembler st' = snd (finalize i (pl_assembler st)) \<and>
    (pl_cache st' = pl_cache st \<or> (\<exists>i. pl_cache st' = clearTraceDecision i (pl_cache st)))"
  using assms by (auto simp: assembler_timer_def split: prod.splits option.splits dest!: trace_done_frame)

fun swaps :: "pipeline_event \<Rightarrow> bool" where
  "swaps (Swap now s) = True"
| "swaps e = False"

fun offered :: "pipeline_event \<Rightarrow> go_span list" where
  "offered (SpanIn batch now sp) = [sp]"
| "offered e = []"

lemma step_by_id:
  assumes "decides_by_id h st" and "\<not> swaps e" and "pipeline_step rng srt e st = Some (as, st')"
  shows "as = filter (\<lambda>sp. has_ids sp \<and> res_decision (verdict h (gs_traceID sp)) \<noteq> Drop) (offered e)"
    and "decides_by_id h st'"
proof -
  have "as = filter (\<lambda>sp. has_ids sp \<and> res_decision (verdict h (gs_traceID sp)) \<noteq> Drop) (offered e) \<and> decides_by_id h st'"
  proof (cases e)
    case (SpanIn batch now sp)
    then show ?thesis using assms(3) ingest_by_id [OF assms(1), of rng batch now sp] by (auto split: prod.splits)
  next
    case WorkerTakes
    then show ?thesis using assms(1,3) by (auto simp: worker_takes_def decides_by_id_def split: list.splits if_splits)
  next
    case (WorkerDone now n)
    then show ?thesis using assms(1,3) by (auto simp: worker_done_def decides_by_id_def split: if_splits)
  next
    case (AssemblerTimer now i)
    then show ?thesis using assms(1,3) assembler_timer_frame [of srt now i st]
      by (auto simp: decides_by_id_def) (metis clear_lookup)
  next
    case (TailTimerFires now i)
    then show ?thesis using assms(1,3) by (auto simp: tail_timer_def decides_by_id_def)
  qed (use assms(2) in auto)
  then show "as = filter (\<lambda>sp. has_ids sp \<and> res_decision (verdict h (gs_traceID sp)) \<noteq> Drop) (offered e)"
    "decides_by_id h st'" by blast+
qed

lemma run_by_id:
  "decides_by_id h st \<Longrightarrow> \<not> list_ex swaps es \<Longrightarrow> pipeline_run rng srt es st = Some (as, st') \<Longrightarrow>
   as = filter (\<lambda>sp. has_ids sp \<and> res_decision (verdict h (gs_traceID sp)) \<noteq> Drop) (concat (map offered es)) \<and>
   decides_by_id h st'"
proof (induction es arbitrary: st as)
  case (Cons e es)
  obtain bs st1 where step: "pipeline_step rng srt e st = Some (bs, st1)" using Cons.prems(3) by (auto split: option.splits)
  obtain cs where rest: "pipeline_run rng srt es st1 = Some (cs, st')" "as = bs @ cs"
    using Cons.prems(3) step by auto
  have e: "\<not> swaps e" "\<not> list_ex swaps es" using Cons.prems(2) by simp_all
  note s = step_by_id [OF Cons.prems(1) e(1) step]
  from Cons.IH [OF s(2) e(2) rest(1)] s(1) rest(2) show ?case by simp
qed simp

lemma decides_new: "decides_by_id h (NewPipeline store (Head (head_sampler_of h)) t)"
  by (simp add: decides_by_id_def NewPipeline_def new_cache_def Let_def lookup_empty)

subsection \<open>The way of the spans\<close>

text \<open>The spans behind the sampler and before the store, as the enricher leaves them.\<close>

definition handed :: "pipeline \<Rightarrow> go_span multiset" where
  "handed st = image_mset Enrich (mset (pl_queue st) + mset (pl_busy st)) + mset (pl_processed st)"

definition span_key :: "go_span \<Rightarrow> string \<times> string" where
  "span_key sp = (gs_traceID sp, gs_spanID sp)"

definition reported :: "pipeline \<Rightarrow> (string \<times> string) multiset" where
  "reported st = mset (map span_key (concat (map gt_spans (pl_broadcast st))))"

definition flow_ok :: "pipeline \<Rightarrow> bool" where
  "flow_ok st \<longleftrightarrow> assembler_ok (pl_assembler st) \<and> store_inv (pl_store st) \<and> 2 \<le> ms_maxSize (pl_store st) \<and>
     image_mset span_key (mset (pl_processed st)) = reported st + image_mset span_key (pending_spans (pl_assembler st)) \<and>
     pl_sampled st = int (length (pl_processed st))"

lemma flow_process: "flow_ok st \<Longrightarrow> flow_ok (processSpan now sp st)"
  using AddSpan_pending [of "pl_assembler st" "pl_timeout st" now "Enrich sp"]
  by (simp add: flow_ok_def processSpan_def Let_def reported_def)

lemma handed_process: "handed (processSpan now sp st) = add_mset (Enrich sp) (handed st)"
  by (simp add: handed_def)

lemma flow_fold: "flow_ok st \<Longrightarrow> flow_ok (fold (processSpan now) ss st)"
  by (induction ss arbitrary: st) (simp_all add: flow_process)

lemma handed_fold: "handed (fold (processSpan now) ss st) = image_mset Enrich (mset ss) + handed st"
  by (induction ss arbitrary: st) (simp_all add: handed_process)

lemma complete_keys:
  assumes "go_sort srt" and "complete_trace srt now ss = Some t"
  shows "map span_key (gt_spans t) = map span_key ss"
proof -
  obtain u where u: "buildTree srt now ss = Some u" "gt_spans t = gt_spans u"
    using assms(2) by (auto simp: complete_trace_def analyse_def bind_eq_Some_conv)
  show ?thesis unfolding u(2)
  proof (rule nth_equalityI)
    show "length (map span_key (gt_spans u)) = length (map span_key ss)" using buildTree_spans(1) [OF assms(1) u(1)] by simp
  next
    fix i assume "i < length (map span_key (gt_spans u))"
    then have "i < length ss" using buildTree_spans(1) [OF assms(1) u(1)] by simp
    from this buildTree_spans(2) [OF assms(1) u(1) this] buildTree_spans(1) [OF assms(1) u(1)]
    show "map span_key (gt_spans u) ! i = map span_key ss ! i" by (auto simp: span_key_def)
  qed
qed

lemma complete_id: "complete_trace srt now ss = Some t \<Longrightarrow> ss \<noteq> [] \<Longrightarrow> gt_traceID t = gs_traceID (hd ss)"
  by (auto simp: complete_trace_def analyse_def buildTree_def Let_def bind_eq_Some_conv split: option.splits)

lemma flow_timer:
  assumes "go_sort srt" and "flow_ok st"
  shows "\<exists>st'. assembler_timer srt now i st = Some st' \<and> flow_ok st' \<and> handed st' = handed st \<and>
    Mapping.keys (pl_assembler st') = Mapping.keys (pl_assembler st) - {i}"
proof -
  have ok: "assembler_ok (pl_assembler st)" using assms(2) by (simp add: flow_ok_def)
  obtain q a where f: "finalize i (pl_assembler st) = (q, a)" by (cases "finalize i (pl_assembler st)")
  note fin = finalize_pending [OF ok, of i, unfolded f fst_conv snd_conv]
  show ?thesis
  proof (cases q)
    case None
    then show ?thesis using assms(2) f fin by (auto simp: assembler_timer_def flow_ok_def handed_def reported_def)
  next
    case (Some ss)
    obtain t where t: "complete_trace srt now ss = Some t" using complete_trace_returns [OF assms(1)] by blast
    obtain store where store: "Upsert t (pl_store st) = Some store" "store_inv store" "ms_maxSize store = ms_maxSize (pl_store st)"
      using upsert_spec [of "pl_store st" t] assms(2) by (auto simp: flow_ok_def)
    have "image_mset span_key (pending_spans (pl_assembler st)) =
        image_mset span_key (mset ss) + image_mset span_key (pending_spans a)"
      using arg_cong [OF fin(2), of "image_mset span_key"] Some by simp
    moreover have "mset (map span_key (gt_spans t)) = image_mset span_key (mset ss)"
      using complete_keys [OF assms(1) t] by (metis mset_map)
    moreover have "assembler_timer srt now i st = Some (st\<lparr>pl_assembler := a, pl_store := store,
        pl_broadcast := pl_broadcast st @ [t], pl_cache := clearTraceDecision (gt_traceID t) (pl_cache st)\<rparr>)"
      using f Some t store(1) by (simp add: assembler_timer_def trace_done_def)
    ultimately show ?thesis
      using assms(2) fin(1,4) store(2,3) by (simp add: flow_ok_def handed_def reported_def)
  qed
qed


lemma handed_submit: "handed (submit now sp st) = add_mset (Enrich sp) (handed st)"
  by (simp add: submit_def handed_process) (simp add: handed_def)

lemma flow_submit: "flow_ok st \<Longrightarrow> flow_ok (submit now sp st)"
  by (simp add: submit_def flow_process) (simp add: flow_ok_def reported_def)

lemma flow_ingest:
  assumes "flow_ok st" and "pl_sampler st = Head s" and "ingest_span rng batch now sp st = (b, st')"
  shows "flow_ok st'" and "handed st' = image_mset Enrich (mset (if b then [sp] else [])) + handed st"
    and "\<exists>s'. pl_sampler st' = Head s'"
proof -
  from assms(2,3) have "flow_ok st' \<and> handed st' = image_mset Enrich (mset (if b then [sp] else [])) + handed st \<and>
      (\<exists>s'. pl_sampler st' = Head s')"
  proof (cases rule: ingest_head)
    case 1
    with assms show ?thesis by simp
  next
    case (2 p r s' c)
    have "flow_ok (st\<lparr>pl_sampler := Head s', pl_cache := c\<rparr>)"
      "handed (st\<lparr>pl_sampler := Head s', pl_cache := c\<rparr>) = handed st"
      using assms(1) by (simp_all add: flow_ok_def handed_def reported_def)
    with 2(5) show ?thesis
      by (cases b) (simp_all add: flow_submit handed_submit, simp add: flow_ok_def handed_def reported_def)
  qed
  then show "flow_ok st'" "handed st' = image_mset Enrich (mset (if b then [sp] else [])) + handed st"
    "\<exists>s'. pl_sampler st' = Head s'" by blast+
qed

fun to_tail :: "pipeline_event \<Rightarrow> bool" where
  "to_tail (Swap now (Tail ts)) = True"
| "to_tail e = False"

lemma flow_step:
  assumes "go_sort srt" and "flow_ok st" and "pl_sampler st = Head s" and "\<not> to_tail e"
  shows "\<exists>as st'. pipeline_step rng srt e st = Some (as, st') \<and> flow_ok st' \<and>
    handed st' = image_mset Enrich (mset as) + handed st \<and> (\<exists>s'. pl_sampler st' = Head s')"
proof (cases e)
  case (SpanIn batch now sp)
  obtain b st' where step: "ingest_span rng batch now sp st = (b, st')" by (cases "ingest_span rng batch now sp st")
  from flow_ingest [OF assms(2,3) step] show ?thesis by (auto simp: SpanIn step)
next
  case WorkerTakes
  then show ?thesis using assms(2,3)
    by (auto simp: worker_takes_def flow_ok_def handed_def reported_def split: list.split)
next
  case (WorkerDone now n)
  let ?st = "st\<lparr>pl_busy := remove_nth n (pl_busy st)\<rparr>"
  have "flow_ok ?st" using assms(2) by (simp add: flow_ok_def reported_def)
  moreover have "handed st = add_mset (Enrich (pl_busy st ! n)) (handed ?st)" if "n < length (pl_busy st)"
    using mset_remove_nth [OF that, of "\<lambda>x. [x]"] by (simp add: handed_def)
  ultimately show ?thesis using assms(2,3)
    by (auto simp: WorkerDone worker_done_def flow_process handed_process)
next
  case (AssemblerTimer now i)
  from flow_timer [OF assms(1,2), of now i] obtain st' where
    "assembler_timer srt now i st = Some st'" "flow_ok st'" "handed st' = handed st" by blast
  with assembler_timer_frame [OF this(1)] assms(3) show ?thesis by (simp add: AssemblerTimer)
next
  case (TailTimerFires now i)
  then show ?thesis using assms(2,3) by (simp add: tail_timer_def)
next
  case (Swap now s')
  with assms(4) obtain s'' where "s' = Head s''" by (cases s') auto
  with assms(2,3) show ?thesis
    by (simp add: Swap SwapSampler_def stop_sampler_def flow_ok_def handed_def reported_def)
qed

lemma flow_run:
  assumes "go_sort srt"
  shows "flow_ok st \<Longrightarrow> pl_sampler st = Head s \<Longrightarrow> \<not> list_ex to_tail es \<Longrightarrow>
    \<exists>as st'. pipeline_run rng srt es st = Some (as, st') \<and> flow_ok st' \<and>
      handed st' = image_mset Enrich (mset as) + handed st \<and> (\<exists>s'. pl_sampler st' = Head s')"
proof (induction es arbitrary: st s)
  case (Cons e es)
  have e: "\<not> to_tail e" "\<not> list_ex to_tail es" using Cons.prems(3) by simp_all
  from flow_step [OF assms Cons.prems(1,2) e(1)] obtain as st1 s1 where
    1: "pipeline_step rng srt e st = Some (as, st1)" "flow_ok st1" "handed st1 = image_mset Enrich (mset as) + handed st"
      "pl_sampler st1 = Head s1" by blast
  from Cons.IH [OF this(2,4) e(2)] obtain bs st2 s2 where
    "pipeline_run rng srt es st1 = Some (bs, st2)" "flow_ok st2" "handed st2 = image_mset Enrich (mset bs) + handed st1"
      "pl_sampler st2 = Head s2" by blast
  with 1 show ?case by simp
qed simp

lemma flow_finish:
  assumes "go_sort srt"
  shows "flow_ok st \<Longrightarrow> \<exists>st'. finish_all srt now is st = Some st' \<and> flow_ok st' \<and> handed st' = handed st \<and>
    pl_queue st' = pl_queue st \<and> pl_busy st' = pl_busy st \<and>
    Mapping.keys (pl_assembler st') = Mapping.keys (pl_assembler st) - set is"
proof (induction "is" arbitrary: st)
  case (Cons i "is")
  from flow_timer [OF assms Cons.prems, of now i] obtain st1 where
    1: "assembler_timer srt now i st = Some st1" "flow_ok st1" "handed st1 = handed st"
      "Mapping.keys (pl_assembler st1) = Mapping.keys (pl_assembler st) - {i}" by blast
  from Cons.IH [OF this(2)] obtain st2 where
    "finish_all srt now is st1 = Some st2" "flow_ok st2" "handed st2 = handed st1" "pl_queue st2 = pl_queue st1"
      "pl_busy st2 = pl_busy st1" "Mapping.keys (pl_assembler st2) = Mapping.keys (pl_assembler st1) - set is" by blast
  with 1 assembler_timer_frame [OF 1(1)] show ?case by auto
qed simp

lemma flow_shutdown:
  assumes "go_sort srt" and "go_range rng" and "flow_ok st" and "pl_sampler st = Head s"
  shows "\<exists>st'. Shutdown rng srt now st = Some st' \<and> reported st' = image_mset span_key (handed st) \<and>
    pl_sampled st' = int (size (handed st)) \<and> QueueDepth st' = 0 \<and> PendingCount (pl_assembler st') = 0"
proof -
  let ?st0 = "st\<lparr>pl_busy := [], pl_queue := []\<rparr>"
  have "flow_ok ?st0" using assms(3) by (simp add: flow_ok_def reported_def)
  then have d: "flow_ok (drain now st)" by (simp add: drain_def flow_fold)
  have h: "handed (drain now st) = handed st"
    by (simp add: drain_def handed_fold del: fold_append) (simp add: handed_def)
  have e: "pl_queue (drain now st) = []" "pl_busy (drain now st) = []"
  proof -
    have "pl_queue (fold (processSpan now) ss st) = pl_queue st \<and> pl_busy (fold (processSpan now) ss st) = pl_busy st" for ss st
      by (induction ss arbitrary: st) simp_all
    then show "pl_queue (drain now st) = []" "pl_busy (drain now st) = []" by (simp_all add: drain_def del: fold_append)
  qed
  have "finite (Mapping.keys (pl_assembler (drain now st)))"
    using d by (simp add: flow_ok_def assembler_ok_def buffers_ok_def)
  then have r: "set (rng (Mapping.keys (pl_assembler (drain now st)))) = Mapping.keys (pl_assembler (drain now st))"
    using assms(2) by (simp add: go_range_def)
  from flow_finish [OF assms(1) d, of now "rng (Mapping.keys (pl_assembler (drain now st)))"] obtain st' where
    st': "finish_all srt now (rng (Mapping.keys (pl_assembler (drain now st)))) (drain now st) = Some st'"
      "flow_ok st'" "handed st' = handed st" "pl_queue st' = []" "pl_busy st' = []" "Mapping.keys (pl_assembler st') = {}"
    using h e r by auto
  then have "handed st = mset (pl_processed st')" by (simp add: handed_def)
  moreover have "pending_spans (pl_assembler st') = {#}" using st'(6) by (simp add: pending_spans_def held_def)
  ultimately show ?thesis
    using st' assms(4) by (simp add: Shutdown_def Let_def flow_ok_def QueueDepth_def PendingCount_def Mapping.size_def)
qed

lemma flow_new: "n \<noteq> 1 \<Longrightarrow> flow_ok (NewPipeline (NewMemoryStore n) (Head s) t) \<and> handed (NewPipeline (NewMemoryStore n) (Head s) t) = {#}"
  using New_inv [of n]
  by (simp add: flow_ok_def NewPipeline_def handed_def reported_def Let_def assembler_ok_empty) (simp add: NewMemoryStore_def)

text \<open>A timer that finds spans waiting puts the trace of just these spans into the store.\<close>

lemma timer_stores:
  assumes "go_sort srt" and "flow_ok st" and "Mapping.lookup (pl_assembler st) i = Some pt"
  shows "\<exists>st' t. assembler_timer srt now i st = Some st' \<and> Get i (pl_store st') = Some t \<and>
    map span_key (gt_spans t) = map span_key (pt_spans pt)"
proof -
  have ss: "pt_spans pt \<noteq> []" "gs_traceID (hd (pt_spans pt)) = i"
    using assms(2,3) by (auto simp: flow_ok_def assembler_ok_def buffers_ok_def one_trace_def)
  obtain t where t: "complete_trace srt now (pt_spans pt) = Some t" using complete_trace_returns [OF assms(1)] by blast
  obtain store where "Upsert t (pl_store st) = Some store" "Get (gt_traceID t) store = Some t"
    using upsert_spec [of "pl_store st" t] assms(2) by (auto simp: flow_ok_def)
  then show ?thesis using assms(3) t complete_id [OF t ss(1)] ss(2) complete_keys [OF assms(1) t]
    by (simp add: assembler_timer_def finalize_def trace_done_def)
qed

subsection \<open>What a batch can count on\<close>

text \<open>
  The events between two spans of a batch that leave alone the decisions on the traces \<open>ids\<close>, for a
  batch that is looked at until \<open>t\<close>.
\<close>

fun leaves_decisions :: "string set \<Rightarrow> int \<Rightarrow> int \<Rightarrow> pipeline_event \<Rightarrow> bool" where
  "leaves_decisions ids t ttl (SpanIn batch now sp) \<longleftrightarrow> now \<le> t \<and> t < now + ttl"
| "leaves_decisions ids t ttl (AssemblerTimer now i) \<longleftrightarrow> i \<notin> ids"
| "leaves_decisions ids t ttl (Swap now s) \<longleftrightarrow> False"
| "leaves_decisions ids t ttl e \<longleftrightarrow> True"

fun looked_at :: "string set \<Rightarrow> int \<Rightarrow> int \<Rightarrow> pipeline_event list \<times> int \<times> go_span \<Rightarrow> bool" where
  "looked_at ids t ttl (es, now, sp) \<longleftrightarrow> list_all (leaves_decisions ids t ttl) es \<and> now \<le> t \<and> t < now + ttl"

definition keeps_decisions :: "string set \<Rightarrow> int \<Rightarrow> pipeline \<Rightarrow> pipeline \<Rightarrow> bool" where
  "keeps_decisions ids t st st' \<longleftrightarrow> dc_ttl (pl_cache st') = dc_ttl (pl_cache st) \<and>
     (\<forall>i \<in> ids. \<forall>r. remembered (pl_cache st) i r t \<longrightarrow> remembered (pl_cache st') i r t)"

lemma keeps_refl: "pl_cache st' = pl_cache st \<Longrightarrow> keeps_decisions ids t st st'"
  by (simp add: keeps_decisions_def)

lemma keeps_trans: "keeps_decisions ids t st st1 \<Longrightarrow> keeps_decisions ids t st1 st2 \<Longrightarrow> keeps_decisions ids t st st2"
  by (simp add: keeps_decisions_def)

lemma keeps_ingest:
  assumes "pl_sampler st = Head s" and "ingest_span rng batch now sp st = (b, st')"
    and "now \<le> t" and "t < now + dc_ttl (pl_cache st)"
  shows "keeps_decisions ids t st st' \<and>
    (b = (has_ids sp \<and> b)) \<and>
    (has_ids sp \<longrightarrow> (\<exists>r. remembered (pl_cache st') (gs_traceID sp) r t \<and> b = (res_decision r \<noteq> Drop)))"
  using assms(1,2)
proof (cases rule: ingest_head)
  case (2 p r s' c)
  from cached_decision_remembers [OF 2(3) assms(4,3)] 2(1,4,5) show ?thesis
    by (auto simp: keeps_decisions_def)
qed (simp add: keeps_refl)

text \<open>A timer clears only the decision on its own trace.\<close>

lemma timer_clears:
  assumes "assembler_ok (pl_assembler st)" and "assembler_timer srt now i st = Some st'"
  shows "pl_cache st' = pl_cache st \<or> pl_cache st' = clearTraceDecision i (pl_cache st)"
proof (cases "Mapping.lookup (pl_assembler st) i")
  case None
  with assms(2) show ?thesis by (auto simp: assembler_timer_def finalize_def)
next
  case (Some pt)
  let ?ss = "pt_spans pt" let ?st = "st\<lparr>pl_assembler := Mapping.delete i (pl_assembler st)\<rparr>"
  have "?ss \<noteq> []" "gs_traceID (hd ?ss) = i"
    using assms(1) Some by (auto simp: assembler_ok_def buffers_ok_def one_trace_def)
  moreover have "trace_done srt now ?ss ?st = Some st'"
    using assms(2) Some by (simp add: assembler_timer_def finalize_def)
  then obtain u where u: "complete_trace srt now ?ss = Some u" "pl_cache st' = clearTraceDecision (gt_traceID u) (pl_cache st)"
    by (auto simp: trace_done_def bind_eq_Some_conv)
  ultimately have "gt_traceID u = i" by (simp add: complete_id)
  with u(2) show ?thesis by simp
qed

lemma keeps_step:
  assumes "flow_ok st" and "pl_sampler st = Head s" and "pipeline_step rng srt e st = Some (as, st')"
    and "leaves_decisions ids t (dc_ttl (pl_cache st)) e"
  shows "keeps_decisions ids t st st'"
proof (cases e)
  case (SpanIn batch now sp)
  with assms(2-4) show ?thesis using keeps_ingest [of st s rng batch now sp _ st' t ids] by (auto split: prod.splits)
next
  case WorkerTakes
  with assms(3) show ?thesis by (auto simp: worker_takes_def keeps_refl split: list.splits if_splits)
next
  case (WorkerDone now n)
  with assms(3) show ?thesis by (auto simp: worker_done_def keeps_refl split: if_splits)
next
  case (AssemblerTimer now i)
  have "assembler_ok (pl_assembler st)" using assms(1) by (simp add: flow_ok_def)
  from timer_clears [OF this, of srt now i st'] assms(3,4) AssemblerTimer show ?thesis
    by (auto simp: keeps_decisions_def remembered_def clearTraceDecision_def lookup_delete_if)
next
  case (TailTimerFires now i)
  with assms(2,3) show ?thesis by (simp add: tail_timer_def keeps_refl)
qed (use assms(4) in simp)

lemma leaves_no_tail: "leaves_decisions ids t ttl e \<Longrightarrow> \<not> to_tail e"
  by (cases e) simp_all

lemma keeps_run:
  assumes "go_sort srt"
  shows "flow_ok st \<Longrightarrow> pl_sampler st = Head s \<Longrightarrow> list_all (leaves_decisions ids t (dc_ttl (pl_cache st))) es \<Longrightarrow>
    \<exists>as st'. pipeline_run rng srt es st = Some (as, st') \<and> flow_ok st' \<and> (\<exists>s'. pl_sampler st' = Head s') \<and>
      keeps_decisions ids t st st'"
proof (induction es arbitrary: st s)
  case Nil
  then show ?case by (simp add: keeps_refl)
next
  case (Cons e es)
  have e: "leaves_decisions ids t (dc_ttl (pl_cache st)) e" using Cons.prems(3) by simp
  from flow_step [OF assms Cons.prems(1,2) leaves_no_tail [OF e]] obtain as st1 s1 where
    1: "pipeline_step rng srt e st = Some (as, st1)" "flow_ok st1" "pl_sampler st1 = Head s1" by blast
  from keeps_step [OF Cons.prems(1,2) 1(1) e] have k: "keeps_decisions ids t st st1" .
  then have "list_all (leaves_decisions ids t (dc_ttl (pl_cache st1))) es"
    using Cons.prems(3) by (simp add: keeps_decisions_def)
  from Cons.IH [OF 1(2,3) this] 1(1) k show ?case by (auto intro: keeps_trans)
qed

lemma remembered_unique: "remembered c i r t \<Longrightarrow> remembered c i r' t \<Longrightarrow> r = r'"
  by (auto simp: remembered_def)

lemma batch_is_uniform:
  assumes "go_sort srt" and "flow_ok st" and "pl_sampler st = Head s"
    and "list_all (looked_at ids t (dc_ttl (pl_cache st))) xs" and "gs_traceID ` set (batch_of xs) \<subseteq> ids"
  shows "\<exists>keep st'. (\<forall>i \<in> ids. \<forall>r. remembered (pl_cache st) i r t \<longrightarrow> keep i = (res_decision r \<noteq> Drop)) \<and>
    ingest_loop rng srt batch xs st = Some (map (\<lambda>sp. has_ids sp \<and> keep (gs_traceID sp)) (batch_of xs), st')"
  using assms(2-5)
proof (induction xs arbitrary: st s)
  case Nil
  show ?case
    by (intro exI [of _ "\<lambda>i. \<exists>r. remembered (pl_cache st) i r t \<and> res_decision r \<noteq> Drop"])
      (auto simp: batch_of_def dest: remembered_unique)
next
  case (Cons x xs)
  obtain es now sp where x: "x = (es, now, sp)" by (cases x)
  have i: "gs_traceID sp \<in> ids" "gs_traceID ` set (batch_of xs) \<subseteq> ids" using Cons.prems(4) by (simp_all add: x batch_of_def)
  have "list_all (leaves_decisions ids t (dc_ttl (pl_cache st))) es" using Cons.prems(3) by (simp add: x)
  from keeps_run [OF assms(1) Cons.prems(1,2) this, of rng] obtain as st1 s1 where
    run: "pipeline_run rng srt es st = Some (as, st1)" "flow_ok st1" "pl_sampler st1 = Head s1" "keeps_decisions ids t st st1"
    by blast
  obtain b st2 where step: "ingest_span rng batch now sp st1 = (b, st2)" by (cases "ingest_span rng batch now sp st1")
  have t: "now \<le> t" "t < now + dc_ttl (pl_cache st1)" using Cons.prems(3) run(4) by (simp_all add: x keeps_decisions_def)
  from flow_ingest [OF run(2,3) step] obtain s2 where st2: "flow_ok st2" "pl_sampler st2 = Head s2" by blast
  note k = keeps_ingest [OF run(3) step t, of ids]
  then have kept: "keeps_decisions ids t st st2" using keeps_trans [OF run(4)] by blast
  then have "list_all (looked_at ids t (dc_ttl (pl_cache st2))) xs" using Cons.prems(3) by (simp add: keeps_decisions_def)
  from Cons.IH [OF st2 this i(2)] obtain keep st3 where
    keep: "\<forall>i \<in> ids. \<forall>r. remembered (pl_cache st2) i r t \<longrightarrow> keep i = (res_decision r \<noteq> Drop)"
      "ingest_loop rng srt batch xs st2 = Some (map (\<lambda>sp. has_ids sp \<and> keep (gs_traceID sp)) (batch_of xs), st3)" by blast
  have "b = (has_ids sp \<and> keep (gs_traceID sp))" using keep(1) i(1) k by blast
  moreover have "\<forall>i \<in> ids. \<forall>r. remembered (pl_cache st) i r t \<longrightarrow> keep i = (res_decision r \<noteq> Drop)"
    using keep(1) kept by (simp add: keeps_decisions_def)
  ultimately show ?case using keep(2) run(1)
    by (intro exI [of _ keep] exI [of _ st3]) (simp add: x step batch_of_def)
qed

lemma key_Enrich [simp]: "span_key (Enrich sp) = span_key sp"
  by (simp add: span_key_def Enrich_def)


section \<open>Properties\<close>

text \<open>C5. A batch does not split a trace, also when other goroutines run between its spans: after every
  history of a collector with head samplers (and a store of more than one trace), going through a
  batch returns, and its spans with valid ids are accepted or dropped trace by trace. What must not happen
  in between is that the decision on a trace of the batch is forgotten: the sampler is not replaced,
  no timer of the assembler completes a trace of the batch, and from the first look at a span to the
  last passes less than the time for which decisions are remembered.\<close>

theorem batch_never_splits_a_trace:
  assumes "go_sort srt" and "n \<noteq> 1" and "\<not> list_ex to_tail hist"
    and "pipeline_run rng srt hist (NewPipeline (NewMemoryStore n) (Head s) timeout) = Some (as, st)"
    and "list_all (looked_at (gs_traceID ` set (batch_of xs)) t (dc_ttl (pl_cache st))) xs"
  shows "\<exists>keep st'.
    ingest_loop rng srt (batch_of xs) xs st =
      Some (map (\<lambda>sp. has_ids sp \<and> keep (gs_traceID sp)) (batch_of xs), st') \<and>
    IngestSpans rng srt xs st =
      Some ((length (filter (\<lambda>sp. has_ids sp \<and> keep (gs_traceID sp)) (batch_of xs)),
             length (filter (\<lambda>sp. \<not> (has_ids sp \<and> keep (gs_traceID sp))) (batch_of xs))), st')"
proof -
  have "pl_sampler (NewPipeline (NewMemoryStore n) (Head s) timeout) = Head s" by (simp add: NewPipeline_def Let_def)
  from flow_run [OF assms(1) conjunct1 [OF flow_new [OF assms(2)]] this assms(3), of rng] assms(4) obtain s' where
    "flow_ok st" "pl_sampler st = Head s'" by auto
  from batch_is_uniform [OF assms(1) this assms(5) subset_refl, of rng "batch_of xs"] obtain keep st' where
    "ingest_loop rng srt (batch_of xs) xs st = Some (map (\<lambda>sp. has_ids sp \<and> keep (gs_traceID sp)) (batch_of xs), st')"
    by blast
  then show ?thesis by (intro exI [of _ keep] exI [of _ st']) (simp add: IngestSpans_def filter_map o_def)
qed

definition pipeline_span :: "string \<Rightarrow> string \<Rightarrow> string \<Rightarrow> go_span" where
  "pipeline_span i j p = (sample_go_span j p ''web'' 1)\<lparr>gs_traceID := i\<rparr>"

text \<open>Between two spans of a trace that was kept, another batch uses up the limit and a worker runs.\<close>

definition witness_batch :: "(pipeline_event list \<times> int \<times> go_span) list" where
  "witness_batch = [([], 1, pipeline_span ''t'' ''a'' ''b''),
     ([SpanIn [] 2 (pipeline_span ''u'' ''c'' ZeroSpanID), WorkerTakes, WorkerDone 2 0, AssemblerTimer 2 ''u''], 3,
      pipeline_span ''t'' ''b'' ZeroSpanID)]"

definition limited_pipeline :: pipeline where
  "limited_pipeline = NewPipeline (NewMemoryStore 9) (Head (RateLimitSampler (NewRateLimit 0 (1 / 2)))) None"

theorem batch_never_splits_a_trace_witness:
  "let bs = fst (the (ingest_loop sorted_list_of_set insertion_sort (batch_of witness_batch) witness_batch limited_pipeline))
   in bs ! 0 = bs ! 1"
proof -
  have run: "pipeline_run sorted_list_of_set insertion_sort [] limited_pipeline = Some ([], limited_pipeline)" by simp
  have looks: "list_all (looked_at (gs_traceID ` set (batch_of witness_batch)) 3 (dc_ttl (pl_cache limited_pipeline))) witness_batch"
    by code_simp
  from batch_never_splits_a_trace [OF go_sort_insertion _ _ run [unfolded limited_pipeline_def] looks [unfolded limited_pipeline_def]]
  obtain keep st' where
    "ingest_loop sorted_list_of_set insertion_sort (batch_of witness_batch) witness_batch limited_pipeline =
      Some (map (\<lambda>sp. has_ids sp \<and> keep (gs_traceID sp)) (batch_of witness_batch), st')"
    unfolding limited_pipeline_def by auto
  moreover have "map gs_traceID (batch_of witness_batch) = [''t'', ''t'']" "map has_ids (batch_of witness_batch) = [True, True]"
    by code_simp+
  ultimately show ?thesis by (auto simp: Let_def map_eq_Cons_conv)
qed

text \<open>
  The conditions are needed. When the first span of a rate-limited trace is completed by the assembler
  before the loop comes to the second, or the sampler is replaced by one with the same configuration
  whose token another trace takes, the second is decided anew and dropped; without that both are kept.
\<close>

theorem interrupted_batch_splits_a_trace:
  "let a = pipeline_span ''t'' ''a'' ZeroSpanID; b = pipeline_span ''t'' ''b'' ''a'';
       other = SpanIn [] 3 (pipeline_span ''u'' ''c'' ZeroSpanID);
       limit = Head (RateLimitSampler (NewRateLimit 3 (1 / 2)))
   in map (\<lambda>es. map_option fst (IngestSpans sorted_list_of_set insertion_sort [([], 1, a), (es, 4, b)] limited_pipeline))
        [[other], [other, WorkerTakes, WorkerDone 2 0, AssemblerTimer 3 ''t''], [Swap 3 limit, other]] =
      [Some (2, 0), Some (1, 1), Some (1, 1)]"
  by code_simp

text \<open>C6. The memory of the decisions is transparent for the samplers that decide by the trace id: whatever
  batches, workers and timers come in which order, a span is accepted exactly if its ids are
  valid and the sampler keeps its trace. Two collectors with the same configuration keep the same
  traces.\<close>

theorem decision_cache_is_transparent:
  assumes "\<not> list_ex swaps es"
    and "pipeline_run rng srt es (NewPipeline store (Head (head_sampler_of h)) t) = Some (accepted, st)"
  shows "accepted = filter (\<lambda>sp. has_ids sp \<and> res_decision (verdict h (gs_traceID sp)) \<noteq> Drop) (concat (map offered es))"
  using run_by_id [OF decides_new assms] by blast

theorem decision_cache_is_transparent_witness:
  "map_option fst (pipeline_run sorted_list_of_set insertion_sort
     [SpanIn [] 1 (pipeline_span ''00000000000000000000000000000001'' ''a'' ZeroSpanID), WorkerTakes,
      SpanIn [] (10 ^ 12) (pipeline_span ''f0000000000000000000000000000001'' ''b'' ZeroSpanID)]
     (NewPipeline (NewMemoryStore 9) (Head (head_sampler_of (Probabilistic (1 / 2)))) None)) =
   Some [pipeline_span ''00000000000000000000000000000001'' ''a'' ZeroSpanID]"
proof -
  let ?a = "pipeline_span ''00000000000000000000000000000001'' ''a'' ZeroSpanID"
  let ?b = "pipeline_span ''f0000000000000000000000000000001'' ''b'' ZeroSpanID"
  let ?es = "[SpanIn [] 1 ?a, WorkerTakes, SpanIn [] (10 ^ 12) ?b]"
  let ?run = "pipeline_run sorted_list_of_set insertion_sort ?es
     (NewPipeline (NewMemoryStore 9) (Head (head_sampler_of (Probabilistic (1 / 2)))) None)"
  have v: "res_decision (verdict (Probabilistic (1 / 2)) (gs_traceID ?a)) = Sample"
    "res_decision (verdict (Probabilistic (1 / 2)) (gs_traceID ?b)) = Drop" "has_ids ?a" by code_simp+
  have "?run \<noteq> None" by code_simp
  then obtain as st where run: "?run = Some (as, st)" by auto
  have "\<not> list_ex swaps ?es" by simp
  from decision_cache_is_transparent [OF this run] v have "as = [?a]" by simp
  with run show ?thesis by (simp only: option.map fst_conv)
qed

text \<open>C4. No accepted span is lost on the way: with a head sampler, also one that is replaced by another,
  every run of the pipeline returns, and when it is shut down the traces that were reported hold
  exactly the spans that were accepted, each once, and nothing waits anywhere.\<close>

theorem accepted_spans_are_reported:
  assumes "go_sort srt" and "go_range rng" and "n \<noteq> 1" and "\<not> list_ex to_tail es"
  shows "\<exists>accepted st st'. pipeline_run rng srt es (NewPipeline (NewMemoryStore n) (Head s) t) = Some (accepted, st) \<and>
    Shutdown rng srt now st = Some st' \<and> reported st' = mset (map span_key accepted) \<and>
    fst (Stats st') = int (length accepted) \<and> QueueDepth st' = 0 \<and> PendingCount (pl_assembler st') = 0"
proof -
  let ?st = "NewPipeline (NewMemoryStore n) (Head s) t"
  have new: "flow_ok ?st" "handed ?st = {#}" using flow_new [OF assms(3)] by simp_all
  have "pl_sampler ?st = Head s" by (simp add: NewPipeline_def Let_def)
  from flow_run [OF assms(1) new(1) this assms(4), of rng] obtain accepted st s' where
    run: "pipeline_run rng srt es ?st = Some (accepted, st)" "flow_ok st"
      "handed st = image_mset Enrich (mset accepted)" "pl_sampler st = Head s'" using new(2) by auto
  from flow_shutdown [OF assms(1,2) run(2,4), of now] run(1,3) show ?thesis
    by (auto simp: Stats_def image_mset.compositionality o_def)
qed

theorem accepted_spans_are_reported_witness:
  "\<exists>accepted st st'. pipeline_run sorted_list_of_set insertion_sort
     [SpanIn [] 1 (pipeline_span ''t'' ''a'' ZeroSpanID), WorkerTakes, WorkerDone 2 0, AssemblerTimer 9 ''t'',
      SpanIn [] 10 (pipeline_span ''t'' ''b'' ''a'')] (NewPipeline (NewMemoryStore 9) (Head AlwaysSampler) None) = Some (accepted, st) \<and>
   Shutdown sorted_list_of_set insertion_sort 11 st = Some st' \<and> reported st' = mset (map span_key accepted) \<and>
   fst (Stats st') = int (length accepted) \<and> QueueDepth st' = 0 \<and> PendingCount (pl_assembler st') = 0"
  by (rule accepted_spans_are_reported [OF go_sort_insertion]) (simp_all add: go_range_def)

text \<open>
  The sampling rate that the collector reports counts spans that were kept but, under a tail sampler,
  traces that were rejected: of two traces of three spans, one kept, it reports three quarters.
\<close>

theorem tail_rate_mixes_spans_and_traces:
  "let ss = map (\<lambda>j. tail_span ''t'' j 2) [''a'', ''b'', ''c''] @ map (\<lambda>j. tail_span ''u'' j 0) [''d'', ''e'', ''f''];
       st = snd (the (IngestSpans sorted_list_of_set insertion_sort (map (\<lambda>sp. ([], 1, sp)) ss)
              (NewPipeline (NewMemoryStore 9) (Tail (NewTailSampler 10 5 [ErrorPolicy])) None)))
   in Stats (tail_timer 2 ''u'' (tail_timer 2 ''t'' st)) = (3, 1)"
  by code_simp

text \<open>Spans with a zero id are dropped from a batch without being counted.\<close>

theorem zero_ids_are_not_counted:
  "let r = the (IngestSpans sorted_list_of_set insertion_sort [([], 1, pipeline_span ZeroTraceID ''a'' ZeroSpanID)]
             (NewPipelineWithDefaults (NewMemoryStore 9)))
   in fst r = (0, 1) \<and> Stats (snd r) = (0, 0)"
  by code_simp

end
