(* ===== verification/SamplerStatus.thy ===== *)
theory SamplerStatus
  imports Pipeline
begin

text \<open>
  The sampler endpoint of the collector over its pipeline: \<open>HandlePutSampler\<close> builds a sampler and swaps
  it in, \<open>HandleGetSampler\<close> reports its name, its \<open>Config\<close> and the counts. Together with the form of
  the web client this closes the circle from a draft to the draft that is shown after it was sent.
\<close>

section \<open>Definitions\<close>

subsection \<open>Config\<close>

text \<open>The fields of the map; the rates an adaptive sampler reports move its windows on.\<close>

fun sampler_Config :: "int \<Rightarrow> sampler \<Rightarrow> (string \<times> json) list \<times> sampler" where
  "sampler_Config now AlwaysSampler = ([], AlwaysSampler)"
| "sampler_Config now NeverSampler = ([], NeverSampler)"
| "sampler_Config now (ProbabilisticSampler s) = ([(''rate'', JNum (pr_rate s))], ProbabilisticSampler s)"
| "sampler_Config now (RateLimitSampler s) = ([(''tracesPerSec'', JNum (rl_perSec s))], RateLimitSampler s)"
| "sampler_Config now (AdaptiveSampler a) =
     (case sampler_Rate (unix now) (ad_attempts a) of (attempts, aw) \<Rightarrow>
       (case sampler_Rate (unix now) (ad_sampled a) of (sampled, sw) \<Rightarrow>
         ([(''targetRate'', JNum (ad_target a)), (''currentRate'', JNum (pr_rate (ad_inner a))),
           (''minRate'', JNum (ad_min a)), (''maxRate'', JNum (ad_max a)),
           (''attemptRate'', JNum attempts), (''sampledRate'', JNum sampled)],
          AdaptiveSampler (a\<lparr>ad_attempts := aw, ad_sampled := sw\<rparr>))))"
| "sampler_Config now (ParentBasedSampler rt yes no) =
     ([(''root'', JStr (sampler_Name rt)), (''remoteParentSampled'', JStr (sampler_Name yes)),
       (''remoteParentNotSampled'', JStr (sampler_Name no))], ParentBasedSampler rt yes no)"
| "sampler_Config now (RuleBasedSampler rs fallback) =
     ([(''ruleCount'', JNum (of_nat (length rs))), (''fallback'', JStr (sampler_Name fallback))],
      RuleBasedSampler rs fallback)"

definition tail_Config :: "tail_sampler \<Rightarrow> (string \<times> json) list" where
  "tail_Config ts =
     [(''timeoutSec'', JNum (ts_timeout ts)), (''maxSize'', JNum (of_nat (ts_maxSize ts))),
      (''bufferedTraces'', JNum (of_nat (BufferedCount ts)))]"

subsection \<open>The handlers\<close>

definition active_sampler_of :: "rule go_sorter \<Rightarrow> int \<Rightarrow> sampler_spec \<Rightarrow> active_sampler" where
  "active_sampler_of sort_rules now spec =
     (case spec of
        TailBased timeout ps \<Rightarrow> Tail (NewTailSampler timeout 10000 ps)
      | _ \<Rightarrow> (case sampler_of sort_rules now spec of Some s \<Rightarrow> Head s | None \<Rightarrow> Head AlwaysSampler))"

text \<open>The answer to a PUT: the error of a 400, or the type that was asked for.\<close>

definition PutSampler ::
  "(string set \<Rightarrow> string list) \<Rightarrow> rule go_sorter \<Rightarrow> int \<Rightarrow> (string \<times> json) list \<Rightarrow> pipeline \<Rightarrow> (string + string) \<times> pipeline" where
  "PutSampler rng sort_rules now body st =
     (case HandlePutSampler body of
        Inl e \<Rightarrow> (Inl e, st)
      | Inr spec \<Rightarrow> (Inr (case dec_request body of Some req \<Rightarrow> req_type req | None \<Rightarrow> []),
                     SwapSampler rng now (active_sampler_of sort_rules now spec) st))"

definition HandleGetSampler :: "int \<Rightarrow> pipeline \<Rightarrow> SamplerConfig \<times> pipeline" where
  "HandleGetSampler now st =
     (let (sampled, dropped) = Stats st;
          total = sampled + dropped;
          rate = (if total > 0 then of_int sampled / of_int total else 0);
          answer = (\<lambda>nm config. \<lparr>sc_type = nm, sc_config = config,
             stats = \<lparr>sampledTotal = sampled, droppedTotal = dropped, samplingRate = rate\<rparr>\<rparr>)
      in case pl_sampler st of
           Tail ts \<Rightarrow> (answer ''tail'' (tail_Config ts), st)
         | Head s \<Rightarrow> (case sampler_Config now s of (config, s') \<Rightarrow>
             (answer (sampler_Name s) config, st\<lparr>pl_sampler := Head s'\<rparr>)))"

section \<open>Lemmas\<close>

lemma effects_sampler: "pl_sampler (tail_effects now es st) = pl_sampler st"
proof (induction now es st rule: tail_effects.induct)
  case (2 now ss es st)
  have "pl_sampler (fold (processSpan now) ss st) = pl_sampler st" for st
    by (induction ss arbitrary: st) simp_all
  with 2 show ?case by simp
qed simp_all

lemma swap_sampler: "pl_sampler (SwapSampler rng now s st) = s"
  by (simp add: SwapSampler_def stop_sampler_def effects_sampler split: active_sampler.split)

text \<open>What a reported configuration says about the fields of a strategy.\<close>

lemma reported:
  assumes "HandlePutSampler body = Inr spec" and "active_sampler_of sort_rules now spec = Head s"
  shows "sc_type (fst (HandleGetSampler later (snd (PutSampler rng sort_rules now body st)))) = sampler_Name s"
    and "sc_config (fst (HandleGetSampler later (snd (PutSampler rng sort_rules now body st)))) = fst (sampler_Config later s)"
  using assms by (simp_all add: PutSampler_def HandleGetSampler_def Let_def swap_sampler case_prod_unfold)

text \<open>The body of a draft without lists depends on the fields of its strategy only.\<close>

lemmas read_back = buildBody_def draft_from_config_def case_prod_unfold Let_def draft_simps readNumber_def

section \<open>Properties\<close>

text \<open>C7. The circle closes: a valid draft of a strategy without lists, once sent, is reported by the
  collector so that the form shows the same settings again. (For an adaptive strategy the minimum
  must be positive.)\<close>

theorem settings_come_back:
  assumes "form_draft d" and "validateDraft d = None" and "selectedType d \<noteq> ''rules''" and "selectedType d \<noteq> ''tail''"
    and "selectedType d = ''adaptive'' \<longrightarrow> 0 < adaptMin d"
  shows "let g = fst (HandleGetSampler later (snd (PutSampler rng sort_rules now (buildBody d) st)))
         in sc_type g = selectedType d \<and>
            buildBody (fst (draft_from_config (sc_type g) (sc_config g) ids)) = buildBody d"
proof -
  note rep = reported [OF form_accepted [OF assms(1,2)], of sort_rules now _ later rng st]
  from assms(1,3,4) consider "selectedType d = ''always''" | "selectedType d = ''never''"
    | "selectedType d = ''probabilistic''" | "selectedType d = ''ratelimit''" | "selectedType d = ''adaptive''"
    by (auto simp: form_draft_def)
  then show ?thesis
  proof cases
    case 1
    then have "active_sampler_of sort_rules now (draft_meaning d) = Head AlwaysSampler"
      by (simp add: draft_meaning_def active_sampler_of_def)
    from rep [OF this] show ?thesis unfolding Let_def by (simp only:) (simp add: read_back 1)
  next
    case 2
    then have "active_sampler_of sort_rules now (draft_meaning d) = Head NeverSampler"
      by (simp add: draft_meaning_def active_sampler_of_def)
    from rep [OF this] show ?thesis unfolding Let_def by (simp only:) (simp add: read_back 2)
  next
    case 3
    then have "active_sampler_of sort_rules now (draft_meaning d) = Head (ProbabilisticSampler (NewProbabilistic (probRate d)))"
      by (simp add: draft_meaning_def active_sampler_of_def)
    moreover have "pr_rate (NewProbabilistic (probRate d)) = probRate d"
      using assms(2) 3 by (simp add: validateDraft_def out_of_unit_def NewProbabilistic_def Let_def split: if_splits)
    ultimately show ?thesis using rep unfolding Let_def by (simp only:) (simp add: read_back 3)
  next
    case 4
    then have "active_sampler_of sort_rules now (draft_meaning d) = Head (RateLimitSampler (NewRateLimit now (rlTps d)))"
      by (simp add: draft_meaning_def active_sampler_of_def)
    from rep [OF this] show ?thesis unfolding Let_def by (simp only:) (simp add: read_back 4 NewRateLimit_def)
  next
    case 5
    then have "active_sampler_of sort_rules now (draft_meaning d) =
        Head (AdaptiveSampler (NewAdaptive (adaptTarget d) (adaptMin d) (adaptMax d) (5 * 10 ^ 9)))"
      by (simp add: draft_meaning_def active_sampler_of_def)
    from rep [OF this] have r: "sc_type (fst (HandleGetSampler later (snd (PutSampler rng sort_rules now (buildBody d) st)))) = ''adaptive''"
      "sc_config (fst (HandleGetSampler later (snd (PutSampler rng sort_rules now (buildBody d) st)))) =
        fst (sampler_Config later (AdaptiveSampler (NewAdaptive (adaptTarget d) (adaptMin d) (adaptMax d) (5 * 10 ^ 9))))"
      by simp_all
    have "0 < adaptMin d" "adaptMin d \<le> adaptMax d" "adaptMax d \<le> 1"
      using assms(2,5) 5 by (auto simp: validateDraft_def out_of_unit_def split: if_splits)
    then show ?thesis unfolding Let_def r by (simp add: read_back 5 NewAdaptive_def)
  qed
qed

theorem settings_come_back_witness:
  "sc_type (fst (HandleGetSampler (10 ^ 9) (snd (PutSampler sorted_list_of_set insertion_sort 0
     (buildBody (initial_draft\<lparr>selectedType := ''adaptive''\<rparr>)) (NewPipelineWithDefaults (NewMemoryStore 9)))))) = ''adaptive''"
proof -
  have "form_draft (initial_draft\<lparr>selectedType := ''adaptive''\<rparr>)" by (simp add: form_draft_def initial_draft_def)
  moreover have "validateDraft (initial_draft\<lparr>selectedType := ''adaptive''\<rparr>) = None" by code_simp
  ultimately show ?thesis
    using settings_come_back [of "initial_draft\<lparr>selectedType := ''adaptive''\<rparr>"]
    by (simp add: Let_def initial_draft_def)
qed

text \<open>A body that is refused changes nothing.\<close>

theorem refused_sampler_changes_nothing:
  assumes "HandlePutSampler body = Inl e"
  shows "PutSampler rng sort_rules now body st = (Inl e, st)"
  using assms by (simp add: PutSampler_def)

theorem refused_sampler_changes_nothing_witness:
  "PutSampler sorted_list_of_set insertion_sort 0 [(''type'', JStr ''ratelimit''), (''tracesPerSec'', JNum 0)]
     (NewPipelineWithDefaults (NewMemoryStore 9)) = (Inl ''tracesPerSec must be > 0'', NewPipelineWithDefaults (NewMemoryStore 9))"
  by (rule refused_sampler_changes_nothing) code_simp

end
