(* ===== verification/TraceCompare.thy ===== *)
theory TraceCompare
  imports TraceApi "HOL-Library.AList"
begin

text \<open>
  How two traces are compared: \<open>CompareTraces\<close> of \<open>internal/analysis/compare.go\<close> and the handler
  \<open>HandleCompareTraces\<close> of \<open>api/handler_query.go\<close>, whose answer the compare page shows. Spans are
  put into groups by the text of their path from the root; inside a group they are paired in the order
  of time. The walk up to the root is a \<open>partial_function\<close>: that it ends, also where spans are each
  other's parents, is a theorem. \<open>sort.Slice\<close> is a parameter.
\<close>

section \<open>Definitions\<close>

type_synonym parents = "string \<rightharpoonup> go_span"

definition spanSegment :: "go_span \<Rightarrow> string" where
  "spanSegment sp = gs_service sp @ ''/'' @ gs_name sp"

definition spanOrderLess :: "go_span \<Rightarrow> go_span \<Rightarrow> bool" where
  "spanOrderLess l r =
     (if gs_start l \<noteq> gs_start r then gs_start l < gs_start r
      else if gs_end l \<noteq> gs_end r then gs_end l < gs_end r
      else if gs_service l \<noteq> gs_service r then gs_service l < gs_service r
      else if gs_name l \<noteq> gs_name r then gs_name l < gs_name r
      else gs_spanID l < gs_spanID r)"

text \<open>The last of several spans with one id is the one that is found.\<close>

definition parentByID :: "go_span list \<Rightarrow> parents" where
  "parentByID ss = fold (\<lambda>sp m. m(gs_spanID sp \<mapsto> sp)) ss Map.empty"

definition missing_key :: "go_span \<Rightarrow> string" where
  "missing_key sp = ''missing:'' @ gs_parentSpanID sp @ ''>'' @ spanSegment sp"

text \<open>
  The key of a span with the cache of the keys found; \<open>visiting\<close> holds the ids of the calls in
  progress, as each call deletes the id it has entered.
\<close>

partial_function (option) spanMatchKey ::
  "parents \<Rightarrow> string set \<Rightarrow> go_span \<Rightarrow> (string \<rightharpoonup> string) \<Rightarrow> (string \<times> (string \<rightharpoonup> string)) option" where
  "spanMatchKey ps visiting sp cache =
     (case cache (gs_spanID sp) of
        Some found \<Rightarrow> Some (found, cache)
      | None \<Rightarrow>
          if gs_spanID sp \<in> visiting then Some (spanSegment sp, cache)
          else if gs_parentSpanID sp = ZeroSpanID
          then Some (spanSegment sp, cache(gs_spanID sp \<mapsto> spanSegment sp))
          else (case ps (gs_parentSpanID sp) of
                  None \<Rightarrow> Some (missing_key sp, cache(gs_spanID sp \<mapsto> missing_key sp))
                | Some p \<Rightarrow>
                    Option.bind (spanMatchKey ps (insert (gs_spanID sp) visiting) p cache)
                      (\<lambda>(k, c). Some (k @ ''>'' @ spanSegment sp, c(gs_spanID sp \<mapsto> k @ ''>'' @ spanSegment sp)))))"

declare spanMatchKey.simps [code]

type_synonym groups = "(string \<times> go_span list) list"

definition add_to_group :: "string \<Rightarrow> go_span \<Rightarrow> groups \<Rightarrow> groups" where
  "add_to_group k sp gs = AList.map_default k [sp] (\<lambda>g. g @ [sp]) gs"

fun group_spans :: "parents \<Rightarrow> go_span list \<Rightarrow> (string \<rightharpoonup> string) \<Rightarrow> groups \<Rightarrow> groups option" where
  "group_spans ps [] cache gs = Some gs"
| "group_spans ps (sp # ss) cache gs =
     (case spanMatchKey ps {} sp cache of
        None \<Rightarrow> None
      | Some (k, c) \<Rightarrow> group_spans ps ss c (add_to_group k sp gs))"

definition groupSpansForComparison :: "go_span go_sorter \<Rightarrow> go_span list \<Rightarrow> groups option" where
  "groupSpansForComparison srt ss =
     map_option (map (\<lambda>(k, g). (k, srt spanOrderLess g))) (group_spans (parentByID ss) ss Map.empty [])"

text \<open>The lookup in a map of slices: \<open>nil\<close> where the key is missing.\<close>

definition group_of :: "groups \<Rightarrow> string \<Rightarrow> go_span list" where
  "group_of gs k = (case map_of gs k of None \<Rightarrow> [] | Some g \<Rightarrow> g)"

definition delta_ms :: "int \<Rightarrow> int \<Rightarrow> num" where
  "delta_ms c b = of_int c / 10 ^ 6 - of_int b / 10 ^ 6"

definition match_pair :: "go_span \<times> go_span \<Rightarrow> MatchedSpan" where
  "match_pair = (\<lambda>(b, c). \<lparr>baseSpanId = gs_spanID b, compareSpanId = gs_spanID c,
     ms_durationDeltaMs = delta_ms (gs_duration c) (gs_duration b)\<rparr>)"

definition CompareTraces :: "go_span go_sorter \<Rightarrow> go_trace \<Rightarrow> go_trace \<Rightarrow> TraceComparisonDTO option" where
  "CompareTraces srt b c =
     Option.bind (groupSpansForComparison srt (gt_spans b)) (\<lambda>bg.
     Option.bind (groupSpansForComparison srt (gt_spans c)) (\<lambda>cg.
       let keys = sort (remdups (map fst bg @ map fst cg));
           rest = \<lambda>xs ys. map gs_spanID (drop (min (length xs) (length ys)) xs)
       in Some \<lparr>durationDeltaMs = delta_ms (gt_duration c) (gt_duration b),
            spanCountDelta = gt_spanCount c - gt_spanCount b,
            errorDelta = gt_errorCount c - gt_errorCount b,
            matched = concat (map (\<lambda>k. map match_pair (zip (group_of bg k) (group_of cg k))) keys),
            onlyInBase = concat (map (\<lambda>k. rest (group_of bg k) (group_of cg k)) keys),
            onlyInCompare = concat (map (\<lambda>k. rest (group_of cg k) (group_of bg k)) keys)\<rparr>))"

text \<open>The answer or the status of the error; \<open>None\<close> would be a comparison that does not end.\<close>

definition HandleCompareTraces ::
  "go_span go_sorter \<Rightarrow> principal \<Rightarrow> string \<Rightarrow> string \<Rightarrow> memory_store \<Rightarrow> (nat + TraceComparisonDTO) option" where
  "HandleCompareTraces srt p b c s =
     (case (ParseTraceID b, ParseTraceID c) of
        (Inr bi, Inr ci) \<Rightarrow>
          (case (Get bi s, Get ci s) of
             (Some bt, Some ct) \<Rightarrow>
               if \<not> principalCanAccessTenant p (gt_tenantID bt) \<or> \<not> principalCanAccessTenant p (gt_tenantID ct)
               then Some (Inl 404)
               else map_option Inr (CompareTraces srt bt ct)
           | _ \<Rightarrow> Some (Inl 404))
      | _ \<Rightarrow> Some (Inl 400))"

text \<open>The path of a span without the cache, for a trace in which it ends after \<open>n\<close> steps.\<close>

fun path_key :: "nat \<Rightarrow> parents \<Rightarrow> go_span \<Rightarrow> string option" where
  "path_key 0 ps sp = None"
| "path_key (Suc n) ps sp =
     (if gs_parentSpanID sp = ZeroSpanID then Some (spanSegment sp)
      else (case ps (gs_parentSpanID sp) of
              None \<Rightarrow> Some (missing_key sp)
            | Some p \<Rightarrow> map_option (\<lambda>k. k @ ''>'' @ spanSegment sp) (path_key n ps p)))"

section \<open>Lemmas\<close>

subsection \<open>The walk ends\<close>

lemma parentByID_append: "parentByID (ss @ [sp]) = (parentByID ss)(gs_spanID sp \<mapsto> sp)"
  by (simp add: parentByID_def)

lemma parentByID_Some: "parentByID ss i = Some sp \<Longrightarrow> sp \<in> set ss \<and> gs_spanID sp = i"
  by (induction ss rule: rev_induct) (auto simp: parentByID_append parentByID_def split: if_splits)

lemma parentByID_distinct:
  "distinct (map gs_spanID ss) \<Longrightarrow> sp \<in> set ss \<Longrightarrow> parentByID ss (gs_spanID sp) = Some sp"
proof (induction ss rule: rev_induct)
  case (snoc x xs)
  then show ?case by (cases "sp = x") (auto simp: parentByID_append image_iff)
qed simp

text \<open>A call goes on only with an id that is not among those in progress.\<close>

lemma spanMatchKey_returns:
  assumes "finite ids" and "gs_spanID sp \<in> ids" and "\<And>i p. ps i = Some p \<Longrightarrow> gs_spanID p \<in> ids"
  shows "\<exists>r. spanMatchKey ps V sp c = Some r"
  using assms(2)
proof (induction "card (ids - V)" arbitrary: V sp c rule: less_induct)
  case less
  show ?case
  proof (cases "c (gs_spanID sp) = None \<and> gs_spanID sp \<notin> V \<and> gs_parentSpanID sp \<noteq> ZeroSpanID")
    case False
    then show ?thesis by (subst spanMatchKey.simps) (auto split: option.split)
  next
    case True
    show ?thesis
    proof (cases "ps (gs_parentSpanID sp)")
      case None
      with True show ?thesis by (subst spanMatchKey.simps) auto
    next
      case (Some p)
      have "card (ids - insert (gs_spanID sp) V) < card (ids - V)"
        using True less.prems assms(1) by (intro psubset_card_mono) auto
      from less.hyps [OF this assms(3) [OF Some]]
      obtain r where "spanMatchKey ps (insert (gs_spanID sp) V) p c = Some r" by blast
      with True Some show ?thesis by (subst spanMatchKey.simps) (auto split: prod.split)
    qed
  qed
qed

text \<open>Each span is put into one group.\<close>

lemma group_of_add: "group_of (add_to_group k sp gs) k' = group_of gs k' @ (if k' = k then [sp] else [])"
  by (induction gs) (auto simp: group_of_def add_to_group_def)

lemma fst_add_to_group: "fst ` set (add_to_group k sp gs) = insert k (fst ` set gs)"
  by (induction gs) (auto simp: add_to_group_def)

lemma group_spans_keyed:
  assumes "\<And>i p. ps i = Some p \<Longrightarrow> gs_spanID p \<in> ids" and "finite ids" and "gs_spanID ` set ss \<subseteq> ids"
  shows "\<exists>ks gs'. group_spans ps ss c gs = Some gs' \<and> length ks = length ss \<and>
    (\<forall>k. group_of gs' k = group_of gs k @ map snd (filter (\<lambda>x. fst x = k) (zip ks ss))) \<and>
    fst ` set gs' = fst ` set gs \<union> set ks"
  using assms(3)
proof (induction ss arbitrary: c gs)
  case (Cons sp ss)
  have "gs_spanID sp \<in> ids" using Cons.prems by simp
  from spanMatchKey_returns [where ps = ps and V = "{}" and c = c, OF assms(2) this assms(1)]
  obtain k c' where k: "spanMatchKey ps {} sp c = Some (k, c')" by fastforce
  from Cons.prems have "gs_spanID ` set ss \<subseteq> ids" by simp
  from Cons.IH [OF this, of c' "add_to_group k sp gs"]
  obtain ks gs' where r: "group_spans ps ss c' (add_to_group k sp gs) = Some gs'" "length ks = length ss"
    "fst ` set gs' = fst ` set (add_to_group k sp gs) \<union> set ks"
    and of: "\<And>k'. group_of gs' k' = group_of (add_to_group k sp gs) k' @ map snd (filter (\<lambda>x. fst x = k') (zip ks ss))"
    by blast
  have "group_of gs' k' = group_of gs k' @ map snd (filter (\<lambda>x. fst x = k') (zip (k # ks) (sp # ss)))" for k'
    unfolding of group_of_add by simp
  moreover have "fst ` set gs' = fst ` set gs \<union> set (k # ks)" by (simp add: r(3) fst_add_to_group)
  ultimately show ?case
    by (intro exI [of _ "k # ks"] exI [of _ gs'] conjI allI) (simp_all add: k r)
qed simp

lemma group_of_map: "f [] = [] \<Longrightarrow> group_of (map (\<lambda>(k, g). (k, f g)) gs) k = f (group_of gs k)"
  by (induction gs) (auto simp: group_of_def)

lemma go_sort_mset: "go_sort srt \<Longrightarrow> mset (srt lt xs) = mset xs"
  by (simp add: go_sort_def)

lemma groups_partition:
  assumes "go_sort srt"
  obtains gs f where "groupSpansForComparison srt ss = Some gs" and "length f = length ss"
    and "\<And>k. mset (group_of gs k) = mset (map snd (filter (\<lambda>x. fst x = k) (zip f ss)))"
    and "fst ` set gs = set f"
proof -
  have "gs_spanID p \<in> gs_spanID ` set ss" if "parentByID ss i = Some p" for i p
    using parentByID_Some [OF that] by auto
  then obtain ks gs where g: "group_spans (parentByID ss) ss Map.empty [] = Some gs" "length ks = length ss"
    "\<And>k. group_of gs k = group_of [] k @ map snd (filter (\<lambda>x. fst x = k) (zip ks ss))"
    "fst ` set gs = fst ` set ([] :: groups) \<union> set ks"
    using group_spans_keyed [of "parentByID ss" "gs_spanID ` set ss" ss Map.empty "[]"] by auto
  have "srt spanOrderLess [] = []" using go_sort_mset [OF assms, of spanOrderLess "[]"] by simp
  then have "mset (group_of (map (\<lambda>(k, g). (k, srt spanOrderLess g)) gs) k) =
      mset (map snd (filter (\<lambda>x. fst x = k) (zip ks ss)))" for k
    using g(3) [of k] by (subst group_of_map) (simp_all add: go_sort_mset [OF assms] group_of_def)
  moreover have "fst ` set (map (\<lambda>(k, g). (k, srt spanOrderLess g)) gs) = set ks"
    using g(4) by (force simp: image_image case_prod_unfold)
  moreover have "groupSpansForComparison srt ss = Some (map (\<lambda>(k, g). (k, srt spanOrderLess g)) gs)"
    by (simp add: groupSpansForComparison_def g(1))
  ultimately show thesis using g(2) by (intro that [of _ ks]) blast+
qed

lemma mset_by_keys:
  assumes "distinct ks"
  shows "mset (concat (map (\<lambda>k. map snd (filter (\<lambda>x. fst x = k) xs)) ks)) =
    mset (map snd (filter (\<lambda>x. fst x \<in> set ks) xs))"
  using assms
proof (induction ks)
  case (Cons k ks)
  have "mset (map snd (filter (\<lambda>x. fst x = k) xs)) + mset (map snd (filter (\<lambda>x. fst x \<in> set ks) xs)) =
      mset (map snd (filter (\<lambda>x. fst x = k \<or> fst x \<in> set ks) xs))"
    using Cons.prems by (induction xs) auto
  with Cons show ?case by simp
qed simp

lemma mset_concat_cong:
  "(\<And>k. k \<in> set ks \<Longrightarrow> mset (f k) = mset (g k)) \<Longrightarrow> mset (concat (map f ks)) = mset (concat (map g ks))"
  by (induction ks) auto

lemma groups_cover:
  assumes "length f = length ss" and "\<And>k. mset (group_of gs k) = mset (map snd (filter (\<lambda>x. fst x = k) (zip f ss)))"
    and "distinct ks" and "set f \<subseteq> set ks"
  shows "mset (concat (map (\<lambda>k. map gs_spanID (group_of gs k)) ks)) = mset (map gs_spanID ss)"
proof -
  have "mset (concat (map (group_of gs) ks)) =
      mset (concat (map (\<lambda>k. map snd (filter (\<lambda>x. fst x = k) (zip f ss))) ks))"
    by (rule mset_concat_cong) (rule assms(2))
  also have "\<dots> = mset (map snd (filter (\<lambda>x. fst x \<in> set ks) (zip f ss)))" by (rule mset_by_keys [OF assms(3)])
  also have "filter (\<lambda>x. fst x \<in> set ks) (zip f ss) = zip f ss"
    using assms(4) by (auto simp: filter_id_conv dest: set_zip_leftD)
  finally have "mset (concat (map (group_of gs) ks)) = mset ss" by (simp add: assms(1))
  then have "image_mset gs_spanID (mset (concat (map (group_of gs) ks))) = image_mset gs_spanID (mset ss)" by simp
  then show ?thesis by (simp only: mset_map [symmetric] map_concat list.map_comp comp_def)
qed

lemma pairs_and_rest:
  "mset (map baseSpanId (map match_pair (zip xs ys))) + mset (map gs_spanID (drop (min (length xs) (length ys)) xs)) =
   mset (map gs_spanID xs)"
  "mset (map compareSpanId (map match_pair (zip xs ys))) + mset (map gs_spanID (drop (min (length ys) (length xs)) ys)) =
   mset (map gs_spanID ys)"
  by (induction xs ys rule: list_induct2') (auto simp: match_pair_def)

lemma mset_concat_add:
  "(\<And>k. mset (f k) + mset (g k) = mset (h k)) \<Longrightarrow>
   mset (concat (map f ks)) + mset (concat (map g ks)) = mset (concat (map h ks))"
proof (induction ks)
  case (Cons k ks)
  have "mset (concat (map f (k # ks))) + mset (concat (map g (k # ks))) =
      (mset (f k) + mset (g k)) + (mset (concat (map f ks)) + mset (concat (map g ks)))" by simp
  also have "\<dots> = mset (concat (map h (k # ks)))" by (simp add: Cons)
  finally show ?case .
qed simp

subsection \<open>The cache\<close>

lemma path_key_mono: "path_key n ps sp = Some k \<Longrightarrow> n \<le> m \<Longrightarrow> path_key m ps sp = Some k"
proof (induction n arbitrary: m sp k)
  case (Suc n)
  then obtain m' where m: "m = Suc m'" by (cases m) auto
  show ?case
  proof (cases "gs_parentSpanID sp = ZeroSpanID \<or> ps (gs_parentSpanID sp) = None")
    case True
    then show ?thesis using Suc.prems by (auto simp: m)
  next
    case False
    then obtain p where p: "ps (gs_parentSpanID sp) = Some p" "gs_parentSpanID sp \<noteq> ZeroSpanID" by blast
    then obtain k' where "path_key n ps p = Some k'" "k = k' @ ''>'' @ spanSegment sp" using Suc.prems by auto
    with Suc.IH [of p k' m'] Suc.prems(2) p show ?thesis by (simp add: m)
  qed
qed simp

definition cache_ok :: "parents \<Rightarrow> (string \<rightharpoonup> string) \<Rightarrow> bool" where
  "cache_ok ps c \<longleftrightarrow> (\<forall>i k. c i = Some k \<longrightarrow> (\<exists>sp n. ps i = Some sp \<and> path_key n ps sp = Some k))"

lemma cache_ok_update:
  "cache_ok ps c \<Longrightarrow> ps i = Some sp \<Longrightarrow> path_key n ps sp = Some k \<Longrightarrow> cache_ok ps (c(i \<mapsto> k))"
  by (auto simp: cache_ok_def)

lemma path_key_unique: "path_key n ps sp = Some k \<Longrightarrow> path_key m ps sp = Some k' \<Longrightarrow> k = k'"
  using path_key_mono [of n ps sp k "max n m"] path_key_mono [of m ps sp k' "max n m"] by simp

lemma cached_path:
  "cache_ok ps c \<Longrightarrow> c (gs_spanID sp) = Some k' \<Longrightarrow> ps (gs_spanID sp) = Some sp \<Longrightarrow> path_key n ps sp = Some k \<Longrightarrow> k' = k"
  unfolding cache_ok_def using path_key_unique by fastforce

text \<open>A span whose path has \<open>n + 1\<close> segments: those in progress are further from the root.\<close>

lemma spanMatchKey_path:
  assumes "path_key (Suc n) ps sp = Some k" and "path_key n ps sp = None" and "ps (gs_spanID sp) = Some sp"
    and "\<And>i p. ps i = Some p \<Longrightarrow> gs_spanID p = i"
    and "\<And>v. v \<in> V \<Longrightarrow> \<exists>s. ps v = Some s \<and> path_key (Suc n) ps s = None" and "cache_ok ps c"
  shows "\<exists>c'. spanMatchKey ps V sp c = Some (k, c') \<and> cache_ok ps c'"
  using assms(1-3,5,6)
proof (induction n arbitrary: sp k V c)
  case (Suc n)
  show ?case
  proof (cases "c (gs_spanID sp)")
    case (Some k')
    then have "k' = k" by (rule cached_path [OF Suc.prems(5) _ Suc.prems(3,1)])
    then show ?thesis using Some Suc.prems(5) by (subst spanMatchKey.simps) simp
  next
    case None
    have notin: "gs_spanID sp \<notin> V" using Suc.prems(1,3,4) by fastforce
    from Suc.prems(1,2) obtain p k' where p: "gs_parentSpanID sp \<noteq> ZeroSpanID" "ps (gs_parentSpanID sp) = Some p"
      "path_key (Suc n) ps p = Some k'" "k = k' @ ''>'' @ spanSegment sp" "path_key n ps p = None"
      by (fastforce split: if_splits option.splits)
    have "ps (gs_spanID p) = Some p" using assms(4) [OF p(2)] p(2) by simp
    moreover have "\<exists>s. ps v = Some s \<and> path_key (Suc n) ps s = None" if v: "v \<in> insert (gs_spanID sp) V" for v
    proof (cases "v = gs_spanID sp")
      case False
      then obtain s where "ps v = Some s" "path_key (Suc (Suc n)) ps s = None" using v Suc.prems(4) by auto
      then show ?thesis using path_key_mono [of "Suc n" ps s _ "Suc (Suc n)"] by (cases "path_key (Suc n) ps s") auto
    qed (use Suc.prems(2,3) in blast)
    ultimately obtain c' where c': "spanMatchKey ps (insert (gs_spanID sp) V) p c = Some (k', c')" "cache_ok ps c'"
      using Suc.IH [OF p(3,5)] Suc.prems(5) by blast
    have "cache_ok ps (c'(gs_spanID sp \<mapsto> k))" by (rule cache_ok_update [OF c'(2) Suc.prems(3,1)])
    then show ?thesis using None notin p c'(1) by (subst spanMatchKey.simps) simp
  qed
next
  case 0
  show ?case
  proof (cases "c (gs_spanID sp)")
    case (Some k')
    then have "k' = k" by (rule cached_path [OF 0(5) _ 0(3,1)])
    then show ?thesis using Some 0(5) by (subst spanMatchKey.simps) simp
  next
    case None
    have notin: "gs_spanID sp \<notin> V" using 0(1,3,4) by fastforce
    have "cache_ok ps (c(gs_spanID sp \<mapsto> k))" by (rule cache_ok_update [OF 0(5,3,1)])
    then show ?thesis using None notin 0(1) by (subst spanMatchKey.simps) (auto split: if_splits option.splits)
  qed
qed

definition path_of :: "go_span list \<Rightarrow> go_span \<Rightarrow> string option" where
  "path_of ss sp = path_key (length ss) (parentByID ss) sp"

text \<open>No two spans have the same id, and every path ends.\<close>

definition proper_spans :: "go_span list \<Rightarrow> bool" where
  "proper_spans ss \<longleftrightarrow> distinct (map gs_spanID ss) \<and> list_all (\<lambda>sp. path_of ss sp \<noteq> None) ss"

lemma spanMatchKey_is_path:
  assumes "proper_spans ss" and "sp \<in> set ss" and "cache_ok (parentByID ss) c"
  obtains k c' where "spanMatchKey (parentByID ss) {} sp c = Some (k, c')" and "path_of ss sp = Some k"
    and "cache_ok (parentByID ss) c'"
proof -
  obtain k where k: "path_of ss sp = Some k" using assms(1,2) by (auto simp: proper_spans_def list_all_iff)
  let ?P = "\<lambda>n. path_key n (parentByID ss) sp \<noteq> None"
  have "?P (length ss)" "\<not> ?P 0" using k by (simp_all add: path_of_def)
  then obtain n where n: "n < length ss" "\<not> ?P n" "?P (Suc n)"
    using ex_least_nat_less [of ?P "length ss"] by auto
  then obtain k' where "path_key (Suc n) (parentByID ss) sp = Some k'" by blast
  with path_key_unique [OF this] k have "path_key (Suc n) (parentByID ss) sp = Some k" by (simp add: path_of_def)
  moreover have "parentByID ss (gs_spanID sp) = Some sp"
    using assms(1,2) by (simp add: proper_spans_def parentByID_distinct)
  moreover have "path_key n (parentByID ss) sp = None" using n(2) by simp
  moreover have "gs_spanID p = i" if "parentByID ss i = Some p" for i p using parentByID_Some [OF that] by simp
  ultimately have "\<exists>c'. spanMatchKey (parentByID ss) {} sp c = Some (k, c') \<and> cache_ok (parentByID ss) c'"
    using assms(3) by (intro spanMatchKey_path) blast+
  with that k show thesis by blast
qed

definition groups_ok :: "go_span list \<Rightarrow> groups \<Rightarrow> bool" where
  "groups_ok ss gs \<longleftrightarrow> (\<forall>k. \<forall>sp \<in> set (group_of gs k). sp \<in> set ss \<and> path_of ss sp = Some k)"

lemma group_spans_ok:
  assumes "proper_spans ss" and "set ss' \<subseteq> set ss" and "cache_ok (parentByID ss) c" and "groups_ok ss gs"
    and "group_spans (parentByID ss) ss' c gs = Some gs'"
  shows "groups_ok ss gs'"
  using assms(2-)
proof (induction ss' arbitrary: c gs)
  case (Cons sp ss')
  then have sp: "sp \<in> set ss" by simp
  obtain k c' where k: "spanMatchKey (parentByID ss) {} sp c = Some (k, c')" "path_of ss sp = Some k"
    "cache_ok (parentByID ss) c'"
    by (rule spanMatchKey_is_path [OF assms(1) sp Cons.prems(2)])
  have "groups_ok ss (add_to_group k sp gs)"
    using Cons.prems(3) k(2) sp by (auto simp: groups_ok_def group_of_add)
  with Cons.IH [OF _ k(3)] Cons.prems k(1) show ?case by simp
qed simp

lemma groupSpans_ok:
  assumes "go_sort srt" and "proper_spans ss" and "groupSpansForComparison srt ss = Some gs"
  shows "groups_ok ss gs"
proof -
  obtain gs' where g: "group_spans (parentByID ss) ss Map.empty [] = Some gs'"
    "gs = map (\<lambda>(k, g). (k, srt spanOrderLess g)) gs'"
    using assms(3) by (auto simp: groupSpansForComparison_def)
  have "groups_ok ss gs'"
    by (rule group_spans_ok [OF assms(2) _ _ _ g(1)]) (simp_all add: cache_ok_def groups_ok_def group_of_def)
  moreover have set: "set (srt spanOrderLess xs) = set xs" for xs by (metis go_sort_mset [OF assms(1)] set_mset_mset)
  then have "srt spanOrderLess [] = []" by (metis set_empty)
  ultimately show ?thesis by (simp add: groups_ok_def g(2) group_of_map set)
qed

lemma CompareTraces_returns:
  assumes "go_sort srt"
  shows "\<exists>r. CompareTraces srt b c = Some r"
proof -
  obtain bg where "groupSpansForComparison srt (gt_spans b) = Some bg"
    using groups_partition [OF assms, of "gt_spans b"] by metis
  moreover obtain cg where "groupSpansForComparison srt (gt_spans c) = Some cg"
    using groups_partition [OF assms, of "gt_spans c"] by metis
  ultimately show ?thesis by (simp add: CompareTraces_def Let_def)
qed

lemma matched_paths:
  assumes "go_sort srt" and "proper_spans (gt_spans b)" and "proper_spans (gt_spans c)"
    and "CompareTraces srt b c = Some r"
  shows "(\<forall>m \<in> set (matched r). \<exists>x \<in> set (gt_spans b). \<exists>y \<in> set (gt_spans c).
      baseSpanId m = gs_spanID x \<and> compareSpanId m = gs_spanID y \<and> path_of (gt_spans b) x = path_of (gt_spans c) y)"
    and "\<forall>i \<in> set (onlyInBase r). \<forall>j \<in> set (onlyInCompare r). \<exists>x \<in> set (gt_spans b). \<exists>y \<in> set (gt_spans c).
      i = gs_spanID x \<and> j = gs_spanID y \<and> path_of (gt_spans b) x \<noteq> path_of (gt_spans c) y"
proof -
  obtain bg cg where g: "groupSpansForComparison srt (gt_spans b) = Some bg"
    "groupSpansForComparison srt (gt_spans c) = Some cg"
    using assms(4) by (auto simp: CompareTraces_def bind_eq_Some_conv)
  note bok = groupSpans_ok [OF assms(1,2) g(1)] and cok = groupSpans_ok [OF assms(1,3) g(2)]
  show "\<forall>m \<in> set (matched r). \<exists>x \<in> set (gt_spans b). \<exists>y \<in> set (gt_spans c).
      baseSpanId m = gs_spanID x \<and> compareSpanId m = gs_spanID y \<and> path_of (gt_spans b) x = path_of (gt_spans c) y"
  proof
    fix m assume "m \<in> set (matched r)"
    then obtain k x y where "(x, y) \<in> set (zip (group_of bg k) (group_of cg k))" "m = match_pair (x, y)"
      using assms(4) by (auto simp: CompareTraces_def g Let_def)
    moreover from this(1) have "x \<in> set (group_of bg k)" and "y \<in> set (group_of cg k)"
      by (rule set_zip_leftD, rule set_zip_rightD)
    ultimately show "\<exists>x \<in> set (gt_spans b). \<exists>y \<in> set (gt_spans c).
        baseSpanId m = gs_spanID x \<and> compareSpanId m = gs_spanID y \<and> path_of (gt_spans b) x = path_of (gt_spans c) y"
      using bok cok by (intro bexI [of _ x] bexI [of _ y]) (auto simp: groups_ok_def match_pair_def)
  qed
  show "\<forall>i \<in> set (onlyInBase r). \<forall>j \<in> set (onlyInCompare r). \<exists>x \<in> set (gt_spans b). \<exists>y \<in> set (gt_spans c).
      i = gs_spanID x \<and> j = gs_spanID y \<and> path_of (gt_spans b) x \<noteq> path_of (gt_spans c) y"
  proof (intro ballI)
    fix i j assume "i \<in> set (onlyInBase r)" and "j \<in> set (onlyInCompare r)"
    then obtain k l x y where
      "x \<in> set (drop (min (length (group_of bg k)) (length (group_of cg k))) (group_of bg k))" "i = gs_spanID x"
      "y \<in> set (drop (min (length (group_of cg l)) (length (group_of bg l))) (group_of cg l))" "j = gs_spanID y"
      using assms(4) by (auto simp: CompareTraces_def g Let_def)
    moreover from this have "k \<noteq> l"
      by (metis append_is_Nil_conv drop_eq_Nil empty_iff empty_set linorder_le_cases min.absorb1 min.absorb2 order_refl)
    ultimately show "\<exists>x \<in> set (gt_spans b). \<exists>y \<in> set (gt_spans c).
        i = gs_spanID x \<and> j = gs_spanID y \<and> path_of (gt_spans b) x \<noteq> path_of (gt_spans c) y"
      using bok cok by (intro bexI [of _ x] bexI [of _ y]) (auto simp: groups_ok_def dest!: in_set_dropD)
  qed
qed

section \<open>Properties\<close>

text \<open>C21. Two traces can always be compared, also when spans are each other's parents, and the
  comparison accounts for every span of either trace exactly once, matched or on its side only.\<close>

theorem comparison_accounts_for_every_span:
  assumes "go_sort srt"
  shows "\<exists>r. CompareTraces srt b c = Some r \<and>
    mset (map baseSpanId (matched r)) + mset (onlyInBase r) = mset (map gs_spanID (gt_spans b)) \<and>
    mset (map compareSpanId (matched r)) + mset (onlyInCompare r) = mset (map gs_spanID (gt_spans c))"
proof -
  obtain bg f where b: "groupSpansForComparison srt (gt_spans b) = Some bg" "length f = length (gt_spans b)"
    "\<And>k. mset (group_of bg k) = mset (map snd (filter (\<lambda>x. fst x = k) (zip f (gt_spans b))))" "fst ` set bg = set f"
    using groups_partition [OF assms, of "gt_spans b"] by metis
  obtain cg g where c: "groupSpansForComparison srt (gt_spans c) = Some cg" "length g = length (gt_spans c)"
    "\<And>k. mset (group_of cg k) = mset (map snd (filter (\<lambda>x. fst x = k) (zip g (gt_spans c))))" "fst ` set cg = set g"
    using groups_partition [OF assms, of "gt_spans c"] by metis
  let ?ks = "sort (remdups (map fst bg @ map fst cg))"
  have ks: "distinct ?ks" "set f \<subseteq> set ?ks" "set g \<subseteq> set ?ks" using b(4) c(4) by auto
  let ?rest = "\<lambda>xs ys. map gs_spanID (drop (min (length xs) (length ys)) xs)"
  obtain r where r: "CompareTraces srt b c = Some r"
    and m: "matched r = concat (map (\<lambda>k. map match_pair (zip (group_of bg k) (group_of cg k))) ?ks)"
    and ob: "onlyInBase r = concat (map (\<lambda>k. ?rest (group_of bg k) (group_of cg k)) ?ks)"
    and oc: "onlyInCompare r = concat (map (\<lambda>k. ?rest (group_of cg k) (group_of bg k)) ?ks)"
    by (simp add: CompareTraces_def b(1) c(1) Let_def)
  have "mset (map baseSpanId (matched r)) + mset (onlyInBase r) = mset (map gs_spanID (gt_spans b))"
    unfolding groups_cover [OF b(2,3) ks(1,2), symmetric] m ob map_concat list.map_comp comp_def
    by (rule mset_concat_add) (rule pairs_and_rest(1) [unfolded list.map_comp comp_def])
  moreover have "mset (map compareSpanId (matched r)) + mset (onlyInCompare r) = mset (map gs_spanID (gt_spans c))"
    unfolding groups_cover [OF c(2,3) ks(1,3), symmetric] m oc map_concat list.map_comp comp_def
    by (rule mset_concat_add) (rule pairs_and_rest(2) [unfolded list.map_comp comp_def])
  ultimately show ?thesis using r by blast
qed

theorem comparison_accounts_for_every_span_witness:
  "\<exists>r. CompareTraces insertion_sort (sample_go_trace ''t'' [sample_go_span ''a'' ''b'' ''s'' 1, sample_go_span ''b'' ''a'' ''s'' 2] 0)
      (sample_go_trace ''u'' [sample_go_span ''c'' ZeroSpanID ''s'' 1] 0) = Some r \<and>
    mset (map baseSpanId (matched r)) + mset (onlyInBase r) = {#''a'', ''b''#}"
  using comparison_accounts_for_every_span [OF go_sort_insertion,
      of "sample_go_trace ''t'' [sample_go_span ''a'' ''b'' ''s'' 1, sample_go_span ''b'' ''a'' ''s'' 2] 0"
         "sample_go_trace ''u'' [sample_go_span ''c'' ZeroSpanID ''s'' 1] 0"]
  by (auto simp: sample_go_trace_def sample_go_span_def)

text \<open>C22. In traces whose spans have distinct ids, and in which no span is on a cycle of parents or below
  one, the cached walk finds the plain path of every span: two spans are matched only where their
  paths read the same, and no path is left over on both sides.\<close>

theorem matched_spans_share_their_path:
  assumes "go_sort srt" and "proper_spans (gt_spans b)" and "proper_spans (gt_spans c)"
    and "CompareTraces srt b c = Some r"
  shows "(\<forall>m \<in> set (matched r). \<exists>x \<in> set (gt_spans b). \<exists>y \<in> set (gt_spans c).
      baseSpanId m = gs_spanID x \<and> compareSpanId m = gs_spanID y \<and> path_of (gt_spans b) x = path_of (gt_spans c) y) \<and>
    (\<forall>i \<in> set (onlyInBase r). \<forall>j \<in> set (onlyInCompare r). \<exists>x \<in> set (gt_spans b). \<exists>y \<in> set (gt_spans c).
      i = gs_spanID x \<and> j = gs_spanID y \<and> path_of (gt_spans b) x \<noteq> path_of (gt_spans c) y)"
  using matched_paths [OF assms] by (rule conjI)

theorem matched_spans_share_their_path_witness:
  "\<exists>x \<in> set [sample_go_span ''a'' ZeroSpanID ''s'' 1, sample_go_span ''b'' ''a'' ''s'' 2].
   \<exists>y \<in> set [sample_go_span ''c'' ''d'' ''s'' 1, sample_go_span ''d'' ZeroSpanID ''s'' 2].
     ''b'' = gs_spanID x \<and> ''c'' = gs_spanID y \<and>
     path_of [sample_go_span ''a'' ZeroSpanID ''s'' 1, sample_go_span ''b'' ''a'' ''s'' 2] x =
     path_of [sample_go_span ''c'' ''d'' ''s'' 1, sample_go_span ''d'' ZeroSpanID ''s'' 2] y"
proof -
  let ?b = "sample_go_trace ''t'' [sample_go_span ''a'' ZeroSpanID ''s'' 1, sample_go_span ''b'' ''a'' ''s'' 2] 0"
  let ?c = "sample_go_trace ''u'' [sample_go_span ''c'' ''d'' ''s'' 1, sample_go_span ''d'' ZeroSpanID ''s'' 2] 0"
  have proper: "proper_spans (gt_spans ?b)" "proper_spans (gt_spans ?c)" by code_simp+
  have "map_option matched (CompareTraces insertion_sort ?b ?c) =
      Some [\<lparr>baseSpanId = ''a'', compareSpanId = ''d'', ms_durationDeltaMs = 0\<rparr>,
            \<lparr>baseSpanId = ''b'', compareSpanId = ''c'', ms_durationDeltaMs = 0\<rparr>]" by code_simp
  then obtain r where r: "CompareTraces insertion_sort ?b ?c = Some r"
    and m: "\<lparr>baseSpanId = ''b'', compareSpanId = ''c'', ms_durationDeltaMs = 0\<rparr> \<in> set (matched r)" by auto
  from bspec [OF conjunct1 [OF matched_spans_share_their_path [OF go_sort_insertion proper r]] m]
  show ?thesis by (simp add: sample_go_trace_def)
qed

text \<open>
  The ids must be distinct, since the cache goes by them: of two operations under one id the second
  gets the path of the first, and its counterpart in the other trace is not matched with it.
\<close>

theorem repeated_id_takes_first_path:
  "let op = (\<lambda>i n t. (sample_go_span i ZeroSpanID ''s'' t)\<lparr>gs_name := n\<rparr>);
       b = [op ''x'' ''a'' 1, op ''x'' ''b'' 2]; c = [op ''y'' ''a'' 1, op ''z'' ''b'' 2]
   in map_option (\<lambda>r. (map (\<lambda>m. (baseSpanId m, compareSpanId m)) (matched r), onlyInBase r, onlyInCompare r))
        (CompareTraces insertion_sort (sample_go_trace ''t'' b 0) (sample_go_trace ''u'' c 0)) =
        Some ([(''x'', ''y'')], [''x''], [''z'']) \<and>
      path_of b (b ! 1) = path_of c (c ! 1)"
  by code_simp

text \<open>A trace compared with itself differs in nothing.\<close>

theorem trace_equals_itself:
  assumes "go_sort srt"
  shows "\<exists>r. CompareTraces srt t t = Some r \<and> durationDeltaMs r = 0 \<and> spanCountDelta r = 0 \<and> errorDelta r = 0 \<and>
    onlyInBase r = [] \<and> onlyInCompare r = [] \<and>
    list_all (\<lambda>m. baseSpanId m = compareSpanId m \<and> ms_durationDeltaMs m = 0) (matched r)"
proof -
  obtain gs where "groupSpansForComparison srt (gt_spans t) = Some gs"
    using groups_partition [OF assms, of "gt_spans t"] by metis
  then show ?thesis
    by (auto simp: CompareTraces_def Let_def delta_ms_def match_pair_def list_all_iff zip_same_conv_map)
qed

theorem trace_equals_itself_witness:
  "\<exists>r. CompareTraces insertion_sort (sample_go_trace ''t'' [sample_go_span ''a'' ZeroSpanID ''s'' 1] 0)
      (sample_go_trace ''t'' [sample_go_span ''a'' ZeroSpanID ''s'' 1] 0) = Some r \<and> onlyInBase r = []"
  using trace_equals_itself [OF go_sort_insertion, of "sample_go_trace ''t'' [sample_go_span ''a'' ZeroSpanID ''s'' 1] 0"]
  by blast

text \<open>The handler always answers, and with a comparison only of traces whose tenant the principal may see.\<close>

lemma HandleCompareTraces_answers:
  assumes "go_sort srt"
  shows "HandleCompareTraces srt p b c s \<noteq> None"
    and "HandleCompareTraces srt p b c s = Some (Inr r) \<Longrightarrow> \<exists>bt ct. Get (to_lower b) s = Some bt \<and>
      Get (to_lower c) s = Some ct \<and> CompareTraces srt bt ct = Some r \<and>
      principalCanAccessTenant p (gt_tenantID bt) \<and> principalCanAccessTenant p (gt_tenantID ct)"
proof -
  show "HandleCompareTraces srt p b c s \<noteq> None"
    using CompareTraces_returns [OF assms] by (auto simp: HandleCompareTraces_def split: sum.split option.split)
  assume "HandleCompareTraces srt p b c s = Some (Inr r)"
  then show "\<exists>bt ct. Get (to_lower b) s = Some bt \<and> Get (to_lower c) s = Some ct \<and> CompareTraces srt bt ct = Some r \<and>
      principalCanAccessTenant p (gt_tenantID bt) \<and> principalCanAccessTenant p (gt_tenantID ct)"
    by (auto simp: HandleCompareTraces_def ParseTraceID_def split: sum.splits option.splits if_splits dest!: ParseID_Inr)
qed

text \<open>
  The texts of two paths can be the same although their spans are different: the separators also
  occur in names.
\<close>

theorem separators_in_names_collide:
  "map_option matched (CompareTraces insertion_sort
     (sample_go_trace ''t'' [(sample_go_span ''a'' ZeroSpanID ''api/v1'' 0)\<lparr>gs_name := ''users''\<rparr>] 0)
     (sample_go_trace ''u'' [(sample_go_span ''b'' ZeroSpanID ''api'' 0)\<lparr>gs_name := ''v1/users''\<rparr>] 0)) =
   Some [\<lparr>baseSpanId = ''a'', compareSpanId = ''b'', ms_durationDeltaMs = 0\<rparr>]"
  by code_simp

end
