(* ===== verification/LatencyHeat.thy ===== *)
theory LatencyHeat
  imports Types
begin

text \<open>
  \<open>internal/metrics/latency_heatmap.go\<close>: per service, six windows of ten seconds with a count for each
  band of latency, in a ring of which \<open>head\<close> is the newest. The ring is proved to be the queue of the
  last six windows that were written. The time is an argument, in seconds.
\<close>

section \<open>Definitions\<close>

definition latencyBounds :: "num list" where
  "latencyBounds = [5, 10, 25, 50, 100, 250, 500, 1000, 2500, 5000]"

definition heatmapWindowSec :: int where "heatmapWindowSec = 10"
definition heatmapNumWindows :: nat where "heatmapNumWindows = 6"
definition heatmapNumBands :: nat where "heatmapNumBands = 11"

record latency_heat =
  lh_windows :: "int list list"
  lh_tsFor :: "int list"
  lh_head :: nat

definition empty_heat :: latency_heat where
  "empty_heat = \<lparr>lh_windows = replicate heatmapNumWindows (replicate heatmapNumBands 0),
     lh_tsFor = replicate heatmapNumWindows 0, lh_head = 0\<rparr>"

text \<open>The index of the first bound that is not exceeded, or of the overflow band.\<close>

fun band_from :: "num list \<Rightarrow> num \<Rightarrow> nat" where
  "band_from [] d = 0"
| "band_from (b # bs) d = (if d \<le> b then 0 else Suc (band_from bs d))"

definition band_of :: "num \<Rightarrow> nat" where "band_of d = band_from latencyBounds d"

definition heat_advance :: "int \<Rightarrow> latency_heat \<Rightarrow> latency_heat" where
  "heat_advance slot h =
     (if lh_tsFor h ! lh_head h \<noteq> slot
      then (let next1 = (lh_head h + 1) mod heatmapNumWindows
            in \<lparr>lh_windows = (lh_windows h)[next1 := replicate heatmapNumBands 0],
                lh_tsFor = (lh_tsFor h)[next1 := slot], lh_head = next1\<rparr>)
      else h)"

definition bump_at :: "nat \<Rightarrow> int list \<Rightarrow> int list" where
  "bump_at i cs = cs[i := cs ! i + 1]"

definition heat_record :: "int \<Rightarrow> num \<Rightarrow> latency_heat \<Rightarrow> latency_heat" where
  "heat_record now d h =
     (let h = heat_advance (now div heatmapWindowSec) h
      in h\<lparr>lh_windows := (lh_windows h)[lh_head h := bump_at (band_of d) (lh_windows h ! lh_head h)]\<rparr>)"

text \<open>The windows from the oldest to the newest; a slot that was never written has the time 0.\<close>

definition walk :: "latency_heat \<Rightarrow> (int \<times> int list) list" where
  "walk h = map (\<lambda>i. let j = (lh_head h + i) mod heatmapNumWindows in (lh_tsFor h ! j, lh_windows h ! j))
     [1..<Suc heatmapNumWindows]"

definition heat_data :: "latency_heat \<Rightarrow> LatencyHeatmapBucket list" where
  "heat_data h = map (\<lambda>(ts, cs). \<lparr>bucket_ts = of_int (ts * heatmapWindowSec), counts = cs\<rparr>)
     (filter (\<lambda>(ts, cs). ts \<noteq> 0) (walk h))"

section \<open>The queue of windows\<close>

text \<open>The abstract state is a list of windows, newest last; a new one drops what exceeds six.\<close>

definition push_window :: "int \<Rightarrow> (int \<times> int list) list \<Rightarrow> (int \<times> int list) list" where
  "push_window slot ws =
     (if ws \<noteq> [] \<and> fst (last ws) = slot then ws
      else slice_last heatmapNumWindows (ws @ [(slot, replicate heatmapNumBands 0)]))"

definition count_in_last :: "nat \<Rightarrow> (int \<times> int list) list \<Rightarrow> (int \<times> int list) list" where
  "count_in_last b ws = butlast ws @ [(fst (last ws), bump_at b (snd (last ws)))]"

definition queue_record :: "int \<Rightarrow> num \<Rightarrow> (int \<times> int list) list \<Rightarrow> (int \<times> int list) list" where
  "queue_record now d ws = count_in_last (band_of d) (push_window (now div heatmapWindowSec) ws)"

definition heat_abs :: "latency_heat \<Rightarrow> (int \<times> int list) list" where
  "heat_abs h = filter (\<lambda>(ts, cs). ts \<noteq> 0) (walk h)"

definition heat_ok :: "latency_heat \<Rightarrow> bool" where
  "heat_ok h \<longleftrightarrow> length (lh_windows h) = 6 \<and> length (lh_tsFor h) = 6 \<and> lh_head h < 6 \<and>
     sorted_wrt (\<lambda>a b. fst b = 0 \<longrightarrow> fst a = 0) (walk h)"

section \<open>Lemmas\<close>

lemma ring_cases:
  assumes "(n :: nat) < 6"
  obtains "n = 0" | "n = 1" | "n = 2" | "n = 3" | "n = 4" | "n = 5"
  using assms by linarith

lemma walk_indices: "[1..<Suc heatmapNumWindows] = [1, 2, 3, 4, 5, 6]"
  by code_simp

lemma walk_eq:
  "walk h = map (\<lambda>j. (lh_tsFor h ! j, lh_windows h ! j)) (map (\<lambda>i. (lh_head h + i) mod 6) [1, 2, 3, 4, 5, 6])"
  unfolding walk_def walk_indices by (simp add: heatmapNumWindows_def Let_def)

lemma length_walk: "length (walk h) = 6"
  by (simp add: walk_eq)

lemma last_walk: "lh_head h < 6 \<Longrightarrow> last (walk h) = (lh_tsFor h ! lh_head h, lh_windows h ! lh_head h)"
  by (simp add: walk_eq)

lemma walk_advance:
  assumes "length (lh_windows h) = 6" and "length (lh_tsFor h) = 6" and "lh_head h < 6"
    and "lh_tsFor h ! lh_head h \<noteq> slot"
  shows "walk (heat_advance slot h) = tl (walk h) @ [(slot, replicate heatmapNumBands 0)]"
  using assms(3)
proof (cases rule: ring_cases)
qed (use assms in \<open>simp_all add: walk_eq heatmapNumWindows_def heat_advance_def Let_def nth_list_update numeral_2_eq_2\<close>)

lemma walk_bump:
  assumes "length (lh_windows h) = 6" and "lh_head h < 6"
  shows "walk (h\<lparr>lh_windows := (lh_windows h)[lh_head h := bump_at b (lh_windows h ! lh_head h)]\<rparr>) =
    count_in_last b (walk h)"
  using assms(2)
proof (cases rule: ring_cases)
qed (use assms in \<open>simp_all add: walk_eq count_in_last_def nth_list_update\<close>)

lemma heat_ok_shape:
  assumes "heat_ok h"
  shows "length (lh_windows h) = 6" and "length (lh_tsFor h) = 6" and "lh_head h < 6"
    and "sorted_wrt (\<lambda>a b. fst b = 0 \<longrightarrow> fst a = 0) (walk h)"
  using assms by (simp_all add: heat_ok_def)

text \<open>Slots never written come first, so dropping the oldest window of a full ring drops the first of
  the queue.\<close>

lemma filter_written:
  assumes "sorted_wrt (\<lambda>a b. fst b = (0 :: int) \<longrightarrow> fst a = 0) ws" and "length ws = 6" and "slot \<noteq> 0"
  shows "filter (\<lambda>(ts, cs). ts \<noteq> 0) (tl ws @ [(slot, z)]) =
    slice_last 6 (filter (\<lambda>(ts, cs). ts \<noteq> 0) ws @ [(slot, z)])"
proof -
  obtain w ws' where ws: "ws = w # ws'" using assms(2) by (cases ws) auto
  show ?thesis
  proof (cases "fst w = 0")
    case True
    have "length (filter (\<lambda>(ts, cs). ts \<noteq> 0) ws') \<le> 5" using assms(2) length_filter_le [of _ ws'] by (simp add: ws)
    with True assms(3) show ?thesis by (simp add: ws slice_last_def case_prod_unfold)
  next
    case False
    then have "filter (\<lambda>(ts, cs). ts \<noteq> 0) ws = ws"
      using assms(1) by (auto simp: ws filter_id_conv)
    with assms(2,3) False show ?thesis by (auto simp: ws slice_last_def case_prod_unfold)
  qed
qed

lemma count_in_last_filter:
  "ws \<noteq> [] \<Longrightarrow> fst (last ws) \<noteq> 0 \<Longrightarrow>
   filter (\<lambda>(ts, cs). ts \<noteq> 0) (count_in_last b ws) = count_in_last b (filter (\<lambda>(ts, cs). ts \<noteq> 0) ws)"
  by (cases ws rule: rev_cases) (auto simp: count_in_last_def)

lemma sorted_count_in_last:
  "ws \<noteq> [] \<Longrightarrow> sorted_wrt (\<lambda>a b. fst b = (0 :: int) \<longrightarrow> fst a = 0) (count_in_last b ws) =
    sorted_wrt (\<lambda>a b. fst b = 0 \<longrightarrow> fst a = 0) ws"
  by (cases ws rule: rev_cases) (auto simp: count_in_last_def sorted_wrt_append)

lemma heat_advance_queue:
  assumes "heat_ok h" and "slot \<noteq> 0"
  shows "heat_ok (heat_advance slot h)" and "heat_abs (heat_advance slot h) = push_window slot (heat_abs h)"
    and "fst (last (walk (heat_advance slot h))) = slot"
proof -
  note ok = heat_ok_shape [OF assms(1)]
  have ne: "walk h \<noteq> []" using length_walk [of h] by auto
  have "heat_ok (heat_advance slot h) \<and> heat_abs (heat_advance slot h) = push_window slot (heat_abs h) \<and>
      fst (last (walk (heat_advance slot h))) = slot"
  proof (cases "lh_tsFor h ! lh_head h = slot")
    case True
    then have l: "fst (last (walk h)) = slot" using last_walk [OF ok(3)] by simp
    then have "heat_abs h \<noteq> [] \<and> fst (last (heat_abs h)) = slot"
      using ne assms(2) unfolding heat_abs_def by (cases "walk h" rule: rev_cases) auto
    with True l assms(1) show ?thesis by (simp add: heat_advance_def push_window_def)
  next
    case False
    note w = walk_advance [OF ok(1-3) False]
    have l: "fst (last (walk h)) \<noteq> slot" using False last_walk [OF ok(3)] by simp
    have new: "\<not> (heat_abs h \<noteq> [] \<and> fst (last (heat_abs h)) = slot)"
    proof (cases "fst (last (walk h)) = 0")
      case True
      then have "\<forall>x \<in> set (walk h). fst x = 0"
        using ok(4) ne by (cases "walk h" rule: rev_cases) (auto simp: sorted_wrt_append)
      then have "heat_abs h = []" by (auto simp: heat_abs_def filter_empty_conv)
      then show ?thesis by simp
    next
      case False
      then have "last (heat_abs h) = last (walk h)"
        using ne unfolding heat_abs_def by (cases "walk h" rule: rev_cases) auto
      with l show ?thesis by simp
    qed
    have "heat_abs (heat_advance slot h) = slice_last 6 (heat_abs h @ [(slot, replicate heatmapNumBands 0)])"
      unfolding heat_abs_def w by (rule filter_written [OF ok(4) length_walk assms(2)])
    moreover have "heat_ok (heat_advance slot h)"
    proof -
      have "sorted_wrt (\<lambda>a b. fst b = 0 \<longrightarrow> fst a = 0) (tl (walk h))"
        using ok(4) by (cases "walk h") auto
      then have "sorted_wrt (\<lambda>a b. fst b = 0 \<longrightarrow> fst a = 0) (walk (heat_advance slot h))"
        using assms(2) by (simp add: w sorted_wrt_append)
      then show ?thesis using ok False by (simp add: heat_ok_def heat_advance_def heatmapNumWindows_def Let_def)
    qed
    moreover have "fst (last (walk (heat_advance slot h))) = slot" by (simp add: w)
    ultimately show ?thesis unfolding push_window_def if_not_P [OF new] heatmapNumWindows_def by blast
  qed
  then show "heat_ok (heat_advance slot h)" "heat_abs (heat_advance slot h) = push_window slot (heat_abs h)"
    "fst (last (walk (heat_advance slot h))) = slot" by blast+
qed

lemma heat_record_queue:
  assumes "heat_ok h" and "now div heatmapWindowSec \<noteq> 0"
  shows "heat_ok (heat_record now d h)" and "heat_abs (heat_record now d h) = queue_record now d (heat_abs h)"
proof -
  let ?h = "heat_advance (now div heatmapWindowSec) h"
  note a = heat_advance_queue [OF assms] and ok = heat_ok_shape [OF heat_advance_queue(1) [OF assms]]
  have ne: "walk ?h \<noteq> []" using length_walk [of ?h] by auto
  have w: "walk (heat_record now d h) = count_in_last (band_of d) (walk ?h)"
    using walk_bump [OF ok(1,3)] by (simp add: heat_record_def Let_def)
  have "heat_abs (heat_record now d h) = count_in_last (band_of d) (heat_abs ?h)"
    using count_in_last_filter [OF ne] a(3) assms(2) by (simp add: heat_abs_def w)
  then show "heat_abs (heat_record now d h) = queue_record now d (heat_abs h)" by (simp add: queue_record_def a(2))
  show "heat_ok (heat_record now d h)"
    using ok sorted_count_in_last [OF ne] by (simp add: heat_ok_def w) (simp add: heat_record_def Let_def)
qed

lemma heat_ok_empty: "heat_ok empty_heat" "heat_abs empty_heat = []"
  by (simp_all add: heat_ok_def heat_abs_def walk_eq empty_heat_def heatmapNumWindows_def)

lemma heat_fold:
  assumes "list_all (\<lambda>(t, d). 10 \<le> t) rs" and "heat_ok h"
  shows "heat_ok (fold (\<lambda>(t, d). heat_record t d) rs h) \<and>
    heat_abs (fold (\<lambda>(t, d). heat_record t d) rs h) = fold (\<lambda>(t, d). queue_record t d) rs (heat_abs h)"
  using assms
proof (induction rs arbitrary: h)
  case (Cons r rs)
  obtain t d where r: "r = (t, d)" by (cases r)
  have "1 \<le> t div 10" using Cons.prems(1) zdiv_mono1 [of 10 t 10] by (simp add: r)
  then have "t div heatmapWindowSec \<noteq> 0" by (simp add: heatmapWindowSec_def)
  note h = heat_record_queue [OF Cons.prems(2) this, of d]
  from Cons.IH [OF _ h(1)] Cons.prems(1) h(2) show ?case by (simp add: r)
qed simp

section \<open>Properties\<close>

text \<open>The ring of windows is a queue: what a heatmap reports is, oldest first, the last six windows in
  which something was recorded, with a count in the band of every latency recorded in them.\<close>

theorem latency_ring_is_queue:
  assumes "list_all (\<lambda>(t, d). 10 \<le> t) rs"
  shows "heat_data (fold (\<lambda>(t, d). heat_record t d) rs empty_heat) =
    map (\<lambda>(ts, cs). \<lparr>bucket_ts = of_int (ts * 10), counts = cs\<rparr>) (fold (\<lambda>(t, d). queue_record t d) rs [])"
  using heat_fold [OF assms heat_ok_empty(1)] by (simp add: heat_data_def heat_abs_def [symmetric] heat_ok_empty(2) heatmapWindowSec_def)

theorem latency_ring_is_queue_witness:
  "map bucket_ts (heat_data (fold (\<lambda>(t, d). heat_record t d) [(10, 3), (21, 3), (35, 3), (47, 3), (52, 3), (68, 3), (70, 3)] empty_heat)) =
   [20, 30, 40, 50, 60, 70]"
proof -
  let ?rs = "[(10, 3), (21, 3), (35, 3), (47, 3), (52, 3), (68, 3), (70, 3)] :: (int \<times> num) list"
  have "list_all (\<lambda>(t, d). 10 \<le> t) ?rs" by simp
  from latency_ring_is_queue [OF this]
  have "map bucket_ts (heat_data (fold (\<lambda>(t, d). heat_record t d) ?rs empty_heat)) =
      map (\<lambda>w. of_int (fst w * 10)) (fold (\<lambda>(t, d). queue_record t d) ?rs [])"
    by (simp only: list.map_comp) (rule map_cong [OF refl], simp add: case_prod_unfold)
  also have "\<dots> = map (\<lambda>ts. of_int (ts * 10)) (map fst (fold (\<lambda>(t, d). queue_record t d) ?rs []))"
    by (simp only: list.map_comp comp_def)
  also have "map fst (fold (\<lambda>(t, d). queue_record t d) ?rs []) = [2, 3, 4, 5, 6, 7]" by code_simp
  finally show ?thesis by simp
qed

text \<open>
  The windows are not bounded in time: the columns of a service that is called rarely can lie hours
  apart, although six windows are meant to be a minute.
\<close>

theorem quiet_service_keeps_old_windows:
  "map bucket_ts (heat_data (heat_record 7200 3 (heat_record 10 3 empty_heat))) = [10, 7200]"
  by code_simp

end
