(* ===== verification/RedMetrics.thy ===== *)
theory RedMetrics
  imports Windows LatencyHeat TraceQuery "HOL-Library.AList_Mapping" "HOL-Library.Product_Lexorder"
begin

text \<open>
  Rate, errors and durations of every operation: \<open>MetricsStore\<close> of \<open>internal/metrics/red.go\<close> with
  \<open>Record\<close> and \<open>Snapshot\<close>, and its \<open>Histogram\<close> (\<open>histogram.go\<close>). The current time in seconds and the
  number \<open>rand.Int63n\<close> draws are arguments of the calls, the order of a \<open>range\<close> over the map and
  \<open>sort.Slice\<close> are parameters. Reading a rate moves its windows on, so \<open>Snapshot\<close> also returns the store.
  The readings of the clock within one call fall into one second.
\<close>

section \<open>Definitions\<close>

subsection \<open>The reservoir of durations\<close>

record histogram =
  hg_samples :: "num list"
  hg_n :: int
  hg_cap :: int

definition NewHistogram :: "int \<Rightarrow> histogram" where
  "NewHistogram cp = \<lparr>hg_samples = [], hg_n = 0, hg_cap = cp\<rparr>"

definition hist_Record :: "int \<Rightarrow> num \<Rightarrow> histogram \<Rightarrow> histogram" where
  "hist_Record j ms h =
     (let n = hg_n h + 1
      in if n \<le> hg_cap h then h\<lparr>hg_n := n, hg_samples := hg_samples h @ [ms]\<rparr>
         else if j < hg_cap h then h\<lparr>hg_n := n, hg_samples := (hg_samples h)[nat j := ms]\<rparr>
         else h\<lparr>hg_n := n\<rparr>)"

definition go_Percentile :: "num list \<Rightarrow> num \<Rightarrow> num" where
  "go_Percentile xs p =
     (let sorted1 = sort xs in if sorted1 = [] then 0 else sorted1 ! nat \<lfloor>p * real (length sorted1 - 1)\<rfloor>)"

definition Percentile :: "num \<Rightarrow> histogram \<Rightarrow> num" where
  "Percentile p h = go_Percentile (hg_samples h) p"

subsection \<open>The store\<close>

type_synonym metric_key = "string \<times> string \<times> string"

record service_metrics =
  sm_rate :: sliding
  sm_errors :: sliding
  sm_durations :: histogram

record metrics_store =
  mt_data :: "(metric_key, service_metrics) mapping"
  mt_heat :: "(string, latency_heat) mapping"

definition NewMetricsStore :: metrics_store where
  "NewMetricsStore = \<lparr>mt_data = Mapping.empty, mt_heat = Mapping.empty\<rparr>"

definition key_of_span :: "go_span \<Rightarrow> metric_key" where
  "key_of_span sp = (gs_tenantID sp, gs_service sp, gs_name sp)"

definition new_metrics :: service_metrics where
  "new_metrics = \<lparr>sm_rate = empty_window, sm_errors = empty_window, sm_durations = NewHistogram 1024\<rparr>"

definition heatmapKey :: "string \<Rightarrow> string \<Rightarrow> string" where
  "heatmapKey tenant svc = tenant @ ''|'' @ svc"

definition clamped_ms :: "go_span \<Rightarrow> num" where
  "clamped_ms sp = (let d = of_int (gs_duration sp) / 10 ^ 6 in if d < 0 then 0 else d)"

definition record_metrics :: "int \<Rightarrow> int \<Rightarrow> go_span \<Rightarrow> service_metrics \<Rightarrow> service_metrics" where
  "record_metrics now j sp sm =
     sm\<lparr>sm_rate := metrics_Add now 1 (sm_rate sm),
        sm_errors := (if gs_code sp = go_StatusError then metrics_Add now 1 (sm_errors sm) else sm_errors sm),
        sm_durations := hist_Record j (clamped_ms sp) (sm_durations sm)\<rparr>"

definition red_Record :: "int \<Rightarrow> int \<Rightarrow> go_span \<Rightarrow> metrics_store \<Rightarrow> metrics_store" where
  "red_Record now j sp m =
     (let k = key_of_span sp;
          sm = (case Mapping.lookup (mt_data m) k of None \<Rightarrow> new_metrics | Some sm \<Rightarrow> sm);
          hk = heatmapKey (gs_tenantID sp) (gs_service sp);
          h = (case Mapping.lookup (mt_heat m) hk of None \<Rightarrow> empty_heat | Some h \<Rightarrow> h)
      in \<lparr>mt_data = Mapping.update k (record_metrics now j sp sm) (mt_data m),
          mt_heat = Mapping.update hk (heat_record now (clamped_ms sp) h) (mt_heat m)\<rparr>)"

subsection \<open>Snapshot\<close>

record metric_snapshot = MetricSnapshotDTO +
  snap_tenantID :: string

definition zero_snapshot :: metric_snapshot where
  "zero_snapshot = \<lparr>service = [], operation = [], rate = 0, errorRate = 0, p50Ms = 0, p95Ms = 0, p99Ms = 0,
     snap_tenantID = []\<rparr>"

definition snapshot_of :: "int \<Rightarrow> metric_key \<Rightarrow> service_metrics \<Rightarrow> metric_snapshot" where
  "snapshot_of now k sm =
     (let r = fst (metrics_Rate now (sm_rate sm));
          e = fst (metrics_Rate now (sm_errors sm))
      in \<lparr>service = fst (snd k), operation = snd (snd k), rate = r, errorRate = (if r > 0 then e / r else 0),
          p50Ms = Percentile (50 / 100) (sm_durations sm), p95Ms = Percentile (95 / 100) (sm_durations sm),
          p99Ms = Percentile (99 / 100) (sm_durations sm), snap_tenantID = fst k\<rparr>)"

definition move_on :: "int \<Rightarrow> service_metrics \<Rightarrow> service_metrics" where
  "move_on now sm = sm\<lparr>sm_rate := snd (metrics_Rate now (sm_rate sm)), sm_errors := snd (metrics_Rate now (sm_errors sm))\<rparr>"

definition skips :: "string \<Rightarrow> metric_key \<Rightarrow> bool" where
  "skips tenant k \<longleftrightarrow> tenant \<noteq> [] \<and> fst k \<noteq> tenant"

definition snapshot_less :: "metric_snapshot \<Rightarrow> metric_snapshot \<Rightarrow> bool" where
  "snapshot_less a b =
     (if service a \<noteq> service b then service a < service b else operation a < operation b)"

text \<open>A key of another tenant leaves the zero value in its place, which is dropped afterwards.\<close>

definition Snapshot ::
  "(metric_key set \<Rightarrow> metric_key list) \<Rightarrow> metric_snapshot go_sorter \<Rightarrow> int \<Rightarrow> string \<Rightarrow> metrics_store \<Rightarrow>
   metric_snapshot list \<times> metrics_store" where
  "Snapshot rng srt now tenant m =
     (let rows = map (\<lambda>k. case Mapping.lookup (mt_data m) k of
                            Some sm \<Rightarrow> if skips tenant k then zero_snapshot else snapshot_of now k sm
                          | None \<Rightarrow> zero_snapshot) (rng (Mapping.keys (mt_data m)));
          kept = (if tenant \<noteq> []
                  then filter (\<lambda>s. \<not> (service s = [] \<and> operation s = [] \<and> snap_tenantID s = [])) rows
                  else rows)
      in (srt snapshot_less kept,
          m\<lparr>mt_data := Mapping.map_values (\<lambda>k sm. if skips tenant k then sm else move_on now sm) (mt_data m)\<rparr>))"

subsection \<open>Histories\<close>

datatype red_event = RecordSpan int int go_span | ReadMetrics int string

fun red_step ::
  "(metric_key set \<Rightarrow> metric_key list) \<Rightarrow> metric_snapshot go_sorter \<Rightarrow> red_event \<Rightarrow> metrics_store \<Rightarrow> metrics_store" where
  "red_step rng srt (RecordSpan now j sp) m = red_Record now j sp m"
| "red_step rng srt (ReadMetrics now tenant) m = snd (Snapshot rng srt now tenant m)"

fun event_time :: "red_event \<Rightarrow> int" where
  "event_time (RecordSpan now j sp) = now"
| "event_time (ReadMetrics now tenant) = now"

fun recorded :: "red_event \<Rightarrow> (int \<times> go_span) option" where
  "recorded (RecordSpan now j sp) = Some (now, sp)"
| "recorded (ReadMetrics now tenant) = None"

text \<open>The spans of an operation, with their times, and those recorded in the last minute.\<close>

definition spans_of :: "metric_key \<Rightarrow> red_event list \<Rightarrow> (int \<times> go_span) list" where
  "spans_of k es = filter (\<lambda>(t, sp). key_of_span sp = k) (List.map_filter recorded es)"

definition last_minute :: "int \<Rightarrow> (int \<times> go_span) list \<Rightarrow> nat" where
  "last_minute now xs = length (filter (\<lambda>(t, sp). now - 60 < t) xs)"

definition failed :: "(int \<times> go_span) list \<Rightarrow> (int \<times> go_span) list" where
  "failed xs = filter (\<lambda>(t, sp). gs_code sp = go_StatusError) xs"

definition range_ok :: "('k set \<Rightarrow> 'k list) \<Rightarrow> bool" where
  "range_ok rng \<longleftrightarrow> (\<forall>S. finite S \<longrightarrow> set (rng S) = S \<and> distinct (rng S))"

section \<open>Lemmas\<close>

subsection \<open>Percentiles\<close>

lemma percentile_index:
  assumes "0 \<le> p" and "p \<le> 1" and "xs \<noteq> []"
  shows "nat \<lfloor>p * real (length xs - 1)\<rfloor> < length xs"
proof -
  have "p * real (length xs - 1) \<le> real (length xs - 1)" using assms(1,2) by (simp add: mult_left_le_one_le)
  then have "nat \<lfloor>p * real (length xs - 1)\<rfloor> \<le> length xs - 1" by linarith
  then show ?thesis using assms(3) by (cases xs) auto
qed

lemma percentile_mono:
  assumes "0 \<le> p" and "p \<le> q" and "q \<le> 1"
  shows "go_Percentile xs p \<le> go_Percentile xs q"
proof (cases "xs = []")
  case False
  then have ne: "sort xs \<noteq> []" by (metis length_0_conv length_sort)
  have "p * real (length (sort xs) - 1) \<le> q * real (length (sort xs) - 1)" using assms(2) by (intro mult_right_mono) auto
  then have "nat \<lfloor>p * real (length (sort xs) - 1)\<rfloor> \<le> nat \<lfloor>q * real (length (sort xs) - 1)\<rfloor>"
    by (intro nat_mono floor_mono)
  moreover have "nat \<lfloor>q * real (length (sort xs) - 1)\<rfloor> < length (sort xs)"
    by (rule percentile_index [OF order_trans [OF assms(1,2)] assms(3) ne])
  ultimately have "sort xs ! nat \<lfloor>p * real (length (sort xs) - 1)\<rfloor> \<le> sort xs ! nat \<lfloor>q * real (length (sort xs) - 1)\<rfloor>"
    by (rule sorted_nth_mono [OF sorted_sort])
  then show ?thesis unfolding go_Percentile_def Let_def if_not_P [OF ne] .
qed (simp add: go_Percentile_def)

lemma percentile_is_sample:
  assumes "0 \<le> p" and "p \<le> 1" and "xs \<noteq> []"
  shows "go_Percentile xs p \<in> set xs"
proof -
  have ne: "sort xs \<noteq> []" using assms(3) by (metis length_0_conv length_sort)
  from nth_mem [OF percentile_index [OF assms(1,2) ne]] ne show ?thesis by (simp add: go_Percentile_def Let_def)
qed

subsection \<open>Windows with reads\<close>

text \<open>A window that was given a 1 at the times \<open>ts\<close>, and read at any times up to \<open>now\<close>: a read is the
  addition of 0.\<close>

definition tracks :: "int \<Rightarrow> int list \<Rightarrow> sliding \<Rightarrow> bool" where
  "tracks now ts w \<longleftrightarrow> (\<exists>hs. w = add_all metrics_advance hs empty_window \<and> sorted (map fst hs) \<and>
     (\<forall>h \<in> set hs. 0 < fst h \<and> fst h \<le> now \<and> snd h \<in> {0, 1}) \<and> map fst (filter (\<lambda>h. snd h \<noteq> 0) hs) = ts)"

lemma tracks_empty: "tracks now [] empty_window"
  by (auto simp: tracks_def intro: exI [of _ "[]"])

lemma add_all_append: "add_all adv (hs @ hs') w = add_all adv hs' (add_all adv hs w)"
  by (induction adv hs w rule: add_all.induct) auto

lemma tracks_snoc:
  assumes "tracks now ts w" and "now \<le> t" and "0 < t" and "n \<in> {0, 1}"
  shows "tracks t (ts @ (if n = 0 then [] else [t])) (bump n (metrics_advance t w))"
proof -
  obtain hs where hs: "w = add_all metrics_advance hs empty_window" "sorted (map fst hs)"
    "\<forall>h \<in> set hs. 0 < fst h \<and> fst h \<le> now \<and> snd h \<in> {0, 1}" "map fst (filter (\<lambda>h. snd h \<noteq> 0) hs) = ts"
    using assms(1) by (auto simp: tracks_def)
  show ?thesis unfolding tracks_def
    using hs assms(2-) by (intro exI [of _ "hs @ [(t, n)]"]) (fastforce simp: add_all_append sorted_append)
qed

lemma tracks_Add: "tracks now ts w \<Longrightarrow> now \<le> t \<Longrightarrow> 0 < t \<Longrightarrow> tracks t (ts @ [t]) (metrics_Add t 1 w)"
  using tracks_snoc [of now ts w t 1] by (simp add: metrics_Add_def)

lemma tracks_Rate: "tracks now ts w \<Longrightarrow> now \<le> t \<Longrightarrow> 0 < t \<Longrightarrow> tracks t ts (snd (metrics_Rate t w))"
  using tracks_snoc [of now ts w t 0] by (simp add: metrics_Rate_def Let_def bump_def)

lemma tracks_later: "tracks now ts w \<Longrightarrow> now \<le> t \<Longrightarrow> tracks t ts w"
  unfolding tracks_def by fastforce

lemma minute_sum_ones:
  "\<forall>h \<in> set hs. snd h \<in> {0, 1} \<Longrightarrow>
   minute_sum hs t = int (length (filter (\<lambda>s. t - 60 < s) (map fst (filter (\<lambda>h. snd h \<noteq> 0) hs))))"
  by (induction hs) (auto simp: minute_sum_def)

lemma tracks_exact:
  assumes "tracks now ts w" and "now \<le> t"
  shows "fst (metrics_Rate t w) = real (length (filter (\<lambda>s. t - 60 < s) ts)) / 60"
proof -
  obtain hs where hs: "w = add_all metrics_advance hs empty_window" "sorted (map fst hs)"
    "\<forall>h \<in> set hs. 0 < fst h \<and> fst h \<le> now \<and> snd h \<in> {0, 1}" "map fst (filter (\<lambda>h. snd h \<noteq> 0) hs) = ts"
    using assms(1) by (auto simp: tracks_def)
  show ?thesis
  proof (cases "hs = []")
    case True
    with hs show ?thesis
      by (simp add: metrics_Rate_def metrics_advance_def empty_window_def Let_def sum_list_replicate)
  next
    case False
    then have "hd hs \<in> set hs" "last hs \<in> set hs" by simp_all
    with hs(3) have "0 < fst (hd hs)" "fst (last hs) \<le> now" by blast+
    from metrics_window.window_total [OF False this(1) hs(2) order_trans [OF this(2) assms(2)]]
    have "sum_list (sw_buckets (metrics_advance t w)) = minute_sum hs t" by (simp add: hs(1) booked_def)
    moreover have "minute_sum hs t = int (length (filter (\<lambda>s. t - 60 < s) ts))"
      using minute_sum_ones [of hs t] hs(3,4) by simp
    ultimately show ?thesis by (simp add: metrics_Rate_def Let_def)
  qed
qed

text \<open>The counter of a second counts the ones of that second.\<close>

lemma tracks_buckets:
  assumes "tracks now ts w" and "now \<le> t" and "0 < t" and "t - 60 < s" and "s \<le> t"
  shows "fst (fst (RawBuckets t w)) ! nat (s mod 60) = int (length (filter (\<lambda>x. x = s) ts))"
    and "snd (fst (RawBuckets t w)) = t"
proof -
  obtain hs where hs: "w = add_all metrics_advance hs empty_window" "sorted (map fst hs)"
    "\<forall>h \<in> set hs. 0 < fst h \<and> fst h \<le> now \<and> snd h \<in> {0, 1}" "map fst (filter (\<lambda>h. snd h \<noteq> 0) hs) = ts"
    using assms(1) by (auto simp: tracks_def)
  have idx: "nat (s mod 60) < 60" "int (nat (s mod 60)) = s mod 60" by (simp_all add: nat_less_iff)
  have "sw_buckets (metrics_advance t w) ! nat (s mod 60) = int (length (filter (\<lambda>x. x = s) ts)) \<and>
      sw_lastSec (metrics_advance t w) = t"
  proof (cases "hs = []")
    case True
    with hs idx show ?thesis by (auto simp: metrics_advance_def empty_window_def)
  next
    case False
    then have "hd hs \<in> set hs" "last hs \<in> set hs" by simp_all
    with hs(3) have "0 < fst (hd hs)" "fst (last hs) \<le> now" by blast+
    note bk = metrics_window.window_books [OF False this(1) hs(2) order_trans [OF this(2) assms(2)]]
    have "bucket_sum hs t (s mod 60) = int (length (filter (\<lambda>x. x = s) (map fst (filter (\<lambda>h. snd h \<noteq> 0) hs))))"
      using hs(3) assms(2,4,5)
    proof (induction hs)
      case (Cons h hs)
      have "fst h = s" if "t - 60 < fst h" "fst h mod 60 = s mod 60"
        using same_residue [of "fst h" s] same_residue [of s "fst h"] that Cons.prems by force
      with Cons show ?case by (auto simp: bucket_sum_def case_prod_unfold)
    qed (simp add: bucket_sum_def)
    with bk idx hs(1,4) show ?thesis by (simp add: books_def booked_def)
  qed
  then show "fst (fst (RawBuckets t w)) ! nat (s mod 60) = int (length (filter (\<lambda>x. x = s) ts))"
    "snd (fst (RawBuckets t w)) = t" by (simp_all add: RawBuckets_def Let_def)
qed

subsection \<open>The store along a history\<close>

text \<open>The reservoir holds durations of recorded spans, all of them while there are at most 1024.\<close>

definition hist_ok :: "(int \<times> go_span) list \<Rightarrow> histogram \<Rightarrow> bool" where
  "hist_ok xs h \<longleftrightarrow> hg_cap h = 1024 \<and> hg_n h = int (length xs) \<and> length (hg_samples h) = min 1024 (length xs) \<and>
     set (hg_samples h) \<subseteq> set (map (clamped_ms \<circ> snd) xs) \<and>
     (length xs \<le> 1024 \<longrightarrow> hg_samples h = map (clamped_ms \<circ> snd) xs)"

lemma hist_ok_empty: "hist_ok [] (NewHistogram 1024)"
  by (simp add: hist_ok_def NewHistogram_def)

lemma hist_ok_Record:
  assumes "hist_ok xs h"
  shows "hist_ok (xs @ [(t, sp)]) (hist_Record j (clamped_ms sp) h)"
proof (cases "length xs < 1024")
  case True
  then have "hg_n h + 1 \<le> hg_cap h" using assms by (simp add: hist_ok_def)
  with assms True show ?thesis by (simp add: hist_ok_def hist_Record_def)
next
  case False
  then have full: "\<not> hg_n h + 1 \<le> hg_cap h" using assms by (simp add: hist_ok_def)
  have "set ((hg_samples h)[nat j := clamped_ms sp]) \<subseteq> insert (clamped_ms sp) (set (hg_samples h))"
    by (rule set_update_subset_insert)
  then have "length (hg_samples (hist_Record j (clamped_ms sp) h)) = length (hg_samples h) \<and>
      set (hg_samples (hist_Record j (clamped_ms sp) h)) \<subseteq> insert (clamped_ms sp) (set (hg_samples h)) \<and>
      hg_cap (hist_Record j (clamped_ms sp) h) = hg_cap h \<and> hg_n (hist_Record j (clamped_ms sp) h) = hg_n h + 1"
    unfolding hist_Record_def Let_def if_not_P [OF full] by auto
  with assms False show ?thesis unfolding hist_ok_def by auto
qed

definition metrics_ok :: "int \<Rightarrow> (int \<times> go_span) list \<Rightarrow> service_metrics \<Rightarrow> bool" where
  "metrics_ok now xs sm \<longleftrightarrow> xs \<noteq> [] \<and> tracks now (map fst xs) (sm_rate sm) \<and> tracks now (map fst (failed xs)) (sm_errors sm) \<and>
     hist_ok xs (sm_durations sm)"

definition red_ok :: "int \<Rightarrow> red_event list \<Rightarrow> metrics_store \<Rightarrow> bool" where
  "red_ok now es m \<longleftrightarrow> finite (Mapping.keys (mt_data m)) \<and>
     (\<forall>k. case Mapping.lookup (mt_data m) k of None \<Rightarrow> spans_of k es = [] | Some sm \<Rightarrow> metrics_ok now (spans_of k es) sm)"

lemma spans_of_simps [simp]:
  "spans_of k [] = []"
  "spans_of k (es @ [RecordSpan now j sp]) = spans_of k es @ (if key_of_span sp = k then [(now, sp)] else [])"
  "spans_of k (es @ [ReadMetrics now tenant]) = spans_of k es"
  by (simp_all add: spans_of_def List.map_filter_def)

lemma metrics_ok_record:
  assumes "metrics_ok now xs sm \<or> xs = [] \<and> sm = new_metrics" and "now \<le> t" and "0 < t"
  shows "metrics_ok t (xs @ [(t, sp)]) (record_metrics t j sp sm)"
proof -
  have "tracks now (map fst xs) (sm_rate sm)" "tracks now (map fst (failed xs)) (sm_errors sm)"
    using assms(1) by (auto simp: metrics_ok_def new_metrics_def failed_def tracks_empty)
  moreover have "hist_ok xs (sm_durations sm)"
    using assms(1) by (auto simp: metrics_ok_def new_metrics_def hist_ok_empty)
  ultimately show ?thesis using tracks_Add [OF _ assms(2,3)] tracks_later [OF _ assms(2)] hist_ok_Record [of xs "sm_durations sm"]
    by (simp add: metrics_ok_def record_metrics_def failed_def)
qed

lemma metrics_ok_later: "metrics_ok now xs sm \<Longrightarrow> now \<le> t \<Longrightarrow> metrics_ok t xs sm"
  unfolding metrics_ok_def using tracks_later by blast

lemma metrics_ok_move: "metrics_ok now xs sm \<Longrightarrow> now \<le> t \<Longrightarrow> 0 < t \<Longrightarrow> metrics_ok t xs (move_on t sm)"
  by (cases sm) (auto simp: metrics_ok_def move_on_def intro: tracks_Rate)

lemma red_okD:
  assumes "red_ok now es m"
  shows "finite (Mapping.keys (mt_data m))"
    and "Mapping.lookup (mt_data m) k = None \<Longrightarrow> spans_of k es = []"
    and "Mapping.lookup (mt_data m) k = Some sm \<Longrightarrow> metrics_ok now (spans_of k es) sm"
proof -
  have "case Mapping.lookup (mt_data m) k of None \<Rightarrow> spans_of k es = [] | Some sm \<Rightarrow> metrics_ok now (spans_of k es) sm"
    using assms unfolding red_ok_def by blast
  then show "Mapping.lookup (mt_data m) k = None \<Longrightarrow> spans_of k es = []"
    "Mapping.lookup (mt_data m) k = Some sm \<Longrightarrow> metrics_ok now (spans_of k es) sm" by simp_all
  show "finite (Mapping.keys (mt_data m))" using assms by (simp add: red_ok_def)
qed

lemma red_okI:
  assumes "finite (Mapping.keys (mt_data m))"
    and "\<And>k. case Mapping.lookup (mt_data m) k of None \<Rightarrow> spans_of k es = [] | Some sm \<Rightarrow> metrics_ok now (spans_of k es) sm"
  shows "red_ok now es m"
  using assms unfolding red_ok_def by blast

lemma red_ok_later: "red_ok now es m \<Longrightarrow> now \<le> t \<Longrightarrow> red_ok t es m"
  by (intro red_okI) (auto dest: red_okD metrics_ok_later split: option.split)

lemma red_ok_step:
  assumes "red_ok now es m" and "now \<le> event_time e" and "0 < event_time e"
  shows "red_ok (event_time e) (es @ [e]) (red_step rng srt e m)"
proof (cases e)
  case (RecordSpan t j sp)
  have t: "now \<le> t" "0 < t" using assms(2,3) by (simp_all add: RecordSpan)
  note old = red_okD [OF assms(1)]
  have "case Mapping.lookup (mt_data (red_Record t j sp m)) k of None \<Rightarrow> spans_of k (es @ [e]) = []
      | Some sm \<Rightarrow> metrics_ok t (spans_of k (es @ [e])) sm" for k
  proof (cases "k = key_of_span sp")
    case True
    define sm where "sm = (case Mapping.lookup (mt_data m) k of None \<Rightarrow> new_metrics | Some sm \<Rightarrow> sm)"
    have "metrics_ok now (spans_of k es) sm \<or> spans_of k es = [] \<and> sm = new_metrics"
      using old(2,3) [of k] by (auto simp: sm_def split: option.split)
    from metrics_ok_record [OF this t, of sp j] True show ?thesis
      by (simp add: red_Record_def Let_def RecordSpan sm_def)
  next
    case False
    then have "Mapping.lookup (mt_data (red_Record t j sp m)) k = Mapping.lookup (mt_data m) k"
      by (simp add: red_Record_def Let_def lookup_update')
    then show ?thesis using old(2,3) [of k] metrics_ok_later [OF _ t(1)] False
      by (auto simp: RecordSpan split: option.split)
  qed
  moreover have "finite (Mapping.keys (mt_data (red_Record t j sp m)))"
    using assms(1) by (simp add: red_ok_def red_Record_def Let_def)
  ultimately have "red_ok t (es @ [e]) (red_Record t j sp m)" by (intro red_okI)
  then show ?thesis by (simp add: RecordSpan)
next
  case (ReadMetrics t tenant)
  have t: "now \<le> t" "0 < t" using assms(2,3) by (simp_all add: ReadMetrics)
  note old = red_okD [OF assms(1)]
  have "case Mapping.lookup (mt_data (snd (Snapshot rng srt t tenant m))) k of None \<Rightarrow> spans_of k (es @ [e]) = []
      | Some sm \<Rightarrow> metrics_ok t (spans_of k (es @ [e])) sm" for k
    using old(2,3) [of k] metrics_ok_later [OF _ t(1)] metrics_ok_move [OF _ t]
    by (auto simp: ReadMetrics Snapshot_def Let_def lookup_map_values split: option.split)
  moreover have "finite (Mapping.keys (mt_data (snd (Snapshot rng srt t tenant m))))"
    using old(1) by (simp add: Snapshot_def Let_def)
  ultimately have "red_ok t (es @ [e]) (snd (Snapshot rng srt t tenant m))" by (intro red_okI)
  then show ?thesis by (simp add: ReadMetrics)
qed

definition red_run ::
  "(metric_key set \<Rightarrow> metric_key list) \<Rightarrow> metric_snapshot go_sorter \<Rightarrow> red_event list \<Rightarrow> metrics_store" where
  "red_run rng srt es = fold (red_step rng srt) es NewMetricsStore"

definition red_history :: "red_event list \<Rightarrow> int \<Rightarrow> bool" where
  "red_history es now \<longleftrightarrow> sorted (map event_time es) \<and> list_all (\<lambda>e. 0 < event_time e \<and> event_time e \<le> now) es"

lemma red_ok_run: "red_history es now \<Longrightarrow> 0 < now \<Longrightarrow> red_ok now es (red_run rng srt es)"
proof (induction es arbitrary: now rule: rev_induct)
  case Nil
  show ?case by (simp add: red_ok_def red_run_def NewMetricsStore_def)
next
  case (snoc e es)
  have "red_history es (event_time e)" "0 < event_time e" "event_time e \<le> now"
    using snoc.prems(1) by (auto simp: red_history_def sorted_append list_all_iff)
  from red_ok_step [OF snoc.IH [OF this(1,2)] order_refl this(2)]
  have "red_ok (event_time e) (es @ [e]) (red_run rng srt (es @ [e]))" by (simp add: red_run_def)
  from red_ok_later [OF this \<open>event_time e \<le> now\<close>] show ?case .
qed

subsection \<open>What a snapshot lists\<close>

definition snap_key :: "metric_snapshot \<Rightarrow> metric_key" where
  "snap_key s = (snap_tenantID s, service s, operation s)"

lemma snap_key_of [simp]: "snap_key (snapshot_of now k sm) = k"
  by (simp add: snap_key_def snapshot_of_def Let_def)

lemma snapshot_rows:
  assumes "range_ok rng" and "go_sort srt" and "finite (Mapping.keys (mt_data m))"
  shows "mset (fst (Snapshot rng srt now tenant m)) =
    mset (map (\<lambda>k. snapshot_of now k (the (Mapping.lookup (mt_data m) k)))
      (filter (\<lambda>k. \<not> skips tenant k) (rng (Mapping.keys (mt_data m)))))"
proof -
  have keys: "set (rng (Mapping.keys (mt_data m))) = Mapping.keys (mt_data m)"
    using assms(1,3) by (simp add: range_ok_def)
  let ?row = "\<lambda>k. case Mapping.lookup (mt_data m) k of
    Some sm \<Rightarrow> if skips tenant k then zero_snapshot else snapshot_of now k sm | None \<Rightarrow> zero_snapshot"
  have "(if tenant \<noteq> [] then filter (\<lambda>s. \<not> (service s = [] \<and> operation s = [] \<and> snap_tenantID s = [])) (map ?row ks) else map ?row ks) =
      map (\<lambda>k. snapshot_of now k (the (Mapping.lookup (mt_data m) k))) (filter (\<lambda>k. \<not> skips tenant k) ks)"
    if "set ks \<subseteq> Mapping.keys (mt_data m)" for ks
    using that
  proof (induction ks)
    case (Cons k ks)
    then obtain sm where "Mapping.lookup (mt_data m) k = Some sm" by (auto simp: keys_dom_lookup)
    with Cons show ?case
      by (cases "tenant = []") (auto simp: skips_def zero_snapshot_def snapshot_of_def Let_def)
  qed simp
  from this [of "rng (Mapping.keys (mt_data m))"] keys assms(2) show ?thesis
    unfolding Snapshot_def Let_def fst_conv by (simp add: go_sort_def)
qed

lemma snapshot_cases:
  assumes "range_ok rng" and "go_sort srt" and "red_history es now" and "0 < now"
    and "s \<in> set (fst (Snapshot rng srt now tenant (red_run rng srt es)))"
  obtains sm where "s = snapshot_of now (snap_key s) sm" and "metrics_ok now (spans_of (snap_key s) es) sm"
    and "\<not> skips tenant (snap_key s)"
proof -
  let ?m = "red_run rng srt es"
  note ok = red_okD [OF red_ok_run [OF assms(3,4), of rng srt]]
  from snapshot_rows [OF assms(1,2) ok(1), of now tenant] assms(5)
  obtain k where k: "k \<in> set (rng (Mapping.keys (mt_data ?m)))" "\<not> skips tenant k"
    "s = snapshot_of now k (the (Mapping.lookup (mt_data ?m) k))"
    by (force dest!: mset_eq_setD)
  have "k \<in> Mapping.keys (mt_data ?m)" using k(1) assms(1) ok(1) by (simp add: range_ok_def)
  then obtain sm where "Mapping.lookup (mt_data ?m) k = Some sm" by (auto simp: keys_dom_lookup)
  with k ok(3) that [of sm] show thesis by simp
qed

lemma snapshot_keys:
  assumes "range_ok rng" and "go_sort srt" and "red_history es now" and "0 < now"
  shows "distinct (map snap_key (fst (Snapshot rng srt now tenant (red_run rng srt es))))"
    and "set (map snap_key (fst (Snapshot rng srt now tenant (red_run rng srt es)))) =
      {k. spans_of k es \<noteq> [] \<and> \<not> skips tenant k}"
proof -
  let ?m = "red_run rng srt es"
  note ok = red_okD [OF red_ok_run [OF assms(3,4), of rng srt]]
  let ?ks = "rng (Mapping.keys (mt_data ?m))"
  have ks: "set ?ks = Mapping.keys (mt_data ?m)" "distinct ?ks" using assms(1) ok(1) by (simp_all add: range_ok_def)
  have m: "mset (map snap_key (fst (Snapshot rng srt now tenant ?m))) = mset (filter (\<lambda>k. \<not> skips tenant k) ?ks)"
    using snapshot_rows [OF assms(1,2) ok(1), of now tenant] by (simp add: multiset.map_comp comp_def)
  show "distinct (map snap_key (fst (Snapshot rng srt now tenant ?m)))"
    using mset_eq_imp_distinct_iff [OF m] ks(2) by simp
  have "spans_of k es \<noteq> [] \<longleftrightarrow> k \<in> Mapping.keys (mt_data ?m)" for k
    using ok(2,3) [of k] by (cases "Mapping.lookup (mt_data ?m) k") (auto simp: keys_dom_lookup metrics_ok_def)
  then show "set (map snap_key (fst (Snapshot rng srt now tenant ?m))) = {k. spans_of k es \<noteq> [] \<and> \<not> skips tenant k}"
    using mset_eq_setD [OF m] ks(1) by auto
qed

lemma length_filter_fst: "length (filter P (map fst xs)) = length (filter (\<lambda>(t, sp). P t) xs)"
  by (induction xs) auto

text \<open>The share of failed spans in the last minute.\<close>

definition failed_share :: "int \<Rightarrow> (int \<times> go_span) list \<Rightarrow> num" where
  "failed_share now xs = real (last_minute now (failed xs)) / real (last_minute now xs)"

lemma snapshot_of_exact:
  assumes "metrics_ok now xs sm"
  shows "rate (snapshot_of now k sm) = real (last_minute now xs) / 60"
    and "errorRate (snapshot_of now k sm) = failed_share now xs"
proof -
  have r: "fst (metrics_Rate now (sm_rate sm)) = real (last_minute now xs) / 60"
    "fst (metrics_Rate now (sm_errors sm)) = real (last_minute now (failed xs)) / 60"
    using assms tracks_exact [OF _ order_refl] unfolding metrics_ok_def last_minute_def length_filter_fst [symmetric]
    by blast+
  show "rate (snapshot_of now k sm) = real (last_minute now xs) / 60"
    by (simp add: snapshot_of_def Let_def r)
  show "errorRate (snapshot_of now k sm) = failed_share now xs"
    unfolding snapshot_of_def Let_def r failed_share_def by simp
qed

section \<open>Properties\<close>

text \<open>C8. A snapshot lists every operation of the tenant that was ever recorded, once; its rate is
  the number of spans recorded in the last minute, divided by 60, and its error rate the share of them
  that failed, whatever was recorded and read before.\<close>

theorem red_metrics_are_exact:
  assumes "range_ok rng" and "go_sort srt" and "red_history es now" and "0 < now"
  shows "let rows = fst (Snapshot rng srt now tenant (red_run rng srt es))
    in distinct (map snap_key rows) \<and>
       set (map snap_key rows) = {k. spans_of k es \<noteq> [] \<and> \<not> skips tenant k} \<and>
       list_all (\<lambda>s. rate s = real (last_minute now (spans_of (snap_key s) es)) / 60 \<and>
         errorRate s = failed_share now (spans_of (snap_key s) es)) rows"
  unfolding Let_def list_all_iff
  using snapshot_keys [OF assms, of tenant] snapshot_cases [OF assms, of _ tenant] snapshot_of_exact
  by (metis (no_types, lifting))

definition sample_events :: "red_event list" where
  "sample_events = [RecordSpan 10 0 (sample_go_span ''a'' ZeroSpanID ''s'' 1), ReadMetrics 40 [],
     RecordSpan 65 0 ((sample_go_span ''b'' ZeroSpanID ''s'' 1)\<lparr>gs_code := go_StatusError\<rparr>),
     RecordSpan 66 0 (sample_go_span ''c'' ZeroSpanID ''s'' 1)]"

theorem red_metrics_are_exact_witness:
  "list_all (\<lambda>s. errorRate s = failed_share 80 (spans_of (snap_key s) sample_events))
     (fst (Snapshot sorted_list_of_set insertion_sort 80 [] (red_run sorted_list_of_set insertion_sort sample_events))) \<and>
   failed_share 80 (spans_of ([], ''s'', ''op'') sample_events) = 1 / 2"
proof
  have "range_ok (sorted_list_of_set :: metric_key set \<Rightarrow> metric_key list)" by (simp add: range_ok_def)
  moreover have "red_history sample_events 80" by code_simp
  ultimately show "list_all (\<lambda>s. errorRate s = failed_share 80 (spans_of (snap_key s) sample_events))
     (fst (Snapshot sorted_list_of_set insertion_sort 80 [] (red_run sorted_list_of_set insertion_sort sample_events)))"
    using red_metrics_are_exact [OF _ go_sort_insertion, of sorted_list_of_set sample_events 80 "[]"]
    by (simp add: Let_def list_all_iff)
qed code_simp

text \<open>The percentiles of an operation are in order, and each is the duration of a span of it; up to
  1024 spans they are the percentiles of all of them.\<close>

theorem percentiles_are_durations:
  assumes "range_ok rng" and "go_sort srt" and "red_history es now" and "0 < now"
    and "s \<in> set (fst (Snapshot rng srt now tenant (red_run rng srt es)))"
  shows "let ds = map (clamped_ms \<circ> snd) (spans_of (snap_key s) es)
    in p50Ms s \<le> p95Ms s \<and> p95Ms s \<le> p99Ms s \<and> {p50Ms s, p95Ms s, p99Ms s} \<subseteq> set ds \<and>
       (length ds \<le> 1024 \<longrightarrow> p99Ms s = go_Percentile ds (99 / 100))"
proof -
  obtain sm where s: "s = snapshot_of now (snap_key s) sm" and ok: "metrics_ok now (spans_of (snap_key s) es) sm"
    by (rule snapshot_cases [OF assms])
  let ?xs = "spans_of (snap_key s) es" and ?h = "sm_durations sm"
  from ok have h: "hist_ok ?xs ?h" and "?xs \<noteq> []" by (simp_all add: metrics_ok_def)
  then have ne: "hg_samples ?h \<noteq> []" by (auto simp: hist_ok_def simp flip: length_greater_0_conv)
  have p: "p50Ms s = go_Percentile (hg_samples ?h) (50 / 100)" "p95Ms s = go_Percentile (hg_samples ?h) (95 / 100)"
    "p99Ms s = go_Percentile (hg_samples ?h) (99 / 100)"
    by (subst s, simp add: snapshot_of_def Let_def Percentile_def)+
  have "{p50Ms s, p95Ms s, p99Ms s} \<subseteq> set (hg_samples ?h)"
    unfolding p using percentile_is_sample [OF _ _ ne] by simp
  moreover have "p50Ms s \<le> p95Ms s" "p95Ms s \<le> p99Ms s" unfolding p by (rule percentile_mono; simp)+
  ultimately show ?thesis using h unfolding Let_def hist_ok_def by (auto simp: p(3))
qed

theorem percentiles_are_durations_witness:
  "list_all (\<lambda>s. p95Ms s \<le> p99Ms s)
     (fst (Snapshot sorted_list_of_set insertion_sort 80 [] (red_run sorted_list_of_set insertion_sort sample_events))) \<and>
   fst (Snapshot sorted_list_of_set insertion_sort 80 [] (red_run sorted_list_of_set insertion_sort sample_events)) \<noteq> []"
proof
  have "range_ok (sorted_list_of_set :: metric_key set \<Rightarrow> metric_key list)" by (simp add: range_ok_def)
  moreover have "red_history sample_events 80" by code_simp
  ultimately show "list_all (\<lambda>s. p95Ms s \<le> p99Ms s)
     (fst (Snapshot sorted_list_of_set insertion_sort 80 [] (red_run sorted_list_of_set insertion_sort sample_events)))"
    using percentiles_are_durations [OF _ go_sort_insertion, of sorted_list_of_set sample_events 80 _ "[]"]
    by (simp add: Let_def list_all_iff)
qed code_simp

end
