(* ===== verification/MetricReports.thy ===== *)
theory MetricReports
  imports RedMetrics TraceApi "HOL-Library.AList"
begin

text \<open>
  What the collector reports from its metrics: the operations whose latency stands out
  (\<open>internal/metrics/anomaly.go\<close>), the error budgets (\<open>slo.go\<close>), the two heatmaps
  (\<open>HeatmapData\<close>, \<open>LatencyHeatmap2D\<close> of \<open>red.go\<close>), and the handlers of \<open>api/handler_metrics.go\<close>.
  \<open>strconv.ParseFloat\<close> is a parameter.
\<close>

section \<open>Definitions\<close>

subsection \<open>Anomalies\<close>

definition computeMean :: "num list \<Rightarrow> num" where
  "computeMean vals = (if vals = [] then 0 else sum_list vals / real (length vals))"

definition computeStddev :: "num list \<Rightarrow> num \<Rightarrow> num" where
  "computeStddev vals mean =
     (if length vals < 2 then 0
      else sqrt (sum_list (map (\<lambda>v. (v - mean) * (v - mean)) vals) / real (length vals)))"

definition anomaly_of :: "num \<Rightarrow> num \<Rightarrow> num \<Rightarrow> metric_snapshot \<Rightarrow> AnomalyResult" where
  "anomaly_of zThreshold mean stddev s =
     (let z = (if stddev > 0 then (p99Ms s - mean) / stddev else 0)
      in \<lparr>an_service = service s, an_operation = operation s, an_p99Ms = p99Ms s, meanMs = mean,
          stddevMs = stddev, zScore = z, isOutlier = (z > zThreshold)\<rparr>)"

text \<open>The list is \<open>nil\<close>, and so \<open>null\<close> in the answer, when nothing was recorded.\<close>

definition anomalies_of :: "num \<Rightarrow> metric_snapshot list \<Rightarrow> AnomalyResult list option" where
  "anomalies_of zThreshold snapshots =
     (if snapshots = [] then None
      else (let p99s = map p99Ms snapshots;
                mean = computeMean p99s;
                stddev = computeStddev p99s mean
            in Some (map (anomaly_of zThreshold mean stddev) snapshots)))"

definition DetectAnomalies ::
  "(metric_key set \<Rightarrow> metric_key list) \<Rightarrow> metric_snapshot go_sorter \<Rightarrow> int \<Rightarrow> num \<Rightarrow> string \<Rightarrow> metrics_store \<Rightarrow>
   AnomalyResult list option \<times> metrics_store" where
  "DetectAnomalies rng srt now zThreshold tenant m =
     (case Snapshot rng srt now tenant m of (snapshots, m') \<Rightarrow> (anomalies_of zThreshold snapshots, m'))"

subsection \<open>Error budgets\<close>

type_synonym svc_stats = "(string \<times> num \<times> num) list"

definition add_stats :: "metric_snapshot \<Rightarrow> svc_stats \<Rightarrow> svc_stats" where
  "add_stats s m = AList.map_default (service s) (rate s, rate s * errorRate s)
     (\<lambda>(r, e). (r + rate s, e + rate s * errorRate s)) m"

definition slo_of :: "num \<Rightarrow> string \<Rightarrow> num \<Rightarrow> num \<Rightarrow> SLOResult" where
  "slo_of target svc totalRate errRate =
     (let current = (if totalRate > 0 then errRate / totalRate else 0);
          budget = (if target > 0
                    then (let b = 1 - current / target; b = (if b < 0 then 0 else b) in if b > 1 then 1 else b)
                    else 0)
      in \<lparr>slo_service = svc, targetErrorRate = target, currentErrorRate = current,
          budgetRemaining = budget, breached = (current > target)\<rparr>)"

definition slos_of :: "(string set \<Rightarrow> string list) \<Rightarrow> num \<Rightarrow> metric_snapshot list \<Rightarrow> SLOResult list" where
  "slos_of rngs target snapshots =
     (let m = fold add_stats snapshots []
      in List.map_filter (\<lambda>svc. map_option (\<lambda>(r, e). slo_of target svc r e) (map_of m svc)) (rngs (fst ` set m)))"

definition ComputeSLOs ::
  "(metric_key set \<Rightarrow> metric_key list) \<Rightarrow> metric_snapshot go_sorter \<Rightarrow> (string set \<Rightarrow> string list) \<Rightarrow> int \<Rightarrow> num \<Rightarrow> string \<Rightarrow>
   metrics_store \<Rightarrow> SLOResult list \<times> metrics_store" where
  "ComputeSLOs rng srt rngs now target tenant m =
     (case Snapshot rng srt now tenant m of (snapshots, m') \<Rightarrow> (slos_of rngs target snapshots, m'))"

subsection \<open>The heatmap of counts\<close>

record heatmap_bucket =
  hb_ts :: int
  hb_spans :: int
  hb_errors :: int

definition heat_matches :: "string \<Rightarrow> string \<Rightarrow> metric_key \<Rightarrow> bool" where
  "heat_matches svc tenant k \<longleftrightarrow> (tenant = [] \<or> fst k = tenant) \<and> (svc = [] \<or> fst (snd k) = svc)"

text \<open>The ten seconds of a group, from the oldest second of the window: the second number \<open>i\<close> is
  looked up in the ring.\<close>

definition group_total :: "int list \<Rightarrow> int \<Rightarrow> nat \<Rightarrow> int" where
  "group_total bs ls g =
     sum_list (map (\<lambda>i. bs ! nat ((ls - int (59 - i)) mod 60)) (filter (\<lambda>i. i div 10 = g) [0..<60]))"

definition HeatmapData ::
  "(metric_key set \<Rightarrow> metric_key list) \<Rightarrow> int \<Rightarrow> string \<Rightarrow> string \<Rightarrow> metrics_store \<Rightarrow> heatmap_bucket list \<times> metrics_store" where
  "HeatmapData rng now svc tenant m =
     (let sms = List.map_filter (Mapping.lookup (mt_data m))
                  (filter (heat_matches svc tenant) (rng (Mapping.keys (mt_data m))));
          raw = \<lambda>w. fst (RawBuckets now w);
          lastSec = fold (\<lambda>sm l. if l = 0 then snd (raw (sm_rate sm)) else l) sms 0;
          total_in = \<lambda>w sm g. group_total (fst (raw (w sm))) (snd (raw (sm_rate sm))) g
      in if sms = [] then ([], m)
         else (map (\<lambda>g. \<lparr>hb_ts = lastSec - int ((5 - g) * 10),
                         hb_spans = sum_list (map (\<lambda>sm. total_in sm_rate sm g) sms),
                         hb_errors = sum_list (map (\<lambda>sm. total_in sm_errors sm g) sms)\<rparr>) [0..<6],
               m\<lparr>mt_data := Mapping.map_values (\<lambda>k sm. if heat_matches svc tenant k then move_on now sm else sm) (mt_data m)\<rparr>))"

subsection \<open>The heatmap of latencies\<close>

definition parseHeatmapKey :: "string \<Rightarrow> string \<times> string" where
  "parseHeatmapKey s = (if CHR ''|'' \<in> set s
     then (takeWhile (\<lambda>c. c \<noteq> CHR ''|'') s, drop 1 (dropWhile (\<lambda>c. c \<noteq> CHR ''|'') s)) else ([], s))"

definition add_counts :: "LatencyHeatmapBucket \<Rightarrow> (num \<times> int list) list \<Rightarrow> (num \<times> int list) list" where
  "add_counts b m = AList.map_default (bucket_ts b) (counts b) (\<lambda>cs. map2 (+) cs (counts b)) m"

definition matching_heats :: "(string set \<Rightarrow> string list) \<Rightarrow> string \<Rightarrow> string \<Rightarrow> metrics_store \<Rightarrow> latency_heat list" where
  "matching_heats rngs svc tenant m =
     List.map_filter (Mapping.lookup (mt_heat m))
       (filter (\<lambda>hk. case parseHeatmapKey hk of (t, s) \<Rightarrow> (tenant = [] \<or> t = tenant) \<and> (svc = [] \<or> s = svc))
         (rngs (Mapping.keys (mt_heat m))))"

definition LatencyHeatmap2D :: "(string set \<Rightarrow> string list) \<Rightarrow> string \<Rightarrow> string \<Rightarrow> metrics_store \<Rightarrow> LatencyHeatmapData" where
  "LatencyHeatmap2D rngs svc tenant m =
     (let merged = fold add_counts (concat (map heat_data (matching_heats rngs svc tenant m))) []
      in \<lparr>bounds = latencyBounds,
          buckets = List.map_filter (\<lambda>ts. map_option (\<lambda>cs. \<lparr>bucket_ts = ts, counts = cs\<rparr>) (map_of merged ts))
            (sort (map fst merged))\<rparr>)"

subsection \<open>Handlers\<close>

definition HandleREDMetrics ::
  "(metric_key set \<Rightarrow> metric_key list) \<Rightarrow> metric_snapshot go_sorter \<Rightarrow> int \<Rightarrow> principal \<Rightarrow> metrics_store \<Rightarrow>
   metric_snapshot list \<times> metrics_store" where
  "HandleREDMetrics rng srt now p m = Snapshot rng srt now (EffectiveTenant p) m"

text \<open>The counts first, which moves the windows on; the resolution is the constant \<open>10s\<close>.\<close>

definition HandleHeatmap ::
  "(metric_key set \<Rightarrow> metric_key list) \<Rightarrow> (string set \<Rightarrow> string list) \<Rightarrow> int \<Rightarrow> principal \<Rightarrow> string \<Rightarrow> metrics_store \<Rightarrow>
   (heatmap_bucket list \<times> LatencyHeatmapData) \<times> metrics_store" where
  "HandleHeatmap rng rngs now p svc m =
     (case HeatmapData rng now svc (EffectiveTenant p) m of
        (bs, m') \<Rightarrow> ((bs, LatencyHeatmap2D rngs svc (EffectiveTenant p) m'), m'))"

text \<open>A target or a threshold that does not parse, or is out of range, is the default.\<close>

definition slo_target :: "(string \<Rightarrow> num option) \<Rightarrow> string \<Rightarrow> num" where
  "slo_target parse_float v =
     (case parse_float v of Some x \<Rightarrow> if v \<noteq> [] \<and> x > 0 \<and> x \<le> 1 then x else 1 / 100 | None \<Rightarrow> 1 / 100)"

definition HandleSLOs ::
  "(string \<Rightarrow> num option) \<Rightarrow> (metric_key set \<Rightarrow> metric_key list) \<Rightarrow> metric_snapshot go_sorter \<Rightarrow> (string set \<Rightarrow> string list) \<Rightarrow>
   int \<Rightarrow> principal \<Rightarrow> string \<Rightarrow> metrics_store \<Rightarrow> (SLOResult list \<times> num) \<times> metrics_store" where
  "HandleSLOs parse_float rng srt rngs now p v m =
     (case ComputeSLOs rng srt rngs now (slo_target parse_float v) (EffectiveTenant p) m of
        (slos, m') \<Rightarrow> ((slos, slo_target parse_float v), m'))"

definition z_threshold :: "(string \<Rightarrow> num option) \<Rightarrow> string \<Rightarrow> num" where
  "z_threshold parse_float v =
     (case parse_float v of Some x \<Rightarrow> if v \<noteq> [] \<and> x > 0 then x else 2 | None \<Rightarrow> 2)"

definition HandleAnomalies ::
  "(string \<Rightarrow> num option) \<Rightarrow> (metric_key set \<Rightarrow> metric_key list) \<Rightarrow> metric_snapshot go_sorter \<Rightarrow>
   int \<Rightarrow> principal \<Rightarrow> string \<Rightarrow> metrics_store \<Rightarrow> (AnomalyResult list option \<times> num) \<times> metrics_store" where
  "HandleAnomalies parse_float rng srt now p v m =
     (case DetectAnomalies rng srt now (z_threshold parse_float v) (EffectiveTenant p) m of
        (as, m') \<Rightarrow> ((as, z_threshold parse_float v), m'))"

section \<open>Lemmas\<close>

subsection \<open>How far a value can be from the mean\<close>

lemma sum_list_sq_ge: "(sum_list xs)\<^sup>2 \<le> real (length xs) * sum_list (map (\<lambda>x. x\<^sup>2) xs)" for xs :: "num list"
proof (induction xs)
  case (Cons x xs)
  let ?S = "sum_list xs" and ?Q = "sum_list (map (\<lambda>x. x\<^sup>2) xs)" and ?n = "real (length xs)"
  have "2 * x * ?S \<le> ?n * x\<^sup>2 + ?Q"
  proof (cases "xs = []")
    case False
    then have n: "?n > 0" by simp
    have "0 \<le> (?n * x - ?S)\<^sup>2" by simp
    then have "2 * ?n * x * ?S \<le> ?n\<^sup>2 * x\<^sup>2 + ?S\<^sup>2" by (simp add: power2_diff power_mult_distrib algebra_simps)
    also have "\<dots> \<le> ?n * (?n * x\<^sup>2 + ?Q)" using Cons by (simp add: power2_eq_square algebra_simps)
    finally have "?n * (2 * x * ?S) \<le> ?n * (?n * x\<^sup>2 + ?Q)" by (simp add: algebra_simps)
    with n show ?thesis by (simp add: mult_le_cancel_left_pos)
  qed simp
  with Cons show ?case by (simp add: power2_sum algebra_simps)
qed simp

lemma sum_list_minus_const: "sum_list (map (\<lambda>v. v - m) ys) = sum_list ys - real (length ys) * m" for m :: num
  by (induction ys) (simp_all add: algebra_simps)

text \<open>Samuelson's inequality: a deviation from the mean squares to at most \<open>n - 1\<close> variances.\<close>

lemma deviation_bound:
  fixes xs :: "num list"
  assumes "x \<in> set xs"
  shows "(x - computeMean xs)\<^sup>2 \<le> (real (length xs) - 1) * (sum_list (map (\<lambda>v. (v - computeMean xs)\<^sup>2) xs) / real (length xs))"
proof -
  let ?m = "computeMean xs" and ?n = "real (length xs)"
  have ne: "xs \<noteq> []" "0 < ?n" using assms by auto
  obtain as bs where xs: "xs = as @ x # bs" using assms by (meson split_list)
  let ?ds = "map (\<lambda>v. v - ?m) (as @ bs)"
  have "sum_list xs = ?n * ?m" using ne by (simp add: computeMean_def)
  moreover have "sum_list ?ds = sum_list (as @ bs) - real (length (as @ bs)) * ?m"
    by (rule sum_list_minus_const)
  ultimately have d: "sum_list ?ds = - (x - ?m)" by (simp add: xs algebra_simps)
  have "(x - ?m)\<^sup>2 \<le> (?n - 1) * sum_list (map (\<lambda>v. v\<^sup>2) ?ds)"
    using sum_list_sq_ge [of ?ds] by (simp only: d power2_minus) (simp add: xs)
  moreover have "sum_list (map (\<lambda>v. (v - ?m)\<^sup>2) xs) = (x - ?m)\<^sup>2 + sum_list (map (\<lambda>v. v\<^sup>2) ?ds)"
    by (simp add: xs comp_def)
  ultimately have "?n * (x - ?m)\<^sup>2 \<le> (?n - 1) * sum_list (map (\<lambda>v. (v - ?m)\<^sup>2) xs)"
    by (simp add: algebra_simps)
  with ne show ?thesis by (simp add: field_simps)
qed

lemma zScore_bound:
  assumes "s \<in> set snapshots" and "anomalies_of z snapshots = Some rs" and "r \<in> set rs"
  shows "(zScore r)\<^sup>2 \<le> real (length rs) - 1"
proof -
  let ?ps = "map p99Ms snapshots"
  let ?m = "computeMean ?ps"
  let ?V = "sum_list (map (\<lambda>v. (v - ?m)\<^sup>2) ?ps) / real (length ?ps)"
  have ne: "snapshots \<noteq> []" using assms(1) by auto
  then have rs: "rs = map (anomaly_of z ?m (computeStddev ?ps ?m)) snapshots"
    using assms(2) by (simp add: anomalies_of_def Let_def)
  then obtain t where t: "t \<in> set snapshots" "r = anomaly_of z ?m (computeStddev ?ps ?m) t" using assms(3) by auto
  have n: "1 \<le> real (length rs)" using ne rs by (cases snapshots) auto
  show ?thesis
  proof (cases "computeStddev ?ps ?m > 0")
    case False
    with n show ?thesis by (simp add: t(2) anomaly_of_def Let_def)
  next
    case True
    have V: "computeStddev ?ps ?m = sqrt ?V" using True
      by (simp add: computeStddev_def power2_eq_square split: if_splits)
    then have pos: "0 < ?V" using True by simp
    have "(zScore r)\<^sup>2 = (p99Ms t - ?m)\<^sup>2 / ?V"
      using True pos by (simp only: t(2) anomaly_of_def Let_def if_True AnomalyResult.simps power_divide V real_sqrt_pow2 order_less_imp_le)
    also have "\<dots> \<le> real (length ?ps) - 1"
      unfolding pos_divide_le_eq [OF pos] by (rule deviation_bound) (use t(1) in simp)
    finally show ?thesis by (simp add: rs)
  qed
qed

subsection \<open>The sums of a service\<close>

definition rates_of :: "string \<Rightarrow> metric_snapshot list \<Rightarrow> num \<times> num" where
  "rates_of svc ss = (let own = filter (\<lambda>s. service s = svc) ss
     in (sum_list (map rate own), sum_list (map (\<lambda>s. rate s * errorRate s) own)))"

lemma map_of_add_stats:
  "map_of (add_stats s m) k = (if k = service s
     then Some (case map_of m k of None \<Rightarrow> (rate s, rate s * errorRate s) | Some (r, e) \<Rightarrow> (r + rate s, e + rate s * errorRate s))
     else map_of m k)"
  by (induction m) (auto simp: add_stats_def split: option.splits)

lemma fst_set_add_stats: "fst ` set (add_stats s m) = insert (service s) (fst ` set m)"
  by (induction m) (auto simp: add_stats_def)

lemma stats_are_sums:
  "map_of (fold add_stats ss []) k = (if k \<in> service ` set ss then Some (rates_of k ss) else None)"
  "fst ` set (fold add_stats ss []) = service ` set ss"
proof (induction ss rule: rev_induct)
  case (snoc s ss)
  { case 1
    have "rates_of k ss = (0, 0)" if "k \<notin> service ` set ss"
    proof -
      have "filter (\<lambda>s. service s = k) ss = []" using that by (auto simp: filter_empty_conv)
      then show ?thesis by (simp add: rates_of_def)
    qed
    then show ?case using snoc(1) by (auto simp: map_of_add_stats rates_of_def Let_def) }
  { case 2
    show ?case using snoc(2) by (simp add: fst_set_add_stats) }
qed simp_all

lemma slos_of_eq:
  assumes "range_ok rngs"
  shows "slos_of rngs target ss =
    map (\<lambda>svc. slo_of target svc (fst (rates_of svc ss)) (snd (rates_of svc ss))) (rngs (service ` set ss))"
proof -
  have "set (rngs (service ` set ss)) = service ` set ss" using assms by (simp add: range_ok_def)
  then have "List.map_filter (\<lambda>svc. map_option (\<lambda>(r, e). slo_of target svc r e) (map_of (fold add_stats ss []) svc)) ks =
      map (\<lambda>svc. slo_of target svc (fst (rates_of svc ss)) (snd (rates_of svc ss))) ks" if "set ks \<subseteq> service ` set ss" for ks
    using that by (induction ks) (auto simp: List.map_filter_def stats_are_sums case_prod_unfold)
  then show ?thesis using assms by (simp add: slos_of_def Let_def stats_are_sums range_ok_def)
qed

text \<open>The spans of a service that a tenant sees.\<close>

definition service_spans :: "string \<Rightarrow> string \<Rightarrow> red_event list \<Rightarrow> (int \<times> go_span) list" where
  "service_spans tenant svc es =
     filter (\<lambda>(t, sp). gs_service sp = svc \<and> \<not> skips tenant (key_of_span sp)) (List.map_filter recorded es)"

lemma count_by_keys:
  assumes "distinct ks"
  shows "sum_list (map (\<lambda>k. of_nat (length (filter P (filter (\<lambda>x. f x = k) xs))) :: 'a :: semiring_1) ks) =
    of_nat (length (filter P (filter (\<lambda>x. f x \<in> set ks) xs)))"
  using assms
proof (induction ks)
  case (Cons k ks)
  have "length (filter P (filter (\<lambda>x. f x = k \<or> f x \<in> set ks) xs)) =
      length (filter P (filter (\<lambda>x. f x = k) xs)) + length (filter P (filter (\<lambda>x. f x \<in> set ks) xs))"
    using Cons.prems by (induction xs) auto
  with Cons show ?case by simp
qed simp

lemma count_service:
  assumes "distinct ks" and "set ks = {k. spans_of k es \<noteq> [] \<and> \<not> skips tenant k \<and> fst (snd k) = svc}"
  shows "sum_list (map (\<lambda>k. real (length (filter P (spans_of k es)))) ks) = real (length (filter P (service_spans tenant svc es)))"
proof -
  let ?xs = "List.map_filter recorded es" and ?f = "\<lambda>x :: int \<times> go_span. key_of_span (snd x)"
  have "spans_of k es = filter (\<lambda>x. ?f x = k) ?xs" for k by (simp add: spans_of_def case_prod_unfold)
  moreover have "filter (\<lambda>x. ?f x \<in> set ks) ?xs = service_spans tenant svc es"
    unfolding service_spans_def
  proof (rule filter_cong [OF refl])
    fix x assume "x \<in> set ?xs"
    then have "spans_of (?f x) es \<noteq> []" by (auto simp: spans_of_def filter_empty_conv case_prod_unfold intro!: bexI [of _ x])
    then show "(?f x \<in> set ks) = (case x of (t, sp) \<Rightarrow> gs_service sp = svc \<and> \<not> skips tenant (key_of_span sp))"
      by (auto simp: assms(2) key_of_span_def)
  qed
  ultimately show ?thesis using count_by_keys [OF assms(1), of P ?f ?xs] by simp
qed

lemma services_of_keys:
  "(\<lambda>k. fst (snd k)) ` {k. spans_of k es \<noteq> [] \<and> \<not> skips tenant k} = {svc. service_spans tenant svc es \<noteq> []}"
proof -
  let ?ks = "(\<lambda>x. key_of_span (snd x)) ` set (List.map_filter recorded es)"
  have k: "spans_of k es \<noteq> [] \<longleftrightarrow> k \<in> ?ks" for k by (force simp: spans_of_def filter_empty_conv)
  have s: "service_spans tenant svc es \<noteq> [] \<longleftrightarrow> (\<exists>k \<in> ?ks. fst (snd k) = svc \<and> \<not> skips tenant k)" for svc
    unfolding service_spans_def filter_empty_conv by (force simp: key_of_span_def)
  show ?thesis unfolding k s by blast
qed

lemma sum_list_over: "sum_list (map (\<lambda>x. f x / c) xs) = sum_list (map f xs) / c" for c :: num
  by (induction xs) (simp_all add: add_divide_distrib)

lemma last_minute_failed: "last_minute now (failed xs) \<le> last_minute now xs"
  by (induction xs) (auto simp: last_minute_def failed_def)

lemma rates_of_service:
  assumes "range_ok rng" and "go_sort srt" and "red_history es now" and "0 < now"
  shows "rates_of svc (fst (Snapshot rng srt now tenant (red_run rng srt es))) =
    (real (last_minute now (service_spans tenant svc es)) / 60,
     real (last_minute now (failed (service_spans tenant svc es))) / 60)"
proof -
  let ?rows = "fst (Snapshot rng srt now tenant (red_run rng srt es))"
  let ?own = "filter (\<lambda>s. service s = svc) ?rows"
  note keys = snapshot_keys [OF assms, of tenant]
  have d: "distinct (map snap_key ?own)" using keys(1) by (rule distinct_map_filter)
  have "set (map snap_key ?own) = {k \<in> set (map snap_key ?rows). fst (snd k) = svc}" by (force simp: snap_key_def)
  then have ks: "set (map snap_key ?own) = {k. spans_of k es \<noteq> [] \<and> \<not> skips tenant k \<and> fst (snd k) = svc}"
    unfolding keys(2) by auto
  have row: "rate s = real (last_minute now (spans_of (snap_key s) es)) / 60 \<and>
      rate s * errorRate s = real (last_minute now (failed (spans_of (snap_key s) es))) / 60" if mem: "s \<in> set ?rows" for s
  proof -
    obtain sm where "s = snapshot_of now (snap_key s) sm" "metrics_ok now (spans_of (snap_key s) es) sm"
      "\<not> skips tenant (snap_key s)"
      by (rule snapshot_cases [OF assms mem])
    from snapshot_of_exact [OF this(2), of "snap_key s"] this(1)
    have r: "rate s = real (last_minute now (spans_of (snap_key s) es)) / 60"
      and e: "errorRate s = failed_share now (spans_of (snap_key s) es)" by simp_all
    then show ?thesis using last_minute_failed [of now "spans_of (snap_key s) es"]
      unfolding e r failed_share_def by simp
  qed
  have "sum_list (map f ?own) = sum_list (map (\<lambda>k. real (length (filter P (spans_of k es)))) (map snap_key ?own)) / 60"
    if "\<And>s. s \<in> set ?rows \<Longrightarrow> f s = real (length (filter P (spans_of (snap_key s) es))) / 60" for f P
  proof -
    have "map f ?own = map (\<lambda>s. real (length (filter P (spans_of (snap_key s) es))) / 60) ?own"
      using that by (intro map_cong [OF refl]) (simp only: set_filter mem_Collect_eq)
    then show ?thesis by (simp only: sum_list_over list.map_comp comp_def)
  qed
  note sums = this [unfolded count_service [OF d ks]]
  have "sum_list (map rate ?own) = real (length (filter (\<lambda>(t, sp). now - 60 < t) (service_spans tenant svc es))) / 60"
    using row by (intro sums) (simp add: last_minute_def)
  moreover have "sum_list (map (\<lambda>s. rate s * errorRate s) ?own) =
      real (length (filter (\<lambda>x. gs_code (snd x) = go_StatusError \<and> now - 60 < fst x) (service_spans tenant svc es))) / 60"
    using row by (intro sums) (simp add: last_minute_def failed_def case_prod_unfold conj_commute)
  ultimately show ?thesis unfolding rates_of_def Let_def
    by (simp add: last_minute_def failed_def case_prod_unfold conj_commute)
qed

subsection \<open>Ten seconds of a window\<close>

lemma filter_group: "g < 6 \<Longrightarrow> filter (\<lambda>i. i div 10 = g) [0..<60] = map (\<lambda>i. 10 * g + i) [0..<10]"
proof -
  have "\<forall>g \<in> set [0..<6]. filter (\<lambda>i. i div 10 = g) [0..<60] = map (\<lambda>i. 10 * g + i) [0..<10]" by code_simp
  then show "g < 6 \<Longrightarrow> ?thesis" by simp
qed

lemma count_seconds:
  "sum_list (map (\<lambda>i. int (length (filter (\<lambda>x. x = a + int i) ts))) [0..<n]) =
   int (length (filter (\<lambda>x. a \<le> x \<and> x < a + int n) ts))"
proof (induction ts)
  case (Cons t ts)
  have "sum_list (map (\<lambda>i. if t = a + int i then 1 else 0) [0..<n]) = (if a \<le> t \<and> t < a + int n then 1 else (0 :: int))"
    by (induction n) auto
  moreover have "map (\<lambda>i. int (length (filter (\<lambda>x. x = a + int i) (t # ts)))) [0..<n] =
      map (\<lambda>i. (if t = a + int i then 1 else 0) + int (length (filter (\<lambda>x. x = a + int i) ts))) [0..<n]"
    by simp
  ultimately show ?case unfolding \<open>map _ _ = _\<close> sum_list_addf Cons.IH by simp
qed (simp add: sum_list_0)

text \<open>A group counts the ones in its ten seconds, the last of which ends now.\<close>

lemma group_total_counts:
  assumes "tracks now ts w" and "0 < now" and "g < 6"
  shows "group_total (fst (fst (RawBuckets now w))) now g =
    int (length (filter (\<lambda>x. now - 59 + 10 * int g \<le> x \<and> x < now - 59 + 10 * int g + 10) ts))"
proof -
  let ?a = "now - 59 + 10 * int g"
  have "fst (fst (RawBuckets now w)) ! nat ((now - int (59 - (10 * g + i))) mod 60) =
      int (length (filter (\<lambda>x. x = ?a + int i) ts))" if "i < 10" for i
  proof -
    have sec: "now - int (59 - (10 * g + i)) = ?a + int i" using assms(3) that by simp
    have "now - 60 < ?a + int i" "?a + int i \<le> now" using assms(3) that by simp_all
    then show ?thesis unfolding sec by (rule tracks_buckets(1) [OF assms(1) order_refl assms(2)])
  qed
  then have "group_total (fst (fst (RawBuckets now w))) now g =
      sum_list (map (\<lambda>i. int (length (filter (\<lambda>x. x = ?a + int i) ts))) [0..<10])"
    unfolding group_total_def filter_group [OF assms(3)] list.map_comp comp_def by (intro arg_cong [where f = sum_list] map_cong) auto
  also have "\<dots> = int (length (filter (\<lambda>x. ?a \<le> x \<and> x < ?a + int 10) ts))" by (rule count_seconds)
  finally show ?thesis by simp
qed

subsection \<open>The heatmaps\<close>

text \<open>The spans a heatmap shows.\<close>

definition heat_spans :: "string \<Rightarrow> string \<Rightarrow> red_event list \<Rightarrow> (int \<times> go_span) list" where
  "heat_spans svc tenant es = filter (\<lambda>x. heat_matches svc tenant (key_of_span (snd x))) (List.map_filter recorded es)"

definition ten_seconds :: "int \<Rightarrow> (int \<times> go_span) list \<Rightarrow> int" where
  "ten_seconds ts xs = int (length (filter (\<lambda>x. ts - 10 < fst x \<and> fst x \<le> ts) xs))"

lemma group_total_spans:
  assumes "tracks now (map fst xs) w" and "0 < now" and "g < 6"
  shows "group_total (fst (fst (RawBuckets now w))) now g = ten_seconds (now - int ((5 - g) * 10)) xs"
proof -
  have "group_total (fst (fst (RawBuckets now w))) now g =
      int (length (filter (\<lambda>x. now - 59 + 10 * int g \<le> x \<and> x < now - 59 + 10 * int g + 10) (map fst xs)))"
    by (rule group_total_counts [OF assms])
  also have "\<dots> = ten_seconds (now - int ((5 - g) * 10)) xs"
    unfolding ten_seconds_def filter_map length_map comp_def
    using assms(3) by (intro arg_cong [where f = int] arg_cong [where f = length] filter_cong) auto
  finally show ?thesis .
qed

lemma ten_seconds_by_keys:
  assumes "distinct ks" and "set ks = {k. spans_of k es \<noteq> [] \<and> heat_matches svc tenant k}"
  shows "sum_list (map (\<lambda>k. ten_seconds ts (filter P (spans_of k es))) ks) = ten_seconds ts (filter P (heat_spans svc tenant es))"
proof -
  let ?xs = "List.map_filter recorded es" and ?f = "\<lambda>x :: int \<times> go_span. key_of_span (snd x)"
  have "spans_of k es = filter (\<lambda>x. ?f x = k) ?xs" for k by (simp add: spans_of_def case_prod_unfold)
  moreover have "filter (\<lambda>x. ?f x \<in> set ks) ?xs = heat_spans svc tenant es"
    unfolding heat_spans_def
  proof (rule filter_cong [OF refl])
    fix x assume "x \<in> set ?xs"
    then have "spans_of (?f x) es \<noteq> []" by (auto simp: spans_of_def filter_empty_conv case_prod_unfold intro!: bexI [of _ x])
    then show "(?f x \<in> set ks) = heat_matches svc tenant (?f x)" by (simp add: assms(2))
  qed
  ultimately show ?thesis
    using count_by_keys [OF assms(1), of "\<lambda>x. P x \<and> ts - 10 < fst x \<and> fst x \<le> ts" ?f ?xs, where ?'a = int]
    by (simp add: ten_seconds_def conj_ac)
qed

lemma fold_first: "xs \<noteq> [] \<Longrightarrow> (\<And>x. x \<in> set xs \<Longrightarrow> f x = c) \<Longrightarrow> c \<noteq> 0 \<Longrightarrow> fold (\<lambda>x l. if l = 0 then f x else l) xs 0 = (c :: int)"
proof (induction xs)
  case (Cons x xs)
  have "fold (\<lambda>x l. if l = 0 then f x else l) ys c = c" for ys using Cons.prems(3) by (induction ys) auto
  with Cons.prems show ?case by simp
qed simp

lemma map_filter_Some: "(\<And>x. x \<in> set xs \<Longrightarrow> f x = Some (g x)) \<Longrightarrow> List.map_filter f xs = map g xs"
  by (induction xs) (auto simp: List.map_filter_def)

text \<open>The metrics a heatmap adds up, by key.\<close>

lemma matching_metrics:
  fixes svc tenant :: string
  assumes "range_ok rng" and "go_sort srt" and "red_history es now" and "0 < now"
  defines "m \<equiv> red_run rng srt es"
  defines "ks \<equiv> filter (heat_matches svc tenant) (rng (Mapping.keys (mt_data m)))"
  shows "distinct ks" and "set ks = {k. spans_of k es \<noteq> [] \<and> heat_matches svc tenant k}"
    and "heat_spans svc tenant es = [] \<longleftrightarrow> ks = []"
    and "List.map_filter (Mapping.lookup (mt_data m)) ks = map (\<lambda>k. the (Mapping.lookup (mt_data m) k)) ks"
    and "\<And>k. k \<in> set ks \<Longrightarrow> snd (fst (RawBuckets now (sm_rate (the (Mapping.lookup (mt_data m) k))))) = now"
    and "\<And>k g. k \<in> set ks \<Longrightarrow> g < 6 \<Longrightarrow>
      group_total (fst (fst (RawBuckets now (sm_rate (the (Mapping.lookup (mt_data m) k)))))) now g =
      ten_seconds (now - int ((5 - g) * 10)) (spans_of k es)"
    and "\<And>k g. k \<in> set ks \<Longrightarrow> g < 6 \<Longrightarrow>
      group_total (fst (fst (RawBuckets now (sm_errors (the (Mapping.lookup (mt_data m) k)))))) now g =
      ten_seconds (now - int ((5 - g) * 10)) (failed (spans_of k es))"
proof -
  note ok = red_okD [OF red_ok_run [OF assms(3,4), of rng srt], folded m_def]
  have dom: "spans_of k es \<noteq> [] \<longleftrightarrow> k \<in> Mapping.keys (mt_data m)" for k
    using ok(2,3) [of k] by (cases "Mapping.lookup (mt_data m) k") (auto simp: keys_dom_lookup metrics_ok_def)
  show "distinct ks" using assms(1) ok(1) by (simp add: ks_def range_ok_def)
  show ks: "set ks = {k. spans_of k es \<noteq> [] \<and> heat_matches svc tenant k}"
    using assms(1) ok(1) by (auto simp: ks_def range_ok_def dom)
  have "heat_spans svc tenant es \<noteq> [] \<longleftrightarrow> (\<exists>k. spans_of k es \<noteq> [] \<and> heat_matches svc tenant k)"
    by (force simp: heat_spans_def spans_of_def filter_empty_conv simp del: split_paired_Ex)
  then show "heat_spans svc tenant es = [] \<longleftrightarrow> ks = []" unfolding set_empty [symmetric, of ks] ks by blast
  have look: "Mapping.lookup (mt_data m) k = Some (the (Mapping.lookup (mt_data m) k))" if "k \<in> set ks" for k
  proof -
    have "k \<in> Mapping.keys (mt_data m)" using that ks dom by blast
    then show ?thesis by (auto simp: keys_dom_lookup)
  qed
  then show "List.map_filter (Mapping.lookup (mt_data m)) ks = map (\<lambda>k. the (Mapping.lookup (mt_data m) k)) ks"
    by (rule map_filter_Some)
  have tr: "tracks now (map fst (spans_of k es)) (sm_rate (the (Mapping.lookup (mt_data m) k)))"
    "tracks now (map fst (failed (spans_of k es))) (sm_errors (the (Mapping.lookup (mt_data m) k)))" if "k \<in> set ks" for k
    using ok(3) [OF look [OF that]] by (simp_all add: metrics_ok_def)
  show "snd (fst (RawBuckets now (sm_rate (the (Mapping.lookup (mt_data m) k))))) = now" if "k \<in> set ks" for k
    by (rule tracks_buckets(2) [OF tr(1) [OF that] order_refl assms(4), of now]) simp_all
  show "group_total (fst (fst (RawBuckets now (sm_rate (the (Mapping.lookup (mt_data m) k)))))) now g =
      ten_seconds (now - int ((5 - g) * 10)) (spans_of k es)" if "k \<in> set ks" "g < 6" for k g
    by (rule group_total_spans [OF tr(1) [OF that(1)] assms(4) that(2)])
  show "group_total (fst (fst (RawBuckets now (sm_errors (the (Mapping.lookup (mt_data m) k)))))) now g =
      ten_seconds (now - int ((5 - g) * 10)) (failed (spans_of k es))" if "k \<in> set ks" "g < 6" for k g
    by (rule group_total_spans [OF tr(2) [OF that(1)] assms(4) that(2)])
qed

text \<open>The key of a service is read back, unless its tenant contains the separator.\<close>

lemma heatmapKey_back: "CHR ''|'' \<notin> set tenant \<Longrightarrow> parseHeatmapKey (heatmapKey tenant svc) = (tenant, svc)"
  by (auto simp: parseHeatmapKey_def heatmapKey_def takeWhile_append2 dropWhile_append2 takeWhile_tail dropWhile_append)

text \<open>Every window has a count for each band.\<close>

definition heat_rows :: "latency_heat \<Rightarrow> bool" where
  "heat_rows h \<longleftrightarrow> length (lh_windows h) = 6 \<and> lh_head h < 6 \<and> list_all (\<lambda>cs. length cs = 11) (lh_windows h)"

lemma heat_rows_record: "heat_rows h \<Longrightarrow> heat_rows (heat_record now d h)"
  by (auto simp: heat_rows_def heat_record_def heat_advance_def Let_def list_all_length nth_list_update bump_at_def
      heatmapNumBands_def heatmapNumWindows_def)

lemma heat_rows_run:
  "Mapping.lookup (mt_heat (red_run rng srt es)) hk = Some h \<Longrightarrow> heat_rows h"
proof (induction es arbitrary: hk h rule: rev_induct)
  case Nil
  then show ?case by (simp add: red_run_def NewMetricsStore_def)
next
  case (snoc e es)
  have "heat_rows empty_heat"
    by (simp add: heat_rows_def empty_heat_def heatmapNumBands_def heatmapNumWindows_def list_all_iff)
  with snoc heat_rows_record show ?case
    by (cases e) (auto simp: red_run_def red_Record_def Snapshot_def Let_def lookup_update' split: if_splits option.splits)
qed

lemma heat_data_rows: "heat_rows h \<Longrightarrow> b \<in> set (heat_data h) \<Longrightarrow> length (counts b) = 11"
  by (auto simp: heat_data_def walk_def heat_rows_def list_all_length heatmapNumWindows_def Let_def simp del: upt.simps)

lemma matching_heats_rows:
  "h \<in> set (matching_heats rngs svc tenant (red_run rng srt es)) \<Longrightarrow> heat_rows h"
  by (auto simp: matching_heats_def List.map_filter_def heat_rows_run)

definition band_sums :: "LatencyHeatmapBucket list \<Rightarrow> num \<Rightarrow> int list" where
  "band_sums bs ts = map (\<lambda>i. sum_list (map (\<lambda>b. counts b ! i) (filter (\<lambda>b. bucket_ts b = ts) bs))) [0..<11]"

lemma map_of_add_counts:
  "map_of (add_counts b m) k = (if k = bucket_ts b
     then Some (case map_of m k of None \<Rightarrow> counts b | Some cs \<Rightarrow> map2 (+) cs (counts b)) else map_of m k)"
  "fst ` set (add_counts b m) = insert (bucket_ts b) (fst ` set m)"
  "distinct (map fst m) \<Longrightarrow> distinct (map fst (add_counts b m))"
proof -
  show "map_of (add_counts b m) k = (if k = bucket_ts b
     then Some (case map_of m k of None \<Rightarrow> counts b | Some cs \<Rightarrow> map2 (+) cs (counts b)) else map_of m k)"
    by (induction m) (auto simp: add_counts_def split: option.splits)
  show "fst ` set (add_counts b m) = insert (bucket_ts b) (fst ` set m)"
    by (induction m) (auto simp: add_counts_def)
  show "distinct (map fst m) \<Longrightarrow> distinct (map fst (add_counts b m))"
    unfolding add_counts_def by (rule distinct_map_default)
qed

lemma merged_counts:
  assumes "list_all (\<lambda>b. length (counts b) = 11) bs"
  shows "map_of (fold add_counts bs []) ts = (if ts \<in> bucket_ts ` set bs then Some (band_sums bs ts) else None)"
    and "fst ` set (fold add_counts bs []) = bucket_ts ` set bs" and "distinct (map fst (fold add_counts bs []))"
  using assms
proof (induction bs rule: rev_induct)
  case (snoc b bs)
  { case 1
    have len: "length (counts b) = 11" using 1 by simp
    have "map2 (+) (band_sums bs ts) (counts b) = band_sums (bs @ [b]) ts" if "bucket_ts b = ts"
      using that len by (intro nth_equalityI) (simp_all add: band_sums_def)
    moreover have "counts b = band_sums (bs @ [b]) ts" if "bucket_ts b = ts" "ts \<notin> bucket_ts ` set bs"
    proof -
      have "filter (\<lambda>b. bucket_ts b = ts) bs = []" using that(2) by (auto simp: filter_empty_conv)
      then show ?thesis using that(1) len by (intro nth_equalityI) (simp_all add: band_sums_def)
    qed
    moreover have "band_sums bs ts = band_sums (bs @ [b]) ts" if "bucket_ts b \<noteq> ts" using that by (simp add: band_sums_def)
    ultimately show ?case using snoc(1) 1 by (auto simp: map_of_add_counts) }
  { case 2 show ?case using snoc(2) 2 by (simp add: map_of_add_counts) }
  { case 3 show ?case using snoc(3) 3 by (simp add: map_of_add_counts) }
qed simp_all

section \<open>Properties\<close>

text \<open>No operation lies more than \<open>sqrt (n - 1)\<close> standard deviations above the mean of \<open>n\<close>
  operations; so with the default threshold of 2, or a higher one, nothing is reported as an outlier while
  there are at most five operations, whatever their latencies.\<close>

theorem few_operations_are_never_outliers:
  assumes "DetectAnomalies rng srt now z tenant m = (Some rs, m')"
  shows "list_all (\<lambda>r. (zScore r)\<^sup>2 \<le> real (length rs) - 1) rs \<and>
    (2 \<le> z \<and> length rs \<le> 5 \<longrightarrow> list_all (\<lambda>r. \<not> isOutlier r) rs)"
proof -
  obtain ss where ss: "anomalies_of z ss = Some rs" using assms by (auto simp: DetectAnomalies_def split: prod.splits)
  then obtain s where "s \<in> set ss" by (cases ss) (auto simp: anomalies_of_def)
  note b = zScore_bound [OF this ss]
  have "\<not> isOutlier r" if "2 \<le> z" "length rs \<le> 5" "r \<in> set rs" for r
  proof
    assume "isOutlier r"
    then have "z < zScore r" using ss that(3) by (auto simp: anomalies_of_def anomaly_of_def Let_def split: if_splits)
    then have "2 * 2 < zScore r * zScore r" using that(1) by (intro mult_strict_mono) auto
    with b [OF that(3)] that(2) show False by (simp add: power2_eq_square)
  qed
  with b show ?thesis by (simp add: list_all_iff)
qed

theorem few_operations_are_never_outliers_witness:
  "list_all (\<lambda>r. \<not> isOutlier r) (the (fst (DetectAnomalies sorted_list_of_set insertion_sort 80 2 []
     (red_run sorted_list_of_set insertion_sort sample_events))))"
proof -
  let ?S = "Snapshot sorted_list_of_set insertion_sort 80 [] (red_run sorted_list_of_set insertion_sort sample_events)"
  have n: "length (fst ?S) = 1" by code_simp
  obtain ss m' where S: "?S = (ss, m')" by (cases ?S)
  with n have "length ss = 1" by simp
  then obtain rs where "anomalies_of 2 ss = Some rs" and len: "length rs = 1"
    by (cases ss) (auto simp: anomalies_of_def Let_def)
  then have r: "DetectAnomalies sorted_list_of_set insertion_sort 80 2 []
      (red_run sorted_list_of_set insertion_sort sample_events) = (Some rs, m')"
    unfolding DetectAnomalies_def S by simp
  from few_operations_are_never_outliers [OF r] r len show ?thesis by simp
qed

text \<open>C9. The error budgets are exact: each service with spans has one, its error rate is the share of
  its spans of the last minute that failed, over all its operations, the budget lies between 0 and 1, and a
  service over its target has none left.\<close>

theorem error_budgets_are_exact:
  assumes "range_ok rng" and "go_sort srt" and "range_ok rngs" and "red_history es now" and "0 < now" and "0 < target"
  shows "let slos = fst (ComputeSLOs rng srt rngs now target tenant (red_run rng srt es))
    in distinct (map slo_service slos) \<and>
       set (map slo_service slos) = {svc. service_spans tenant svc es \<noteq> []} \<and>
       list_all (\<lambda>r. currentErrorRate r = failed_share now (service_spans tenant (slo_service r) es) \<and>
         0 \<le> budgetRemaining r \<and> budgetRemaining r \<le> 1 \<and>
         (breached r \<longleftrightarrow> currentErrorRate r > target) \<and> (breached r \<longrightarrow> budgetRemaining r = 0)) slos"
proof -
  let ?rows = "fst (Snapshot rng srt now tenant (red_run rng srt es))"
  have eq: "fst (ComputeSLOs rng srt rngs now target tenant (red_run rng srt es)) =
      map (\<lambda>svc. slo_of target svc (fst (rates_of svc ?rows)) (snd (rates_of svc ?rows))) (rngs (service ` set ?rows))"
    using slos_of_eq [OF assms(3)] by (simp add: ComputeSLOs_def case_prod_unfold)
  have "service ` set ?rows = (\<lambda>k. fst (snd k)) ` set (map snap_key ?rows)" by (simp add: image_image snap_key_def)
  also have "\<dots> = {svc. service_spans tenant svc es \<noteq> []}"
    unfolding snapshot_keys(2) [OF assms(1,2,4,5)] by (rule services_of_keys)
  finally have svcs: "service ` set ?rows = {svc. service_spans tenant svc es \<noteq> []}" .
  have "set (rngs (service ` set ?rows)) = service ` set ?rows" "distinct (rngs (service ` set ?rows))"
    using assms(3) by (simp_all add: range_ok_def)
  moreover have "currentErrorRate (slo_of target svc (real a / 60) (real b / 60)) = real b / real a" if "b \<le> a" for svc a b
    using that by (simp add: slo_of_def Let_def)
  ultimately show ?thesis
    unfolding Let_def eq rates_of_service [OF assms(1,2,4,5)] svcs fst_conv snd_conv
    using last_minute_failed assms(6)
    by (auto simp: list_all_iff failed_share_def comp_def) (auto simp: slo_of_def Let_def field_simps)
qed

theorem error_budgets_are_exact_witness:
  "set (map slo_service (fst (ComputeSLOs sorted_list_of_set insertion_sort sorted_list_of_set 80 (1 / 100) []
     (red_run sorted_list_of_set insertion_sort sample_events)))) = {svc. service_spans [] svc sample_events \<noteq> []} \<and>
   failed_share 80 (service_spans [] ''s'' sample_events) = 1 / 2"
proof
  have "range_ok (sorted_list_of_set :: metric_key set \<Rightarrow> metric_key list)"
    "range_ok (sorted_list_of_set :: string set \<Rightarrow> string list)" by (simp_all add: range_ok_def)
  moreover have "red_history sample_events 80" by code_simp
  ultimately show "set (map slo_service (fst (ComputeSLOs sorted_list_of_set insertion_sort sorted_list_of_set 80 (1 / 100) []
     (red_run sorted_list_of_set insertion_sort sample_events)))) = {svc. service_spans [] svc sample_events \<noteq> []}"
    using error_budgets_are_exact [OF _ go_sort_insertion, of sorted_list_of_set sorted_list_of_set sample_events 80 "1 / 100" "[]"]
    by (simp add: Let_def)
qed code_simp

text \<open>C24. The heatmap of a service is exact: each of its six columns counts the spans, and the failed
  spans, recorded in the ten seconds up to its time, the last column ending now.\<close>

theorem counts_heatmap_is_exact:
  assumes "range_ok rng" and "go_sort srt" and "red_history es now" and "0 < now"
  shows "fst (HeatmapData rng now svc tenant (red_run rng srt es)) =
    (let xs = heat_spans svc tenant es
     in if xs = [] then []
        else map (\<lambda>g. let ts = now - int ((5 - g) * 10)
          in \<lparr>hb_ts = ts, hb_spans = ten_seconds ts xs, hb_errors = ten_seconds ts (failed xs)\<rparr>) [0..<6])"
proof -
  let ?m = "red_run rng srt es" and ?xs = "heat_spans svc tenant es"
  let ?ks = "filter (heat_matches svc tenant) (rng (Mapping.keys (mt_data ?m)))"
  let ?sm = "\<lambda>k. the (Mapping.lookup (mt_data ?m) k)"
  note mm = matching_metrics [where svc = svc and tenant = tenant, OF assms]
  show ?thesis
  proof (cases "?xs = []")
    case True
    then show ?thesis using mm(3) by (simp add: HeatmapData_def mm(4))
  next
    case False
    with mm(3) have ne: "?ks \<noteq> []" by blast
    have last: "fold (\<lambda>sm l. if l = 0 then snd (fst (RawBuckets now (sm_rate sm))) else l) (map ?sm ?ks) 0 = now"
      by (rule fold_first) (use ne mm(5) assms(4) in auto)
    have total: "sum_list (map (\<lambda>k. group_total (fst (fst (RawBuckets now (sm_rate (?sm k))))) (snd (fst (RawBuckets now (sm_rate (?sm k))))) g) ?ks) =
        ten_seconds (now - int ((5 - g) * 10)) ?xs"
      "sum_list (map (\<lambda>k. group_total (fst (fst (RawBuckets now (sm_errors (?sm k))))) (snd (fst (RawBuckets now (sm_rate (?sm k))))) g) ?ks) =
        ten_seconds (now - int ((5 - g) * 10)) (failed ?xs)" if g: "g < 6" for g
    proof -
      have all: "filter (\<lambda>_. True) xs = xs" for xs :: "(int \<times> go_span) list" by simp
      note every = ten_seconds_by_keys [OF mm(1,2), of _ "\<lambda>_. True", unfolded all]
      have "map (\<lambda>k. group_total (fst (fst (RawBuckets now (sm_rate (?sm k))))) (snd (fst (RawBuckets now (sm_rate (?sm k))))) g) ?ks =
          map (\<lambda>k. ten_seconds (now - int ((5 - g) * 10)) (spans_of k es)) ?ks"
        by (rule map_cong [OF refl]) (simp only: mm(5) mm(6) [OF _ g])
      then show "sum_list (map (\<lambda>k. group_total (fst (fst (RawBuckets now (sm_rate (?sm k))))) (snd (fst (RawBuckets now (sm_rate (?sm k))))) g) ?ks) =
          ten_seconds (now - int ((5 - g) * 10)) ?xs"
        by (simp only: every)
      have "map (\<lambda>k. group_total (fst (fst (RawBuckets now (sm_errors (?sm k))))) (snd (fst (RawBuckets now (sm_rate (?sm k))))) g) ?ks =
          map (\<lambda>k. ten_seconds (now - int ((5 - g) * 10)) (failed (spans_of k es))) ?ks"
        by (rule map_cong [OF refl]) (simp only: mm(5) mm(7) [OF _ g])
      then show "sum_list (map (\<lambda>k. group_total (fst (fst (RawBuckets now (sm_errors (?sm k))))) (snd (fst (RawBuckets now (sm_rate (?sm k))))) g) ?ks) =
          ten_seconds (now - int ((5 - g) * 10)) (failed ?xs)"
        by (simp only: ten_seconds_by_keys [OF mm(1,2)] failed_def)
    qed
    show ?thesis
      unfolding HeatmapData_def Let_def mm(4) last map_is_Nil_conv if_not_P [OF ne] if_not_P [OF False]
      by (simp add: total comp_def cong: map_cong)
  qed
qed

theorem counts_heatmap_is_exact_witness:
  "map hb_errors (fst (HeatmapData sorted_list_of_set 80 ''s'' [] (red_run sorted_list_of_set insertion_sort sample_events))) =
   [0, 0, 0, 0, 1, 0]"
proof -
  have "range_ok (sorted_list_of_set :: metric_key set \<Rightarrow> metric_key list)" by (simp add: range_ok_def)
  moreover have "red_history sample_events 80" by code_simp
  ultimately have "fst (HeatmapData sorted_list_of_set 80 ''s'' [] (red_run sorted_list_of_set insertion_sort sample_events)) =
    (let xs = heat_spans ''s'' [] sample_events
     in if xs = [] then []
        else map (\<lambda>g. let ts = 80 - int ((5 - g) * 10)
          in \<lparr>hb_ts = ts, hb_spans = ten_seconds ts xs, hb_errors = ten_seconds ts (failed xs)\<rparr>) [0..<6])"
    by (intro counts_heatmap_is_exact go_sort_insertion) simp_all
  then show ?thesis by (simp only:) code_simp
qed

text \<open>The heatmap of latencies over several services adds them up: its columns are the times of
  their windows in ascending order, each once, and each band of a column is the sum of that band over the
  windows of that time.\<close>

theorem latency_heatmap_adds_up:
  assumes "range_ok rngs"
  shows "let bs = concat (map heat_data (matching_heats rngs svc tenant (red_run rng srt es)))
    in buckets (LatencyHeatmap2D rngs svc tenant (red_run rng srt es)) =
       map (\<lambda>ts. \<lparr>bucket_ts = ts, counts = band_sums bs ts\<rparr>) (sorted_list_of_set (bucket_ts ` set bs))"
proof -
  let ?bs = "concat (map heat_data (matching_heats rngs svc tenant (red_run rng srt es)))"
  have "list_all (\<lambda>b. length (counts b) = 11) ?bs"
    using heat_data_rows [OF matching_heats_rows] by (fastforce simp: list_all_iff)
  note mc = merged_counts [OF this]
  let ?m = "fold add_counts ?bs []"
  have "sort (map fst ?m) = sorted_list_of_set (bucket_ts ` set ?bs)"
    using mc(2,3) by (metis list.set_map sorted_list_of_set_sort_remdups distinct_remdups_id)
  moreover have "List.map_filter (\<lambda>ts. map_option (\<lambda>cs. \<lparr>bucket_ts = ts, counts = cs\<rparr>) (map_of ?m ts)) ks =
      map (\<lambda>ts. \<lparr>bucket_ts = ts, counts = band_sums ?bs ts\<rparr>) ks" if "set ks \<subseteq> bucket_ts ` set ?bs" for ks
    using that by (intro map_filter_Some) (auto simp: mc(1) simp del: set_concat)
  ultimately show ?thesis by (simp add: LatencyHeatmap2D_def Let_def del: set_concat)
qed

theorem latency_heatmap_adds_up_witness:
  "map counts (buckets (LatencyHeatmap2D sorted_list_of_set [] [] (red_run sorted_list_of_set insertion_sort
     [RecordSpan 20 0 (sample_go_span ''a'' ZeroSpanID ''s'' 1), RecordSpan 21 0 (sample_go_span ''b'' ZeroSpanID ''u'' 1)]))) =
   [[2, 0, 0, 0, 0, 0, 0, 0, 0, 0, 0]]"
proof -
  let ?m = "red_run sorted_list_of_set insertion_sort
     [RecordSpan 20 0 (sample_go_span ''a'' ZeroSpanID ''s'' 1), RecordSpan 21 0 (sample_go_span ''b'' ZeroSpanID ''u'' 1)]"
  have bs: "concat (map heat_data (matching_heats sorted_list_of_set [] [] ?m)) =
      [\<lparr>bucket_ts = 20, counts = [1, 0, 0, 0, 0, 0, 0, 0, 0, 0, 0]\<rparr>, \<lparr>bucket_ts = 20, counts = [1, 0, 0, 0, 0, 0, 0, 0, 0, 0, 0]\<rparr>]"
    by code_simp
  have "range_ok (sorted_list_of_set :: string set \<Rightarrow> string list)" by (simp add: range_ok_def)
  from latency_heatmap_adds_up [OF this, of "[]" "[]" sorted_list_of_set insertion_sort
      "[RecordSpan 20 0 (sample_go_span ''a'' ZeroSpanID ''s'' 1), RecordSpan 21 0 (sample_go_span ''b'' ZeroSpanID ''u'' 1)]"]
  show ?thesis unfolding Let_def bs by (simp only:) (simp add: band_sums_def upt_rec)
qed

end
