(* ===== verification/Dependency.thy ===== *)
theory Dependency
  imports RedMetrics TraceApi "HOL-Library.AList"
begin

text \<open>
  The graph of services the map page draws: \<open>BuildDependencyGraph\<close> of
  \<open>internal/analysis/dependency.go\<close> and \<open>HandleGetDependencies\<close> of \<open>api/handler_query.go\<close>. Nodes are
  the services of recent spans, edges the calls that client spans name in \<open>peer.service\<close>. Both are
  sorted by names, which occur once, so that the sort has one result.
\<close>

section \<open>Definitions\<close>

record node_data =
  nd_spanCount :: int
  nd_errCount :: int
  nd_durations :: "num list"
  nd_firstSeen :: int
  nd_lastSeen :: int

record edge_data =
  ed_count :: int
  ed_errorCount :: int
  ed_durations :: "num list"

definition span_ms :: "go_span \<Rightarrow> num" where
  "span_ms sp = of_int (gs_duration sp) / 10 ^ 6"

definition is_error :: "go_span \<Rightarrow> int" where
  "is_error sp = (if gs_code sp = go_StatusError then 1 else 0)"

text \<open>\<open>ensureNode\<close> and the counts of the span.\<close>

definition add_node :: "go_span \<Rightarrow> (string \<times> node_data) list \<Rightarrow> (string \<times> node_data) list" where
  "add_node sp nodes =
     AList.map_default (gs_service sp)
       \<lparr>nd_spanCount = 1, nd_errCount = is_error sp, nd_durations = [span_ms sp],
        nd_firstSeen = gs_start sp, nd_lastSeen = gs_start sp\<rparr>
       (\<lambda>nd. \<lparr>nd_spanCount = nd_spanCount nd + 1, nd_errCount = nd_errCount nd + is_error sp,
              nd_durations = nd_durations nd @ [span_ms sp],
              nd_firstSeen = (if gs_start sp < nd_firstSeen nd then gs_start sp else nd_firstSeen nd),
              nd_lastSeen = (if gs_start sp > nd_lastSeen nd then gs_start sp else nd_lastSeen nd)\<rparr>) nodes"

definition callee_of :: "go_span \<Rightarrow> string" where
  "callee_of sp = (case find (\<lambda>kv. kv_key kv = ''peer.service'') (gs_attributes sp) of None \<Rightarrow> [] | Some kv \<Rightarrow> kv_sval kv)"

definition add_edge :: "go_span \<Rightarrow> ((string \<times> string) \<times> edge_data) list \<Rightarrow> ((string \<times> string) \<times> edge_data) list" where
  "add_edge sp edges =
     AList.map_default (gs_service sp, callee_of sp)
       \<lparr>ed_count = 1, ed_errorCount = is_error sp, ed_durations = [span_ms sp]\<rparr>
       (\<lambda>ed. \<lparr>ed_count = ed_count ed + 1, ed_errorCount = ed_errorCount ed + is_error sp,
              ed_durations = ed_durations ed @ [span_ms sp]\<rparr>) edges"

type_synonym dep_state = "(string \<times> node_data) list \<times> ((string \<times> string) \<times> edge_data) list"

definition dep_span :: "int \<Rightarrow> go_span \<Rightarrow> dep_state \<Rightarrow> dep_state" where
  "dep_span since sp st =
     (if gs_start sp < since then st
      else (let nodes = (if gs_service sp \<noteq> [] then add_node sp (fst st) else fst st)
            in if gs_kind sp \<noteq> SpanKindClient then (nodes, snd st)
               else if gs_service sp = [] then (nodes, snd st)
               else if callee_of sp = [] then (nodes, snd st)
               else (nodes, add_edge sp (snd st))))"

definition service_node :: "string \<Rightarrow> node_data \<Rightarrow> ServiceNode" where
  "service_node nm nd =
     (let secs = of_int (go_sub (nd_lastSeen nd) (nd_firstSeen nd)) / 10 ^ 9 :: num
      in \<lparr>sn_name = nm, sn_spanCount = nd_spanCount nd,
          sn_errorRate = (if nd_spanCount nd > 0 then of_int (nd_errCount nd) / of_int (nd_spanCount nd) else 0),
          sn_p99Ms = go_Percentile (nd_durations nd) (99 / 100),
          reqPerSec = (if secs > 0 then of_int (nd_spanCount nd) / secs else 0)\<rparr>)"

definition service_edge :: "string \<times> string \<Rightarrow> edge_data \<Rightarrow> ServiceEdge" where
  "service_edge k ed =
     \<lparr>caller = fst k, callee = snd k, edge_count = ed_count ed, edge_errorCount = ed_errorCount ed,
      edge_p99Ms = go_Percentile (ed_durations ed) (99 / 100)\<rparr>"

text \<open>The values of an association list by ascending key.\<close>

definition by_key :: "('k :: linorder \<Rightarrow> 'v \<Rightarrow> 'r) \<Rightarrow> ('k \<times> 'v) list \<Rightarrow> 'r list" where
  "by_key f m = List.map_filter (\<lambda>k. map_option (f k) (map_of m k)) (sort (map fst m))"

definition BuildDependencyGraph :: "go_trace list \<Rightarrow> int \<Rightarrow> DependencyGraph" where
  "BuildDependencyGraph trs since =
     (case fold (\<lambda>tr st. fold (dep_span since) (gt_spans tr) st) trs ([], []) of
        (nodes, edges) \<Rightarrow> \<lparr>dg_services = by_key service_node nodes, dg_edges = by_key service_edge edges\<rparr>)"

definition dependency_query :: "principal \<Rightarrow> trace_query" where
  "dependency_query p =
     \<lparr>q_tenant = EffectiveTenant p, q_service = [], q_operation = [], q_attr = [], q_minDuration = None,
      q_maxDuration = None, q_hasError = None, q_startTime = None, q_endTime = None, q_traceID = None,
      q_limit = 1000, q_offset = 0, q_sortBy = ''receivedAt'', q_sortDesc = True\<rparr>"

text \<open>The traces of the last hour, among the 1000 received last.\<close>

definition HandleGetDependencies :: "go_env \<Rightarrow> int \<Rightarrow> principal \<Rightarrow> memory_store \<Rightarrow> DependencyGraph" where
  "HandleGetDependencies env now p s =
     BuildDependencyGraph (List_traces env (dependency_query p) s) (now - 3600 * 10 ^ 9)"

text \<open>What the graph counts: the recent spans of named services, and the calls among them.\<close>

definition recent_spans :: "int \<Rightarrow> go_trace list \<Rightarrow> go_span list" where
  "recent_spans since trs =
     filter (\<lambda>sp. since \<le> gs_start sp \<and> gs_service sp \<noteq> []) (concat (map gt_spans trs))"

definition recent_calls :: "int \<Rightarrow> go_trace list \<Rightarrow> go_span list" where
  "recent_calls since trs =
     filter (\<lambda>sp. gs_kind sp = SpanKindClient \<and> callee_of sp \<noteq> []) (recent_spans since trs)"

definition failures :: "go_span list \<Rightarrow> int" where
  "failures ss = int (length (filter (\<lambda>sp. gs_code sp = go_StatusError) ss))"

definition node_of :: "string \<Rightarrow> go_span list \<Rightarrow> ServiceNode" where
  "node_of nm ss =
     (let secs = of_int (go_sub (Max (gs_start ` set ss)) (Min (gs_start ` set ss))) / 10 ^ 9 :: num
      in \<lparr>sn_name = nm, sn_spanCount = int (length ss), sn_errorRate = of_int (failures ss) / real (length ss),
          sn_p99Ms = go_Percentile (map span_ms ss) (99 / 100),
          reqPerSec = (if secs > 0 then real (length ss) / secs else 0)\<rparr>)"

definition edge_of :: "string \<times> string \<Rightarrow> go_span list \<Rightarrow> ServiceEdge" where
  "edge_of k ss =
     \<lparr>caller = fst k, callee = snd k, edge_count = int (length ss), edge_errorCount = failures ss,
      edge_p99Ms = go_Percentile (map span_ms ss) (99 / 100)\<rparr>"

section \<open>Lemmas\<close>

lemma map_filter_map_of:
  "(\<And>k. k \<in> set ks \<Longrightarrow> map_of m k = Some (g k)) \<Longrightarrow>
   List.map_filter (\<lambda>k. map_option (f k) (map_of m k)) ks = map (\<lambda>k. f k (g k)) ks"
  by (induction ks) (auto simp: List.map_filter_def)

lemma sort_keys:
  assumes "distinct (map fst m)" and "fst ` set m = A"
  shows "sort (map fst m) = sorted_list_of_set A"
  using assms by (metis list.set_map sorted_list_of_set_sort_remdups distinct_remdups_id)

text \<open>A map of accumulated groups: each group is a function of the elements with its key.\<close>

lemma group_fold:
  assumes "\<And>x. add x = AList.map_default (ky x) (val [x]) (stp x)"
    and "\<And>x xs. xs \<noteq> [] \<Longrightarrow> stp x (val xs) = val (xs @ [x])"
  shows "distinct (map fst (fold add xs []))" and "fst ` set (fold add xs []) = ky ` set xs"
    and "map_of (fold add xs []) k = (if k \<in> ky ` set xs then Some (val (filter (\<lambda>x. ky x = k) xs)) else None)"
proof (induction xs rule: rev_induct)
  case (snoc x xs)
  { case 1 show ?case using snoc(1) by (simp add: assms(1) distinct_map_default) }
  { case 2 show ?case using snoc(2) by (simp add: assms(1) dom_map_default) }
  { case 3
    have "filter (\<lambda>y. ky y = ky x) xs = []" if "ky x \<notin> ky ` set xs" using that unfolding filter_empty_conv by (metis imageI)
    moreover have "filter (\<lambda>y. ky y = ky x) xs \<noteq> []" if "ky x \<in> ky ` set xs" using that by (auto simp: filter_empty_conv)
    ultimately show ?case using snoc(3) by (auto simp: assms map_of_map_default) }
qed simp_all

definition node_val :: "go_span list \<Rightarrow> node_data" where
  "node_val ss = \<lparr>nd_spanCount = int (length ss), nd_errCount = failures ss, nd_durations = map span_ms ss,
     nd_firstSeen = Min (gs_start ` set ss), nd_lastSeen = Max (gs_start ` set ss)\<rparr>"

definition edge_val :: "go_span list \<Rightarrow> edge_data" where
  "edge_val ss = \<lparr>ed_count = int (length ss), ed_errorCount = failures ss, ed_durations = map span_ms ss\<rparr>"

lemma failures_snoc: "failures (ss @ [sp]) = failures ss + is_error sp"
  by (simp add: failures_def is_error_def)

lemma by_key_groups:
  assumes "\<And>x. add x = AList.map_default (ky x) (val [x]) (stp x)"
    and "\<And>x xs. xs \<noteq> [] \<Longrightarrow> stp x (val xs) = val (xs @ [x])"
  shows "by_key f (fold add xs []) = map (\<lambda>k. f k (val (filter (\<lambda>x. ky x = k) xs))) (sorted_list_of_set (ky ` set xs))"
proof -
  note g = group_fold [where add = add and ky = ky and val = val and stp = stp and xs = xs, OF assms]
  have "sort (map fst (fold add xs [])) = sorted_list_of_set (ky ` set xs)" by (rule sort_keys [OF g(1) g(2)])
  moreover have "finite (ky ` set xs)" by simp
  ultimately show ?thesis unfolding by_key_def
    by (simp only:) (rule map_filter_map_of, simp add: g(3))
qed

lemma by_key_nodes:
  "by_key service_node (fold add_node ss []) =
   map (\<lambda>nm. service_node nm (node_val (filter (\<lambda>sp. gs_service sp = nm) ss))) (sorted_list_of_set (gs_service ` set ss))"
proof (rule by_key_groups)
  show "add_node sp = AList.map_default (gs_service sp) (node_val [sp])
    (\<lambda>nd. \<lparr>nd_spanCount = nd_spanCount nd + 1, nd_errCount = nd_errCount nd + is_error sp,
              nd_durations = nd_durations nd @ [span_ms sp],
              nd_firstSeen = (if gs_start sp < nd_firstSeen nd then gs_start sp else nd_firstSeen nd),
              nd_lastSeen = (if gs_start sp > nd_lastSeen nd then gs_start sp else nd_lastSeen nd)\<rparr>)" for sp
    by (rule ext) (simp add: add_node_def node_val_def failures_def is_error_def)
next
  fix sp :: go_span and ss :: "go_span list" assume "ss \<noteq> []"
  then have "Min (gs_start ` set (ss @ [sp])) = min (gs_start sp) (Min (gs_start ` set ss))"
    "Max (gs_start ` set (ss @ [sp])) = max (gs_start sp) (Max (gs_start ` set ss))"
    by (simp_all add: Min_insert Max_insert)
  then show "\<lparr>nd_spanCount = nd_spanCount (node_val ss) + 1, nd_errCount = nd_errCount (node_val ss) + is_error sp,
              nd_durations = nd_durations (node_val ss) @ [span_ms sp],
              nd_firstSeen = (if gs_start sp < nd_firstSeen (node_val ss) then gs_start sp else nd_firstSeen (node_val ss)),
              nd_lastSeen = (if gs_start sp > nd_lastSeen (node_val ss) then gs_start sp else nd_lastSeen (node_val ss))\<rparr> =
      node_val (ss @ [sp])"
    unfolding node_val_def node_data.simps failures_snoc by (simp add: min_def max_def)
qed

lemma by_key_edges:
  "by_key service_edge (fold add_edge ss []) =
   map (\<lambda>k. service_edge k (edge_val (filter (\<lambda>sp. (gs_service sp, callee_of sp) = k) ss)))
     (sorted_list_of_set ((\<lambda>sp. (gs_service sp, callee_of sp)) ` set ss))"
proof (rule by_key_groups)
  show "add_edge sp = AList.map_default (gs_service sp, callee_of sp) (edge_val [sp])
    (\<lambda>ed. \<lparr>ed_count = ed_count ed + 1, ed_errorCount = ed_errorCount ed + is_error sp,
              ed_durations = ed_durations ed @ [span_ms sp]\<rparr>)" for sp
    by (rule ext) (simp add: add_edge_def edge_val_def failures_def is_error_def)
qed (auto simp: edge_val_def failures_snoc)

lemma fold_dep_span:
  "fold (dep_span since) ss st =
   (fold add_node (filter (\<lambda>sp. since \<le> gs_start sp \<and> gs_service sp \<noteq> []) ss) (fst st),
    fold add_edge (filter (\<lambda>sp. gs_kind sp = SpanKindClient \<and> callee_of sp \<noteq> [])
      (filter (\<lambda>sp. since \<le> gs_start sp \<and> gs_service sp \<noteq> []) ss)) (snd st))"
  by (induction ss arbitrary: st) (auto simp: dep_span_def Let_def)

lemma fold_traces:
  "fold (\<lambda>tr st. fold (dep_span since) (gt_spans tr) st) trs st = fold (dep_span since) (concat (map gt_spans trs)) st"
  by (induction trs arbitrary: st) auto

lemma graph_parts:
  "dg_services (BuildDependencyGraph trs since) = by_key service_node (fold add_node (recent_spans since trs) [])"
  "dg_edges (BuildDependencyGraph trs since) = by_key service_edge (fold add_edge (recent_calls since trs) [])"
  unfolding BuildDependencyGraph_def fold_traces unfolding fold_dep_span recent_spans_def recent_calls_def by simp_all

section \<open>Properties\<close>

text \<open>C23. The graph is exact: one node for each named service with a recent span, in the order of the
  names, with the number of its spans, the share that failed and their 99th percentile; one edge for
  each pair of caller and callee, with the number of calls, of failed calls and their percentile.\<close>

theorem dependency_graph_is_exact:
  "BuildDependencyGraph trs since =
   \<lparr>dg_services = map (\<lambda>nm. node_of nm (filter (\<lambda>sp. gs_service sp = nm) (recent_spans since trs)))
      (sorted_list_of_set (gs_service ` set (recent_spans since trs))),
    dg_edges = map (\<lambda>k. edge_of k (filter (\<lambda>sp. (gs_service sp, callee_of sp) = k) (recent_calls since trs)))
      (sorted_list_of_set ((\<lambda>sp. (gs_service sp, callee_of sp)) ` set (recent_calls since trs)))\<rparr>"
proof -
  have "service_node nm (node_val ss) = node_of nm ss" for nm ss
    by (cases ss) (simp_all add: service_node_def node_val_def node_of_def)
  moreover have "service_edge k (edge_val ss) = edge_of k ss" for k ss
    by (simp add: service_edge_def edge_val_def edge_of_def)
  ultimately show ?thesis
    using graph_parts [of trs since] by (simp add: by_key_nodes by_key_edges)
qed

lemma graph_names:
  "sn_name ` set (dg_services (BuildDependencyGraph trs since)) = gs_service ` set (recent_spans since trs)"
  "caller ` set (dg_edges (BuildDependencyGraph trs since)) = gs_service ` set (recent_calls since trs)"
  by (simp_all add: graph_parts by_key_nodes by_key_edges service_node_def service_edge_def Let_def image_image)

text \<open>The caller of every edge is a node, and a service calls at most as often as it has spans.\<close>

theorem callers_are_nodes:
  "caller ` set (dg_edges (BuildDependencyGraph trs since)) \<subseteq> sn_name ` set (dg_services (BuildDependencyGraph trs since))"
  unfolding graph_names by (auto simp: recent_calls_def)

text \<open>The callee need not be: a service that is called under a name it does not report itself, or
  whose spans are older, is at the end of an edge and has no node.\<close>

theorem edge_without_node:
  "BuildDependencyGraph [sample_go_trace ''t''
     [(sample_go_span ''a'' ZeroSpanID ''api'' 10)\<lparr>gs_kind := SpanKindClient, gs_attributes := [StringKV ''peer.service'' ''db'']\<rparr>] 0] 0 =
   \<lparr>dg_services = [\<lparr>sn_name = ''api'', sn_spanCount = 1, sn_errorRate = 0, sn_p99Ms = 1 / 100000, reqPerSec = 0\<rparr>],
    dg_edges = [\<lparr>caller = ''api'', callee = ''db'', edge_count = 1, edge_errorCount = 0, edge_p99Ms = 1 / 100000\<rparr>]\<rparr>"
  by code_simp

end
