(* ===== verification/Spec2Isabelle.thy ===== *)
theory Spec2Isabelle
  imports TraceView Shell Sse Hooks Store SearchPage SpanDrawer TraceDetail SamplerPage SamplerApi
    Waterfall Flame Heatmap MetricsPage ServiceMap ComparePage Timeline SearchRequest
    MetricsCharts PageEffects AppFrame LoadTest SamplerStatus TraceCompare MetricReports Dependency
begin

text \<open>
  A model of the distributed tracing system: the web client (\<open>web/src\<close>) and the load generators
  (\<open>loadtests/k6\<close>) as a whole, and of the collector (\<open>api\<close>, \<open>internal\<close>) the path of a span from its
  arrival to the answers the client reads.

  \<^bold>\<open>The program.\<close> The collector checks the spans of a batch, lets its sampler decide about their traces,
  hands what is kept to workers, which record metrics and collect the spans by trace; after a quiet
  period a trace is assembled, analysed and put into a bounded store. The web client asks for it: a
  search page, a page per trace (waterfall chart, flame graph, drawer), a comparison, a timeline, a
  service map, metrics and a form for the sampler. Pages load through \<open>api/client.ts\<close> and reload by
  polling or on events of a live stream.

  \<^bold>\<open>Conventions.\<close> An interface, a struct or the state of a component is a record; \<open>undefined\<close>, \<open>null\<close>
  and \<open>nil\<close> are \<open>None\<close>; floating-point numbers are reals (exact arithmetic, no \<open>NaN\<close>), Go integers
  are \<open>int\<close> with the 64-bit wrap-around written out where a value of a request can overflow. An
  asynchronous operation is split where the code awaits or gives up a lock: a definition that starts it
  and one for each way it settles, so that a run is a sequence of such steps in any order. A loop or
  recursion that can fail to end is a \<open>partial_function\<close> or takes fuel. A pointer to a span is its index
  in the trace. What is outside the sources is a parameter: the time, random numbers, the order in which
  a map is traversed (\<open>go_range\<close>, \<open>range_ok\<close>), \<open>sort.Slice\<close> (\<open>go_sort\<close>), the printing of floats and
  dates, \<open>strconv.ParseFloat\<close>, the router, scales, colour ramps and layouts of the drawing libraries.

  \<^bold>\<open>The theories of the client.\<close>
  \<^item> \<open>Prelude\<close>: the JavaScript library the client uses (sort, deduplication, number printing,
    string search), with the lemmas that carry the other theories.
  \<^item> \<open>Latest\<close>: the locales \<open>latest_wins\<close> and \<open>latest_loading\<close>, the contract of the request counter
    that all pages share, and \<open>Polling\<close>: the locale \<open>polling\<close>, the effect that loads and reloads;
    interpreted in the theories of the pages, the effects in \<open>PageEffects\<close>. Each interpretation gives
    the page the fact that superseded answers have no effect.
  \<^item> \<open>Types\<close> (\<open>types/index.ts\<close>), \<open>Lib\<close> (\<open>lib\<close>), \<open>Store\<close> (\<open>store/tracingStore.ts\<close>,
    \<open>pages/search-helpers.ts\<close>), \<open>Client\<close> (\<open>api/client.ts\<close>: URLs, and the life of a request as events on
    a state), \<open>Sse\<close> (\<open>hooks/useSSE.ts\<close> as a step relation), \<open>Hooks\<close>, \<open>Collector\<close>
    (\<open>useCollectorStatus.ts\<close>, \<open>SystemStatus.tsx\<close>), \<open>Shell\<close> and \<open>AppFrame\<close> (\<open>App.tsx\<close>, \<open>Nav.tsx\<close>,
    \<open>AppErrorBoundary.tsx\<close>, \<open>page-state.tsx\<close>, \<open>NotFound.tsx\<close>, \<open>main.tsx\<close>).
  \<^item> \<open>SpanLayout\<close> (\<open>waterfall/span-layout.ts\<close>): the rows of a trace. The recursion takes fuel; as many
    units as the trace has spans are enough for a well-formed trace (\<open>build_span_rows_complete\<close>), and
    none is for a trace with a certain duplicate id (\<open>duplicate_id_never_returns\<close>).
  \<^item> \<open>Scale\<close>, \<open>Waterfall\<close>, \<open>Flame\<close>, \<open>Heatmap\<close>, \<open>MetricsCharts\<close>: the charts as lists of shapes with every
    data-dependent attribute. The D3 scale has the hypothesis \<open>linear_scale\<close>.
  \<^item> \<open>SpanDrawer\<close>, \<open>TraceDetail\<close>, \<open>UseSearch\<close>, \<open>SearchPage\<close>, \<open>ComparePage\<close>, \<open>MetricsPage\<close>, \<open>ServiceMap\<close>,
    \<open>Timeline\<close>, \<open>SamplerDraft\<close>, \<open>SamplerPage\<close>: the pages with their hooks and parts.
  \<^item> \<open>LoadTest\<close>: what the load generators post, and that the collector accepts it.

  \<^bold>\<open>The theories of the collector.\<close>
  \<^item> \<open>GoModel\<close> (\<open>internal/model\<close>), \<open>SpanBuffer\<close> (lemmas on maps of buffers of spans).
  \<^item> \<open>Windows\<close> (both sliding windows, locale \<open>minute_window\<close>), \<open>Samplers\<close> (\<open>internal/sampler\<close>, locale
    \<open>consistent_sampler\<close>), \<open>TailSampler\<close>, \<open>SamplerApi\<close> and \<open>SamplerStatus\<close> (\<open>api/handler_sampler.go\<close>).
  \<^item> \<open>Pipeline\<close> (\<open>api/pipeline.go\<close>): decisions and their cache, batches with what other goroutines do
    between two of their spans, workers, the swap of the sampler and shutdown, from the batch to the store.
  \<^item> \<open>Assembler\<close> (\<open>internal/processor\<close>): pending spans and the tree of a trace; the breadth-first loop is
    a \<open>partial_function\<close> that always ends (\<open>build_tree_returns\<close>). \<open>Analysis\<close>
    (\<open>analysis/critical_path.go\<close>): \<open>longestPath\<close> with as much fuel as there are spans, its sums 64 bits
    wide.
  \<^item> \<open>MemoryStore\<close> (\<open>storage/memory.go\<close>, locale \<open>trace_store\<close>) with indexes, timeline and eviction, and
    \<open>TraceQuery\<close>, \<open>TraceApi\<close> (\<open>api/handler_query.go\<close>, \<open>dto.go\<close>, \<open>handler_ingest.go\<close>, \<open>auth.go\<close>).
  \<^item> \<open>LatencyHeat\<close>, \<open>RedMetrics\<close> (\<open>metrics/latency_heatmap.go\<close>, \<open>red.go\<close>, \<open>histogram.go\<close>) and
    \<open>MetricReports\<close> (\<open>anomaly.go\<close>, \<open>slo.go\<close>, both heatmaps, \<open>api/handler_metrics.go\<close>).
  \<^item> \<open>TraceCompare\<close> (\<open>analysis/compare.go\<close>), whose walk to the root always ends, and \<open>Dependency\<close>
    (\<open>analysis/dependency.go\<close>), with their handlers.
  \<^item> \<open>TraceView\<close>, \<open>SearchRequest\<close> and this theory: what holds of the client and the collector together.

  \<^bold>\<open>What is proved.\<close> Of the collector: under a head sampler every span that was accepted
  is in exactly one assembled trace after a shutdown; a batch that other goroutines interrupt does not
  split a trace as long as they leave its decision alone, and the cache of decisions changes no
  decision; samplers keep their share, their limits and the traces with errors, and report the settings
  they were given; assembling ends, puts every span in the tree once and carries errors to the root (but
  on cycles of parents); the critical path is a longest one as long as no sum of durations overflows,
  and an analysed trace is a forest in which every index is in range; the store is its
  indexes, answers a query with exactly the matching traces and no other tenant's; rates, error budgets
  and heatmaps are exact over every history of recordings and reads; comparisons account for every span
  and follow the paths; the dependency graph counts every call. Of the client: the layout shows every
  span once, below its parent; the charts draw to scale; the search accumulates pages and shows the
  latest answer; polls do not overwrite edits; a request is cleaned up after its answer and names a
  timeout; at most one live stream is open; reloads are throttled but no event is lost. Of both: a
  search lists the matching traces, an assembled trace is shown, both agree on its depths, what the form
  accepts the collector accepts. Theorems about a sequence of events quantify over all interleavings.

  \<^bold>\<open>Deviations.\<close> Where the code does not do what it means to, a theorem says what it does:
  \<^item> client: \<open>timeline_window_is_oldest\<close>, \<open>superseded_search_shows_error\<close>, \<open>duplicate_id_never_returns\<close>,
    \<open>body_read_has_no_deadline\<close>, \<open>equal_durations_read_faster\<close>, \<open>edge_ids_collide\<close>,
    \<open>vanished_service_hides_metrics\<close>, \<open>edit_during_confirm_is_lost\<close>, \<open>slow_answers_starve_metrics\<close>;
  \<^item> store and traces: \<open>update_of_full_store_shrinks_it\<close>, \<open>upsert_returns_iff\<close>, \<open>colon_hides_operation\<close>,
    \<open>late_spans_replace_the_trace\<close>, \<open>repeated_id_hangs_the_page\<close>, \<open>tenants_share_a_trace\<close>,
    \<open>unnamed_services_are_null\<close>, \<open>late_end_is_negative\<close>, \<open>gap_is_not_idle\<close>, \<open>edge_without_node\<close>,
    \<open>separators_in_names_collide\<close>, \<open>repeated_id_takes_first_path\<close>, \<open>repeated_id_shows_child_twice\<close>,
    \<open>cycle_hides_errors\<close>, \<open>critical_path_overflows\<close>;
  \<^item> samplers and metrics: \<open>sampler_window_books_first_second\<close>, \<open>slow_limit_grants_nothing\<close>,
    \<open>adaptive_exceeds_maximum\<close>, \<open>star_service_matches_nothing\<close>, \<open>evictions_are_not_limited\<close>,
    \<open>late_span_is_decided_alone\<close>, \<open>tail_rate_mixes_spans_and_traces\<close>, \<open>quiet_service_keeps_old_windows\<close>,
    \<open>few_operations_are_never_outliers\<close>, \<open>interrupted_batch_splits_a_trace\<close>.

  \<^bold>\<open>Not modelled.\<close> Of the client: styling and static text; \<open>components/ui\<close> except the notice and the
  chart frame (wrappers that pass class names to Radix, without behaviour of their own); the drawing
  libraries (Recharts, React Flow, dagre, D3 beyond its scale); React itself: effects run as the hooks
  order them, and rendering is a function of the state; the options of k6. Of the collector: the other
  formats of input (OTLP over HTTP and gRPC, Zipkin) and the propagation headers, whose decoding is by
  libraries; the authentication of tokens, the routes, the text of JSON and the streams of the server;
  \<open>badger.go\<close> (a database), replication, alerts, probes and the lifecycle of the process, which are I/O;
  the demo and the SDK; a sampler read by a batch just before it is swapped; data races, as every
  operation under a lock is one step.
\<close>

section \<open>Properties across components\<close>

text \<open>
  The filters of the search page reach the collector: for the numbers the controls produce
  (whole, up to 10 to the ninth), the query \<open>buildTraceQuery\<close> makes of the request has the
  service, operation, attribute and status of the filters, the duration bounds in nanoseconds,
  the start of the time range, limit and offset, no end time, and the order newest first.
\<close>

theorem search_filters_reach_collector:
  assumes "sf_minDuration f = map_option of_int mi" and "sf_maxDuration f = map_option of_int ma"
    and "sf_timeRangeMinutes f = map_option of_int tr" and "sf_limit f = Some (of_int li)"
    and "sf_offset f = map_option of_int off" and "sf_sortBy f = None"
    and "pred_option small mi" and "pred_option small ma" and "pred_option small tr"
    and "pred_option small off" and "0 < li" and "li \<le> 1000" and "0 \<le> now" and "now \<le> 10 ^ 15"
  shows "buildTraceQuery tenant (set_params (buildTraceQueryParams (of_int now) f) []) =
     \<lparr>q_tenant = tenant,
      q_service = (case sf_service f of None \<Rightarrow> [] | Some s \<Rightarrow> s),
      q_operation = (case sf_operation f of None \<Rightarrow> [] | Some s \<Rightarrow> s),
      q_attr = (case sf_attr f of None \<Rightarrow> [] | Some s \<Rightarrow> s),
      q_minDuration = map_option (\<lambda>z. z * 1000000) mi,
      q_maxDuration = map_option (\<lambda>z. z * 1000000) ma,
      q_hasError = (if sf_status f = Some StatusError then Some True else None),
      q_startTime = (case tr of None \<Rightarrow> None
        | Some t \<Rightarrow> if t = 0 then None else Some ((now - t * 60000) * 1000000)),
      q_endTime = None, q_traceID = None, q_limit = li, q_offset = (case off of None \<Rightarrow> 0 | Some z \<Rightarrow> z),
      q_sortBy = ''receivedAt'', q_sortDesc = True\<rparr>"
  by (rule request_query [OF assms])

definition sample_filters :: SearchFilters where
  "sample_filters = (limit_only 20)
     \<lparr>sf_service := Some ''api'', sf_status := Some StatusError, sf_minDuration := Some 50,
      sf_timeRangeMinutes := Some 15, sf_offset := Some 20\<rparr>"

theorem search_filters_reach_collector_witness:
  "let q = buildTraceQuery ''t'' (set_params (buildTraceQueryParams 1700000000000 sample_filters) [])
   in q_service q = ''api'' \<and> q_hasError q = Some True \<and> q_minDuration q = Some 50000000 \<and>
      q_startTime q = Some 1699999100000000000 \<and> q_offset q = 20"
  using search_filters_reach_collector [of sample_filters "Some 50" None "Some 15" 20 "Some 20" 1700000000000 "''t''"]
  by (simp add: sample_filters_def limit_only_def small_def)

text \<open>
  A search given up can put its error on the screen: there is a run of \<open>fetchJSON\<close> in which
  the caller aborts, the request still fails with an ordinary error, and the hook shows that
  error although the request is superseded by one that is still loading.
\<close>

theorem superseded_search_shows_error:
  "\<exists>run e. fetch_reaches (fetch_config_of no_options) (withTimeoutSignal LiveSignal) run \<and>
     abort_reason run = Some (AbortError m) \<and> \<not> abortedByTimeout run \<and>
     phase run = Settled (Failed e) \<and>
     (let s' = search_catch (requestId (us_reqs s)) e (search_send now f (search_setFilters f s))
      in us_error s' = Some ''HTTP 500: Internal Server Error'' \<and> us_loading s')"
proof -
  obtain run where run: "fetch_reaches (fetch_config_of no_options) (withTimeoutSignal LiveSignal) run"
    "\<not> abortedByTimeout run" "abort_reason run = Some (AbortError m)"
    "phase run = Settled (Failed (ErrorObj ''HTTP 500: Internal Server Error''))"
    using abort_during_error_body [of m] by blast
  let ?s = "search_catch (requestId (us_reqs s)) (ErrorObj ''HTTP 500: Internal Server Error'')
    (search_send now f (search_setFilters f s))"
  have "us_loading ?s"
    by (simp add: search_defs search_setFilters_def)
  then show ?thesis
    using run by (intro exI [of _ run] exI) (auto simp: error_of_any_request Let_def)
qed

text \<open>
  From the chart to the drawer and back up: in the chart of a trace with distinct span ids,
  a click on a row that hangs below another one, followed by a click on the drawer's parent
  link, selects the span of a row further up.
\<close>

theorem parent_link_climbs_the_chart:
  assumes "tp_trace s = Some (wp_trace p)" and "wf_spans (spans (wp_trace p))"
    and "WaterfallChart lin fuel p w cs = Some (chart, cs')"
    and "j < length (wf_rows chart)" and "wr_connector (wf_rows chart ! j) \<noteq> None"
  shows "\<exists>i < j. let clicked = wr_select (wf_rows chart ! j)
           in tp_selected (onParentClick (parentSpanId clicked) (onSpanSelect clicked s)) =
                Some (wr_select (wf_rows chart ! i))"
proof -
  obtain rows where rows: "buildSpanRows fuel (wp_trace p) = Some rows"
    and chart: "chart = fst (draw_waterfall lin p w rows cs)"
    using assms(3) by (auto simp: WaterfallChart_def)
  have j: "j < length rows" using assms(4) by (simp add: chart waterfall_rows)
  have sel: "wr_select (wf_rows chart ! i) = row_span (rows ! i)" if "i \<le> j" for i
    using that j by (simp add: chart waterfall_rows waterfall_row_of_def)
  have "0 < row_depth (rows ! j)"
    using assms(5) j
    by (simp add: chart waterfall_rows waterfall_row_of_def connector_of_def split: if_splits)
  from parent_row [OF rows j this] obtain i where i: "i < j"
    "row_spanId (rows ! i) = parentSpanId (row_span (rows ! j))" by blast
  have "row_span (rows ! i) \<in> set (spans (wp_trace p))"
    "spanId (row_span (rows ! i)) = parentSpanId (row_span (rows ! j))"
    using build_rows_shape [OF rows, of "rows ! i"] row_ids [OF rows, of "rows ! i"] i j by auto
  then have "find_span (parentSpanId (row_span (rows ! j))) (spans (wp_trace p)) = Some (row_span (rows ! i))"
    using find_span_distinct assms(2) by (metis wf_spans_def)
  with i(1) sel assms(1) show ?thesis
    by (intro exI [of _ i]) (simp add: onSpanSelect_def onParentClick_def Let_def)
qed

theorem parent_link_climbs_the_chart_witness:
  "\<exists>i < 1. tp_selected (onParentClick ''r'' (onSpanSelect (sample_span ''c'' ''r'' 7)
        (trace_initial\<lparr>tp_trace := Some (wp_trace sample_props)\<rparr>)))
      = Some ([sample_span ''r'' [] 5, sample_span ''c'' ''r'' 7] ! i)"
proof -
  let ?rows = "[mk_row (5 / 10 ^ 6) (sample_span ''r'' [] 5) 0, mk_row (5 / 10 ^ 6) (sample_span ''c'' ''r'' 7) 1]"
  let ?drawn = "draw_waterfall interpolating sample_props 1000 ?rows initial_colors"
  let ?s = "trace_initial\<lparr>tp_trace := Some (wp_trace sample_props)\<rparr>"
  have "buildSpanRows 2 (wp_trace sample_props) = Some ?rows" by code_simp
  then have chart: "WaterfallChart interpolating 2 sample_props 1000 initial_colors = Some (fst ?drawn, snd ?drawn)"
    by (simp add: WaterfallChart_def)
  have wf: "wf_spans (spans (wp_trace sample_props))"
    using wf_example by (simp add: sample_props_def sample_trace_def)
  have sel: "wr_select (wf_rows (fst ?drawn) ! 0) = sample_span ''r'' [] 5"
    "wr_select (wf_rows (fst ?drawn) ! 1) = sample_span ''c'' ''r'' 7"
    and more: "1 < length (wf_rows (fst ?drawn))" "wr_connector (wf_rows (fst ?drawn) ! 1) \<noteq> None"
    by (simp_all add: waterfall_rows waterfall_row_of_def connector_of_def)
  show ?thesis
    using parent_link_climbs_the_chart [where s = ?s, OF _ wf chart more] sel
    by (simp add: Let_def) (simp add: sample_span_def)
qed

text \<open>
  C2. The search page lists what was searched for: against a consistent store every row of the
  answer satisfies the filters of the page (service, failed traces, duration bounds in
  milliseconds), and the total is the number of stored traces that match the query. This is for
  the filters that the controls produce (whole numbers up to 10 to the ninth, a page size from 1 to
  1000, no order of their own), a clock between 1970 and 33658, and services without a colon in
  their names, both in the store and in the filter; what a colon does is \<open>colon_hides_operation\<close>.
\<close>

theorem search_lists_matching_traces:
  assumes "go_env_ok env" and "store_inv s" and "colon_free s"
    and "plain_filters f li mi ma tr off" and "0 \<le> now" and "now \<le> 10 ^ 15"
    and "pred_option no_colon (sf_service f)"
  shows "let ps = set_params (buildTraceQueryParams (of_int now) f) [];
             resp = HandleListTraces env rfc p ps s
         in list_all (row_satisfies f) (traces resp) \<and>
            total resp = int (card (matching (print_float env) (buildTraceQuery (EffectiveTenant p) ps) s))"
  using search_answers [OF assms] by (simp add: Let_def)

definition sample_principal :: principal where
  "sample_principal = \<lparr>pr_tenantID = ''*'', pr_isGlobal = True, pr_requestedTenant = []\<rparr>"

theorem search_lists_matching_traces_witness:
  "let f = (limit_only 20)\<lparr>sf_service := Some ''api''\<rparr>;
       resp = HandleListTraces sample_env int_str sample_principal
         (set_params (buildTraceQueryParams 1700000000000 f) [])
         (the (run_store [sample_op ''a'' 10, sample_op ''b'' 5] (NewMemoryStore 2)))
   in list_all (row_satisfies f) (traces resp) \<and> traces resp \<noteq> []"
proof -
  let ?s = "the (run_store [sample_op ''a'' 10, sample_op ''b'' 5] (NewMemoryStore 2))"
  let ?f = "(limit_only 20)\<lparr>sf_service := Some ''api''\<rparr>"
  have run: "run_store [sample_op ''a'' 10, sample_op ''b'' 5] (NewMemoryStore 2) = Some ?s" by code_simp
  have colon: "colon_free ?s" by code_simp
  have "plain_filters ?f 20 None None None None"
    by (simp add: plain_filters_def limit_only_def)
  moreover have "pred_option no_colon (sf_service ?f)" by (simp add: no_colon_def)
  moreover have "traces (HandleListTraces sample_env int_str sample_principal
         (set_params (buildTraceQueryParams 1700000000000 ?f) []) ?s) \<noteq> []" by code_simp
  ultimately show ?thesis
    using search_lists_matching_traces [OF sample_env_ok memory.ok_run [OF New_inv run] colon, of ?f 20 None None None None
        1700000000000 int_str sample_principal]
    by (simp add: Let_def)
qed

text \<open>
  C3. The page of a trace shows every span the collector assembled, once, whatever the links
  between them: for spans with distinct ids (16 characters, not all zero) the layout of the
  client returns on the collector's answer, and its rows are the spans.
\<close>

theorem assembled_trace_is_shown:
  assumes "go_sort srt" and "complete_trace srt now ss = Some t" and "valid_ids ss"
  shows "\<exists>rows. buildSpanRows (length ss) (traceToDetailDTO t) = Some rows \<and>
    mset (map row_spanId rows) = mset (map gs_spanID ss)"
  using assms by (rule page_shows_all_spans)

definition id16 :: "char \<Rightarrow> string" where
  "id16 c = replicate 16 c"

definition shown_spans :: "go_span list" where
  "shown_spans = [sample_go_span (id16 CHR ''c'') (id16 CHR ''a'') ''api'' 5,
     sample_go_span (id16 CHR ''a'') ZeroSpanID ''web'' 1, sample_go_span (id16 CHR ''d'') (id16 CHR ''e'') ''db'' 7]"

lemma shown_complete: "complete_trace insertion_sort 0 shown_spans = Some (the (complete_trace insertion_sort 0 shown_spans))"
  using complete_trace_returns [OF go_sort_insertion] by (metis option.sel)

lemma shown_valid: "valid_ids shown_spans"
  by code_simp

theorem assembled_trace_is_shown_witness:
  "\<exists>rows. buildSpanRows 3 (traceToDetailDTO (the (complete_trace insertion_sort 0 shown_spans))) = Some rows \<and>
     length rows = 3"
proof -
  have "length shown_spans = 3" by (simp add: shown_spans_def)
  with assembled_trace_is_shown [OF go_sort_insertion shown_complete shown_valid] show ?thesis
    by (metis length_map size_mset)
qed

text \<open>
  C26. The client and the collector agree on the tree: for spans with distinct ids (16 characters, not
  all zero) a row below the top stands at the depth the collector computed for its span.
\<close>

theorem client_and_collector_agree_on_depth:
  assumes "go_sort srt" and "complete_trace srt now ss = Some t" and "valid_ids ss"
    and "buildSpanRows fuel (traceToDetailDTO t) = Some rows"
    and "j < length rows" and "0 < row_depth (rows ! j)"
  shows "depth (row_span (rows ! j)) = int (row_depth (rows ! j))"
proof -
  from row_depth_is_depth [OF assms] obtain k where
    "row_span (rows ! j) = spanToDetailDTO (gt_spans t ! k)" "gs_depth (gt_spans t ! k) = int (row_depth (rows ! j))" by blast
  then show ?thesis by (simp add: detail_simps)
qed

theorem client_and_collector_agree_on_depth_witness:
  "let rows = the (buildSpanRows 3 (traceToDetailDTO (the (complete_trace insertion_sort 0 shown_spans))))
   in depth (row_span (rows ! 1)) = 1"
proof -
  let ?t = "the (complete_trace insertion_sort 0 shown_spans)"
  let ?rows = "the (buildSpanRows 3 (traceToDetailDTO ?t))"
  have "buildSpanRows 3 (traceToDetailDTO ?t) \<noteq> None" by code_simp
  then have rows: "buildSpanRows 3 (traceToDetailDTO ?t) = Some ?rows" by auto
  have "length ?rows = 3" "row_depth (?rows ! 1) = 1" by code_simp+
  with client_and_collector_agree_on_depth [OF go_sort_insertion shown_complete shown_valid rows, of 1] show ?thesis
    by (simp add: Let_def)
qed

text \<open>
  With an id that two spans share, which the collector accepts, both go wrong: the child of one of the
  two is shown below each, once at the depth that the collector computed and once at another.
\<close>

theorem repeated_id_shows_child_twice:
  "let ss = [sample_go_span (id16 CHR ''a'') ZeroSpanID ''web'' 1, sample_go_span (id16 CHR ''b'') (id16 CHR ''a'') ''web'' 2,
             sample_go_span (id16 CHR ''d'') (id16 CHR ''a'') ''web'' 3, sample_go_span (id16 CHR ''b'') (id16 CHR ''d'') ''web'' 4,
             sample_go_span (id16 CHR ''c'') (id16 CHR ''b'') ''web'' 5]
   in map_option (\<lambda>t. map_option (map (\<lambda>r. (hd (row_spanId r), row_depth r, depth (row_span r))))
          (buildSpanRows 9 (traceToDetailDTO t))) (complete_trace insertion_sort 0 ss) =
      Some (Some [(CHR ''a'', 0, 0), (CHR ''b'', 1, 1), (CHR ''c'', 2, 3),
                  (CHR ''d'', 1, 1), (CHR ''b'', 2, 2), (CHR ''c'', 3, 3)])"
  by code_simp

text \<open>
  C39. A repeated id brings the page down: if a span carries the root's id and names it as its
  parent, the collector assembles and sends the trace, and the client's layout never returns.
\<close>

theorem repeated_id_hangs_the_page:
  assumes "go_sort srt" and "find gs_isRoot ss = Some r" and "c \<in> set ss" and "gs_spanID c = gs_spanID r"
    and "gs_parentSpanID c = gs_spanID c" and "gs_spanID r \<noteq> ZeroSpanID"
    and "list_all (\<lambda>sp. gs_parentSpanID sp \<noteq> []) ss"
  shows "\<exists>t. complete_trace srt now ss = Some t \<and> buildSpanRows fuel (traceToDetailDTO t) = None"
  using complete_trace_returns [OF assms(1), of now ss] repeated_id_diverges [OF assms(1) _ assms(2-7)] by blast

theorem repeated_id_hangs_the_page_witness:
  "\<exists>t. complete_trace insertion_sort 0 [sample_go_span (id16 CHR ''a'') ZeroSpanID ''web'' 1,
       sample_go_span (id16 CHR ''a'') (id16 CHR ''a'') ''web'' 2] = Some t \<and>
     buildSpanRows 1000 (traceToDetailDTO t) = None"
proof -
  let ?r = "sample_go_span (id16 CHR ''a'') ZeroSpanID ''web'' 1"
  let ?c = "sample_go_span (id16 CHR ''a'') (id16 CHR ''a'') ''web'' 2"
  have "find gs_isRoot [?r, ?c] = Some ?r" by (simp add: gs_isRoot_def sample_go_span_def)
  moreover have "id16 CHR ''a'' \<noteq> ZeroSpanID" "id16 CHR ''a'' \<noteq> []" "ZeroSpanID \<noteq> []" by code_simp+
  ultimately show ?thesis
    by (intro repeated_id_hangs_the_page [OF go_sort_insertion, of _ ?r ?c]) (simp_all add: sample_go_span_def)
qed

text \<open>
  C40. Spans that arrive after the quiet period take the place of the trace: whatever happened to a
  collector with head samplers (and a store of more than one trace), when the timer of a trace fires
  for which spans wait and of which a version is stored already, the version stored afterwards holds
  the waiting spans and no others, so that every other span of the version before is gone.
\<close>

theorem late_spans_replace_the_trace:
  assumes "go_sort srt" and "n \<noteq> 1" and "\<not> list_ex to_tail hist"
    and "pipeline_run rng srt hist (NewPipeline (NewMemoryStore n) (Head smp) timeout) = Some (accepted, st)"
    and "Mapping.lookup (pl_assembler st) i = Some pt" and "Get i (pl_store st) = Some old"
  shows "\<exists>st' t. assembler_timer srt now i st = Some st' \<and> Get i (pl_store st') = Some t \<and>
    map span_key (gt_spans t) = map span_key (pt_spans pt) \<and>
    set (map span_key (gt_spans t)) \<inter>
      (set (map span_key (gt_spans old)) - set (map span_key (pt_spans pt))) = {}"
proof -
  have "pl_sampler (NewPipeline (NewMemoryStore n) (Head smp) timeout) = Head smp" by (simp add: NewPipeline_def Let_def)
  from flow_run [OF assms(1) conjunct1 [OF flow_new [OF assms(2)]] this assms(3), of rng] assms(4)
  have "flow_ok st" by auto
  from timer_stores [OF assms(1) this assms(5), of now] show ?thesis by (metis Diff_disjoint)
qed

definition late_history :: "pipeline_event list" where
  "late_history = [SpanIn [] 1 (pipeline_span ''t'' ''a'' ZeroSpanID), WorkerTakes, WorkerDone 2 0, AssemblerTimer 9 ''t'',
     SpanIn [] 10 (pipeline_span ''t'' ''b'' ''a''), WorkerTakes, WorkerDone 11 0]"

theorem late_spans_replace_the_trace_witness:
  "let st = snd (the (pipeline_run sorted_list_of_set insertion_sort late_history
             (NewPipeline (NewMemoryStore 9) (Head AlwaysSampler) None)));
       shown = (\<lambda>s. map_option (\<lambda>t. map span_key (gt_spans t)) (Get ''t'' (pl_store s)))
   in shown st = Some [(''t'', ''a'')] \<and>
      shown (the (assembler_timer insertion_sort 20 ''t'' st)) = Some [(''t'', ''b'')]"
proof -
  let ?run = "pipeline_run sorted_list_of_set insertion_sort late_history
    (NewPipeline (NewMemoryStore 9) (Head AlwaysSampler) None)"
  let ?st = "snd (the ?run)"
  have "?run \<noteq> None" by code_simp
  then have run: "?run = Some (fst (the ?run), ?st)" by auto
  have old: "map_option (\<lambda>t. map span_key (gt_spans t)) (Get ''t'' (pl_store ?st)) = Some [(''t'', ''a'')]"
    and pt: "map_option (\<lambda>p. map span_key (pt_spans p)) (Mapping.lookup (pl_assembler ?st) ''t'') = Some [(''t'', ''b'')]"
    and tail: "\<not> list_ex to_tail late_history" by code_simp+
  from old pt obtain t p where t: "Get ''t'' (pl_store ?st) = Some t"
    and p: "Mapping.lookup (pl_assembler ?st) ''t'' = Some p" "map span_key (pt_spans p) = [(''t'', ''b'')]" by auto
  from late_spans_replace_the_trace [OF go_sort_insertion _ tail run p(1) t, of 20] obtain st' u where
    "assembler_timer insertion_sort 20 ''t'' ?st = Some st'" "Get ''t'' (pl_store st') = Some u"
    "map span_key (gt_spans u) = [(''t'', ''b'')]" using p(2) by auto
  with old show ?thesis by (simp add: Let_def)
qed

end
